(* ===== verification/Wave_Prelude.thy ===== *)
theory Wave_Prelude
  imports Main "HOL-Library.Word" "HOL-Library.Multiset"
begin

text \<open>
  Shared vocabulary of the development: the machine integer types of the driver
  (\<^verbatim>\<open>uint8\<close>, \<^verbatim>\<open>uint16\<close>, \<^verbatim>\<open>uint32\<close>), the error codes of
  \<^verbatim>\<open>wireless/shared/mtlkerr.h\<close>, the two counter idioms the code uses everywhere
  (a wrapping \<^verbatim>\<open>uint32\<close> increment and decrement, and \<^verbatim>\<open>INC_WRAP_IDX\<close>),
  the generic lemmas on lists and options the components share, and the locale
  \<open>step_system\<close>: one-step preservation of an invariant lifted to whole runs.
\<close>

named_theorems wrap_simps \<open>uint32 counters that stay inside their range\<close>

type_synonym u8 = "8 word"
type_synonym u16 = "16 word"
type_synonym u32 = "32 word"

datatype mtlk_error_t =
    MTLK_ERR_OK | MTLK_ERR_PARAMS | MTLK_ERR_UNKNOWN | MTLK_ERR_NOT_SUPPORTED | MTLK_ERR_TIMEOUT
  | MTLK_ERR_EEPROM | MTLK_ERR_NO_MEM | MTLK_ERR_HW | MTLK_ERR_FW | MTLK_ERR_UMI
  | MTLK_ERR_PENDING | MTLK_ERR_NOT_IN_USE | MTLK_ERR_NO_RESOURCES | MTLK_ERR_WRONG_CONTEXT
  | MTLK_ERR_NOT_READY | MTLK_ERR_SCAN_FAILED | MTLK_ERR_AOCS_FAILED | MTLK_ERR_PROHIB
  | MTLK_ERR_BUF_TOO_SMALL | MTLK_ERR_PKT_DROPPED | MTLK_ERR_FILEOP | MTLK_ERR_VALUE
  | MTLK_ERR_BUSY | MTLK_ERR_MAC | MTLK_ERR_CANCELED | MTLK_ERR_NOT_HANDLED
  | MTLK_ERR_DATA_TOO_BIG | MTLK_ERR_ALREADY_EXISTS | MTLK_ERR_NO_ENTRY | MTLK_ERR_SYSTEM

section \<open>Wrapping counters\<close>

text \<open>A \<^verbatim>\<open>uint32\<close> counter read as a natural number, with the wrap-around written out.\<close>

definition inc32 :: "nat \<Rightarrow> nat" where
  "inc32 n = (n + 1) mod 2 ^ 32"

definition dec32 :: "nat \<Rightarrow> nat" where
  "dec32 n = (n + (2 ^ 32 - 1)) mod 2 ^ 32"

text \<open>\<^verbatim>\<open>INC_WRAP_IDX(i, s)\<close> of \<^verbatim>\<open>wireless/driver/linux/mtlkinc.h\<close>.\<close>

definition INC_WRAP_IDX :: "nat \<Rightarrow> nat \<Rightarrow> nat" where
  "INC_WRAP_IDX i s = (if inc32 i = s then 0 else inc32 i)"

lemma inc32_eq [wrap_simps]: "n + 1 < 2 ^ 32 \<Longrightarrow> inc32 n = Suc n"
  by (simp add: inc32_def)

lemma dec32_eq [wrap_simps]: "0 < n \<Longrightarrow> n < 2 ^ 32 \<Longrightarrow> dec32 n = n - 1"
proof -
  assume a: "0 < n" "n < 2 ^ 32"
  have "n + (2 ^ 32 - 1) = (n - 1) + 2 ^ 32" using a by simp
  then have "dec32 n = ((n - 1) + 2 ^ 32) mod 2 ^ 32" unfolding dec32_def by presburger
  also have "\<dots> = n - 1" using a by (subst mod_add_self2) simp
  finally show ?thesis .
qed

lemma dec32_zero: "dec32 0 = 2 ^ 32 - 1"
  by (simp add: dec32_def)

lemma dec32_inc32: "n < 2 ^ 32 \<Longrightarrow> dec32 (inc32 n) = n"
proof (cases "n + 1 < 2 ^ 32")
  case True
  then show ?thesis by (simp add: inc32_eq dec32_eq)
next
  case False
  moreover assume "n < 2 ^ 32"
  ultimately have "n = 2 ^ 32 - 1" by simp
  then show ?thesis by (simp add: inc32_def dec32_def)
qed

lemma INC_WRAP_IDX_eq [wrap_simps]:
  "i < s \<Longrightarrow> s < 2 ^ 32 \<Longrightarrow> INC_WRAP_IDX i s = Suc i mod s"
  by (auto simp: INC_WRAP_IDX_def inc32_eq)

section \<open>Indices modulo a window\<close>

lemma mod_less_bound: "0 < w \<Longrightarrow> w \<le> n \<Longrightarrow> a mod w < (n::nat)"
  using mod_less_divisor [of w a] by linarith

lemma mod_add_inj:
  assumes "(a + i) mod w = (a + j) mod w" "i < w" "j < (w::nat)"
  shows "i = j"
proof -
  have "int i mod int w = int j mod int w"
  proof -
    have "int (a + i) mod int w = int (a + j) mod int w" using assms(1) by (metis of_nat_mod)
    then have "(int (a + i) - int a) mod int w = (int (a + j) - int a) mod int w"
      by (metis mod_diff_left_eq)
    then show ?thesis by simp
  qed
  then show ?thesis using assms(2,3) by simp
qed

section \<open>Lists of optional entries\<close>

text \<open>The entries present in an array of pointers, in index order.\<close>

definition somes :: "'a option list \<Rightarrow> 'a list" where
  "somes xs = List.map_filter (\<lambda>x. x) xs"

lemma somes_simps [simp]:
  "somes [] = []"
  "somes (None # xs) = somes xs"
  "somes (Some a # xs) = a # somes xs"
  by (simp_all add: somes_def map_filter_def)

lemma somes_append [simp]: "somes (xs @ ys) = somes xs @ somes ys"
  by (induction xs) (auto simp: somes_def map_filter_def)

lemma somes_replicate_None [simp]: "somes (replicate n None) = []"
  by (induction n) simp_all

lemma somes_Nil_iff: "somes xs = [] \<longleftrightarrow> (\<forall>x\<in>set xs. x = None)"
proof (induction xs)
  case (Cons a xs)
  then show ?case by (cases a) auto
qed simp

lemma length_somes_le: "length (somes xs) \<le> length xs"
proof (induction xs)
  case (Cons a xs)
  then show ?case by (cases a) auto
qed simp

lemma somes_split:
  "i < length xs \<Longrightarrow> somes xs = somes (take i xs) @ somes [xs ! i] @ somes (drop (Suc i) xs)"
  by (metis append_Cons append_Nil id_take_nth_drop somes_append)

lemma somes_update:
  "i < length xs \<Longrightarrow>
    somes (xs[i := v]) = somes (take i xs) @ somes [v] @ somes (drop (Suc i) xs)"
  by (simp add: upd_conv_take_nth_drop flip: somes_append)

lemma mset_somes_insert:
  "i < length xs \<Longrightarrow> xs ! i = None \<Longrightarrow> mset (somes (xs[i := Some v])) = add_mset v (mset (somes xs))"
  by (simp add: somes_update somes_split [of i xs])

lemma mset_somes_remove:
  "i < length xs \<Longrightarrow> xs ! i = Some v \<Longrightarrow> add_mset v (mset (somes (xs[i := None]))) = mset (somes xs)"
  by (simp add: somes_update somes_split [of i xs])

lemma length_somes_insert:
  "i < length xs \<Longrightarrow> xs ! i = None \<Longrightarrow> length (somes (xs[i := Some v])) = Suc (length (somes xs))"
  by (simp add: somes_update somes_split [of i xs])

lemma length_somes_remove:
  "i < length xs \<Longrightarrow> xs ! i = Some v \<Longrightarrow> Suc (length (somes (xs[i := None]))) = length (somes xs)"
  by (simp add: somes_update somes_split [of i xs])

section \<open>Invariants of step functions\<close>

text \<open>
  A component whose operations are given as events and a total step function. A client that
  shows one step keeps the invariant gets it for every run.
\<close>

locale step_system =
  fixes step :: "'s \<Rightarrow> 'e \<Rightarrow> 's"
    and ok :: "'s \<Rightarrow> 'e \<Rightarrow> bool"
    and inv :: "'s \<Rightarrow> bool"
  assumes step_inv: "inv s \<Longrightarrow> ok s e \<Longrightarrow> inv (step s e)"
begin

fun run_ok :: "'s \<Rightarrow> 'e list \<Rightarrow> bool" where
  "run_ok s [] = True"
| "run_ok s (e # es) = (ok s e \<and> run_ok (step s e) es)"

lemma run_inv: "inv s \<Longrightarrow> run_ok s es \<Longrightarrow> inv (foldl step s es)"
  by (induction es arbitrary: s) (auto intro: step_inv)

end

end
