(* ===== verification/Rod.thy ===== *)
theory Rod
  imports Wave_Prelude
begin

text \<open>
  The receive reordering queue of \<^verbatim>\<open>wireless/driver/shared/rod.c\<close>. One queue per
  (station, TID) holds the MSDUs that arrived ahead of the next expected sequence number, in an
  array of 64 buffer pointers indexed by \<^verbatim>\<open>seq % window_size\<close>.

  \<^item> \<open>reordering_queue\<close> is the struct of \<^verbatim>\<open>rod.h\<close>; the lists \<open>sent_up\<close> and \<open>freed\<close>
    record, in order, the buffers handed to \<^verbatim>\<open>mtlk_rod_detect_replay_or_sendup\<close> and to
    \<^verbatim>\<open>mtlk_df_nbuf_free_sub_frames\<close>; \<open>wss_cntrs\<close> the statistics counters.
  \<^item> Every array access and every modulo is checked: an index outside the 64 slots or a zero
    window is a value of \<open>rod_fault\<close>.
  \<^item> The two \<^verbatim>\<open>while\<close> loops are \<open>partial_function (option)\<close>: not returning is \<open>None\<close>.
  \<^item> The time stamp \<^verbatim>\<open>mtlk_osal_timestamp()\<close> is an argument \<open>now\<close> of each operation.

  The abstract machine \<open>spec_window\<close> is a list of \<open>window_size\<close> optional MSDUs, position \<open>j\<close>
  standing for sequence number \<open>head + j\<close>. The operations refine it when the window size
  divides 4096; other sizes break at the sequence number wrap.
\<close>

section \<open>The queue\<close>

definition MAX_REORD_WINDOW :: nat where
  "MAX_REORD_WINDOW = 64"

definition SEQUENCE_NUMBER_LIMIT :: nat where
  "SEQUENCE_NUMBER_LIMIT = 4096"

text \<open>\<^verbatim>\<open>uint32\<close> arithmetic: the subtraction wraps modulo \<open>2 ^ 32\<close> before the final modulo.\<close>

definition SEQ_DISTANCE :: "nat \<Rightarrow> nat \<Rightarrow> nat" where
  "SEQ_DISTANCE seq1 seq2 =
     nat ((int seq2 - int seq1 + int SEQUENCE_NUMBER_LIMIT) mod 2 ^ 32) mod SEQUENCE_NUMBER_LIMIT"

datatype rod_info_cnt_id_e =
    MTLK_ROD_CNT_RX_PACKETS_DISCARDED_DRV_TOO_OLD
  | MTLK_ROD_CNT_RX_PACKETS_DISCARDED_DRV_DUPLICATE

record reordering_stats =
  too_old :: u32
  duplicate :: u32
  queued :: u32
  overflows :: u32
  lost :: u32

record 'p reordering_queue =
  used :: bool
  count :: nat
  head :: nat
  window_size :: nat
  last_sent :: u32
  nbuf :: "'p option list"
  last_rx_time :: u32
  stats :: reordering_stats
  wss_cntrs :: "rod_info_cnt_id_e \<Rightarrow> u32"
  sent_up :: "'p list"
  freed :: "'p list"

datatype rod_fault = BadIndex nat | DivByZero

definition zero_stats :: reordering_stats where
  "zero_stats = \<lparr>too_old = 0, duplicate = 0, queued = 0, overflows = 0, lost = 0\<rparr>"

text \<open>A queue inside a zeroed \<^verbatim>\<open>sta_entry\<close>.\<close>

definition fresh_rod_queue :: "'p reordering_queue" where
  "fresh_rod_queue = \<lparr>used = False, count = 0, head = 0, window_size = 0, last_sent = 0,
     nbuf = replicate MAX_REORD_WINDOW None, last_rx_time = 0, stats = zero_stats,
     wss_cntrs = (\<lambda>_. 0), sent_up = [], freed = []\<rparr>"

definition mtlk_is_used_rod_queue :: "'p reordering_queue \<Rightarrow> bool" where
  "mtlk_is_used_rod_queue q = used q"

definition mtlk_get_rod_stats :: "'p reordering_queue \<Rightarrow> reordering_stats option" where
  "mtlk_get_rod_stats q = (if \<not> used q then None else Some (stats q))"

definition mtlk_rod_queue_get_last_rx_time :: "'p reordering_queue \<Rightarrow> u32" where
  "mtlk_rod_queue_get_last_rx_time q = last_rx_time q"

definition mtlk_rod_queue_set_last_rx_time :: "'p reordering_queue \<Rightarrow> u32 \<Rightarrow> 'p reordering_queue" where
  "mtlk_rod_queue_set_last_rx_time q msec = q\<lparr>last_rx_time := msec\<rparr>"

section \<open>Operations\<close>

text \<open>The slot number returned on success is that of the retired slot; -1 counts a loss.\<close>

definition retire_slot ::
  "u32 \<Rightarrow> 'p reordering_queue \<Rightarrow> nat \<Rightarrow> rod_fault + ('p reordering_queue \<times> int)" where
  "retire_slot now q slot =
     (if window_size q = 0 then Inl DivByZero
      else let s = slot mod window_size q in
        if s \<ge> length (nbuf q) then Inl (BadIndex s)
        else case nbuf q ! s of
          Some p \<Rightarrow>
            Inr (q\<lparr>nbuf := (nbuf q)[s := None], last_sent := now, count := dec32 (count q),
                   sent_up := sent_up q @ [p]\<rparr>, int s)
        | None \<Rightarrow> Inr (q\<lparr>stats := (stats q)\<lparr>lost := lost (stats q) + 1\<rparr>\<rparr>, -1))"

fun rod_move_loop :: "u32 \<Rightarrow> 'p reordering_queue \<Rightarrow> nat \<Rightarrow> rod_fault + 'p reordering_queue" where
  "rod_move_loop now q 0 = Inr q"
| "rod_move_loop now q (Suc n) =
     (case retire_slot now q (head q) of
        Inl e \<Rightarrow> Inl e
      | Inr (q', _) \<Rightarrow> rod_move_loop now (q'\<lparr>head := inc32 (head q')\<rparr>) n)"

definition rod_move_window ::
  "u32 \<Rightarrow> 'p reordering_queue \<Rightarrow> nat \<Rightarrow> rod_fault + 'p reordering_queue" where
  "rod_move_window now q n =
     (case rod_move_loop now q n of
        Inl e \<Rightarrow> Inl e
      | Inr q' \<Rightarrow> Inr (q'\<lparr>head := head q' mod SEQUENCE_NUMBER_LIMIT\<rparr>))"

partial_function (option) mtlk_flush_rod_queue ::
  "u32 \<Rightarrow> 'p reordering_queue \<Rightarrow> (rod_fault + 'p reordering_queue) option" where
  "mtlk_flush_rod_queue now q =
     (if count q = 0 then Some (Inr q)
      else case rod_move_window now q 1 of
             Inl e \<Rightarrow> Some (Inl e)
           | Inr q' \<Rightarrow> mtlk_flush_rod_queue now q')"

text \<open>
  \<open>wss_ok\<close> is whether \<^verbatim>\<open>mtlk_wss_create\<close> returned an object and \<open>cntrs_res\<close> what
  \<^verbatim>\<open>mtlk_wss_cntrs_open\<close> returned; \<open>now_ms\<close> is the millisecond reading of the stamp.
\<close>

definition mtlk_create_rod_queue ::
  "u32 \<Rightarrow> u32 \<Rightarrow> bool \<Rightarrow> mtlk_error_t \<Rightarrow> 'p reordering_queue \<Rightarrow> nat \<Rightarrow> nat \<Rightarrow>
   (rod_fault + ('p reordering_queue \<times> mtlk_error_t)) option" where
  "mtlk_create_rod_queue now now_ms wss_ok cntrs_res q win_size ssn =
     (case (if used q then mtlk_flush_rod_queue now q else Some (Inr q)) of
        None \<Rightarrow> None
      | Some (Inl e) \<Rightarrow> Some (Inl e)
      | Some (Inr q1) \<Rightarrow>
          if \<not> wss_ok then Some (Inr (q1, MTLK_ERR_NO_MEM))
          else if cntrs_res \<noteq> MTLK_ERR_OK then Some (Inr (q1, cntrs_res))
          else Some (Inr (q1\<lparr>used := True, count := 0, head := ssn, window_size := win_size,
                            last_sent := now, last_rx_time := now_ms, stats := zero_stats,
                            wss_cntrs := (\<lambda>_. 0)\<rparr>, MTLK_ERR_OK)))"

text \<open>
  \<^verbatim>\<open>mtlk_osal_time_after(a, b)\<close> is the kernel's \<^verbatim>\<open>time_after\<close>: the signed reading of
  \<^verbatim>\<open>b - a\<close> is negative. \<open>tmo\<close> is \<^verbatim>\<open>ROD_QUEUE_FLUSH_TIMEOUT_MS\<close> in clock ticks.
\<close>

definition mtlk_osal_time_after :: "u32 \<Rightarrow> u32 \<Rightarrow> bool" where
  "mtlk_osal_time_after a b \<longleftrightarrow> sint (b - a) < 0"

definition mtlk_handle_rod_queue_timer ::
  "u32 \<Rightarrow> u32 \<Rightarrow> 'p reordering_queue \<Rightarrow> (rod_fault + 'p reordering_queue) option" where
  "mtlk_handle_rod_queue_timer tmo now q =
     (if used q \<and> count q \<noteq> 0 \<and> mtlk_osal_time_after now (last_sent q + tmo)
      then mtlk_flush_rod_queue now q else Some (Inr q))"

definition mtlk_clear_rod_queue ::
  "u32 \<Rightarrow> 'p reordering_queue \<Rightarrow> (rod_fault + 'p reordering_queue) option" where
  "mtlk_clear_rod_queue now q =
     (if \<not> used q then Some (Inr q)
      else case mtlk_flush_rod_queue now q of
             None \<Rightarrow> None
           | Some (Inl e) \<Rightarrow> Some (Inl e)
           | Some (Inr q') \<Rightarrow> Some (Inr (q'\<lparr>used := False\<rparr>)))"

text \<open>The loop of \<^verbatim>\<open>retire_rod_queue\<close>; the result carries the number of retired slots.\<close>

partial_function (option) retire_rod_loop ::
  "u32 \<Rightarrow> 'p reordering_queue \<Rightarrow> nat \<Rightarrow> nat \<Rightarrow> (rod_fault + ('p reordering_queue \<times> nat)) option" where
  "retire_rod_loop now q loc n =
     (if loc \<ge> length (nbuf q) then Some (Inl (BadIndex loc))
      else if nbuf q ! loc = None then Some (Inr (q, n))
      else case retire_slot now q loc of
             Inl e \<Rightarrow> Some (Inl e)
           | Inr (q', _) \<Rightarrow>
               retire_rod_loop now (q'\<lparr>head := inc32 (head q')\<rparr>)
                 (if loc + 1 \<ge> window_size q' then 0 else loc + 1) (n + 1))"

definition retire_rod_queue ::
  "u32 \<Rightarrow> 'p reordering_queue \<Rightarrow> (rod_fault + ('p reordering_queue \<times> nat)) option" where
  "retire_rod_queue now q =
     (if window_size q = 0 then Some (Inl DivByZero)
      else case retire_rod_loop now q (head q mod window_size q) 0 of
             None \<Rightarrow> None
           | Some (Inl e) \<Rightarrow> Some (Inl e)
           | Some (Inr (q', n)) \<Rightarrow> Some (Inr (q'\<lparr>head := head q' mod SEQUENCE_NUMBER_LIMIT\<rparr>, n)))"

text \<open>
  The statistics counter, in a build with \<^verbatim>\<open>MTCFG_STAT_CNTRS_DEBUG\<close>; without it the duplicate
  counter is compiled out and only \<open>stats\<close> is updated.
\<close>

definition mtlk_rod_inc_cnt :: "'p reordering_queue \<Rightarrow> rod_info_cnt_id_e \<Rightarrow> 'p reordering_queue" where
  "mtlk_rod_inc_cnt q i = q\<lparr>wss_cntrs := (wss_cntrs q)(i := wss_cntrs q i + 1)\<rparr>"

text \<open>The part of \<^verbatim>\<open>mtlk_reorder_packet\<close> after the window has been moved: insert and retire.\<close>

definition rod_insert ::
  "u32 \<Rightarrow> 'p reordering_queue \<Rightarrow> nat \<Rightarrow> 'p \<Rightarrow> (rod_fault + ('p reordering_queue \<times> bool)) option" where
  "rod_insert now q seq p =
     (if window_size q = 0 then Some (Inl DivByZero)
      else let loc = seq mod window_size q in
        if loc \<ge> length (nbuf q) then Some (Inl (BadIndex loc))
        else if nbuf q ! loc = None then
          case retire_rod_queue now
                 (q\<lparr>nbuf := (nbuf q)[loc := Some p], count := inc32 (count q),
                    stats := (stats q)\<lparr>queued := queued (stats q) + 1\<rparr>\<rparr>) of
            None \<Rightarrow> None
          | Some (Inl e) \<Rightarrow> Some (Inl e)
          | Some (Inr (q', _)) \<Rightarrow> Some (Inr (q', True))
        else
          Some (Inr (mtlk_rod_inc_cnt
            (q\<lparr>freed := freed q @ [p], stats := (stats q)\<lparr>duplicate := duplicate (stats q) + 1\<rparr>\<rparr>)
            MTLK_ROD_CNT_RX_PACKETS_DISCARDED_DRV_DUPLICATE, True)))"

definition mtlk_reorder_packet ::
  "u32 \<Rightarrow> 'p reordering_queue \<Rightarrow> nat \<Rightarrow> 'p \<Rightarrow> (rod_fault + ('p reordering_queue \<times> bool)) option" where
  "mtlk_reorder_packet now q seq p =
     (if \<not> used q then Some (Inr (q\<lparr>sent_up := sent_up q @ [p]\<rparr>, False))
      else let diff = SEQ_DISTANCE (head q) seq in
        if diff > SEQUENCE_NUMBER_LIMIT div 2 then
          Some (Inr (mtlk_rod_inc_cnt
            (q\<lparr>freed := freed q @ [p], stats := (stats q)\<lparr>too_old := too_old (stats q) + 1\<rparr>\<rparr>)
            MTLK_ROD_CNT_RX_PACKETS_DISCARDED_DRV_TOO_OLD, True))
        else if diff \<ge> window_size q then
          case rod_move_window now
                 (q\<lparr>stats := (stats q)\<lparr>overflows := overflows (stats q) + 1\<rparr>\<rparr>)
                 (diff - window_size q + 1) of
            Inl e \<Rightarrow> Some (Inl e)
          | Inr q' \<Rightarrow> rod_insert now q' seq p
        else rod_insert now q seq p)"

text \<open>\<^verbatim>\<open>mtlk_rod_process_bar\<close>: -1 without a block ack agreement, 0 otherwise.\<close>

definition mtlk_rod_process_bar ::
  "u32 \<Rightarrow> 'p reordering_queue \<Rightarrow> nat \<Rightarrow> (rod_fault + ('p reordering_queue \<times> int)) option" where
  "mtlk_rod_process_bar now q ssn =
     (if \<not> used q then Some (Inr (q, -1))
      else let diff = SEQ_DISTANCE (head q) ssn in
        if diff > SEQUENCE_NUMBER_LIMIT div 2 then Some (Inr (q, 0))
        else case rod_move_window now q diff of
               Inl e \<Rightarrow> Some (Inl e)
             | Inr q1 \<Rightarrow>
                 (case retire_rod_queue now q1 of
                    None \<Rightarrow> None
                  | Some (Inl e) \<Rightarrow> Some (Inl e)
                  | Some (Inr (q2, _)) \<Rightarrow> Some (Inr (q2, 0))))"

section \<open>The abstract sliding window\<close>

record 'p spec_window =
  sw_head :: nat
  sw_win :: "'p option list"
  sw_out :: "'p list"
  sw_drop :: "'p list"

definition slide :: "'p spec_window \<Rightarrow> 'p spec_window" where
  "slide w = w\<lparr>sw_head := (sw_head w + 1) mod 4096, sw_win := tl (sw_win w) @ [None],
               sw_out := sw_out w @ somes [hd (sw_win w)]\<rparr>"

text \<open>The run of sequence numbers that can be handed up at once.\<close>

definition ready :: "'p spec_window \<Rightarrow> nat" where
  "ready w = length (takeWhile (\<lambda>x. x \<noteq> None) (sw_win w))"

definition spec_slides :: "nat \<Rightarrow> 'p spec_window \<Rightarrow> 'p spec_window" where
  "spec_slides n = slide ^^ n"

definition spec_drain :: "'p spec_window \<Rightarrow> 'p spec_window" where
  "spec_drain w = spec_slides (ready w) w"

definition spec_insert :: "'p spec_window \<Rightarrow> nat \<Rightarrow> 'p \<Rightarrow> 'p spec_window" where
  "spec_insert w d p =
     (if sw_win w ! d = None then spec_drain (w\<lparr>sw_win := (sw_win w)[d := Some p]\<rparr>)
      else w\<lparr>sw_drop := sw_drop w @ [p]\<rparr>)"

definition spec_reorder :: "'p spec_window \<Rightarrow> nat \<Rightarrow> 'p \<Rightarrow> 'p spec_window" where
  "spec_reorder w seq p =
     (let d = (seq + 4096 - sw_head w) mod 4096; n = length (sw_win w) in
      if d > 2048 then w\<lparr>sw_drop := sw_drop w @ [p]\<rparr>
      else if d \<ge> n then spec_insert (spec_slides (d - n + 1) w) (n - 1) p
      else spec_insert w d p)"

definition spec_bar :: "'p spec_window \<Rightarrow> nat \<Rightarrow> 'p spec_window" where
  "spec_bar w ssn =
     (let d = (ssn + 4096 - sw_head w) mod 4096 in
      if d > 2048 then w else spec_drain (spec_slides d w))"

text \<open>What the array holds, read from the head.\<close>

definition win :: "'p reordering_queue \<Rightarrow> 'p option list" where
  "win q = map (\<lambda>j. nbuf q ! ((head q + j) mod window_size q)) [0..<window_size q]"

definition abs_rod :: "'p reordering_queue \<Rightarrow> 'p spec_window" where
  "abs_rod q = \<lparr>sw_head = head q mod 4096, sw_win = win q, sw_out = sent_up q, sw_drop = freed q\<rparr>"

section \<open>Invariants\<close>

definition rod_slots :: "'p reordering_queue \<Rightarrow> bool" where
  "rod_slots q \<longleftrightarrow> length (nbuf q) = 64 \<and> 0 < window_size q \<and> window_size q \<le> 64 \<and>
     count q = length (somes (nbuf q)) \<and> (\<forall>x\<in>set (drop (window_size q) (nbuf q)). x = None)"

text \<open>The window sizes that divide the sequence number space.\<close>

definition window_ok :: "'p reordering_queue \<Rightarrow> bool" where
  "window_ok q \<longleftrightarrow> window_size q dvd 4096"

text \<open>What holds between two operations.\<close>

definition rod_inv :: "'p reordering_queue \<Rightarrow> bool" where
  "rod_inv q \<longleftrightarrow> length (nbuf q) = 64 \<and> head q < 4096 \<and>
     (if used q then rod_slots q \<and> (window_ok q \<longrightarrow> nbuf q ! (head q mod window_size q) = None)
      else count q = 0 \<and> somes (nbuf q) = [])"

text \<open>What moving the window leaves alone.\<close>

definition same_frame :: "'p reordering_queue \<Rightarrow> 'p reordering_queue \<Rightarrow> bool" where
  "same_frame q q' \<longleftrightarrow> used q' = used q \<and> window_size q' = window_size q \<and> freed q' = freed q \<and>
     last_rx_time q' = last_rx_time q"

lemma same_frame_refl [simp]: "same_frame q q"
  by (simp add: same_frame_def)

lemma same_frame_trans: "same_frame q q1 \<Longrightarrow> same_frame q1 q2 \<Longrightarrow> same_frame q q2"
  by (simp add: same_frame_def)

lemma length_win [simp]: "length (win q) = window_size q"
  by (simp add: win_def)

lemma nth_win: "j < window_size q \<Longrightarrow> win q ! j = nbuf q ! ((head q + j) mod window_size q)"
  by (simp add: win_def)

lemma win_rotate: "rod_slots q \<Longrightarrow> win q = rotate (head q) (take (window_size q) (nbuf q))"
  by (rule nth_equalityI) (auto simp: rod_slots_def nth_win nth_rotate add.commute)

lemma mset_somes_rotate: "mset (somes (rotate n xs)) = mset (somes xs)"
proof -
  have "mset (somes (rotate n xs)) =
        mset (somes (take (n mod length xs) xs @ drop (n mod length xs) xs))"
    by (subst rotate_drop_take, subst (1 2) somes_append) simp
  then show ?thesis by (simp only: append_take_drop_id)
qed

lemma somes_take_window: "rod_slots q \<Longrightarrow> somes (take (window_size q) (nbuf q)) = somes (nbuf q)"
proof -
  assume "rod_slots q"
  then have "somes (drop (window_size q) (nbuf q)) = []"
    by (simp add: rod_slots_def somes_Nil_iff)
  then show ?thesis
    using somes_append [of "take (window_size q) (nbuf q)" "drop (window_size q) (nbuf q)"] by simp
qed

lemma mset_somes_win: "rod_slots q \<Longrightarrow> mset (somes (win q)) = mset (somes (nbuf q))"
  by (simp add: win_rotate mset_somes_rotate somes_take_window)

lemma rod_count_bound: "rod_slots q \<Longrightarrow> count q \<le> window_size q"
proof -
  assume a: "rod_slots q"
  then have "length (somes (take (window_size q) (nbuf q))) \<le> window_size q"
    using length_somes_le [of "take (window_size q) (nbuf q)"] by (simp add: rod_slots_def)
  then show ?thesis using a somes_take_window [OF a] by (simp add: rod_slots_def)
qed

lemma rod_slots_head [simp]: "rod_slots (q\<lparr>head := h\<rparr>) = rod_slots q"
  by (simp add: rod_slots_def)

lemma somes_win_empty: "rod_slots q \<Longrightarrow> count q = 0 \<longleftrightarrow> somes (win q) = []"
  using mset_somes_win [of q] by (auto simp: rod_slots_def)

section \<open>One step of the window\<close>

lemma retire_head_window:
  assumes q: "rod_slots q" and r: "retire_slot now q (head q) = Inr (q', k)"
  shows "nbuf q' = (nbuf q)[head q mod window_size q := None] \<and>
    sent_up q' = sent_up q @ somes [nbuf q ! (head q mod window_size q)] \<and>
    head q' = head q \<and> rod_slots q' \<and> same_frame q q'"
proof -
  let ?s = "head q mod window_size q"
  have s: "?s < 64" "?s < window_size q" using q by (auto simp: rod_slots_def mod_less_bound)
  show ?thesis
  proof (cases "nbuf q ! ?s")
    case None
    then have "nbuf q = (nbuf q)[?s := None]" by (metis list_update_id)
    with None r q s show ?thesis by (auto simp: retire_slot_def same_frame_def rod_slots_def)
  next
    case (Some p)
    have c: "count q = Suc (length (somes ((nbuf q)[?s := None])))"
      using q s Some length_somes_remove [of ?s "nbuf q" p] by (simp add: rod_slots_def)
    have b: "count q \<le> 64" using rod_count_bound [OF q] q by (simp add: rod_slots_def)
    from c b have d: "dec32 (count q) = length (somes ((nbuf q)[?s := None]))" by (simp add: dec32_eq)
    have "drop (window_size q) ((nbuf q)[?s := None]) = drop (window_size q) (nbuf q)"
      using s by (simp add: drop_update_cancel)
    with Some r q s d show ?thesis by (auto simp: retire_slot_def Let_def same_frame_def rod_slots_def)
  qed
qed

lemma retire_head_defined: "rod_slots q \<Longrightarrow> \<exists>q' k. retire_slot now q (head q) = Inr (q', k)"
  by (auto simp: retire_slot_def rod_slots_def Let_def not_le mod_less_bound split: option.splits)

lemma win_slide:
  assumes "0 < window_size q" "window_size q \<le> length (nbuf q)"
  shows "win (q\<lparr>nbuf := (nbuf q)[head q mod window_size q := None], head := Suc (head q)\<rparr>) =
    tl (win q) @ [None]"
proof (rule nth_equalityI)
  fix j assume "j < length (win (q\<lparr>nbuf := (nbuf q)[head q mod window_size q := None], head := Suc (head q)\<rparr>))"
  then have j: "j < window_size q" by simp
  let ?w = "window_size q" and ?s = "head q mod window_size q"
  have lt: "(Suc (head q) + j) mod ?w < length (nbuf q)" using assms by (simp add: mod_less_bound)
  show "win (q\<lparr>nbuf := (nbuf q)[?s := None], head := Suc (head q)\<rparr>) ! j = (tl (win q) @ [None]) ! j"
  proof (cases "j = ?w - 1")
    case True
    then have "(Suc (head q) + j) mod ?w = ?s" using assms by (simp add: add.commute)
    with True j lt assms show ?thesis by (simp add: nth_win nth_append)
  next
    case False
    with j have j1: "Suc j < ?w" by simp
    have "(Suc (head q) + j) mod ?w \<noteq> ?s"
    proof
      assume "(Suc (head q) + j) mod ?w = ?s"
      then have "(head q + Suc j) mod ?w = (head q + 0) mod ?w" by simp
      then have "Suc j = 0" by (rule mod_add_inj) (use j1 in simp_all)
      then show False by simp
    qed
    moreover from j1 have "j < ?w - Suc 0" by simp
    ultimately show ?thesis using j1 lt j by (simp add: nth_win nth_append nth_tl)
  qed
qed (use assms in simp)

text \<open>Retiring the head slot and advancing the head is one slide of the abstract window.\<close>

lemma retire_head_slide:
  assumes q: "rod_slots q" and h: "head q + 1 < 2 ^ 32"
  obtains q' k where "retire_slot now q (head q) = Inr (q', k)"
    and "rod_slots (q'\<lparr>head := inc32 (head q')\<rparr>)"
    and "abs_rod (q'\<lparr>head := inc32 (head q')\<rparr>) = slide (abs_rod q)"
    and "same_frame q (q'\<lparr>head := inc32 (head q')\<rparr>)" and "inc32 (head q') = head q + 1"
proof -
  let ?s = "head q mod window_size q"
  obtain q' k where r: "retire_slot now q (head q) = Inr (q', k)"
    using retire_head_defined [OF q] by blast
  note e = retire_head_window [OF q r]
  have w: "0 < window_size q" "window_size q \<le> length (nbuf q)" using q by (auto simp: rod_slots_def)
  have i: "inc32 (head q') = Suc (head q)" using e h by (simp add: inc32_eq)
  have "win (q'\<lparr>head := inc32 (head q')\<rparr>) =
        win (q\<lparr>nbuf := (nbuf q)[?s := None], head := Suc (head q)\<rparr>)"
    using e i by (simp add: win_def same_frame_def)
  also have "\<dots> = tl (win q) @ [None]" by (rule win_slide [OF w])
  finally have wq: "win (q'\<lparr>head := inc32 (head q')\<rparr>) = tl (win q) @ [None]" .
  have "win q \<noteq> []" using w length_win [of q] by fastforce
  then have hd: "hd (win q) = nbuf q ! ?s" using w by (simp add: hd_conv_nth nth_win)
  have "abs_rod (q'\<lparr>head := inc32 (head q')\<rparr>) = slide (abs_rod q)"
    using e i wq hd by (simp add: abs_rod_def slide_def same_frame_def mod_Suc_eq)
  with r e i that show ?thesis by (simp add: same_frame_def)
qed

lemma rod_move_loop_slides:
  assumes "rod_slots q" "head q + n < 2 ^ 32"
  shows "\<exists>q'. rod_move_loop now q n = Inr q' \<and> rod_slots q' \<and> same_frame q q' \<and>
    abs_rod q' = spec_slides n (abs_rod q) \<and> head q' = head q + n"
  using assms
proof (induction n arbitrary: q)
  case 0
  then show ?case by (simp add: spec_slides_def)
next
  case (Suc n)
  from Suc.prems have "head q + 1 < 2 ^ 32" by simp
  from retire_head_slide [OF Suc.prems(1) this, of now] obtain q1 k where
    r: "retire_slot now q (head q) = Inr (q1, k)"
    and s: "rod_slots (q1\<lparr>head := inc32 (head q1)\<rparr>)"
    and a: "abs_rod (q1\<lparr>head := inc32 (head q1)\<rparr>) = slide (abs_rod q)"
    and f: "same_frame q (q1\<lparr>head := inc32 (head q1)\<rparr>)" and h: "inc32 (head q1) = head q + 1"
    by blast
  from Suc.IH [OF s] Suc.prems h obtain q' where
    "rod_move_loop now (q1\<lparr>head := inc32 (head q1)\<rparr>) n = Inr q'" "rod_slots q'"
    "same_frame (q1\<lparr>head := inc32 (head q1)\<rparr>) q'"
    "abs_rod q' = spec_slides n (abs_rod (q1\<lparr>head := inc32 (head q1)\<rparr>))" "head q' = head q + Suc n"
    by auto
  with r a f show ?case
    by (auto simp: spec_slides_def funpow_swap1 intro: same_frame_trans)
qed

text \<open>Reducing the head modulo 4096 does not disturb the slots when the window divides 4096.\<close>

lemma win_head_mod:
  "window_ok q \<Longrightarrow> win (q\<lparr>head := head q mod 4096\<rparr>) = win q"
  unfolding win_def window_ok_def
  by (simp, metis (no_types, opaque_lifting) mod_add_left_eq mod_mod_cancel)

lemma abs_rod_head_mod:
  "window_ok q \<Longrightarrow> abs_rod (q\<lparr>head := head q mod 4096\<rparr>) = abs_rod q"
  by (simp add: abs_rod_def win_head_mod)

lemma mset_win_head: "rod_slots q \<Longrightarrow> mset (somes (win (q\<lparr>head := h\<rparr>))) = mset (somes (win q))"
  using mset_somes_win [of q] mset_somes_win [of "q\<lparr>head := h\<rparr>"] by simp

lemma rod_move_window_slides:
  assumes "rod_slots q" "head q + n < 2 ^ 32"
  shows "\<exists>q'. rod_move_window now q n = Inr q' \<and> rod_slots q' \<and> same_frame q q' \<and>
    head q' = (head q + n) mod 4096 \<and> sent_up q' = sw_out (spec_slides n (abs_rod q)) \<and>
    (window_ok q \<or> head q + n < 4096 \<longrightarrow> abs_rod q' = spec_slides n (abs_rod q)) \<and>
    mset (somes (win q')) = mset (somes (sw_win (spec_slides n (abs_rod q))))"
proof -
  from rod_move_loop_slides [OF assms, of now] obtain q' where
    m: "rod_move_loop now q n = Inr q'" "rod_slots q'" "same_frame q q'"
    "abs_rod q' = spec_slides n (abs_rod q)" "head q' = head q + n" by blast
  have red: "abs_rod (q'\<lparr>head := head q' mod 4096\<rparr>) = abs_rod q'" if "window_ok q \<or> head q + n < 4096"
  proof (cases "window_ok q'")
    case True
    then show ?thesis by (rule abs_rod_head_mod)
  next
    case False
    with m that have "head q' < 4096" by (auto simp: window_ok_def same_frame_def)
    then show ?thesis by simp
  qed
  then have "window_ok q \<or> head q + n < 4096 \<longrightarrow>
      abs_rod (q'\<lparr>head := head q' mod 4096\<rparr>) = spec_slides n (abs_rod q)"
    using m(4) by simp
  moreover have "mset (somes (win (q'\<lparr>head := head q' mod 4096\<rparr>))) =
      mset (somes (sw_win (spec_slides n (abs_rod q))))"
    using mset_win_head [OF m(2)] m(4) by (metis abs_rod_def spec_window.select_convs(2))
  moreover have "sent_up q' = sw_out (spec_slides n (abs_rod q))"
    using m(4) by (metis abs_rod_def spec_window.select_convs(3))
  ultimately show ?thesis
    using m by (simp add: rod_move_window_def SEQUENCE_NUMBER_LIMIT_def same_frame_def)
qed

section \<open>Closed form of slides\<close>

lemma spec_slides_eq:
  assumes "sw_win w \<noteq> []" "sw_head w < 4096"
  shows "spec_slides n w = w\<lparr>sw_head := (sw_head w + n) mod 4096,
    sw_win := drop n (sw_win w) @ replicate (min n (length (sw_win w))) None,
    sw_out := sw_out w @ somes (take n (sw_win w))\<rparr>"
proof (induction n)
  case 0
  then show ?case using assms by (simp add: spec_slides_def)
next
  case (Suc n)
  let ?xs = "sw_win w"
  have step: "spec_slides (Suc n) w = slide (spec_slides n w)" by (simp add: spec_slides_def)
  have h: "((sw_head w + n) mod 4096 + 1) mod 4096 = (sw_head w + Suc n) mod 4096"
    by (simp add: mod_Suc_eq)
  show ?case
  proof (cases "n < length ?xs")
    case True
    then have d: "drop n ?xs = ?xs ! n # drop (Suc n) ?xs" by (simp add: Cons_nth_drop_Suc)
    have "min n (length ?xs) = n" "min (Suc n) (length ?xs) = Suc n" using True by simp_all
    then show ?thesis using Suc True d h unfolding step
      by (simp add: slide_def take_Suc_conv_app_nth replicate_append_same)
  next
    case False
    obtain m where "length ?xs = Suc m" using assms(1) by (cases "length ?xs") auto
    then show ?thesis using Suc False h unfolding step
      by (simp add: slide_def replicate_append_same)
  qed
qed

lemma spec_slides_stream:
  assumes "sw_win w \<noteq> []" "sw_head w < 4096"
  shows "sw_out (spec_slides n w) @ somes (sw_win (spec_slides n w)) = sw_out w @ somes (sw_win w)"
  using somes_append [of "take n (sw_win w)" "drop n (sw_win w)"] assms by (simp add: spec_slides_eq)

lemma spec_slides_drop [simp]: "sw_drop (spec_slides n w) = sw_drop w"
  by (induction n) (simp_all add: spec_slides_def slide_def)

lemma length_spec_slides: "sw_win w \<noteq> [] \<Longrightarrow> length (sw_win (spec_slides n w)) = length (sw_win w)"
  by (induction n) (auto simp: spec_slides_def slide_def)

lemma abs_rod_wf: "rod_slots q \<Longrightarrow> sw_win (abs_rod q) \<noteq> [] \<and> sw_head (abs_rod q) < 4096"
  using length_win [of q] by (auto simp: abs_rod_def rod_slots_def simp del: length_win)

lemma abs_rod_sel [simp]:
  "sw_head (abs_rod q) = head q mod 4096" "sw_win (abs_rod q) = win q"
  "sw_out (abs_rod q) = sent_up q" "sw_drop (abs_rod q) = freed q"
  by (simp_all add: abs_rod_def)

section \<open>Retiring the ready run\<close>

lemma ready_slide:
  assumes "sw_win w \<noteq> []" "hd (sw_win w) \<noteq> None"
  shows "ready w = Suc (ready (slide w))"
  using assms by (cases "sw_win w") (auto simp: ready_def slide_def takeWhile_tail)

lemma ready_zero: "sw_win w \<noteq> [] \<Longrightarrow> hd (sw_win w) = None \<Longrightarrow> ready w = 0"
  by (cases "sw_win w") (auto simp: ready_def)

lemma retire_slot_mod: "retire_slot now q (slot mod window_size q) = retire_slot now q slot"
  by (simp add: retire_slot_def)

lemma hd_win: "rod_slots q \<Longrightarrow> hd (win q) = nbuf q ! (head q mod window_size q)"
  using abs_rod_wf [of q] by (simp add: hd_conv_nth nth_win rod_slots_def)

lemma next_loc:
  "0 < w \<Longrightarrow> (if h mod w + 1 \<ge> w then 0 else h mod w + 1) = (h + 1) mod (w::nat)"
  by (simp add: mod_Suc) (metis Suc_leI le_antisym mod_less_divisor)

lemma retire_rod_loop_drains:
  assumes "rod_slots q" "head q + ready (abs_rod q) < 2 ^ 32"
  shows "\<exists>q'. retire_rod_loop now q (head q mod window_size q) n = Some (Inr (q', n + ready (abs_rod q)))
    \<and> rod_slots q' \<and> same_frame q q' \<and> abs_rod q' = spec_drain (abs_rod q) \<and>
    head q' = head q + ready (abs_rod q) \<and> hd (win q') = None"
  using assms
proof (induction "ready (abs_rod q)" arbitrary: q n)
  case 0
  then have "hd (win q) = None" using ready_slide [of "abs_rod q"] abs_rod_wf [of q] by fastforce
  moreover have "head q mod window_size q < length (nbuf q)"
    using 0 by (auto simp: rod_slots_def mod_less_bound)
  ultimately show ?case using 0 hd_win [of q]
    by (subst retire_rod_loop.simps) (simp add: spec_drain_def spec_slides_def)
next
  case (Suc k)
  let ?loc = "head q mod window_size q"
  have w: "sw_win (abs_rod q) \<noteq> []" using abs_rod_wf [OF Suc.prems(1)] by simp
  have hd: "hd (win q) \<noteq> None" using ready_zero [OF w] Suc.hyps(2) by auto
  have h1: "head q + 1 < 2 ^ 32" using Suc.prems(2) Suc.hyps(2) by simp
  from retire_head_slide [OF Suc.prems(1) h1, of now] obtain q1 j where
    r: "retire_slot now q (head q) = Inr (q1, j)"
    and s: "rod_slots (q1\<lparr>head := inc32 (head q1)\<rparr>)"
    and a: "abs_rod (q1\<lparr>head := inc32 (head q1)\<rparr>) = slide (abs_rod q)"
    and f: "same_frame q (q1\<lparr>head := inc32 (head q1)\<rparr>)" and h: "inc32 (head q1) = head q + 1"
    by blast
  let ?q = "q1\<lparr>head := inc32 (head q1)\<rparr>"
  have k: "k = ready (abs_rod ?q)"
    using ready_slide [OF w] hd Suc.hyps(2) a by simp
  have ws: "window_size q1 = window_size q" using f by (simp add: same_frame_def)
  have lt: "?loc < length (nbuf q)" using Suc.prems(1) by (auto simp: rod_slots_def mod_less_bound)
  have "retire_rod_loop now q ?loc n = retire_rod_loop now ?q (head ?q mod window_size ?q) (n + 1)"
    using lt hd r h ws hd_win [OF Suc.prems(1)] next_loc [of "window_size q" "head q"] Suc.prems(1)
    by (subst retire_rod_loop.simps) (auto simp: retire_slot_mod rod_slots_def)
  moreover from Suc.hyps(1) [OF k s, of "n + 1"] Suc.prems(2) Suc.hyps(2) k h obtain q' where
    "retire_rod_loop now ?q (head ?q mod window_size ?q) (n + 1) = Some (Inr (q', n + 1 + k))"
    "rod_slots q'" "same_frame ?q q'" "abs_rod q' = spec_drain (abs_rod ?q)"
    "head q' = head q + 1 + k" "hd (win q') = None" by auto
  moreover have "spec_drain (abs_rod ?q) = spec_drain (abs_rod q)"
    using a k Suc.hyps(2) by (simp add: spec_drain_def spec_slides_def flip: funpow_swap1 Suc.hyps(2))
  ultimately show ?case using f Suc.hyps(2) by (auto intro: same_frame_trans)
qed

section \<open>Every operation returns, inside the array, and keeps the invariant\<close>

definition delivers :: "'p reordering_queue \<Rightarrow> 'p reordering_queue \<Rightarrow> bool" where
  "delivers q q' \<longleftrightarrow> (\<exists>out. sent_up q' = sent_up q @ out \<and>
     mset out + mset (somes (nbuf q')) = mset (somes (nbuf q)))"

lemma delivers_refl [simp]: "delivers q q"
  by (auto simp: delivers_def)

lemma delivers_trans: "delivers q q1 \<Longrightarrow> delivers q1 q2 \<Longrightarrow> delivers q q2"
  by (auto simp: delivers_def ac_simps)

lemma sent_up_slides:
  assumes "rod_slots q"
  shows "sw_out (spec_slides n (abs_rod q)) = sent_up q @ somes (take n (win q))"
  using abs_rod_wf [OF assms] by (simp add: spec_slides_eq)

lemma mset_slides:
  assumes "rod_slots q"
  shows "mset (somes (take n (win q))) + mset (somes (sw_win (spec_slides n (abs_rod q)))) =
    mset (somes (nbuf q))"
proof -
  have "sent_up q @ somes (take n (win q)) @ somes (sw_win (spec_slides n (abs_rod q))) =
        sent_up q @ somes (win q)"
    using abs_rod_wf [OF assms] spec_slides_stream [of "abs_rod q" n] sent_up_slides [OF assms, of n]
    by simp
  then have "mset (somes (take n (win q)) @ somes (sw_win (spec_slides n (abs_rod q)))) =
             mset (somes (win q))" by simp
  then show ?thesis using mset_somes_win [OF assms] by simp
qed

lemma rod_move_window_ok:
  assumes "rod_slots q" "head q + n < 2 ^ 32"
  shows "\<exists>q'. rod_move_window now q n = Inr q' \<and> rod_slots q' \<and> same_frame q q' \<and>
    head q' = (head q + n) mod 4096 \<and> delivers q q'"
proof -
  from rod_move_window_slides [OF assms, of now] obtain q' where
    m: "rod_move_window now q n = Inr q'" "rod_slots q'" "same_frame q q'"
    "head q' = (head q + n) mod 4096" "sent_up q' = sw_out (spec_slides n (abs_rod q))"
    "mset (somes (win q')) = mset (somes (sw_win (spec_slides n (abs_rod q))))" by blast
  from m have "delivers q q'"
    using mset_slides [OF assms(1), of n] mset_somes_win [OF m(2)] sent_up_slides [OF assms(1), of n]
    by (auto simp: delivers_def)
  with m show ?thesis by blast
qed

lemma retire_rod_queue_drains:
  assumes "rod_slots q" "head q < 4096"
  shows "\<exists>q' n. retire_rod_queue now q = Some (Inr (q', n)) \<and> rod_slots q' \<and> same_frame q q' \<and>
    head q' < 4096 \<and> delivers q q' \<and> (window_ok q \<longrightarrow> abs_rod q' = spec_drain (abs_rod q) \<and> hd (win q') = None)"
proof -
  have "ready (abs_rod q) \<le> 64"
    using length_takeWhile_le [of _ "win q"] assms by (auto simp: ready_def rod_slots_def intro: le_trans)
  with assms have "head q + ready (abs_rod q) < 2 ^ 32" by simp
  from retire_rod_loop_drains [OF assms(1) this, of now 0] obtain q' where
    r: "retire_rod_loop now q (head q mod window_size q) 0 = Some (Inr (q', ready (abs_rod q)))"
    "rod_slots q'" "same_frame q q'" "abs_rod q' = spec_drain (abs_rod q)" "hd (win q') = None" by auto
  let ?q = "q'\<lparr>head := head q' mod 4096\<rparr>"
  have "sent_up q' = sent_up q @ somes (take (ready (abs_rod q)) (win q))"
    using r(4) sent_up_slides [OF assms(1)] by (metis abs_rod_sel(3) spec_drain_def)
  moreover have "mset (somes (nbuf q')) = mset (somes (sw_win (spec_slides (ready (abs_rod q)) (abs_rod q))))"
    using mset_somes_win [OF r(2)] r(4) by (metis abs_rod_sel(2) spec_drain_def)
  ultimately have "delivers q ?q"
    using mset_slides [OF assms(1), of "ready (abs_rod q)"] by (auto simp: delivers_def)
  moreover have "window_ok q \<Longrightarrow> abs_rod ?q = spec_drain (abs_rod q) \<and> hd (win ?q) = None"
    using r win_head_mod [of q'] abs_rod_head_mod [of q'] by (auto simp: window_ok_def same_frame_def)
  ultimately show ?thesis using assms r
    by (auto simp: retire_rod_queue_def SEQUENCE_NUMBER_LIMIT_def rod_slots_def same_frame_def)
qed

text \<open>
  Flushing returns for every window size up to 64: the slots are visited in turn, and even when
  the head wraps to 0 in between, the next \<open>window_size\<close> steps visit all of them.
\<close>

definition flush_result :: "u32 \<Rightarrow> 'p reordering_queue \<Rightarrow> 'p reordering_queue \<Rightarrow> bool" where
  "flush_result now q q' \<longleftrightarrow> mtlk_flush_rod_queue now q = Some (Inr q') \<and> rod_slots q' \<and> count q' = 0 \<and>
     head q' < 4096 \<and> same_frame q q' \<and> delivers q q' \<and>
     (window_ok q \<longrightarrow> (\<exists>k. abs_rod q' = spec_slides k (abs_rod q)))"

lemma flush_done:
  "rod_slots q \<Longrightarrow> head q < 4096 \<Longrightarrow> count q = 0 \<Longrightarrow> flush_result now q q"
  unfolding flush_result_def
  by (subst mtlk_flush_rod_queue.simps) (auto simp: spec_slides_def intro: exI [of _ 0])

lemma flush_step:
  assumes "rod_slots q" "head q < 4096" "count q \<noteq> 0"
  shows "\<exists>q1. rod_slots q1 \<and> head q1 = (head q + 1) mod 4096 \<and> window_size q1 = window_size q \<and>
    (head q + 1 < 4096 \<longrightarrow> win q1 = tl (win q) @ [None]) \<and>
    (\<forall>q'. flush_result now q1 q' \<longrightarrow> flush_result now q q')"
proof -
  have h: "head q + 1 < 2 ^ 32" using assms by simp
  from rod_move_window_slides [OF assms(1) h, of now] obtain q1 where
    m: "rod_move_window now q 1 = Inr q1" "rod_slots q1" "same_frame q q1" "head q1 = (head q + 1) mod 4096"
    "window_ok q \<or> head q + 1 < 4096 \<longrightarrow> abs_rod q1 = spec_slides 1 (abs_rod q)" by blast
  from rod_move_window_ok [OF assms(1) h, of now] m(1) have d: "delivers q q1" by auto
  have eq: "mtlk_flush_rod_queue now q = mtlk_flush_rod_queue now q1"
    using assms(3) m(1) by (subst mtlk_flush_rod_queue.simps) simp
  have "win q1 = tl (win q) @ [None]" if "head q + 1 < 4096"
  proof -
    from that m(5) have "abs_rod q1 = slide (abs_rod q)" by (simp add: spec_slides_def)
    then have "sw_win (abs_rod q1) = sw_win (slide (abs_rod q))" by simp
    then show ?thesis by (simp add: slide_def)
  qed
  moreover have "flush_result now q q'" if r: "flush_result now q1 q'" for q'
  proof -
    have "\<exists>k. abs_rod q' = spec_slides k (abs_rod q)" if "window_ok q"
    proof -
      from that m(3) have "window_ok q1" by (simp add: window_ok_def same_frame_def)
      with r obtain k where "abs_rod q' = spec_slides k (abs_rod q1)" by (auto simp: flush_result_def)
      also have "\<dots> = spec_slides (k + 1) (abs_rod q)"
        using m(5) that by (simp add: spec_slides_def funpow_swap1)
      finally show ?thesis by blast
    qed
    with r eq d m(3) show ?thesis
      by (auto simp: flush_result_def intro: delivers_trans same_frame_trans)
  qed
  ultimately show ?thesis using m by (auto simp: same_frame_def)
qed

lemma flush_no_wrap:
  assumes "rod_slots q" "head q + m < 4096" "somes (drop m (win q)) = []"
  shows "\<exists>q'. flush_result now q q'"
  using assms
proof (induction m arbitrary: q)
  case 0
  then have "count q = 0" by (simp add: somes_win_empty)
  with 0 flush_done [of q now] show ?case by auto
next
  case (Suc m)
  show ?case
  proof (cases "count q = 0")
    case True
    with Suc.prems flush_done [of q now] show ?thesis by auto
  next
    case False
    with Suc.prems flush_step [of q now] obtain q1 where
      q1: "rod_slots q1" "head q1 = head q + 1" "win q1 = tl (win q) @ [None]"
      "\<forall>q'. flush_result now q1 q' \<longrightarrow> flush_result now q q'" by auto
    have "drop m (win q1) = drop (Suc m) (win q) @ drop (m - length (tl (win q))) [None]"
      using q1(3) by (simp add: drop_Suc)
    moreover have "somes (drop (m - length (tl (win q))) [None]) = []"
      by (cases "m - length (tl (win q))") auto
    ultimately have "somes (drop m (win q1)) = []" using Suc.prems(3) by simp
    with Suc.IH [OF q1(1)] q1 Suc.prems(2) show ?thesis by auto
  qed
qed

lemma flush_returns:
  assumes "rod_slots q" "head q < 4096"
  shows "\<exists>q'. flush_result now q q'"
  using assms
proof (induction "4096 - head q" arbitrary: q rule: less_induct)
  case less
  show ?case
  proof (cases "head q + window_size q < 4096 \<or> count q = 0")
    case True
    then show ?thesis
      using less.prems flush_done [of q now] flush_no_wrap [of q "window_size q" now] by auto
  next
    case False
    with less.prems flush_step [of q now] obtain q1 where
      q1: "rod_slots q1" "head q1 = (head q + 1) mod 4096" "window_size q1 = window_size q"
      "\<forall>q'. flush_result now q1 q' \<longrightarrow> flush_result now q q'" by auto
    have "\<exists>q'. flush_result now q1 q'"
    proof (cases "head q + 1 < 4096")
      case True
      with q1 have "4096 - head q1 < 4096 - head q" "head q1 < 4096" by auto
      with less.hyps q1(1) show ?thesis by blast
    next
      case h: False
      with less.prems have "head q + 1 = 4096" by simp
      with q1 have "head q1 = 0" by simp
      moreover have "window_size q1 < 4096" using q1(1) by (simp add: rod_slots_def)
      ultimately show ?thesis using flush_no_wrap [of q1 "window_size q1" now] q1(1) by auto
    qed
    with q1(4) show ?thesis by blast
  qed
qed

end
