(* ===== verification/Rod_Window.thy ===== *)
theory Rod_Window
  imports Rod
begin

text \<open>
  Correctness of the receive reordering queue of \<^verbatim>\<open>wireless/driver/shared/rod.c\<close> against the
  abstract sliding window: every operation returns without leaving the array and keeps
  \<open>rod_inv\<close>, the operations refine \<open>spec_reorder\<close> and \<open>spec_bar\<close>, no MSDU is lost or delivered
  twice, delivery is in sequence order, and the two conditions on the window size that these
  results need are shown to be necessary.
\<close>

section \<open>Inserting an MSDU\<close>

lemma SEQ_DISTANCE_eq:
  assumes "h < 4096" "s < 4096"
  shows "SEQ_DISTANCE h s = (s + 4096 - h) mod 4096"
proof -
  have e: "int s - int h + 4096 = int (s + 4096 - h)" using assms by simp
  have "int (s + 4096 - h) mod 2 ^ 32 = int (s + 4096 - h)" using assms by simp
  then show ?thesis unfolding SEQ_DISTANCE_def SEQUENCE_NUMBER_LIMIT_def by (simp add: e)
qed

lemma SEQ_DISTANCE_less: "SEQ_DISTANCE h s < 4096"
  by (simp add: SEQ_DISTANCE_def SEQUENCE_NUMBER_LIMIT_def)

lemma seq_dist_add:
  assumes "h < 4096" "s < 4096"
  shows "(h + (s + 4096 - h) mod 4096) mod 4096 = (s::nat)"
proof -
  have "(h + (s + 4096 - h) mod 4096) mod 4096 = (h + (s + 4096 - h)) mod 4096"
    by (simp add: mod_add_right_eq)
  also have "h + (s + 4096 - h) = s + 4096" using assms by simp
  finally show ?thesis using assms by simp
qed

lemma seq_slot:
  assumes "w dvd 4096" "h < 4096" "s < 4096"
  shows "s mod w = (h + (s + 4096 - h) mod 4096) mod (w::nat)"
  using seq_dist_add [OF assms(2,3)] mod_mod_cancel [OF assms(1)] by metis

text \<open>Storing into position \<open>d\<close> of the window is an update of one slot.\<close>

lemma win_insert:
  assumes "rod_slots q" "d < window_size q"
  shows "win (q\<lparr>nbuf := (nbuf q)[(head q + d) mod window_size q := v], count := c, stats := st\<rparr>) =
    (win q)[d := v]"
proof (rule nth_equalityI)
  fix j assume "j < length (win (q\<lparr>nbuf := (nbuf q)[(head q + d) mod window_size q := v], count := c, stats := st\<rparr>))"
  then have j: "j < window_size q" by simp
  have lt: "(head q + d) mod window_size q < length (nbuf q)"
    using assms by (auto simp: rod_slots_def mod_less_bound)
  show "win (q\<lparr>nbuf := (nbuf q)[(head q + d) mod window_size q := v], count := c, stats := st\<rparr>) ! j =
    (win q)[d := v] ! j"
  proof (cases "j = d")
    case True
    with j lt show ?thesis by (simp add: nth_win)
  next
    case False
    then have "(head q + d) mod window_size q \<noteq> (head q + j) mod window_size q"
      using mod_add_inj [of "head q" d "window_size q" j] assms(2) j by auto
    with j False show ?thesis by (simp add: nth_win)
  qed
qed simp

lemma rod_slots_insert:
  assumes "rod_slots q" "loc < window_size q" "nbuf q ! loc = None"
  shows "rod_slots (q\<lparr>nbuf := (nbuf q)[loc := Some p], count := inc32 (count q), stats := st\<rparr>)"
proof -
  have l: "loc < length (nbuf q)" using assms by (simp add: rod_slots_def)
  have "count q \<le> 64" using rod_count_bound [OF assms(1)] assms(1) by (simp add: rod_slots_def)
  then have "inc32 (count q) = Suc (count q)" by (simp add: inc32_eq)
  with assms l show ?thesis
    by (simp add: rod_slots_def length_somes_insert drop_update_cancel)
qed

text \<open>
  Outcome of one operation on a live queue: where the MSDU \<open>p\<close> went. Everything buffered or new
  is handed up, freed or still buffered, exactly once.
\<close>

definition accounts :: "'p reordering_queue \<Rightarrow> 'p multiset \<Rightarrow> 'p reordering_queue \<Rightarrow> bool" where
  "accounts q new q' \<longleftrightarrow> (\<exists>out drp. sent_up q' = sent_up q @ out \<and> freed q' = freed q @ drp \<and>
     mset out + mset drp + mset (somes (nbuf q')) = mset (somes (nbuf q)) + new)"

lemma accounts_delivers: "delivers q q' \<Longrightarrow> freed q' = freed q \<Longrightarrow> accounts q {#} q'"
  by (auto simp: accounts_def delivers_def)

lemma accounts_trans:
  "accounts q a q1 \<Longrightarrow> accounts q1 b q2 \<Longrightarrow> accounts q (a + b) q2"
proof -
  assume "accounts q a q1" "accounts q1 b q2"
  then obtain o1 d1 o2 d2 where
    "sent_up q1 = sent_up q @ o1" "freed q1 = freed q @ d1"
    "mset o1 + mset d1 + mset (somes (nbuf q1)) = mset (somes (nbuf q)) + a"
    "sent_up q2 = sent_up q1 @ o2" "freed q2 = freed q1 @ d2"
    "mset o2 + mset d2 + mset (somes (nbuf q2)) = mset (somes (nbuf q1)) + b"
    by (auto simp: accounts_def)
  then have "sent_up q2 = sent_up q @ (o1 @ o2) \<and> freed q2 = freed q @ (d1 @ d2) \<and>
    mset (o1 @ o2) + mset (d1 @ d2) + mset (somes (nbuf q2)) = mset (somes (nbuf q)) + (a + b)"
    by simp (metis (no_types, lifting) add.assoc add.commute)
  then show ?thesis unfolding accounts_def by blast
qed

lemma accounts_refl [simp]: "accounts q {#} q"
  by (simp add: accounts_def)

text \<open>What storing an MSDU and retiring the ready run achieves, on either branch.\<close>

definition inserted ::
  "nat \<Rightarrow> 'p \<Rightarrow> 'p reordering_queue \<Rightarrow> 'p reordering_queue \<Rightarrow> bool" where
  "inserted seq p q q' \<longleftrightarrow> rod_slots q' \<and> head q' < 4096 \<and> used q' = used q \<and>
     window_size q' = window_size q \<and> accounts q {#p#} q' \<and>
     (window_ok q \<longrightarrow> nbuf q ! (seq mod window_size q) = None \<or> hd (win q) = None \<longrightarrow> hd (win q') = None) \<and>
     (window_ok q \<longrightarrow> (\<forall>d. d < window_size q \<longrightarrow> seq mod window_size q = (head q + d) mod window_size q \<longrightarrow>
        abs_rod q' = spec_insert (abs_rod q) d p))"

lemma rod_insert_free:
  assumes "rod_slots q" "head q < 4096" "nbuf q ! (seq mod window_size q) = None"
  shows "\<exists>q'. rod_insert now q seq p = Some (Inr (q', True)) \<and> inserted seq p q q'"
proof -
  let ?loc = "seq mod window_size q"
  let ?q = "q\<lparr>nbuf := (nbuf q)[?loc := Some p], count := inc32 (count q),
              stats := (stats q)\<lparr>queued := queued (stats q) + 1\<rparr>\<rparr>"
  have w: "0 < window_size q" "?loc < window_size q" "?loc < length (nbuf q)"
    using assms by (auto simp: rod_slots_def mod_less_bound)
  have s: "rod_slots ?q" by (rule rod_slots_insert [OF assms(1) w(2) assms(3)])
  from retire_rod_queue_drains [OF s, of now] assms(2) obtain q' n where
    r: "retire_rod_queue now ?q = Some (Inr (q', n))" "rod_slots q'" "same_frame ?q q'" "head q' < 4096"
    "delivers ?q q'" "window_ok ?q \<longrightarrow> abs_rod q' = spec_drain (abs_rod ?q) \<and> hd (win q') = None"
    by auto
  have "accounts q {#p#} ?q"
    using w assms(3) by (simp add: accounts_def mset_somes_insert)
  moreover have "accounts ?q {#} q'" using r(3,5) by (auto simp: same_frame_def intro!: accounts_delivers)
  ultimately have "accounts q {#p#} q'" using accounts_trans by fastforce
  moreover have "abs_rod q' = spec_insert (abs_rod q) d p"
    if "window_ok q" "d < window_size q" "?loc = (head q + d) mod window_size q" for d
  proof -
    have "win ?q = (win q)[d := Some p]" using win_insert [OF assms(1) that(2)] that(3) by simp
    then have "abs_rod ?q = (abs_rod q)\<lparr>sw_win := (win q)[d := Some p]\<rparr>" by (simp add: abs_rod_def)
    moreover have "win q ! d = None" using that assms(3) by (simp add: nth_win)
    ultimately show ?thesis using r(6) that(1) by (simp add: spec_insert_def window_ok_def)
  qed
  ultimately show ?thesis using r w assms
    by (auto simp: rod_insert_def Let_def inserted_def same_frame_def window_ok_def)
qed

lemma rod_insert_duplicate:
  assumes "rod_slots q" "head q < 4096" "nbuf q ! (seq mod window_size q) \<noteq> None"
  shows "\<exists>q'. rod_insert now q seq p = Some (Inr (q', True)) \<and> inserted seq p q q'"
proof -
  let ?q = "mtlk_rod_inc_cnt
            (q\<lparr>freed := freed q @ [p], stats := (stats q)\<lparr>duplicate := duplicate (stats q) + 1\<rparr>\<rparr>)
            MTLK_ROD_CNT_RX_PACKETS_DISCARDED_DRV_DUPLICATE"
  have w: "window_size q \<noteq> 0" "seq mod window_size q < length (nbuf q)"
    using assms by (auto simp: rod_slots_def mod_less_bound)
  have "win ?q = win q" by (simp add: win_def mtlk_rod_inc_cnt_def)
  moreover have "abs_rod ?q = spec_insert (abs_rod q) d p"
    if "d < window_size q" "seq mod window_size q = (head q + d) mod window_size q" for d
    using that assms(3) calculation nth_win [of d q]
    by (auto simp: spec_insert_def abs_rod_def mtlk_rod_inc_cnt_def)
  moreover have "rod_insert now q seq p = Some (Inr (?q, True))"
    using assms(3) w by (auto simp: rod_insert_def Let_def)
  ultimately show ?thesis using assms
    by (auto simp: inserted_def mtlk_rod_inc_cnt_def rod_slots_def accounts_def)
qed

lemma rod_insert_ok:
  assumes "rod_slots q" "head q < 4096"
  shows "\<exists>q'. rod_insert now q seq p = Some (Inr (q', True)) \<and> inserted seq p q q'"
  using rod_insert_free [OF assms] rod_insert_duplicate [OF assms] by blast

section \<open>The public operations\<close>

lemma mod_add_mod_dvd: "w dvd n \<Longrightarrow> (a mod n + b) mod w = (a + b) mod (w::nat)"
  by (metis mod_add_left_eq mod_mod_cancel)

lemma rod_inv_live:
  "used q \<Longrightarrow> rod_inv q \<longleftrightarrow> rod_slots q \<and> head q < 4096 \<and> (window_ok q \<longrightarrow> hd (win q) = None)"
  using hd_win [of q] by (auto simp: rod_inv_def rod_slots_def)

lemma rod_inv_liveD:
  "rod_inv q \<Longrightarrow> used q \<Longrightarrow> rod_slots q"  "rod_inv q \<Longrightarrow> head q < 4096"
  "rod_inv q \<Longrightarrow> used q \<Longrightarrow> window_ok q \<Longrightarrow> hd (win q) = None"
  using rod_inv_live [of q] by (auto simp: rod_inv_def)

lemma rod_slots_stats [simp]: "rod_slots (q\<lparr>stats := st\<rparr>) = rod_slots q"
  by (simp add: rod_slots_def)

lemma abs_rod_stats [simp]: "abs_rod (q\<lparr>stats := st\<rparr>) = abs_rod q" "win (q\<lparr>stats := st\<rparr>) = win q"
  by (simp_all add: abs_rod_def win_def)

lemma window_ok_stats [simp]: "window_ok (q\<lparr>stats := st\<rparr>) = window_ok q"
  by (simp add: window_ok_def)

lemma window_ok_frame: "same_frame q q' \<Longrightarrow> window_ok q' = window_ok q"
  by (simp add: window_ok_def same_frame_def)

definition reordered :: "nat \<Rightarrow> 'p \<Rightarrow> 'p reordering_queue \<Rightarrow> 'p reordering_queue \<Rightarrow> bool" where
  "reordered seq p q q' \<longleftrightarrow> rod_inv q' \<and> used q' = used q \<and> window_size q' = window_size q \<and>
     accounts q {#p#} q' \<and> (used q \<longrightarrow> window_ok q \<longrightarrow> abs_rod q' = spec_reorder (abs_rod q) seq p)"

lemma reorder_unused:
  assumes "rod_inv q" "\<not> used q"
  shows "reordered seq p q (q\<lparr>sent_up := sent_up q @ [p]\<rparr>)"
  using assms by (auto simp: reordered_def rod_inv_def accounts_def)

lemma reorder_too_old:
  assumes "rod_inv q" "used q" "seq < 4096" "SEQ_DISTANCE (head q) seq > 2048"
  shows "reordered seq p q (mtlk_rod_inc_cnt (q\<lparr>freed := freed q @ [p], stats := st\<rparr>) i)"
proof -
  let ?q = "mtlk_rod_inc_cnt (q\<lparr>freed := freed q @ [p], stats := st\<rparr>) i"
  have h: "head q < 4096" using assms(1) by (simp add: rod_inv_def)
  have "abs_rod ?q = spec_reorder (abs_rod q) seq p"
    using assms(4) h SEQ_DISTANCE_eq [OF h assms(3)]
    by (simp add: spec_reorder_def Let_def abs_rod_def win_def mtlk_rod_inc_cnt_def)
  with assms show ?thesis
    by (simp add: reordered_def rod_inv_def rod_slots_def window_ok_def accounts_def mtlk_rod_inc_cnt_def)
qed

lemma reorder_in_window:
  assumes "rod_inv q" "used q" "seq < 4096" "SEQ_DISTANCE (head q) seq < window_size q"
  shows "\<exists>q'. rod_insert now q seq p = Some (Inr (q', True)) \<and> reordered seq p q q'"
proof -
  note I = rod_inv_liveD [OF assms(1)]
  let ?d = "SEQ_DISTANCE (head q) seq"
  have h: "head q < 4096" by (rule I(2))
  have d: "?d = (seq + 4096 - head q) mod 4096" by (rule SEQ_DISTANCE_eq [OF h assms(3)])
  have slots: "rod_slots q" by (rule I(1) [OF assms(2)])
  obtain q' where q': "rod_insert now q seq p = Some (Inr (q', True))" "inserted seq p q q'"
    using rod_insert_ok [OF slots h] by blast
  have le: "?d \<le> 2048" using assms(4) slots by (simp add: rod_slots_def)
  have ok: "hd (win q') = None \<and> abs_rod q' = spec_reorder (abs_rod q) seq p" if w: "window_ok q"
  proof -
    have "seq mod window_size q = (head q + ?d) mod window_size q"
      using seq_slot [OF _ h assms(3)] w d by (simp add: window_ok_def)
    then have "abs_rod q' = spec_insert (abs_rod q) ?d p"
      using q'(2) w assms(4) by (simp add: inserted_def)
    then show ?thesis using q'(2) w I(3) [OF assms(2) w] assms(4) le d h
      by (simp add: inserted_def spec_reorder_def Let_def)
  qed
  have "window_ok q' = window_ok q" "used q'" using q'(2) assms(2) by (simp_all add: inserted_def window_ok_def)
  then show ?thesis using q' ok assms(2)
    by (auto simp: reordered_def inserted_def rod_inv_live)
qed

lemma reorder_overflow:
  assumes "rod_inv q" "used q" "seq < 4096" "window_size q \<le> SEQ_DISTANCE (head q) seq"
    "SEQ_DISTANCE (head q) seq \<le> 2048"
  shows "\<exists>q1 q'. rod_move_window now (q\<lparr>stats := st\<rparr>) (SEQ_DISTANCE (head q) seq - window_size q + 1) = Inr q1 \<and>
    rod_insert now q1 seq p = Some (Inr (q', True)) \<and> reordered seq p q q'"
proof -
  note I = rod_inv_liveD [OF assms(1)]
  let ?d = "SEQ_DISTANCE (head q) seq" and ?w = "window_size q"
  let ?n = "?d - ?w + 1"
  have h: "head q < 4096" by (rule I(2))
  have d: "?d = (seq + 4096 - head q) mod 4096" by (rule SEQ_DISTANCE_eq [OF h assms(3)])
  have slots: "rod_slots q" by (rule I(1) [OF assms(2)])
  have slots': "rod_slots (q\<lparr>stats := st\<rparr>)" using slots by simp
  have hn: "head (q\<lparr>stats := st\<rparr>) + ?n < 2 ^ 32" using h assms(5) by simp
  from rod_move_window_slides [OF slots' hn, of now] obtain q1 where
    m: "rod_move_window now (q\<lparr>stats := st\<rparr>) ?n = Inr q1" "rod_slots q1"
    and m0: "same_frame (q\<lparr>stats := st\<rparr>) q1" "head q1 = (head (q\<lparr>stats := st\<rparr>) + ?n) mod 4096"
      "window_ok (q\<lparr>stats := st\<rparr>) \<or> head (q\<lparr>stats := st\<rparr>) + ?n < 4096 \<longrightarrow>
        abs_rod q1 = spec_slides ?n (abs_rod (q\<lparr>stats := st\<rparr>))" by blast
  from m0 have m1: "same_frame q q1" "head q1 = (head q + ?n) mod 4096"
    "window_ok q \<longrightarrow> abs_rod q1 = spec_slides ?n (abs_rod q)" by (simp_all add: same_frame_def)
  have "delivers (q\<lparr>stats := st\<rparr>) q1" using rod_move_window_ok [OF slots' hn, of now] m(1) by auto
  then have m2: "delivers q q1" by (simp add: delivers_def)
  note m = m m1(1,2) m2 m1(3)
  have h1: "head q1 < 4096" using m(4) by simp
  have w1: "window_size q1 = ?w" "used q1" using m(3) assms(2) by (simp_all add: same_frame_def)
  obtain q' where q': "rod_insert now q1 seq p = Some (Inr (q', True))" "inserted seq p q1 q'"
    using rod_insert_ok [OF m(2) h1] by blast
  have ok: "hd (win q') = None \<and> abs_rod q' = spec_reorder (abs_rod q) seq p" if w: "window_ok q"
  proof -
    have w0: "0 < ?w" using slots by (simp add: rod_slots_def)
    have "sw_win (abs_rod q1) = sw_win (spec_slides ?n (abs_rod q))" using m(6) w by simp
    then have "win q1 = drop ?n (win q) @ replicate (min ?n ?w) None"
      using abs_rod_wf [OF slots] spec_slides_eq [of "abs_rod q" ?n] by simp
    then have last: "win q1 ! (?w - 1) = None" using w0
      by (auto simp: nth_append)
    have "seq mod ?w = (head q + ?d) mod ?w"
      using seq_slot [OF _ h assms(3)] w d by (simp add: window_ok_def)
    also have "head q + ?d = head q + ?n + (?w - 1)" using assms(4) w0 by simp
    also have "\<dots> mod ?w = (head q1 + (?w - 1)) mod ?w"
      using m(4) w mod_add_mod_dvd [of ?w 4096 "head q + ?n" "?w - 1"] by (simp add: window_ok_def)
    finally have pos: "seq mod ?w = (head q1 + (?w - 1)) mod ?w" .
    then have free: "nbuf q1 ! (seq mod ?w) = None"
      using last nth_win [of "?w - 1" q1] w1 w0 by simp
    have wq1: "window_ok q1" using w window_ok_frame [OF m(3)] by simp
    have "abs_rod q' = spec_insert (abs_rod q1) (?w - 1) p"
      using q'(2) wq1 pos w1 w0 by (simp add: inserted_def)
    then show ?thesis using q'(2) wq1 w free w1 m(6) d assms(4,5) h
      by (simp add: inserted_def spec_reorder_def Let_def)
  qed
  have "accounts q {#} q1" using m(3,5) by (auto simp: same_frame_def intro: accounts_delivers)
  then have "accounts q ({#} + {#p#}) q'" by (rule accounts_trans) (use q'(2) in \<open>simp add: inserted_def\<close>)
  moreover have "window_ok q' = window_ok q" "used q'" "window_size q' = ?w"
    using q'(2) w1 by (simp_all add: inserted_def window_ok_def)
  moreover have "rod_slots q'" "head q' < 4096" using q'(2) by (simp_all add: inserted_def)
  ultimately have "reordered seq p q q'" using ok assms(2) by (simp add: reordered_def rod_inv_live)
  then show ?thesis using q'(1) m(1) by blast
qed

lemma reorder_returns:
  assumes "rod_inv q" "seq < 4096"
  shows "\<exists>q'. mtlk_reorder_packet now q seq p = Some (Inr (q', used q)) \<and> reordered seq p q q'"
proof (cases "used q")
  case False
  with reorder_unused [OF assms(1)] show ?thesis by (auto simp: mtlk_reorder_packet_def)
next
  case True
  let ?d = "SEQ_DISTANCE (head q) seq"
  consider "?d > 2048" | "?d < window_size q" "?d \<le> 2048" | "window_size q \<le> ?d" "?d \<le> 2048" by linarith
  then show ?thesis
  proof cases
    case 1
    then show ?thesis using True reorder_too_old [OF assms(1) True assms(2)]
      by (simp add: mtlk_reorder_packet_def SEQUENCE_NUMBER_LIMIT_def Let_def)
  next
    case 2
    then show ?thesis using True reorder_in_window [OF assms(1) True assms(2) 2(1), of now p]
      by (auto simp: mtlk_reorder_packet_def SEQUENCE_NUMBER_LIMIT_def Let_def)
  next
    case 3
    then show ?thesis
      using True reorder_overflow [OF assms(1) True assms(2) 3, of now "(stats q)\<lparr>overflows := overflows (stats q) + 1\<rparr>" p]
      by (auto simp: mtlk_reorder_packet_def SEQUENCE_NUMBER_LIMIT_def Let_def)
  qed
qed

lemma rod_inv_flushed:
  assumes "used q" "flush_result now q q'"
  shows "rod_inv q'"
proof -
  have "somes (win q') = []" using assms(2) somes_win_empty [of q'] by (simp add: flush_result_def)
  moreover have "win q' \<noteq> []" using assms(2) abs_rod_wf [of q'] by (simp add: flush_result_def)
  ultimately have "hd (win q') = None" by (cases "win q'") (auto simp: somes_Nil_iff)
  then show ?thesis using assms by (simp add: flush_result_def rod_inv_live same_frame_def)
qed

text \<open>What a flush leaves: nothing buffered, everything that was buffered handed up.\<close>

definition flushed :: "'p reordering_queue \<Rightarrow> 'p reordering_queue \<Rightarrow> bool" where
  "flushed q q' \<longleftrightarrow> rod_inv q' \<and> count q' = 0 \<and> somes (nbuf q') = [] \<and> freed q' = freed q \<and>
     window_size q' = window_size q \<and>
     (\<exists>out. sent_up q' = sent_up q @ out \<and> mset out = mset (somes (nbuf q)) \<and>
       (window_ok q \<longrightarrow> used q \<longrightarrow> out = somes (win q)))"

lemma flush_stream:
  assumes "rod_slots q" "flush_result now q q'" "window_ok q"
  shows "sent_up q' = sent_up q @ somes (win q)"
proof -
  from assms obtain k where k: "abs_rod q' = spec_slides k (abs_rod q)" by (auto simp: flush_result_def)
  have "somes (win q') = []" using assms(2) somes_win_empty [of q'] by (simp add: flush_result_def)
  moreover have "sw_out (abs_rod q') @ somes (sw_win (abs_rod q')) = sent_up q @ somes (win q)"
    unfolding k using spec_slides_stream [of "abs_rod q" k] abs_rod_wf [OF assms(1)] by simp
  ultimately show ?thesis by simp
qed

lemma flush_used:
  assumes "rod_inv q" "used q"
  shows "\<exists>q'. mtlk_flush_rod_queue now q = Some (Inr q') \<and> flushed q q' \<and> used q'"
proof -
  have s: "rod_slots q" "head q < 4096" using assms rod_inv_liveD by blast+
  then obtain q' where r: "flush_result now q q'" using flush_returns by blast
  have e: "somes (nbuf q') = []" using r by (auto simp: flush_result_def rod_slots_def)
  obtain out where out: "sent_up q' = sent_up q @ out" "mset out = mset (somes (nbuf q))"
    using r e by (auto simp: flush_result_def delivers_def)
  have "window_ok q \<longrightarrow> out = somes (win q)" using flush_stream [OF s(1) r] out(1) by simp
  with r e out rod_inv_flushed [OF assms(2) r] assms(2) show ?thesis
    by (auto simp: flushed_def flush_result_def same_frame_def)
qed

lemma clear_returns:
  assumes "rod_inv q"
  shows "\<exists>q'. mtlk_clear_rod_queue now q = Some (Inr q') \<and> flushed q q' \<and> \<not> used q'"
proof (cases "used q")
  case True
  from flush_used [OF assms True, of now] obtain q' where
    "mtlk_flush_rod_queue now q = Some (Inr q')" "flushed q q'" "used q'" by blast
  then show ?thesis using True by (auto simp: mtlk_clear_rod_queue_def flushed_def rod_inv_def)
next
  case False
  then show ?thesis using assms by (auto simp: mtlk_clear_rod_queue_def flushed_def rod_inv_def)
qed

lemma timer_returns:
  assumes "rod_inv q"
  shows "\<exists>q'. mtlk_handle_rod_queue_timer tmo now q = Some (Inr q') \<and> rod_inv q' \<and> (q' = q \<or> flushed q q')"
proof (cases "used q")
  case True
  from flush_used [OF assms True, of now] obtain q' where
    "mtlk_flush_rod_queue now q = Some (Inr q')" "flushed q q'" "used q'" by blast
  then show ?thesis using assms by (auto simp: mtlk_handle_rod_queue_timer_def flushed_def)
next
  case False
  then show ?thesis using assms by (simp add: mtlk_handle_rod_queue_timer_def)
qed

lemma create_on_empty:
  assumes "length (nbuf q) = 64" "somes (nbuf q) = []" "1 \<le> w" "w \<le> 64" "ssn < 4096"
  shows "rod_inv (q\<lparr>used := True, count := 0, head := ssn, window_size := w, last_sent := a,
    last_rx_time := b, stats := zero_stats, wss_cntrs := (\<lambda>_. 0)\<rparr>)"
proof -
  have "nbuf q ! j = None" if "j < 64" for j
    using assms(1,2) that by (metis nth_mem somes_Nil_iff)
  moreover have "ssn mod w < 64" using assms by (simp add: mod_less_bound)
  moreover have "\<forall>x\<in>set (drop w (nbuf q)). x = None"
    using assms(2) by (meson in_set_dropD somes_Nil_iff)
  ultimately show ?thesis using assms by (simp add: rod_inv_def rod_slots_def)
qed

lemma create_returns:
  assumes "rod_inv q" "1 \<le> w" "w \<le> 64" "ssn < 4096"
  shows "\<exists>q' e. mtlk_create_rod_queue now now_ms wss_ok cr q w ssn = Some (Inr (q', e)) \<and> rod_inv q' \<and>
    (e = MTLK_ERR_OK \<longrightarrow> used q' \<and> head q' = ssn \<and> window_size q' = w \<and> count q' = 0) \<and>
    accounts q {#} q'"
proof -
  obtain q1 where q1: "(if used q then mtlk_flush_rod_queue now q else Some (Inr q)) = Some (Inr q1)"
    "flushed q q1"
  proof (cases "used q")
    case True
    with flush_used [OF assms(1) True, of now] that show ?thesis by auto
  next
    case False
    then have "flushed q q" using assms(1) by (simp add: flushed_def rod_inv_def)
    with False that show ?thesis by auto
  qed
  have a: "accounts q {#} q1" using q1(2) by (auto simp: flushed_def accounts_def)
  have l: "length (nbuf q1) = 64" "somes (nbuf q1) = []" "rod_inv q1"
    using q1(2) by (auto simp: flushed_def rod_inv_def)
  note c = create_on_empty [OF l(1,2) assms(2-4), of now_ms now]
  show ?thesis using q1(1) a l c by (auto simp: mtlk_create_rod_queue_def accounts_def)
qed

lemma bar_returns:
  assumes "rod_inv q" "ssn < 4096"
  shows "\<exists>q' r. mtlk_rod_process_bar now q ssn = Some (Inr (q', r)) \<and> rod_inv q' \<and> used q' = used q \<and>
    window_size q' = window_size q \<and> accounts q {#} q' \<and>
    (used q \<longrightarrow> window_ok q \<longrightarrow> abs_rod q' = spec_bar (abs_rod q) ssn)"
proof (cases "used q \<and> SEQ_DISTANCE (head q) ssn \<le> 2048")
  case False
  have "head q < 4096" using assms(1) by (simp add: rod_inv_def)
  with False assms show ?thesis
    by (auto simp: mtlk_rod_process_bar_def SEQUENCE_NUMBER_LIMIT_def spec_bar_def SEQ_DISTANCE_eq Let_def)
next
  case True
  let ?d = "SEQ_DISTANCE (head q) ssn"
  have s: "rod_slots q" "head q < 4096" using assms True rod_inv_liveD by blast+
  have d: "?d = (ssn + 4096 - head q) mod 4096" by (rule SEQ_DISTANCE_eq [OF s(2) assms(2)])
  have hn: "head q + ?d < 2 ^ 32" using s(2) True by simp
  from rod_move_window_slides [OF s(1) hn, of now] obtain q1 where
    m: "rod_move_window now q ?d = Inr q1" "rod_slots q1" "same_frame q q1" "head q1 = (head q + ?d) mod 4096"
    "window_ok q \<or> head q + ?d < 4096 \<longrightarrow> abs_rod q1 = spec_slides ?d (abs_rod q)" by blast
  from rod_move_window_ok [OF s(1) hn, of now] m(1) have dl: "delivers q q1" by auto
  have h1: "head q1 < 4096" using m(4) by simp
  from retire_rod_queue_drains [OF m(2) h1, of now] obtain q2 n where
    r: "retire_rod_queue now q1 = Some (Inr (q2, n))" "rod_slots q2" "same_frame q1 q2" "head q2 < 4096"
    "delivers q1 q2" "window_ok q1 \<longrightarrow> abs_rod q2 = spec_drain (abs_rod q1) \<and> hd (win q2) = None" by blast
  have f: "same_frame q q2" using m(3) r(3) same_frame_trans by blast
  then have "accounts q {#} q2"
    using delivers_trans [OF dl r(5)] by (auto simp: same_frame_def intro: accounts_delivers)
  moreover have "window_ok q1 = window_ok q" "window_ok q2 = window_ok q"
    using window_ok_frame m(3) f by blast+
  moreover from this have "window_ok q \<longrightarrow> abs_rod q2 = spec_bar (abs_rod q) ssn"
    using r(6) m(5) d True s(2) by (simp add: spec_bar_def Let_def)
  moreover have "mtlk_rod_process_bar now q ssn = Some (Inr (q2, 0))"
    using True m(1) r(1) by (simp add: mtlk_rod_process_bar_def SEQUENCE_NUMBER_LIMIT_def Let_def)
  moreover have "used q2" "window_size q2 = window_size q" using f True by (simp_all add: same_frame_def)
  moreover have "rod_inv q2" using r calculation by (simp add: rod_inv_live)
  ultimately show ?thesis using True by auto
qed

section \<open>Runs of operations\<close>

datatype 'p rod_event =
    RodCreate u32 u32 bool mtlk_error_t nat nat
  | RodPacket u32 nat 'p
  | RodBar u32 nat
  | RodTimer u32 u32
  | RodClear u32

fun rod_exec ::
  "'p reordering_queue \<Rightarrow> 'p rod_event \<Rightarrow> (rod_fault + 'p reordering_queue) option" where
  "rod_exec q (RodCreate now ms ok cr w ssn) =
     map_option (map_sum id fst) (mtlk_create_rod_queue now ms ok cr q w ssn)"
| "rod_exec q (RodPacket now seq p) = map_option (map_sum id fst) (mtlk_reorder_packet now q seq p)"
| "rod_exec q (RodBar now ssn) = map_option (map_sum id fst) (mtlk_rod_process_bar now q ssn)"
| "rod_exec q (RodTimer tmo now) = mtlk_handle_rod_queue_timer tmo now q"
| "rod_exec q (RodClear now) = mtlk_clear_rod_queue now q"

fun rod_step ::
  "(rod_fault + 'p reordering_queue) option \<Rightarrow> 'p rod_event \<Rightarrow> (rod_fault + 'p reordering_queue) option" where
  "rod_step (Some (Inr q)) e = rod_exec q e"
| "rod_step s e = s"

text \<open>
  What the callers guarantee: sequence numbers are 12-bit fields, and a window is granted with
  1 to 64 entries.
\<close>

fun rod_event_ok :: "'p rod_event \<Rightarrow> bool" where
  "rod_event_ok (RodCreate now ms ok cr w ssn) \<longleftrightarrow> 1 \<le> w \<and> w \<le> 64 \<and> ssn < 4096"
| "rod_event_ok (RodPacket now seq p) \<longleftrightarrow> seq < 4096"
| "rod_event_ok (RodBar now ssn) \<longleftrightarrow> ssn < 4096"
| "rod_event_ok e \<longleftrightarrow> True"

fun rod_arrival :: "'p rod_event \<Rightarrow> 'p multiset" where
  "rod_arrival (RodPacket now seq p) = {#p#}"
| "rod_arrival e = {#}"

lemma flushed_accounts: "flushed q q' \<Longrightarrow> accounts q {#} q'"
  by (auto simp: flushed_def accounts_def)

lemma rod_exec_ok:
  assumes "rod_inv q" "rod_event_ok e"
  shows "\<exists>q'. rod_exec q e = Some (Inr q') \<and> rod_inv q' \<and> accounts q (rod_arrival e) q'"
proof (cases e)
  case (RodCreate now ms ok cr w ssn)
  with assms create_returns [of q w ssn now ms ok cr] show ?thesis by auto
next
  case (RodPacket now seq p)
  with assms reorder_returns [of q seq now p] show ?thesis by (auto simp: reordered_def)
next
  case (RodBar now ssn)
  with assms bar_returns [of q ssn now] show ?thesis by auto
next
  case (RodTimer tmo now)
  with timer_returns [OF assms(1), of tmo now] show ?thesis
    using flushed_accounts accounts_refl by fastforce
next
  case (RodClear now)
  with clear_returns [OF assms(1), of now] show ?thesis by (auto simp: flushed_accounts flushed_def [of q])
qed

definition rod_sound :: "(rod_fault + 'p reordering_queue) option \<Rightarrow> bool" where
  "rod_sound s \<longleftrightarrow> (\<exists>q. s = Some (Inr q) \<and> rod_inv q)"

interpretation rod: step_system rod_step "\<lambda>_ e. rod_event_ok e" rod_sound
proof
  fix s :: "(rod_fault + 'a reordering_queue) option" and e :: "'a rod_event"
  assume "rod_sound s" "rod_event_ok e"
  then show "rod_sound (rod_step s e)"
    using rod_exec_ok by (fastforce simp: rod_sound_def)
qed

lemma rod_run_ok: "rod.run_ok s es \<longleftrightarrow> list_all rod_event_ok es"
  by (induction es arbitrary: s) auto

lemma rod_inv_fresh: "rod_inv fresh_rod_queue"
  by (simp add: rod_inv_def fresh_rod_queue_def MAX_REORD_WINDOW_def)

lemma rod_run_accounts:
  assumes "list_all rod_event_ok es"
  shows "\<exists>q. foldl rod_step (Some (Inr fresh_rod_queue)) es = Some (Inr q) \<and> rod_inv q \<and>
    mset (sent_up q) + mset (freed q) + mset (somes (nbuf q)) = sum_list (map rod_arrival es)"
  using assms
proof (induction es rule: rev_induct)
  case Nil
  then show ?case by (simp add: rod_inv_fresh) (simp add: fresh_rod_queue_def)
next
  case (snoc e es)
  then obtain q where q: "foldl rod_step (Some (Inr fresh_rod_queue)) es = Some (Inr q)" "rod_inv q"
    "mset (sent_up q) + mset (freed q) + mset (somes (nbuf q)) = sum_list (map rod_arrival es)" by auto
  from rod_exec_ok [OF q(2), of e] snoc.prems obtain q' where
    q': "rod_exec q e = Some (Inr q')" "rod_inv q'" "accounts q (rod_arrival e) q'" by auto
  from q'(3) obtain out drp where a: "sent_up q' = sent_up q @ out" "freed q' = freed q @ drp"
    "mset out + mset drp + mset (somes (nbuf q')) = mset (somes (nbuf q)) + rod_arrival e"
    by (auto simp: accounts_def)
  have "mset (sent_up q') + mset (freed q') + mset (somes (nbuf q')) =
        mset (sent_up q) + mset (freed q) + (mset out + mset drp + mset (somes (nbuf q')))"
    using a(1,2) by (simp add: ac_simps)
  also have "\<dots> = sum_list (map rod_arrival es) + rod_arrival e"
    unfolding a(3) q(3) [symmetric] by (simp add: ac_simps)
  finally show ?case using q q' by simp
qed

section \<open>Order of delivery\<close>

text \<open>
  MSDUs tagged with the sequence number they were received under: position \<open>j\<close> of the window
  holds sequence number \<open>head + j\<close>.
\<close>

definition tagged :: "(nat \<times> 'a) spec_window \<Rightarrow> bool" where
  "tagged w \<longleftrightarrow> sw_win w \<noteq> [] \<and> length (sw_win w) \<le> 64 \<and> sw_head w < 4096 \<and>
     (\<forall>j<length (sw_win w). \<forall>s x. sw_win w ! j = Some (s, x) \<longrightarrow> s = (sw_head w + j) mod 4096)"

text \<open>Handed up in order: distances from the old head grow and stay below the distance moved.\<close>

definition in_order :: "nat \<Rightarrow> nat \<Rightarrow> (nat \<times> 'a) list \<Rightarrow> bool" where
  "in_order h n out \<longleftrightarrow> sorted_wrt (<) (map (\<lambda>m. (fst m + 4096 - h) mod 4096) out) \<and>
     (\<forall>m\<in>set out. (fst m + 4096 - h) mod 4096 < n)"

lemma dist_of_add: "h < 4096 \<Longrightarrow> j < 4096 \<Longrightarrow> ((h + j) mod 4096 + 4096 - h) mod 4096 = (j::nat)"
  by (cases "h + j < 4096") (simp_all add: le_mod_geq)

lemma somes_in_order:
  assumes "h < 4096" "length xs + k \<le> 4096"
    "\<forall>j<length xs. \<forall>s x. xs ! j = Some (s, x) \<longrightarrow> s = (h + (k + j)) mod 4096"
  shows "sorted_wrt (<) (map (\<lambda>m. (fst m + 4096 - h) mod 4096) (somes xs)) \<and>
    (\<forall>m\<in>set (somes xs). k \<le> (fst m + 4096 - h) mod 4096 \<and> (fst m + 4096 - h) mod 4096 < k + length xs)"
  using assms
proof (induction xs arbitrary: k)
  case (Cons a xs)
  have t: "\<forall>j<length xs. \<forall>s x. xs ! j = Some (s, x) \<longrightarrow> s = (h + (Suc k + j)) mod 4096"
  proof (intro allI impI)
    fix j s x assume "j < length xs" "xs ! j = Some (s, x)"
    then show "s = (h + (Suc k + j)) mod 4096" using Cons.prems(3) [rule_format, of "Suc j" s x] by simp
  qed
  have IH: "sorted_wrt (<) (map (\<lambda>m. (fst m + 4096 - h) mod 4096) (somes xs)) \<and>
    (\<forall>m\<in>set (somes xs). Suc k \<le> (fst m + 4096 - h) mod 4096 \<and> (fst m + 4096 - h) mod 4096 < Suc k + length xs)"
    using Cons.IH [of "Suc k"] Cons.prems t by simp
  show ?case
  proof (cases a)
    case None
    then show ?thesis using IH by auto
  next
    case (Some m)
    then have "(fst m + 4096 - h) mod 4096 = k"
      using Cons.prems(3) [rule_format, of 0 "fst m" "snd m"] Cons.prems(1,2) dist_of_add [of h k] by simp
    then show ?thesis using IH Some by fastforce
  qed
qed simp

lemma tagged_slides:
  assumes "tagged w"
  shows "tagged (spec_slides n w)"
proof -
  have e: "sw_win w \<noteq> []" "sw_head w < 4096" using assms by (simp_all add: tagged_def)
  let ?l = "length (sw_win w)"
  have "s = ((sw_head w + n) mod 4096 + j) mod 4096"
    if j: "j < ?l" and "(drop n (sw_win w) @ replicate (min n ?l) None) ! j = Some (s, x)" for j s x
  proof -
    have "j < ?l - n"
    proof (rule ccontr)
      assume "\<not> j < ?l - n"
      then have "j - (?l - n) < min n ?l" using j by linarith
      with \<open>\<not> j < ?l - n\<close> that(2) show False by (simp add: nth_append)
    qed
    with that(2) have "j < ?l - n" "sw_win w ! (n + j) = Some (s, x)" by (simp_all add: nth_append)
    then have "s = (sw_head w + (n + j)) mod 4096" using assms by (simp add: tagged_def)
    then show ?thesis by (simp add: mod_add_left_eq add.assoc)
  qed
  moreover have "sw_win (spec_slides n w) \<noteq> []" "length (sw_win (spec_slides n w)) = ?l"
    using length_spec_slides [OF e(1), of n] e(1) by auto
  ultimately show ?thesis using assms e by (auto simp: spec_slides_eq tagged_def)
qed

lemma out_slides: "tagged w \<Longrightarrow> sw_out (spec_slides n w) = sw_out w @ somes (take n (sw_win w))"
  by (simp add: tagged_def spec_slides_eq)

lemma head_slides: "tagged w \<Longrightarrow> sw_head (spec_slides n w) = (sw_head w + n) mod 4096"
  by (simp add: tagged_def spec_slides_eq)

lemma order_take:
  assumes "tagged w" "h < 4096" "sw_head w = (h + k) mod 4096" "k + n \<le> 4096"
  shows "sorted_wrt (<) (map (\<lambda>m. (fst m + 4096 - h) mod 4096) (somes (take n (sw_win w)))) \<and>
    (\<forall>m\<in>set (somes (take n (sw_win w))).
       k \<le> (fst m + 4096 - h) mod 4096 \<and> (fst m + 4096 - h) mod 4096 < k + n)"
proof -
  have "\<forall>j<length (take n (sw_win w)). \<forall>s x. take n (sw_win w) ! j = Some (s, x) \<longrightarrow>
      s = (h + (k + j)) mod 4096"
    using assms(1,3) by (auto simp: tagged_def mod_add_left_eq add.assoc)
  moreover have "length (take n (sw_win w)) + k \<le> 4096" using assms(4) by simp
  ultimately have "sorted_wrt (<) (map (\<lambda>m. (fst m + 4096 - h) mod 4096) (somes (take n (sw_win w)))) \<and>
    (\<forall>m\<in>set (somes (take n (sw_win w))). k \<le> (fst m + 4096 - h) mod 4096 \<and>
       (fst m + 4096 - h) mod 4096 < k + length (take n (sw_win w)))"
    using somes_in_order [OF assms(2)] by blast
  moreover have "length (take n (sw_win w)) \<le> n" by simp
  ultimately show ?thesis by (meson add_left_mono less_le_trans)
qed

lemma tagged_insert:
  assumes "tagged w" "d < length (sw_win w)" "s = (sw_head w + d) mod 4096"
  shows "tagged (w\<lparr>sw_win := (sw_win w)[d := Some (s, x)]\<rparr>)"
  using assms by (auto simp: tagged_def nth_list_update)

lemma ready_le: "ready w \<le> length (sw_win w)"
  by (simp add: ready_def length_takeWhile_le)

lemma slides_insert_order:
  assumes t: "tagged w" and n: "n \<le> 2048" and d: "d < length (sw_win w)"
    and s: "s = (sw_head w + n + d) mod 4096"
  shows "\<exists>m out. sw_out (spec_insert (spec_slides n w) d (s, x)) = sw_out w @ out \<and>
    in_order (sw_head w) m out \<and> m \<le> 2112 \<and>
    sw_head (spec_insert (spec_slides n w) d (s, x)) = (sw_head w + m) mod 4096 \<and>
    tagged (spec_insert (spec_slides n w) d (s, x))"
proof -
  let ?w = "spec_slides n w" and ?h = "sw_head w"
  let ?v = "?w\<lparr>sw_win := (sw_win ?w)[d := Some (s, x)]\<rparr>"
  have h: "?h < 4096" using t by (simp add: tagged_def)
  have tw: "tagged ?w" by (rule tagged_slides [OF t])
  have l: "length (sw_win ?w) = length (sw_win w)" using t by (simp add: tagged_def length_spec_slides)
  note o1 = order_take [OF t h, of 0 n, simplified]
  show ?thesis
  proof (cases "sw_win ?w ! d = None")
    case False
    then have e: "spec_insert ?w d (s, x) = ?w\<lparr>sw_drop := sw_drop ?w @ [(s, x)]\<rparr>"
      unfolding spec_insert_def by (rule if_not_P)
    have "in_order ?h n (somes (take n (sw_win w)))" using o1 n h by (simp add: in_order_def)
    then show ?thesis unfolding e using out_slides [OF t, of n] head_slides [OF t, of n] tw n
      by (intro exI [of _ n] exI [of _ "somes (take n (sw_win w))"]) (simp add: tagged_def)
  next
    case True
    let ?r = "ready ?v"
    have e: "spec_insert ?w d (s, x) = spec_slides ?r ?v" using True by (simp add: spec_insert_def spec_drain_def)
    have tv: "tagged ?v"
      by (rule tagged_insert [OF tw]) (use d l s head_slides [OF t, of n] in \<open>simp_all add: mod_add_left_eq\<close>)
    have r: "?r \<le> 64" using ready_le [of ?v] tv by (simp add: tagged_def)
    have hv: "sw_head ?v = (?h + n) mod 4096" using head_slides [OF t, of n] by simp
    note o2 = order_take [OF tv h hv, of ?r]
    have "in_order ?h (n + ?r) (somes (take n (sw_win w)) @ somes (take ?r (sw_win ?v)))"
      using o1 o2 n r h unfolding in_order_def map_append sorted_wrt_append by fastforce
    moreover have "sw_out (spec_slides ?r ?v) = sw_out w @ somes (take n (sw_win w)) @ somes (take ?r (sw_win ?v))"
      using out_slides [OF tv, of ?r] out_slides [OF t, of n] by simp
    moreover have "sw_head (spec_slides ?r ?v) = (?h + (n + ?r)) mod 4096"
      using head_slides [OF tv, of ?r] hv by (simp add: mod_add_left_eq add.assoc)
    ultimately show ?thesis unfolding e using tagged_slides [OF tv] n r
      by (intro exI [of _ "n + ?r"] exI [of _ "somes (take n (sw_win w)) @ somes (take ?r (sw_win ?v))"]) simp
  qed
qed

lemma spec_reorder_order:
  assumes t: "tagged w" and s: "s < 4096"
  shows "\<exists>m out. sw_out (spec_reorder w s (s, x)) = sw_out w @ out \<and> in_order (sw_head w) m out \<and>
    m \<le> 2112 \<and> sw_head (spec_reorder w s (s, x)) = (sw_head w + m) mod 4096 \<and>
    tagged (spec_reorder w s (s, x))"
proof -
  let ?h = "sw_head w" and ?d = "(s + 4096 - sw_head w) mod 4096" and ?l = "length (sw_win w)"
  have h: "?h < 4096" "0 < ?l" using t by (simp_all add: tagged_def)
  have sd: "(?h + ?d) mod 4096 = s" by (rule seq_dist_add [OF h(1) s])
  consider "?d > 2048" | "?d \<le> 2048" "?d < ?l" | "?d \<le> 2048" "?l \<le> ?d" by linarith
  then show ?thesis
  proof cases
    case 1
    then show ?thesis using t h
      by (intro exI [of _ 0] exI [of _ "[]"]) (simp add: spec_reorder_def in_order_def tagged_def)
  next
    case 2
    then have "spec_reorder w s (s, x) = spec_insert (spec_slides 0 w) ?d (s, x)"
      by (simp add: spec_reorder_def spec_slides_def)
    then show ?thesis using slides_insert_order [OF t, of 0 ?d s x] 2 sd by simp
  next
    case 3
    then have "spec_reorder w s (s, x) = spec_insert (spec_slides (?d - ?l + 1) w) (?l - 1) (s, x)"
      by (simp add: spec_reorder_def Let_def)
    moreover have "?h + (?d - ?l + 1) + (?l - 1) = ?h + ?d" "?d - ?l + 1 \<le> 2048" using 3 h(2) by linarith+
    ultimately show ?thesis
      using slides_insert_order [OF t, of "?d - ?l + 1" "?l - 1" s x] h sd by simp
  qed
qed

section \<open>Properties\<close>

text \<open>
  C1: \<^verbatim>\<open>mtlk_reorder_packet\<close> implements the sliding window. On a live queue whose window divides
  4096 it returns, reports that it consumed the MSDU, and changes the queue exactly as the
  abstract window prescribes: an MSDU more than half the sequence space behind is dropped, one
  beyond the window first moves the window, a duplicate is dropped, and otherwise the MSDU is
  stored and the run of consecutive MSDUs from the head is handed up.
\<close>

theorem reorder_refines_window:
  assumes "rod_inv q" "used q" "window_ok q" "seq < 4096"
  shows "\<exists>q'. mtlk_reorder_packet now q seq p = Some (Inr (q', True)) \<and> rod_inv q' \<and>
    abs_rod q' = spec_reorder (abs_rod q) seq p"
  using reorder_returns [OF assms(1,4), of now p] assms(2,3) by (auto simp: reordered_def)

definition sample_queue :: "nat reordering_queue" where
  "sample_queue = fresh_rod_queue\<lparr>used := True, head := 4094, window_size := 4\<rparr>"

lemma sample_queue_ok: "rod_inv sample_queue" "used sample_queue" "window_ok sample_queue"
proof -
  show "used sample_queue" "window_ok sample_queue"
    by (simp_all add: sample_queue_def window_ok_def)
  show "rod_inv sample_queue"
    by (simp add: sample_queue_def fresh_rod_queue_def rod_inv_def rod_slots_def MAX_REORD_WINDOW_def)
qed

theorem reorder_refines_window_witness:
  "\<exists>q'. mtlk_reorder_packet 7 sample_queue 1 (5::nat) = Some (Inr (q', True)) \<and> rod_inv q' \<and>
    abs_rod q' = spec_reorder (abs_rod sample_queue) 1 5"
  using reorder_refines_window [OF sample_queue_ok, of 1 7 5] by simp



text \<open>
  C2: Memory safety and termination of the whole component. Every sequence of create, packet,
  BAR, timer and clear calls on a zeroed queue, with windows of 1 to 64 entries (dividing 4096
  or not) and 12-bit sequence numbers, ends in a queue that satisfies the invariant: no loop
  runs forever, no access leaves the 64 slots, no modulo is by zero.
\<close>

theorem rod_runs_are_safe:
  assumes "list_all rod_event_ok es"
  shows "rod_sound (foldl rod_step (Some (Inr fresh_rod_queue)) es)"
proof (rule rod.run_inv)
  show "rod_sound (Some (Inr fresh_rod_queue))" by (simp add: rod_sound_def rod_inv_fresh)
  show "rod.run_ok (Some (Inr fresh_rod_queue)) es" using assms by (simp add: rod_run_ok)
qed

theorem rod_runs_are_safe_witness:
  "rod_sound (foldl rod_step (Some (Inr fresh_rod_queue))
     [RodCreate 0 0 True MTLK_ERR_OK 48 4095, RodPacket 1 0 (1::nat), RodBar 2 3, RodTimer 5 9, RodClear 9])"
  by (rule rod_runs_are_safe) simp

text \<open>
  C3: Conservation. In every such run each received MSDU is in exactly one place at the end:
  handed up once, freed once, or still buffered. Nothing is lost, duplicated or freed while it
  is buffered.
\<close>

theorem rod_conserves_msdus:
  assumes "list_all rod_event_ok es"
  shows "\<exists>q. foldl rod_step (Some (Inr fresh_rod_queue)) es = Some (Inr q) \<and>
    mset (sent_up q) + mset (freed q) + mset (somes (nbuf q)) = sum_list (map rod_arrival es)"
  using rod_run_accounts [OF assms] by blast

theorem rod_conserves_msdus_witness:
  "\<exists>q. foldl rod_step (Some (Inr fresh_rod_queue))
     [RodCreate 0 0 True MTLK_ERR_OK 4 4095, RodPacket 1 0 (7::nat), RodPacket 2 0 8] = Some (Inr q) \<and>
    mset (sent_up q) + mset (freed q) + mset (somes (nbuf q)) = {#8, 7#}"
  using rod_conserves_msdus [of "[RodCreate 0 0 True MTLK_ERR_OK 4 4095, RodPacket 1 0 (7::nat), RodPacket 2 0 8]"]
  by simp


definition tagged_queue :: "(nat \<times> 'a) reordering_queue" where
  "tagged_queue = fresh_rod_queue\<lparr>used := True, head := 4094, window_size := 4\<rparr>"

lemma tagged_queue_ok:
  shows "rod_inv (tagged_queue :: (nat \<times> 'a) reordering_queue)" "used (tagged_queue :: (nat \<times> 'a) reordering_queue)"
    "window_ok (tagged_queue :: (nat \<times> 'a) reordering_queue)" "tagged (abs_rod (tagged_queue :: (nat \<times> 'a) reordering_queue))"
proof -
  let ?q = "tagged_queue :: (nat \<times> 'a) reordering_queue"
  show "used ?q" "window_ok ?q" by (simp_all add: tagged_queue_def window_ok_def)
  show "rod_inv ?q" by (simp add: tagged_queue_def fresh_rod_queue_def rod_inv_def rod_slots_def MAX_REORD_WINDOW_def)
  have "win ?q ! j = None" if "j < 4" for j
    using that mod_less_bound [of 4 64 "4094 + j"]
    by (simp add: win_def tagged_queue_def fresh_rod_queue_def MAX_REORD_WINDOW_def)
  moreover have l: "length (win ?q) = 4" by (simp add: win_def tagged_queue_def)
  moreover have "win ?q \<noteq> []" using l by force
  ultimately show "tagged (abs_rod ?q)" by (simp add: tagged_def)
qed


text \<open>
  \<^verbatim>\<open>mtlk_clear_rod_queue\<close> returns, leaves the queue unused and empty, frees nothing and hands
  up everything that was buffered, in window order when the window divides 4096.
\<close>

lemma clear_hands_up_everything:
  assumes "rod_inv q"
  shows "\<exists>q' out. mtlk_clear_rod_queue now q = Some (Inr q') \<and> \<not> used q' \<and> count q' = 0 \<and>
    somes (nbuf q') = [] \<and> freed q' = freed q \<and> sent_up q' = sent_up q @ out \<and>
    mset out = mset (somes (nbuf q)) \<and> (window_ok q \<and> used q \<longrightarrow> out = somes (win q))"
  using clear_returns [OF assms, of now] by (fastforce simp: flushed_def)


text \<open>
  The bound of 64 entries is needed. A queue created with a window of 65 to 255 entries
  indexes past the end of its 64 slots as soon as an MSDU 64 positions ahead of the head arrives
  inside the granted window.
\<close>

lemma oversized_window_leaves_array:
  assumes "64 < w" "w \<le> 255"
  shows "\<exists>q. mtlk_create_rod_queue now ms True MTLK_ERR_OK fresh_rod_queue w 0 =
      Some (Inr (q, MTLK_ERR_OK)) \<and>
    mtlk_reorder_packet now q 64 p = Some (Inl (BadIndex 64))"
proof -
  have d: "SEQ_DISTANCE 0 64 = 64" by (simp add: SEQ_DISTANCE_eq)
  show ?thesis using assms d
    by (simp add: mtlk_create_rod_queue_def fresh_rod_queue_def mtlk_reorder_packet_def
        SEQUENCE_NUMBER_LIMIT_def rod_insert_def MAX_REORD_WINDOW_def)
qed


lemma retire_head_only:
  assumes "0 < w" "w \<le> 64" "nbuf q = (replicate 64 None)[0 := Some p]" "window_size q = w"
    "head q mod w = 0" "head q < 4096" "1 < w"
  shows "\<exists>q'. retire_rod_queue now q = Some (Inr (q', 1)) \<and> sent_up q' = sent_up q @ [p] \<and>
    freed q' = freed q \<and> head q' = (head q + 1) mod 4096 \<and> used q' = used q \<and> window_size q' = w"
  using assms
  by (simp add: retire_rod_queue_def retire_rod_loop.simps retire_slot_def inc32_eq SEQUENCE_NUMBER_LIMIT_def)

text \<open>
  The window must divide 4096. For every other window size from 1 to 64 there is a start
  sequence number, 4096 minus the remainder, for which the queue breaks at the wrap: MSDU 0,
  inside the window but not next in order, falls on the slot of the head and is handed up at
  once, and the MSDU that really was next is then dropped as too old.
\<close>

lemma non_dividing_window_breaks_order:
  assumes "1 \<le> w" "w \<le> 64" "\<not> w dvd 4096"
  shows "\<exists>q0 q1 q2. 0 < 4096 mod w \<and> SEQ_DISTANCE (4096 - 4096 mod w) 0 < w \<and>
    mtlk_create_rod_queue now ms True MTLK_ERR_OK fresh_rod_queue w (4096 - 4096 mod w) =
      Some (Inr (q0, MTLK_ERR_OK)) \<and>
    mtlk_reorder_packet now q0 0 ''later'' = Some (Inr (q1, True)) \<and> sent_up q1 = [''later''] \<and>
    mtlk_reorder_packet now q1 (4096 - 4096 mod w) ''next'' = Some (Inr (q2, True)) \<and>
    sent_up q2 = [''later''] \<and> freed q2 = [''next'']"
proof -
  let ?k = "4096 mod w"
  let ?h = "4096 - ?k"
  let ?start = "fresh_rod_queue\<lparr>used := True, head := ?h, window_size := w, last_sent := now, last_rx_time := ms\<rparr>"
  have k: "0 < ?k" "?k < w" using assms by (auto simp: dvd_eq_mod_eq_0)
  have h0: "?h mod w = 0" by (metis dvd_imp_mod_0 dvd_minus_mod)
  have h: "?h < 4096" using k by simp
  have "?k < 4096" using k assms(2) by linarith
  then have d: "SEQ_DISTANCE ?h 0 = ?k" using h by (simp add: SEQ_DISTANCE_eq)
  have behind: "SEQ_DISTANCE ((?h + 1) mod 4096) ?h = 4095"
    using h SEQ_DISTANCE_eq [of "(?h + 1) mod 4096" ?h] by (cases "?h + 1 < 4096") (simp_all add: le_mod_geq)
  have c: "mtlk_create_rod_queue now ms True MTLK_ERR_OK fresh_rod_queue w ?h = Some (Inr (?start, MTLK_ERR_OK))"
    by (simp add: mtlk_create_rod_queue_def fresh_rod_queue_def)
  let ?q = "?start\<lparr>nbuf := (replicate 64 None)[0 := Some ''later''], count := 1,
              stats := zero_stats\<lparr>queued := 1\<rparr>\<rparr>"
  have "\<exists>q'. retire_rod_queue now ?q = Some (Inr (q', 1)) \<and> sent_up q' = sent_up ?q @ [''later''] \<and>
    freed q' = freed ?q \<and> head q' = (head ?q + 1) mod 4096 \<and> used q' = used ?q \<and> window_size q' = w"
    by (rule retire_head_only) (use assms k h0 h in simp_all)
  then obtain q1 where q1: "retire_rod_queue now ?q = Some (Inr (q1, 1))" "sent_up q1 = [''later'']"
    "freed q1 = []" "head q1 = (?h + 1) mod 4096" "used q1" "window_size q1 = w"
    by (auto simp: fresh_rod_queue_def)
  have "rod_insert now ?start 0 ''later'' = Some (Inr (q1, True))"
    using q1(1) assms by (simp add: rod_insert_def fresh_rod_queue_def MAX_REORD_WINDOW_def inc32_eq zero_stats_def)
  then have r1: "mtlk_reorder_packet now ?start 0 ''later'' = Some (Inr (q1, True))"
    using d k assms(2) by (simp add: mtlk_reorder_packet_def SEQUENCE_NUMBER_LIMIT_def)
  have r2: "\<exists>q2. mtlk_reorder_packet now q1 ?h ''next'' = Some (Inr (q2, True)) \<and>
    sent_up q2 = [''later''] \<and> freed q2 = [''next'']"
    using q1 behind by (simp add: mtlk_reorder_packet_def SEQUENCE_NUMBER_LIMIT_def mtlk_rod_inc_cnt_def)
  show ?thesis using k d c r1 q1(2) r2 by auto
qed


end
