(* ===== verification/Reflim.thy ===== *)
theory Reflim
  imports Wave_Prelude
begin

text \<open>
  The reference limiter of \<^verbatim>\<open>wireless/shared/mtlk_reflim.h\<close>: a \<^verbatim>\<open>uint32\<close> counter with an
  upper bound, shared by all peers of a card. \<open>ref_limiter\<close> is the contract its clients rely on;
  it is interpreted on the code's own operations.
\<close>

record mtlk_reflim_t =
  rl_max :: nat
  rl_cur :: nat

definition mtlk_reflim_init :: "nat \<Rightarrow> mtlk_reflim_t" where
  "mtlk_reflim_init m = \<lparr>rl_max = m, rl_cur = 0\<rparr>"

definition mtlk_reflim_try_ref :: "mtlk_reflim_t \<Rightarrow> bool \<times> mtlk_reflim_t" where
  "mtlk_reflim_try_ref r =
     (let r' = r\<lparr>rl_cur := inc32 (rl_cur r)\<rparr> in
      if rl_cur r' \<le> rl_max r' then (True, r')
      else (False, r'\<lparr>rl_cur := dec32 (rl_cur r')\<rparr>))"

definition mtlk_reflim_unref :: "mtlk_reflim_t \<Rightarrow> mtlk_reflim_t" where
  "mtlk_reflim_unref r = r\<lparr>rl_cur := dec32 (rl_cur r)\<rparr>"

text \<open>The assertion at the end of \<^verbatim>\<open>mtlk_reflim_unref\<close>, on the counter after the decrement.\<close>

definition mtlk_reflim_unref_assert :: "mtlk_reflim_t \<Rightarrow> bool" where
  "mtlk_reflim_unref_assert r \<longleftrightarrow> dec32 (rl_cur r) < rl_max r"

definition mtlk_reflim_get_max :: "mtlk_reflim_t \<Rightarrow> nat" where
  "mtlk_reflim_get_max r = rl_max r"

definition mtlk_reflim_get_cur :: "mtlk_reflim_t \<Rightarrow> nat" where
  "mtlk_reflim_get_cur r = rl_cur r"

definition reflim_wf :: "mtlk_reflim_t \<Rightarrow> bool" where
  "reflim_wf r \<longleftrightarrow> rl_cur r \<le> rl_max r \<and> rl_max r < 2 ^ 32"

section \<open>The contract\<close>

locale ref_limiter =
  fixes try_ref :: "'r \<Rightarrow> bool \<times> 'r"
    and unref :: "'r \<Rightarrow> 'r"
    and held :: "'r \<Rightarrow> nat"
    and limit :: "'r \<Rightarrow> nat"
    and wf :: "'r \<Rightarrow> bool"
  assumes wf_bound: "wf r \<Longrightarrow> held r \<le> limit r"
    and try_granted: "wf r \<Longrightarrow> held r + 1 < 2 ^ 32 \<Longrightarrow> try_ref r = (True, r') \<Longrightarrow>
      wf r' \<and> held r' = held r + 1 \<and> limit r' = limit r"
    and try_refused: "wf r \<Longrightarrow> held r + 1 < 2 ^ 32 \<Longrightarrow> try_ref r = (False, r') \<Longrightarrow>
      r' = r \<and> held r = limit r"
    and unref_held: "wf r \<Longrightarrow> 0 < held r \<Longrightarrow> wf (unref r) \<and> held (unref r) = held r - 1 \<and> limit (unref r) = limit r"
begin

text \<open>A grant given back leaves the count where it was.\<close>

lemma granted_then_unref:
  assumes "wf r" "held r + 1 < 2 ^ 32" "try_ref r = (True, r')"
  shows "wf (unref r') \<and> held (unref r') = held r"
proof -
  from try_granted [OF assms] have g: "wf r'" "held r' = held r + 1" by auto
  then show ?thesis using unref_held [of r'] by simp
qed

text \<open>Below the limit a reference is always granted.\<close>

lemma below_limit_granted:
  assumes "wf r" "held r < limit r" "held r + 1 < 2 ^ 32"
  shows "fst (try_ref r)"
  using try_refused [OF assms(1,3)] assms(2) by (cases "try_ref r") auto

end

interpretation reflim: ref_limiter mtlk_reflim_try_ref mtlk_reflim_unref rl_cur rl_max reflim_wf
proof
  fix r r' :: mtlk_reflim_t
  show "reflim_wf r \<Longrightarrow> rl_cur r \<le> rl_max r" by (simp add: reflim_wf_def)
  show "reflim_wf r' \<and> rl_cur r' = rl_cur r + 1 \<and> rl_max r' = rl_max r"
    if "reflim_wf r" "rl_cur r + 1 < 2 ^ 32" "mtlk_reflim_try_ref r = (True, r')"
    using that by (auto simp: mtlk_reflim_try_ref_def reflim_wf_def Let_def inc32_eq split: if_splits)
  show "r' = r \<and> rl_cur r = rl_max r"
    if "reflim_wf r" "rl_cur r + 1 < 2 ^ 32" "mtlk_reflim_try_ref r = (False, r')"
  proof -
    have "dec32 (Suc (rl_cur r)) = rl_cur r" using that(2) dec32_inc32 [of "rl_cur r"] inc32_eq [of "rl_cur r"] by simp
    with that show ?thesis
      by (auto simp: mtlk_reflim_try_ref_def reflim_wf_def Let_def inc32_eq split: if_splits)
  qed
  show "reflim_wf (mtlk_reflim_unref r) \<and> rl_cur (mtlk_reflim_unref r) = rl_cur r - 1 \<and>
      rl_max (mtlk_reflim_unref r) = rl_max r"
    if "reflim_wf r" "0 < rl_cur r"
    using that by (auto simp: mtlk_reflim_unref_def reflim_wf_def dec32_eq)
qed

lemma reflim_unref_assert_holds:
  "reflim_wf r \<Longrightarrow> 0 < rl_cur r \<Longrightarrow> mtlk_reflim_unref_assert r"
  by (auto simp: mtlk_reflim_unref_assert_def reflim_wf_def dec32_eq)

end
