(* ===== verification/Addba.thy ===== *)
theory Addba
  imports Reflim
begin

text \<open>
  Block ack negotiation of \<^verbatim>\<open>wireless/driver/shared/addba.c\<close> for one peer: eight TIDs, each with
  a transmit side (ADDBA request, response, open and close of the firmware aggregation) and a
  receive side (ADDBA response, reordering, DELBA). The two reference limiters are shared by all
  peers of the card.

  \<^item> \<open>addba_st\<close> joins \<^verbatim>\<open>mtlk_addba_t\<close> and one \<^verbatim>\<open>mtlk_addba_peer_t\<close>; the TID array is a
    function of the index, every entry point checks the index against 8 as the code does.
  \<^item> Calls through \<^verbatim>\<open>mtlk_addba_wrap_api_t\<close> are recorded in \<open>calls\<close>, newest first; a failing
    \<^verbatim>\<open>MTLK_ASSERT\<close> adds its source line to \<open>failed_asserts\<close> and execution goes on, as in the
    release build.
  \<^item> A TXMM message is idle, attached to a block, or sent and waiting for its callback. Whether
    TXMM has a free block and what the send returns are inputs (\<open>addba_env\<close>), as are the clock
    and the last receive time of a TID.
  \<^item> Every operation runs under the ADDBA lock and is one atomic step.
\<close>

section \<open>Constants and data\<close>

definition MTLK_ADDBA_NOF_TIDs :: nat where "MTLK_ADDBA_NOF_TIDs = 8"
definition MTLK_DOT11_ADDBA_RESPONSE_TIMEOUT_MS :: u32 where "MTLK_DOT11_ADDBA_RESPONSE_TIMEOUT_MS = 3000"
definition MTLK_ADDBA_RSP_MAX_RETRANSMISSIONS :: u8 where "MTLK_ADDBA_RSP_MAX_RETRANSMISSIONS = 4"
definition MTLK_DELBA_REQ_MAX_RETRANSMISSIONS :: u8 where "MTLK_DELBA_REQ_MAX_RETRANSMISSIONS = 4"
definition MTLK_DELBA_REQ_ON_RX_INTERVAL_MS :: u32 where "MTLK_DELBA_REQ_ON_RX_INTERVAL_MS = 100"
definition MTLK_ADDBA_MAX_REJECTS :: u8 where "MTLK_ADDBA_MAX_REJECTS = 5"
definition MTLK_ADDBA_BA_TIMEOUT_UNIT_US :: u32 where "MTLK_ADDBA_BA_TIMEOUT_UNIT_US = 1024"
definition MTLK_ADDBA_MIN_REORD_WIN_SIZE :: u8 where "MTLK_ADDBA_MIN_REORD_WIN_SIZE = 1"
definition MTLK_ADDBA_MAX_REORD_WIN_SIZE :: u8 where "MTLK_ADDBA_MAX_REORD_WIN_SIZE = 64"
definition MTLK_ADDBA_RES_CODE_SUCCESS :: u16 where "MTLK_ADDBA_RES_CODE_SUCCESS = 0"
definition MTLK_ADDBA_RES_CODE_FAILURE :: u16 where "MTLK_ADDBA_RES_CODE_FAILURE = 1"
definition MTLK_TS_ID_INVALID :: u8 where "MTLK_TS_ID_INVALID = 255"
definition INVALID_TAG_ID :: u8 where "INVALID_TAG_ID = 255"
definition ADDBA_REJECT_INTERVAL_MIN :: u32 where "ADDBA_REJECT_INTERVAL_MIN = 10000"
definition ADDBA_REJECT_INTERVAL_MAX :: u32 where "ADDBA_REJECT_INTERVAL_MAX = 160000"
definition MTLK_ADDBA_RATE_ADAPTIVE :: u16 where "MTLK_ADDBA_RATE_ADAPTIVE = 65535"
definition UMI_OK :: u16 where "UMI_OK = 0"

lemmas addba_consts =
  MTLK_ADDBA_NOF_TIDs_def MTLK_DOT11_ADDBA_RESPONSE_TIMEOUT_MS_def MTLK_ADDBA_RSP_MAX_RETRANSMISSIONS_def
  MTLK_DELBA_REQ_MAX_RETRANSMISSIONS_def MTLK_DELBA_REQ_ON_RX_INTERVAL_MS_def MTLK_ADDBA_MAX_REJECTS_def
  MTLK_ADDBA_BA_TIMEOUT_UNIT_US_def MTLK_ADDBA_MIN_REORD_WIN_SIZE_def MTLK_ADDBA_MAX_REORD_WIN_SIZE_def
  MTLK_ADDBA_RES_CODE_SUCCESS_def MTLK_ADDBA_RES_CODE_FAILURE_def MTLK_TS_ID_INVALID_def INVALID_TAG_ID_def
  ADDBA_REJECT_INTERVAL_MIN_def ADDBA_REJECT_INTERVAL_MAX_def MTLK_ADDBA_RATE_ADAPTIVE_def UMI_OK_def

datatype mtlk_addba_peer_tx_state_e =
    MTLK_ADDBA_TX_NONE | MTLK_ADDBA_TX_ADDBA_REQ_SENT | MTLK_ADDBA_TX_ADDBA_REQ_CFMD
  | MTLK_ADDBA_TX_ADD_AGGR_REQ_SENT | MTLK_ADDBA_TX_AGGR_OPENED | MTLK_ADDBA_TX_DEL_AGGR_REQ_SENT
  | MTLK_ADDBA_TX_STA_POWER_SAVE

datatype mtlk_addba_peer_rx_state_e =
    MTLK_ADDBA_RX_NONE | MTLK_ADDBA_RX_ADDBA_NEGATIVE_RES_SENT | MTLK_ADDBA_RX_ADDBA_POSITIVE_RES_SENT
  | MTLK_ADDBA_RX_REORD_IN_PROCESS | MTLK_ADDBA_RX_DELBA_REQ_SENT
  | MTLK_ADDBA_RX_DELBA_REQ_SENT_WITHOUT_REORDERING

datatype mtlk_addba_peer_cnt_id_e =
    MTLK_ADDBAPI_CNT_AGGR_ACTIVE | MTLK_ADDBAPI_CNT_REORD_ACTIVE
  | MTLK_ADDBAPI_CNT_RX_ADDBA_REQ_RECEIVED | MTLK_ADDBAPI_CNT_RX_ADDBA_RES_CFMD_FAIL
  | MTLK_ADDBAPI_CNT_RX_ADDBA_RES_CFMD_SUCCESS | MTLK_ADDBAPI_CNT_RX_ADDBA_RES_LOST
  | MTLK_ADDBAPI_CNT_RX_ADDBA_RES_NEGATIVE_SENT | MTLK_ADDBAPI_CNT_RX_ADDBA_RES_NOT_CFMD
  | MTLK_ADDBAPI_CNT_RX_ADDBA_RES_POSITIVE_SENT | MTLK_ADDBAPI_CNT_RX_ADDBA_RES_REACHED
  | MTLK_ADDBAPI_CNT_RX_ADDBA_RES_RETRANSMISSIONS | MTLK_ADDBAPI_CNT_RX_BAR_WITHOUT_REORDERING
  | MTLK_ADDBAPI_CNT_RX_AGGR_PKT_WITHOUT_REORDERING | MTLK_ADDBAPI_CNT_RX_DELBA_REQ_CFMD_FAIL
  | MTLK_ADDBAPI_CNT_RX_DELBA_REQ_CFMD_SUCCESS | MTLK_ADDBAPI_CNT_RX_DELBA_REQ_LOST
  | MTLK_ADDBAPI_CNT_RX_DELBA_REQ_NOT_CFMD | MTLK_ADDBAPI_CNT_RX_DELBA_REQ_RCV
  | MTLK_ADDBAPI_CNT_RX_DELBA_REQ_REACHED | MTLK_ADDBAPI_CNT_RX_DELBA_REQ_RETRANSMISSIONS
  | MTLK_ADDBAPI_CNT_RX_DELBA_REQ_SENT | MTLK_ADDBAPI_CNT_RX_DELBA_SENT_BY_TIMEOUT
  | MTLK_ADDBAPI_CNT_TX_ACK_ON_BAR_DETECTED | MTLK_ADDBAPI_CNT_TX_ADDBA_REQ_CFMD_FAIL
  | MTLK_ADDBAPI_CNT_TX_ADDBA_REQ_CFMD_SUCCESS | MTLK_ADDBAPI_CNT_TX_ADDBA_REQ_NOT_CFMD
  | MTLK_ADDBAPI_CNT_TX_ADDBA_REQ_SENT | MTLK_ADDBAPI_CNT_TX_ADDBA_RES_RCV_NEGATIVE
  | MTLK_ADDBAPI_CNT_TX_ADDBA_RES_RCV_POSITIVE | MTLK_ADDBAPI_CNT_TX_ADDBA_RES_TIMEOUT
  | MTLK_ADDBAPI_CNT_TX_CLOSE_AGGR_CFMD_FAIL | MTLK_ADDBAPI_CNT_TX_CLOSE_AGGR_CFMD_SUCCESS
  | MTLK_ADDBAPI_CNT_TX_CLOSE_AGGR_NOT_CFMD | MTLK_ADDBAPI_CNT_TX_CLOSE_AGGR_SENT
  | MTLK_ADDBAPI_CNT_TX_DELBA_REQ_CFMD_FAIL | MTLK_ADDBAPI_CNT_TX_DELBA_REQ_CFMD_SUCCESS
  | MTLK_ADDBAPI_CNT_TX_DELBA_REQ_LOST | MTLK_ADDBAPI_CNT_TX_DELBA_REQ_NOT_CFMD
  | MTLK_ADDBAPI_CNT_TX_DELBA_REQ_RCV | MTLK_ADDBAPI_CNT_TX_DELBA_REQ_REACHED
  | MTLK_ADDBAPI_CNT_TX_DELBA_REQ_RETRANSMISSIONS | MTLK_ADDBAPI_CNT_TX_DELBA_REQ_SENT
  | MTLK_ADDBAPI_CNT_TX_OPEN_AGGR_CFMD_FAIL | MTLK_ADDBAPI_CNT_TX_OPEN_AGGR_CFMD_SUCCESS
  | MTLK_ADDBAPI_CNT_TX_OPEN_AGGR_NOT_CFMD | MTLK_ADDBAPI_CNT_TX_OPEN_AGGR_SENT

text \<open>The fields of \<^verbatim>\<open>UMI_ADDBA_RES_SEND\<close> that differ from one response to the next.\<close>

record umi_addba_res =
  res_DialogToken :: u8
  res_ResultCode :: u16
  res_BATimeout :: u16
  res_WinSize :: u8

text \<open>The firmware requests: each carries what the confirmation callback reads back.\<close>

datatype man_req =
    UM_MAN_ADDBA_REQ_TX_REQ u8 u8 u16
  | UM_MAN_OPEN_AGGR_REQ u8
  | UM_MAN_CLOSE_AGGR_REQ u8
  | UM_MAN_DELBA_REQ bool
  | UM_MAN_ADDBA_RES_TX_REQ umi_addba_res

datatype man_msg = MsgIdle | MsgAttached | MsgSent man_req

record mtlk_addba_peer_tx_t =
  tx_state :: mtlk_addba_peer_tx_state_e
  addba_req_cfmd_time :: u32
  addba_req_dlgt :: u8
  addba_res_rejects :: u8
  tx_man_msg :: man_msg
  tx_delba_req_attempt :: u8
  win_size_req :: u8
  ts_id :: u8
  addba_req_reject_state :: bool
  addba_req_reject_time :: u32
  addba_req_reject_interval :: u32

record mtlk_addba_peer_rx_t =
  rx_state :: mtlk_addba_peer_rx_state_e
  delba_timeout :: u32
  req_tstamp :: u32
  rx_man_msg :: man_msg
  reorder_is_active :: bool
  rx_delba_req_attempt :: u8
  addba_res_attempt :: u8
  delba_on_rx_time :: u32
  addba_res :: umi_addba_res

record mtlk_addba_tid_cfg_t =
  use_aggr :: bool
  accept_aggr :: bool
  max_nof_packets :: u16
  max_nof_bytes :: u32
  timeout_interval :: u32
  min_packet_size_in_aggr :: u32
  addba_timeout :: u16
  aggr_win_size :: u8

datatype api_call =
    OnStartAggregation nat | OnStopAggregation nat | OnStartReordering nat u16 u8
  | OnStopReordering nat | OnBaReqRejected nat | OnBaReqUnconfirmed nat

record addba_st =
  addba_cfg :: "nat \<Rightarrow> mtlk_addba_tid_cfg_t"
  aggr_reflim :: mtlk_reflim_t
  reord_reflim :: mtlk_reflim_t
  next_dlg_token :: u8
  is_active :: bool
  txs :: "nat \<Rightarrow> mtlk_addba_peer_tx_t"
  rxs :: "nat \<Rightarrow> mtlk_addba_peer_rx_t"
  cntrs :: "nat \<Rightarrow> mtlk_addba_peer_cnt_id_e \<Rightarrow> u32"
  calls :: "api_call list"
  failed_asserts :: "nat set"

record addba_env =
  env_now :: u32
  env_avail :: "nat \<Rightarrow> bool \<Rightarrow> bool"
  env_send :: "nat \<Rightarrow> bool \<Rightarrow> mtlk_error_t"
  env_last_rx :: "nat \<Rightarrow> u32"

definition upd_tx :: "nat \<Rightarrow> (mtlk_addba_peer_tx_t \<Rightarrow> mtlk_addba_peer_tx_t) \<Rightarrow> addba_st \<Rightarrow> addba_st" where
  "upd_tx t f s = s\<lparr>txs := (txs s)(t := f (txs s t))\<rparr>"

definition upd_rx :: "nat \<Rightarrow> (mtlk_addba_peer_rx_t \<Rightarrow> mtlk_addba_peer_rx_t) \<Rightarrow> addba_st \<Rightarrow> addba_st" where
  "upd_rx t f s = s\<lparr>rxs := (rxs s)(t := f (rxs s t))\<rparr>"

definition mtlk_addba_wss_cntr_inc :: "nat \<Rightarrow> mtlk_addba_peer_cnt_id_e \<Rightarrow> addba_st \<Rightarrow> addba_st" where
  "mtlk_addba_wss_cntr_inc t c s = s\<lparr>cntrs := (cntrs s)(t := (cntrs s t)(c := cntrs s t c + 1))\<rparr>"

definition mtlk_addba_wss_cntr_dec :: "nat \<Rightarrow> mtlk_addba_peer_cnt_id_e \<Rightarrow> addba_st \<Rightarrow> addba_st" where
  "mtlk_addba_wss_cntr_dec t c s = s\<lparr>cntrs := (cntrs s)(t := (cntrs s t)(c := cntrs s t c - 1))\<rparr>"

definition api :: "api_call \<Rightarrow> addba_st \<Rightarrow> addba_st" where
  "api c s = s\<lparr>calls := c # calls s\<rparr>"

definition mtlk_assert :: "nat \<Rightarrow> bool \<Rightarrow> addba_st \<Rightarrow> addba_st" where
  "mtlk_assert line c s = (if c then s else s\<lparr>failed_asserts := insert line (failed_asserts s)\<rparr>)"

text \<open>\<^verbatim>\<open>mtlk_txmm_msg_get_empty_data\<close>: NULL when the message is in use or no block is free.\<close>

definition msg_get_empty_data :: "bool \<Rightarrow> man_msg \<Rightarrow> man_msg option" where
  "msg_get_empty_data av m = (if m = MsgIdle \<and> av then Some MsgAttached else None)"

text \<open>\<^verbatim>\<open>mtlk_txmm_msg_send\<close>: a failed send cancels the message.\<close>

definition msg_send :: "mtlk_error_t \<Rightarrow> man_req \<Rightarrow> man_msg" where
  "msg_send r q = (if r = MTLK_ERR_OK then MsgSent q else MsgIdle)"

definition mtlk_osal_ms_time_diff :: "u32 \<Rightarrow> u32 \<Rightarrow> u32" where
  "mtlk_osal_ms_time_diff a b = a - b"

definition ADDBA_TU_TO_MS :: "u16 \<Rightarrow> u32" where
  "ADDBA_TU_TO_MS n = ucast n * MTLK_ADDBA_BA_TIMEOUT_UNIT_US div 1000"

section \<open>Helpers\<close>

definition mtlk_aux_is_11n_rate :: "u8 \<Rightarrow> bool" where
  "mtlk_aux_is_11n_rate r \<longleftrightarrow> r \<ge> 15 \<and> r \<le> 31"

definition mtlk_addba_is_allowed_rate :: "u16 \<Rightarrow> bool" where
  "mtlk_addba_is_allowed_rate r \<longleftrightarrow> \<not> (r \<noteq> MTLK_ADDBA_RATE_ADAPTIVE \<and> \<not> mtlk_aux_is_11n_rate (ucast r))"

definition mtlk_addba_correct_res_win_size :: "u8 \<Rightarrow> u8" where
  "mtlk_addba_correct_res_win_size w = (if w = 0 then MTLK_ADDBA_MAX_REORD_WIN_SIZE else w)"

definition mtlk_addba_is_aggr_on :: "mtlk_addba_peer_tx_state_e \<Rightarrow> bool" where
  "mtlk_addba_is_aggr_on st \<longleftrightarrow> st = MTLK_ADDBA_TX_AGGR_OPENED \<or> st = MTLK_ADDBA_TX_DEL_AGGR_REQ_SENT"

definition mtlk_addba_is_reord_on :: "addba_st \<Rightarrow> nat \<Rightarrow> bool" where
  "mtlk_addba_is_reord_on s t \<longleftrightarrow> reorder_is_active (rxs s t)"

definition mtlk_addba_peer_reordering_start ::
  "addba_st \<Rightarrow> nat \<Rightarrow> u16 \<Rightarrow> u8 \<Rightarrow> addba_st \<times> mtlk_error_t" where
  "mtlk_addba_peer_reordering_start s t ssn w =
     (case mtlk_reflim_try_ref (reord_reflim s) of
        (False, r) \<Rightarrow> (s\<lparr>reord_reflim := r\<rparr>, MTLK_ERR_NO_RESOURCES)
      | (True, r) \<Rightarrow>
          let s1 = s\<lparr>reord_reflim := r\<rparr> in
          (if \<not> reorder_is_active (rxs s1 t) then
             mtlk_addba_wss_cntr_inc t MTLK_ADDBAPI_CNT_REORD_ACTIVE
               (upd_rx t (\<lambda>x. x\<lparr>reorder_is_active := True\<rparr>) (api (OnStartReordering t ssn w) s1))
           else s1, MTLK_ERR_OK))"

definition mtlk_addba_peer_reset_rx_state :: "addba_st \<Rightarrow> nat \<Rightarrow> addba_st" where
  "mtlk_addba_peer_reset_rx_state s t =
     upd_rx t (\<lambda>x. x\<lparr>rx_state := MTLK_ADDBA_RX_NONE, rx_delba_req_attempt := 0, addba_res_attempt := 0\<rparr>) s"

definition mtlk_addba_peer_reordering_stop :: "addba_st \<Rightarrow> nat \<Rightarrow> addba_st" where
  "mtlk_addba_peer_reordering_stop s t =
     (let s1 = mtlk_addba_peer_reset_rx_state s t in
      if reorder_is_active (rxs s1 t) then
        let s2 = api (OnStopReordering t) (upd_rx t (\<lambda>x. x\<lparr>reorder_is_active := False\<rparr>) s1) in
        mtlk_addba_wss_cntr_dec t MTLK_ADDBAPI_CNT_REORD_ACTIVE
          (s2\<lparr>reord_reflim := mtlk_reflim_unref (reord_reflim s2)\<rparr>)
      else s1)"

definition mtlk_addba_peer_reset_tx_state :: "addba_st \<Rightarrow> nat \<Rightarrow> addba_st \<times> bool" where
  "mtlk_addba_peer_reset_tx_state s t =
     (if tx_state (txs s t) \<noteq> MTLK_ADDBA_TX_NONE then
        let s1 = (if tx_state (txs s t) \<noteq> MTLK_ADDBA_TX_STA_POWER_SAVE then
                    mtlk_addba_wss_cntr_dec t MTLK_ADDBAPI_CNT_AGGR_ACTIVE
                      (s\<lparr>aggr_reflim := mtlk_reflim_unref (aggr_reflim s)\<rparr>)
                  else s) in
        (upd_tx t (\<lambda>x. x\<lparr>tx_state := MTLK_ADDBA_TX_NONE, addba_req_dlgt := INVALID_TAG_ID,
                         ts_id := MTLK_TS_ID_INVALID\<rparr>) s1,
         mtlk_addba_is_aggr_on (tx_state (txs s t)))
      else (s, False))"

section \<open>Confirmation callbacks\<close>

text \<open>
  \<open>confirmed\<close> is \<^verbatim>\<open>reason == MTLK_TXMM_CLBR_CONFIRMED\<close>. Every callback returns
  \<^verbatim>\<open>MTLK_TXMM_CLBA_FREE\<close>: the message is idle afterwards.
\<close>

definition cfm_cnt ::
  "bool \<Rightarrow> u16 \<Rightarrow> mtlk_addba_peer_cnt_id_e \<Rightarrow> mtlk_addba_peer_cnt_id_e \<Rightarrow> mtlk_addba_peer_cnt_id_e \<Rightarrow> mtlk_addba_peer_cnt_id_e"
where
  "cfm_cnt confirmed status not_cfmd cfmd_fail cfmd_success =
     (if \<not> confirmed then not_cfmd else if status \<noteq> UMI_OK then cfmd_fail else cfmd_success)"

definition mtlk_addba_peer_on_delba_req_tx_cfm_clb :: "bool \<Rightarrow> u16 \<Rightarrow> bool \<Rightarrow> addba_st \<Rightarrow> nat \<Rightarrow> addba_st" where
  "mtlk_addba_peer_on_delba_req_tx_cfm_clb confirmed status originator s t =
     (if originator then
        upd_tx t (\<lambda>x. if tx_delba_req_attempt x = 0 then x\<lparr>tx_delba_req_attempt := 1\<rparr> else x)
          (mtlk_addba_wss_cntr_inc t (cfm_cnt confirmed status MTLK_ADDBAPI_CNT_TX_DELBA_REQ_NOT_CFMD
             MTLK_ADDBAPI_CNT_TX_DELBA_REQ_CFMD_FAIL MTLK_ADDBAPI_CNT_TX_DELBA_REQ_CFMD_SUCCESS) s)
      else
        upd_rx t (\<lambda>x. if rx_delba_req_attempt x = 0 then x\<lparr>rx_delba_req_attempt := 1\<rparr> else x)
          (mtlk_addba_wss_cntr_inc t (cfm_cnt confirmed status MTLK_ADDBAPI_CNT_RX_DELBA_REQ_NOT_CFMD
             MTLK_ADDBAPI_CNT_RX_DELBA_REQ_CFMD_FAIL MTLK_ADDBAPI_CNT_RX_DELBA_REQ_CFMD_SUCCESS) s))"

definition mtlk_addba_peer_on_close_aggr_cfm_clb :: "bool \<Rightarrow> u16 \<Rightarrow> addba_st \<Rightarrow> nat \<Rightarrow> addba_st" where
  "mtlk_addba_peer_on_close_aggr_cfm_clb confirmed status s t =
     (let s1 = mtlk_addba_wss_cntr_inc t (cfm_cnt confirmed status MTLK_ADDBAPI_CNT_TX_CLOSE_AGGR_NOT_CFMD
                 MTLK_ADDBAPI_CNT_TX_CLOSE_AGGR_CFMD_FAIL MTLK_ADDBAPI_CNT_TX_CLOSE_AGGR_CFMD_SUCCESS) s;
          (s2, stop) = mtlk_addba_peer_reset_tx_state s1 t
      in if stop then api (OnStopAggregation t) s2 else s2)"

definition mtlk_addba_peer_on_open_aggr_cfm_clb :: "bool \<Rightarrow> u16 \<Rightarrow> u8 \<Rightarrow> addba_st \<Rightarrow> nat \<Rightarrow> addba_st" where
  "mtlk_addba_peer_on_open_aggr_cfm_clb confirmed status u8TsId s t =
     (let s1 = mtlk_addba_wss_cntr_inc t (cfm_cnt confirmed status MTLK_ADDBAPI_CNT_TX_OPEN_AGGR_NOT_CFMD
                 MTLK_ADDBAPI_CNT_TX_OPEN_AGGR_CFMD_FAIL MTLK_ADDBAPI_CNT_TX_OPEN_AGGR_CFMD_SUCCESS) s;
          s2 = (if confirmed \<and> status = UMI_OK then upd_tx t (\<lambda>x. x\<lparr>ts_id := u8TsId\<rparr>) s1 else s1);
          s3 = mtlk_assert 449 (tx_state (txs s2 t) = MTLK_ADDBA_TX_ADD_AGGR_REQ_SENT) s2
      in api (OnStartAggregation t) (upd_tx t (\<lambda>x. x\<lparr>tx_state := MTLK_ADDBA_TX_AGGR_OPENED\<rparr>) s3))"

definition mtlk_addba_peer_on_addba_req_tx_cfm_clb :: "u32 \<Rightarrow> bool \<Rightarrow> u16 \<Rightarrow> addba_st \<Rightarrow> nat \<Rightarrow> addba_st" where
  "mtlk_addba_peer_on_addba_req_tx_cfm_clb now confirmed status s t =
     upd_tx t (\<lambda>x. x\<lparr>tx_state := MTLK_ADDBA_TX_ADDBA_REQ_CFMD, addba_req_cfmd_time := now\<rparr>)
       (mtlk_addba_wss_cntr_inc t (cfm_cnt confirmed status MTLK_ADDBAPI_CNT_TX_ADDBA_REQ_NOT_CFMD
          MTLK_ADDBAPI_CNT_TX_ADDBA_REQ_CFMD_FAIL MTLK_ADDBAPI_CNT_TX_ADDBA_REQ_CFMD_SUCCESS) s)"

definition mtlk_addba_peer_on_addba_res_tx_cfm_clb :: "bool \<Rightarrow> u16 \<Rightarrow> addba_st \<Rightarrow> nat \<Rightarrow> addba_st" where
  "mtlk_addba_peer_on_addba_res_tx_cfm_clb confirmed status s t =
     upd_rx t (\<lambda>x. if addba_res_attempt x = 0 then x\<lparr>addba_res_attempt := 1\<rparr> else x)
       (mtlk_addba_wss_cntr_inc t (cfm_cnt confirmed status MTLK_ADDBAPI_CNT_RX_ADDBA_RES_NOT_CFMD
          MTLK_ADDBAPI_CNT_RX_ADDBA_RES_CFMD_FAIL MTLK_ADDBAPI_CNT_RX_ADDBA_RES_CFMD_SUCCESS) s)"

section \<open>Transmit side\<close>

definition mtlk_addba_peer_on_addba_req_sent :: "addba_st \<Rightarrow> nat \<Rightarrow> addba_st" where
  "mtlk_addba_peer_on_addba_req_sent s t =
     (let s1 = upd_tx t (\<lambda>x. x\<lparr>tx_state := MTLK_ADDBA_TX_ADDBA_REQ_SENT, addba_req_dlgt := next_dlg_token s\<rparr>) s;
          n = next_dlg_token s1 + 1;
          s2 = s1\<lparr>next_dlg_token := (if n = INVALID_TAG_ID then n + 1 else n)\<rparr>
      in mtlk_addba_wss_cntr_inc t MTLK_ADDBAPI_CNT_TX_ADDBA_REQ_SENT
           (mtlk_addba_wss_cntr_inc t MTLK_ADDBAPI_CNT_AGGR_ACTIVE s2))"

definition addba_req_win_size :: "u8 \<Rightarrow> u8" where
  "addba_req_win_size w =
     (if w = 0 then w
      else if w > MTLK_ADDBA_MAX_REORD_WIN_SIZE then MTLK_ADDBA_MAX_REORD_WIN_SIZE
      else if w < MTLK_ADDBA_MIN_REORD_WIN_SIZE then MTLK_ADDBA_MIN_REORD_WIN_SIZE
      else w)"

definition mtlk_addba_peer_fill_addba_req :: "addba_st \<Rightarrow> nat \<Rightarrow> addba_st \<times> man_req" where
  "mtlk_addba_peer_fill_addba_req s t =
     (let w = addba_req_win_size (aggr_win_size (addba_cfg s t)) in
      (upd_tx t (\<lambda>x. x\<lparr>win_size_req := w\<rparr>) s,
       UM_MAN_ADDBA_REQ_TX_REQ (next_dlg_token s) w (addba_timeout (addba_cfg s t))))"

definition mtlk_addba_peer_tx_addba_req :: "addba_env \<Rightarrow> addba_st \<Rightarrow> nat \<Rightarrow> bool \<Rightarrow> addba_st" where
  "mtlk_addba_peer_tx_addba_req env s t ps_mode =
     (if tx_state (txs s t) \<noteq> MTLK_ADDBA_TX_NONE then s
      else if ps_mode then upd_tx t (\<lambda>x. x\<lparr>tx_state := MTLK_ADDBA_TX_STA_POWER_SAVE\<rparr>) s
      else case mtlk_reflim_try_ref (aggr_reflim s) of
        (False, r) \<Rightarrow> s\<lparr>aggr_reflim := r\<rparr>
      | (True, r) \<Rightarrow>
          let s1 = s\<lparr>aggr_reflim := r\<rparr> in
          (case msg_get_empty_data (env_avail env t True) (tx_man_msg (txs s1 t)) of
             None \<Rightarrow> s1\<lparr>aggr_reflim := mtlk_reflim_unref (aggr_reflim s1)\<rparr>
           | Some _ \<Rightarrow>
               let (s2, q) = mtlk_addba_peer_fill_addba_req s1 t;
                   s3 = upd_tx t (\<lambda>x. x\<lparr>tx_man_msg := msg_send (env_send env t True) q\<rparr>) s2
               in if env_send env t True = MTLK_ERR_OK then mtlk_addba_peer_on_addba_req_sent s3 t
                  else s3\<lparr>aggr_reflim := mtlk_reflim_unref (aggr_reflim s3)\<rparr>))"

definition mtlk_addba_peer_close_aggr_req :: "addba_env \<Rightarrow> addba_st \<Rightarrow> nat \<Rightarrow> addba_st" where
  "mtlk_addba_peer_close_aggr_req env s t =
     (if tx_state (txs s t) \<noteq> MTLK_ADDBA_TX_ADD_AGGR_REQ_SENT \<and> tx_state (txs s t) \<noteq> MTLK_ADDBA_TX_AGGR_OPENED then s
      else if ts_id (txs s t) = MTLK_TS_ID_INVALID then s
      else case msg_get_empty_data (env_avail env t True) (tx_man_msg (txs s t)) of
        None \<Rightarrow> s
      | Some _ \<Rightarrow>
          let s1 = upd_tx t (\<lambda>x. x\<lparr>tx_man_msg := msg_send (env_send env t True) (UM_MAN_CLOSE_AGGR_REQ (ts_id x))\<rparr>) s
          in if env_send env t True = MTLK_ERR_OK then
               mtlk_addba_wss_cntr_inc t MTLK_ADDBAPI_CNT_TX_CLOSE_AGGR_SENT
                 (upd_tx t (\<lambda>x. x\<lparr>tx_state := MTLK_ADDBA_TX_DEL_AGGR_REQ_SENT\<rparr>) s1)
             else s1)"

text \<open>\<^verbatim>\<open>dir\<close> is \<open>True\<close> for \<^verbatim>\<open>BA_DIR_ORIGINATOR\<close>. Both directions use the receive side message.\<close>

definition mtlk_addba_peer_send_delba_req :: "addba_env \<Rightarrow> addba_st \<Rightarrow> nat \<Rightarrow> bool \<Rightarrow> addba_st" where
  "mtlk_addba_peer_send_delba_req env s t originator =
     (case msg_get_empty_data (env_avail env t False) (rx_man_msg (rxs s t)) of
        None \<Rightarrow> s
      | Some _ \<Rightarrow>
          let s1 = upd_rx t (\<lambda>x. x\<lparr>rx_man_msg := msg_send (env_send env t False) (UM_MAN_DELBA_REQ originator)\<rparr>) s
          in if env_send env t False \<noteq> MTLK_ERR_OK then s1
             else if \<not> originator then
               mtlk_addba_wss_cntr_inc t MTLK_ADDBAPI_CNT_RX_DELBA_REQ_SENT
                 (upd_rx t (\<lambda>x. x\<lparr>rx_state := (if mtlk_addba_is_reord_on s1 t then MTLK_ADDBA_RX_DELBA_REQ_SENT
                              else MTLK_ADDBA_RX_DELBA_REQ_SENT_WITHOUT_REORDERING)\<rparr>) s1)
             else mtlk_addba_wss_cntr_inc t MTLK_ADDBAPI_CNT_TX_DELBA_REQ_SENT s1)"

text \<open>The body of the loop in \<^verbatim>\<open>_mtlk_addba_peer_stop\<close>; the two \<^verbatim>\<open>memset\<close>s clear up to \<^verbatim>\<open>man_msg\<close>.\<close>

definition addba_peer_stop_tid :: "u32 \<Rightarrow> addba_st \<Rightarrow> nat \<Rightarrow> addba_st" where
  "addba_peer_stop_tid now s t =
     (let (s1, stop) = mtlk_addba_peer_reset_tx_state s t;
          s2 = upd_tx t (\<lambda>x. x\<lparr>tx_man_msg := MsgIdle\<rparr>) s1;
          s3 = (if stop then api (OnStopAggregation t) s2 else s2);
          s4 = mtlk_addba_peer_reset_rx_state s3 t;
          s5 = upd_rx t (\<lambda>x. x\<lparr>rx_man_msg := MsgIdle\<rparr>) s4;
          s6 = mtlk_addba_peer_reordering_stop s5 t;
          s7 = upd_tx t (\<lambda>x. x\<lparr>tx_state := MTLK_ADDBA_TX_NONE, addba_req_cfmd_time := 0, addba_req_dlgt := 0,
                               addba_res_rejects := 0\<rparr>) s6;
          s8 = upd_rx t (\<lambda>x. x\<lparr>rx_state := MTLK_ADDBA_RX_NONE, delba_timeout := 0, req_tstamp := 0\<rparr>) s7
      in upd_rx t (\<lambda>x. x\<lparr>delba_on_rx_time := now\<rparr>) s8)"

definition all_tids :: "nat list" where
  "all_tids = [0..<MTLK_ADDBA_NOF_TIDs]"

definition addba_peer_stop_all :: "u32 \<Rightarrow> addba_st \<Rightarrow> addba_st" where
  "addba_peer_stop_all now s = foldl (addba_peer_stop_tid now) s all_tids"

definition addba_check_res_timeout_tid :: "u32 \<Rightarrow> addba_st \<Rightarrow> nat \<Rightarrow> addba_st" where
  "addba_check_res_timeout_tid now s t =
     (let x = txs s t in
      if tx_state x = MTLK_ADDBA_TX_ADDBA_REQ_CFMD then
        if mtlk_osal_ms_time_diff now (addba_req_cfmd_time x) \<ge> MTLK_DOT11_ADDBA_RESPONSE_TIMEOUT_MS then
          let (s1, stop) = mtlk_addba_peer_reset_tx_state s t
          in api (OnBaReqUnconfirmed t)
               (mtlk_addba_wss_cntr_inc t MTLK_ADDBAPI_CNT_TX_ADDBA_RES_TIMEOUT (mtlk_assert 849 (\<not> stop) s1))
        else s
      else if tx_state x = MTLK_ADDBA_TX_NONE then
        if addba_req_reject_state x \<and>
           mtlk_osal_ms_time_diff now (addba_req_reject_time x) \<ge> addba_req_reject_interval x then
          api (OnBaReqUnconfirmed t)
            (upd_tx t (\<lambda>x. x\<lparr>addba_req_reject_state := False,
               addba_req_reject_interval :=
                 (if addba_req_reject_interval x * 2 > ADDBA_REJECT_INTERVAL_MAX
                  then ADDBA_REJECT_INTERVAL_MAX else addba_req_reject_interval x * 2)\<rparr>) s)
        else s
      else s)"

definition mtlk_addba_peer_check_addba_res_rx_timeouts :: "u32 \<Rightarrow> addba_st \<Rightarrow> addba_st" where
  "mtlk_addba_peer_check_addba_res_rx_timeouts now s = foldl (addba_check_res_timeout_tid now) s all_tids"

definition addba_check_delba_timeout_tid :: "addba_env \<Rightarrow> addba_st \<Rightarrow> nat \<Rightarrow> addba_st" where
  "addba_check_delba_timeout_tid env s t =
     (if rx_state (rxs s t) = MTLK_ADDBA_RX_REORD_IN_PROCESS \<and> delba_timeout (rxs s t) \<noteq> 0 \<and>
         mtlk_osal_ms_time_diff (env_now env) (env_last_rx env t) \<ge> delba_timeout (rxs s t)
      then mtlk_addba_peer_send_delba_req env
             (mtlk_addba_wss_cntr_inc t MTLK_ADDBAPI_CNT_RX_DELBA_SENT_BY_TIMEOUT s) t False
      else s)"

definition mtlk_addba_peer_check_delba_timeouts :: "addba_env \<Rightarrow> addba_st \<Rightarrow> addba_st" where
  "mtlk_addba_peer_check_delba_timeouts env s = foldl (addba_check_delba_timeout_tid env) s all_tids"

section \<open>Entry points\<close>

definition mtlk_addba_reconfigure :: "addba_st \<Rightarrow> (nat \<Rightarrow> mtlk_addba_tid_cfg_t) \<Rightarrow> addba_st" where
  "mtlk_addba_reconfigure s c = s\<lparr>addba_cfg := c\<rparr>"

definition zero_tx :: mtlk_addba_peer_tx_t where
  "zero_tx = \<lparr>tx_state = MTLK_ADDBA_TX_NONE, addba_req_cfmd_time = 0, addba_req_dlgt = 0, addba_res_rejects = 0,
     tx_man_msg = MsgIdle, tx_delba_req_attempt = 0, win_size_req = 0, ts_id = 0,
     addba_req_reject_state = False, addba_req_reject_time = 0, addba_req_reject_interval = 0\<rparr>"

definition zero_rx :: mtlk_addba_peer_rx_t where
  "zero_rx = \<lparr>rx_state = MTLK_ADDBA_RX_NONE, delba_timeout = 0, req_tstamp = 0, rx_man_msg = MsgIdle,
     reorder_is_active = False, rx_delba_req_attempt = 0, addba_res_attempt = 0, delba_on_rx_time = 0,
     addba_res = \<lparr>res_DialogToken = 0, res_ResultCode = 0, res_BATimeout = 0, res_WinSize = 0\<rparr>\<rparr>"

text \<open>
  \<^verbatim>\<open>mtlk_addba_init\<close> followed by \<^verbatim>\<open>mtlk_addba_peer_init\<close> on zeroed memory, all init steps
  succeeding; the limiters arrive with the references other peers hold.
\<close>

definition mtlk_addba_peer_init ::
  "(nat \<Rightarrow> mtlk_addba_tid_cfg_t) \<Rightarrow> mtlk_reflim_t \<Rightarrow> mtlk_reflim_t \<Rightarrow> addba_st" where
  "mtlk_addba_peer_init c aggr reord =
     \<lparr>addba_cfg = c, aggr_reflim = aggr, reord_reflim = reord, next_dlg_token = 0, is_active = False,
      txs = (\<lambda>_. zero_tx\<lparr>ts_id := MTLK_TS_ID_INVALID\<rparr>), rxs = (\<lambda>_. zero_rx),
      cntrs = (\<lambda>_ _. 0), calls = [], failed_asserts = {}\<rparr>"

definition mtlk_addba_peer_on_delba_req_rx :: "addba_env \<Rightarrow> addba_st \<Rightarrow> nat \<Rightarrow> bool \<Rightarrow> addba_st" where
  "mtlk_addba_peer_on_delba_req_rx env s t initiator =
     (if t \<ge> MTLK_ADDBA_NOF_TIDs \<or> \<not> is_active s then s
      else if initiator then
        mtlk_addba_peer_reordering_stop (mtlk_addba_wss_cntr_inc t MTLK_ADDBAPI_CNT_RX_DELBA_REQ_RCV s) t
      else
        mtlk_addba_peer_close_aggr_req env (mtlk_addba_wss_cntr_inc t MTLK_ADDBAPI_CNT_TX_DELBA_REQ_RCV s) t)"

text \<open>The window handed to the firmware: \<open>None\<close> when the code gives up on it.\<close>

definition aggr_win_size_fw :: "u8 \<Rightarrow> u8 \<Rightarrow> u8 option" where
  "aggr_win_size_fw req rsp =
     (let w = (if req = 0 then rsp else min req rsp) in
      if w > MTLK_ADDBA_MAX_REORD_WIN_SIZE then Some MTLK_ADDBA_MAX_REORD_WIN_SIZE
      else if w < MTLK_ADDBA_MIN_REORD_WIN_SIZE then None
      else Some w)"

definition addba_res_rx_positive :: "addba_env \<Rightarrow> addba_st \<Rightarrow> nat \<Rightarrow> u8 \<Rightarrow> addba_st" where
  "addba_res_rx_positive env s t win_size_rsp =
     (let s1 = upd_tx t (\<lambda>x. x\<lparr>addba_res_rejects := 0, addba_req_reject_interval := ADDBA_REJECT_INTERVAL_MIN\<rparr>)
                 (mtlk_addba_wss_cntr_inc t MTLK_ADDBAPI_CNT_TX_ADDBA_RES_RCV_POSITIVE s) in
      case msg_get_empty_data (env_avail env t True) (tx_man_msg (txs s1 t)) of
        None \<Rightarrow> s1
      | Some m \<Rightarrow>
          let s2 = upd_tx t (\<lambda>x. x\<lparr>tx_man_msg := m\<rparr>) s1 in
          (case aggr_win_size_fw (win_size_req (txs s2 t)) win_size_rsp of
             None \<Rightarrow> s2
           | Some w \<Rightarrow>
               let s3 = upd_tx t (\<lambda>x. x\<lparr>tx_man_msg := msg_send (env_send env t True) (UM_MAN_OPEN_AGGR_REQ w)\<rparr>) s2
               in if env_send env t True = MTLK_ERR_OK then
                    mtlk_addba_wss_cntr_inc t MTLK_ADDBAPI_CNT_TX_OPEN_AGGR_SENT
                      (upd_tx t (\<lambda>x. x\<lparr>tx_state := MTLK_ADDBA_TX_ADD_AGGR_REQ_SENT\<rparr>) s3)
                  else s3))"

definition addba_res_rx_negative :: "u32 \<Rightarrow> addba_st \<Rightarrow> nat \<Rightarrow> addba_st" where
  "addba_res_rx_negative now s t =
     (let (s1, stop) = mtlk_addba_peer_reset_tx_state s t;
          s2 = upd_tx t (\<lambda>x. x\<lparr>addba_res_rejects := addba_res_rejects x + 1\<rparr>)
                 (mtlk_addba_wss_cntr_inc t MTLK_ADDBAPI_CNT_TX_ADDBA_RES_RCV_NEGATIVE (mtlk_assert 1260 (\<not> stop) s1))
      in if addba_res_rejects (txs s2 t) < MTLK_ADDBA_MAX_REJECTS then api (OnBaReqRejected t) s2
         else upd_tx t (\<lambda>x. x\<lparr>addba_res_rejects := 0, addba_req_reject_state := True, addba_req_reject_time := now\<rparr>) s2)"

definition mtlk_addba_peer_on_addba_res_rx ::
  "addba_env \<Rightarrow> addba_st \<Rightarrow> u16 \<Rightarrow> nat \<Rightarrow> u8 \<Rightarrow> u8 \<Rightarrow> addba_st" where
  "mtlk_addba_peer_on_addba_res_rx env s res_code t win_size_rsp dlgt =
     (if t \<ge> MTLK_ADDBA_NOF_TIDs \<or> \<not> is_active s then s
      else if addba_req_dlgt (txs s t) \<noteq> dlgt then s
      else if tx_state (txs s t) \<noteq> MTLK_ADDBA_TX_ADDBA_REQ_SENT \<and> tx_state (txs s t) \<noteq> MTLK_ADDBA_TX_ADDBA_REQ_CFMD then s
      else if res_code = MTLK_ADDBA_RES_CODE_SUCCESS then addba_res_rx_positive env s t win_size_rsp
      else addba_res_rx_negative (env_now env) s t)"

definition mtlk_addba_peer_send_rx_addba_res :: "addba_env \<Rightarrow> addba_st \<Rightarrow> nat \<Rightarrow> addba_st \<times> mtlk_error_t" where
  "mtlk_addba_peer_send_rx_addba_res env s t =
     (case msg_get_empty_data (env_avail env t False) (rx_man_msg (rxs s t)) of
        None \<Rightarrow> (s, MTLK_ERR_NO_RESOURCES)
      | Some _ \<Rightarrow>
          let r = addba_res (rxs s t);
              e = env_send env t False;
              s1 = upd_rx t (\<lambda>x. x\<lparr>rx_man_msg := msg_send e (UM_MAN_ADDBA_RES_TX_REQ r)\<rparr>) s
          in (if e \<noteq> MTLK_ERR_OK then s1
              else if res_ResultCode r = MTLK_ADDBA_RES_CODE_SUCCESS then
                mtlk_addba_wss_cntr_inc t MTLK_ADDBAPI_CNT_RX_ADDBA_RES_POSITIVE_SENT
                  (upd_rx t (\<lambda>x. x\<lparr>rx_state := MTLK_ADDBA_RX_ADDBA_POSITIVE_RES_SENT, req_tstamp := env_now env\<rparr>) s1)
              else
                mtlk_addba_wss_cntr_inc t MTLK_ADDBAPI_CNT_RX_ADDBA_RES_NEGATIVE_SENT
                  (upd_rx t (\<lambda>x. x\<lparr>rx_state := MTLK_ADDBA_RX_ADDBA_NEGATIVE_RES_SENT\<rparr>) s1), e))"

text \<open>The decision on an ADDBA request: the response fields and, if accepted, reordering.\<close>

definition addba_req_decide :: "addba_st \<Rightarrow> u16 \<Rightarrow> nat \<Rightarrow> u8 \<Rightarrow> u8 \<Rightarrow> u16 \<Rightarrow> bool \<Rightarrow> u16 \<Rightarrow> addba_st" where
  "addba_req_decide s ssn t win_size dlgt tmout ack_policy rate =
     (let s1 = upd_rx t (\<lambda>x. x\<lparr>addba_res := (addba_res x)\<lparr>res_DialogToken := dlgt\<rparr>\<rparr>) s;
          w = mtlk_addba_correct_res_win_size win_size;
          fail = (\<lambda>s. upd_rx t (\<lambda>x. x\<lparr>addba_res := (addba_res x)\<lparr>res_ResultCode := MTLK_ADDBA_RES_CODE_FAILURE\<rparr>\<rparr>) s)
      in if \<not> mtlk_addba_is_allowed_rate rate then fail s1
         else if \<not> accept_aggr (addba_cfg s1 t) then fail s1
         else if \<not> ack_policy then fail s1
         else case mtlk_addba_peer_reordering_start s1 t ssn w of
                (s2, e) \<Rightarrow>
                  if e \<noteq> MTLK_ERR_OK then fail s2
                  else upd_rx t (\<lambda>x. x\<lparr>addba_res := (addba_res x)\<lparr>res_ResultCode := MTLK_ADDBA_RES_CODE_SUCCESS,
                                       res_BATimeout := tmout, res_WinSize := w\<rparr>\<rparr>) s2)"

definition mtlk_addba_peer_on_addba_req_rx ::
  "addba_env \<Rightarrow> addba_st \<Rightarrow> u16 \<Rightarrow> nat \<Rightarrow> u8 \<Rightarrow> u8 \<Rightarrow> u16 \<Rightarrow> bool \<Rightarrow> u16 \<Rightarrow> addba_st" where
  "mtlk_addba_peer_on_addba_req_rx env s ssn t win_size dlgt tmout ack_policy rate =
     (if t \<ge> MTLK_ADDBA_NOF_TIDs \<or> \<not> is_active s then s
      else let s1 = mtlk_addba_wss_cntr_inc t MTLK_ADDBAPI_CNT_RX_ADDBA_REQ_RECEIVED s;
               st = rx_state (rxs s1 t) in
        if st \<noteq> MTLK_ADDBA_RX_NONE \<and> (dlgt = res_DialogToken (addba_res (rxs s1 t)) \<or>
             st = MTLK_ADDBA_RX_ADDBA_POSITIVE_RES_SENT \<or> st = MTLK_ADDBA_RX_ADDBA_NEGATIVE_RES_SENT) then s1
        else let s2 = mtlk_addba_peer_reordering_stop s1 t;
                 s3 = addba_req_decide s2 ssn t win_size dlgt tmout ack_policy rate;
                 (s4, e) = mtlk_addba_peer_send_rx_addba_res env s3 t
             in if e \<noteq> MTLK_ERR_OK then mtlk_addba_peer_reordering_stop s4 t
                else if mtlk_addba_is_reord_on s4 t then upd_rx t (\<lambda>x. x\<lparr>delba_timeout := ADDBA_TU_TO_MS tmout\<rparr>) s4
                else s4)"

definition mtlk_addba_peer_on_rx_delba_req_tx_status :: "addba_env \<Rightarrow> addba_st \<Rightarrow> nat \<Rightarrow> u16 \<Rightarrow> addba_st" where
  "mtlk_addba_peer_on_rx_delba_req_tx_status env s t status =
     (let st = rx_state (rxs s t); lost = mtlk_addba_wss_cntr_inc t MTLK_ADDBAPI_CNT_RX_DELBA_REQ_LOST in
      if status = UMI_OK then
        mtlk_addba_wss_cntr_inc t MTLK_ADDBAPI_CNT_RX_DELBA_REQ_REACHED
          (if st = MTLK_ADDBA_RX_DELBA_REQ_SENT then mtlk_addba_peer_reordering_stop s t
           else if st = MTLK_ADDBA_RX_DELBA_REQ_SENT_WITHOUT_REORDERING then mtlk_addba_peer_reset_rx_state s t
           else s)
      else if st = MTLK_ADDBA_RX_DELBA_REQ_SENT_WITHOUT_REORDERING then lost (mtlk_addba_peer_reset_rx_state s t)
      else if st \<noteq> MTLK_ADDBA_RX_DELBA_REQ_SENT then lost (upd_rx t (\<lambda>x. x\<lparr>rx_delba_req_attempt := 0\<rparr>) s)
      else let s1 = mtlk_assert 1515 (rx_delba_req_attempt (rxs s t) \<noteq> 0) s in
        if rx_delba_req_attempt (rxs s1 t) \<ge> MTLK_DELBA_REQ_MAX_RETRANSMISSIONS then
          lost (mtlk_addba_peer_reordering_stop (upd_rx t (\<lambda>x. x\<lparr>rx_delba_req_attempt := 0\<rparr>) s1) t)
        else
          mtlk_addba_wss_cntr_inc t MTLK_ADDBAPI_CNT_RX_DELBA_REQ_RETRANSMISSIONS
            (mtlk_addba_peer_send_delba_req env
               (upd_rx t (\<lambda>x. x\<lparr>rx_delba_req_attempt := rx_delba_req_attempt x + 1\<rparr>) s1) t False))"

definition mtlk_addba_peer_on_tx_delba_req_tx_status :: "addba_env \<Rightarrow> addba_st \<Rightarrow> nat \<Rightarrow> u16 \<Rightarrow> addba_st" where
  "mtlk_addba_peer_on_tx_delba_req_tx_status env s t status =
     (let st = tx_state (txs s t); lost = mtlk_addba_wss_cntr_inc t MTLK_ADDBAPI_CNT_TX_DELBA_REQ_LOST in
      if status = UMI_OK then mtlk_addba_wss_cntr_inc t MTLK_ADDBAPI_CNT_TX_DELBA_REQ_REACHED s
      else if st \<noteq> MTLK_ADDBA_TX_NONE \<and> st \<noteq> MTLK_ADDBA_TX_DEL_AGGR_REQ_SENT then
        lost (upd_tx t (\<lambda>x. x\<lparr>tx_delba_req_attempt := 0\<rparr>) s)
      else let s1 = mtlk_assert 1569 (tx_delba_req_attempt (txs s t) \<noteq> 0) s in
        if tx_delba_req_attempt (txs s1 t) \<ge> MTLK_DELBA_REQ_MAX_RETRANSMISSIONS then
          lost (upd_tx t (\<lambda>x. x\<lparr>tx_delba_req_attempt := 0\<rparr>) s1)
        else
          mtlk_addba_wss_cntr_inc t MTLK_ADDBAPI_CNT_TX_DELBA_REQ_RETRANSMISSIONS
            (mtlk_addba_peer_send_delba_req env
               (upd_tx t (\<lambda>x. x\<lparr>tx_delba_req_attempt := tx_delba_req_attempt x + 1\<rparr>) s1) t True))"

definition mtlk_addba_peer_on_addba_res_tx_req_tx_status :: "addba_env \<Rightarrow> addba_st \<Rightarrow> nat \<Rightarrow> u16 \<Rightarrow> addba_st" where
  "mtlk_addba_peer_on_addba_res_tx_req_tx_status env s t status =
     (let st = rx_state (rxs s t) in
      if status = UMI_OK then
        mtlk_addba_wss_cntr_inc t MTLK_ADDBAPI_CNT_RX_ADDBA_RES_REACHED
          (upd_rx t (\<lambda>x. x\<lparr>addba_res_attempt := 0\<rparr>)
            (if st = MTLK_ADDBA_RX_ADDBA_POSITIVE_RES_SENT then
               upd_rx t (\<lambda>x. x\<lparr>rx_state := MTLK_ADDBA_RX_REORD_IN_PROCESS\<rparr>) s
             else if st = MTLK_ADDBA_RX_ADDBA_NEGATIVE_RES_SENT then mtlk_addba_peer_reset_rx_state s t
             else s))
      else if st \<noteq> MTLK_ADDBA_RX_ADDBA_POSITIVE_RES_SENT \<and> st \<noteq> MTLK_ADDBA_RX_ADDBA_NEGATIVE_RES_SENT then
        upd_rx t (\<lambda>x. x\<lparr>addba_res_attempt := 0\<rparr>) s
      else let s1 = mtlk_assert 1638 (addba_res_attempt (rxs s t) \<noteq> 0) s in
        if addba_res_attempt (rxs s1 t) \<ge> MTLK_ADDBA_RSP_MAX_RETRANSMISSIONS then
          mtlk_addba_wss_cntr_inc t MTLK_ADDBAPI_CNT_RX_ADDBA_RES_LOST
            (mtlk_addba_peer_reordering_stop
              (upd_rx t (\<lambda>x. x\<lparr>addba_res_attempt := 0, rx_state := MTLK_ADDBA_RX_NONE\<rparr>) s1) t)
        else
          mtlk_addba_wss_cntr_inc t MTLK_ADDBAPI_CNT_RX_ADDBA_RES_RETRANSMISSIONS
            (fst (mtlk_addba_peer_send_rx_addba_res env
               (upd_rx t (\<lambda>x. x\<lparr>addba_res_attempt := addba_res_attempt x + 1\<rparr>) s1) t)))"

datatype ba_tx_message = BaTxDelbaReq bool | BaTxAddbaRes | BaTxOther

definition mtlk_addba_peer_on_ba_tx_status :: "addba_env \<Rightarrow> addba_st \<Rightarrow> ba_tx_message \<Rightarrow> nat \<Rightarrow> u16 \<Rightarrow> addba_st" where
  "mtlk_addba_peer_on_ba_tx_status env s um_id t status =
     (if \<not> is_active s \<or> t \<ge> MTLK_ADDBA_NOF_TIDs then s
      else case um_id of
        BaTxDelbaReq True \<Rightarrow> mtlk_addba_peer_on_tx_delba_req_tx_status env s t status
      | BaTxDelbaReq False \<Rightarrow> mtlk_addba_peer_on_rx_delba_req_tx_status env s t status
      | BaTxAddbaRes \<Rightarrow> mtlk_addba_peer_on_addba_res_tx_req_tx_status env s t status
      | BaTxOther \<Rightarrow> s)"

text \<open>The callers of \<^verbatim>\<open>mtlk_addba_delba_req\<close> pass a TID below 8; the code only asserts it.\<close>

definition mtlk_addba_delba_req :: "addba_env \<Rightarrow> addba_st \<Rightarrow> nat \<Rightarrow> addba_st" where
  "mtlk_addba_delba_req env s t =
     (if \<not> is_active s then s
      else if tx_state (txs s t) \<noteq> MTLK_ADDBA_TX_ADD_AGGR_REQ_SENT \<and> tx_state (txs s t) \<noteq> MTLK_ADDBA_TX_AGGR_OPENED then s
      else mtlk_addba_peer_send_delba_req env (mtlk_addba_peer_close_aggr_req env s t) t True)"

definition mtlk_addba_delba_req_all :: "addba_env \<Rightarrow> addba_st \<Rightarrow> addba_st" where
  "mtlk_addba_delba_req_all env s =
     (if \<not> is_active s then s else foldl (mtlk_addba_delba_req env) s all_tids)"

definition mtlk_addba_peer_on_ack_on_bar :: "addba_env \<Rightarrow> addba_st \<Rightarrow> nat \<Rightarrow> addba_st" where
  "mtlk_addba_peer_on_ack_on_bar env s t =
     (if \<not> is_active s \<or> t \<ge> MTLK_ADDBA_NOF_TIDs then s
      else mtlk_addba_delba_req env (mtlk_addba_wss_cntr_inc t MTLK_ADDBAPI_CNT_TX_ACK_ON_BAR_DETECTED s) t)"

definition mtlk_addba_peer_on_bar :: "addba_env \<Rightarrow> addba_st \<Rightarrow> nat \<Rightarrow> addba_st" where
  "mtlk_addba_peer_on_bar env s t =
     (if \<not> is_active s \<or> t \<ge> MTLK_ADDBA_NOF_TIDs then s
      else if rx_state (rxs s t) = MTLK_ADDBA_RX_NONE \<or> rx_state (rxs s t) = MTLK_ADDBA_RX_ADDBA_NEGATIVE_RES_SENT then
        mtlk_addba_peer_send_delba_req env
          (mtlk_addba_wss_cntr_inc t MTLK_ADDBAPI_CNT_RX_BAR_WITHOUT_REORDERING s) t False
      else s)"

definition mtlk_addba_peer_iterate :: "addba_env \<Rightarrow> addba_st \<Rightarrow> addba_st" where
  "mtlk_addba_peer_iterate env s =
     (if is_active s then
        mtlk_addba_peer_check_addba_res_rx_timeouts (env_now env) (mtlk_addba_peer_check_delba_timeouts env s)
      else s)"

definition mtlk_addba_on_qos_without_reord :: "addba_env \<Rightarrow> addba_st \<Rightarrow> nat \<Rightarrow> addba_st" where
  "mtlk_addba_on_qos_without_reord env s t =
     (if \<not> is_active s \<or> t \<ge> MTLK_ADDBA_NOF_TIDs then s
      else if mtlk_osal_ms_time_diff (env_now env) (delba_on_rx_time (rxs s t)) \<ge> MTLK_DELBA_REQ_ON_RX_INTERVAL_MS then
        let s1 = upd_rx t (\<lambda>x. x\<lparr>delba_on_rx_time := env_now env\<rparr>) s in
        (if rx_state (rxs s1 t) = MTLK_ADDBA_RX_NONE \<or> rx_state (rxs s1 t) = MTLK_ADDBA_RX_ADDBA_NEGATIVE_RES_SENT then
           mtlk_addba_peer_send_delba_req env
             (mtlk_addba_wss_cntr_inc t MTLK_ADDBAPI_CNT_RX_AGGR_PKT_WITHOUT_REORDERING s1) t False
         else s1)
      else s)"

definition mtlk_addba_peer_start :: "u32 \<Rightarrow> addba_st \<Rightarrow> bool \<Rightarrow> addba_st" where
  "mtlk_addba_peer_start now s dot11n_mode =
     (let s1 = mtlk_assert 1807 (\<not> is_active s) s in
      if dot11n_mode then (addba_peer_stop_all now s1)\<lparr>is_active := True\<rparr> else s1)"

definition mtlk_addba_peer_stop :: "u32 \<Rightarrow> addba_st \<Rightarrow> bool \<Rightarrow> addba_st" where
  "mtlk_addba_peer_stop now s dot11n_mode =
     (if dot11n_mode then
        let s1 = mtlk_assert 1963 (is_active s) s in addba_peer_stop_all now (s1\<lparr>is_active := False\<rparr>)
      else s)"

definition mtlk_addba_peer_start_aggr_negotiation :: "addba_env \<Rightarrow> addba_st \<Rightarrow> nat \<Rightarrow> bool \<Rightarrow> addba_st" where
  "mtlk_addba_peer_start_aggr_negotiation env s t ps_mode =
     (let s1 = mtlk_assert 1977 (t < MTLK_ADDBA_NOF_TIDs) (mtlk_assert 1976 (is_active s) s) in
      if use_aggr (addba_cfg s1 t) then mtlk_addba_peer_tx_addba_req env s1 t ps_mode else s1)"

definition mtlk_addba_peer_reset_power_save :: "addba_st \<Rightarrow> nat \<Rightarrow> addba_st \<times> bool" where
  "mtlk_addba_peer_reset_power_save s t =
     (let s1 = mtlk_assert 1995 (t < MTLK_ADDBA_NOF_TIDs) (mtlk_assert 1994 (is_active s) s) in
      if tx_state (txs s1 t) = MTLK_ADDBA_TX_STA_POWER_SAVE
      then (upd_tx t (\<lambda>x. x\<lparr>tx_state := MTLK_ADDBA_TX_NONE\<rparr>) s1, True) else (s1, False))"

section \<open>The peer as a step function\<close>

text \<open>The TXMM calls the callback of a sent message once and frees the message.\<close>

definition addba_tx_cfm :: "addba_env \<Rightarrow> bool \<Rightarrow> u16 \<Rightarrow> u8 \<Rightarrow> addba_st \<Rightarrow> nat \<Rightarrow> addba_st" where
  "addba_tx_cfm env confirmed status u8TsId s t =
     (let idle = upd_tx t (\<lambda>x. x\<lparr>tx_man_msg := MsgIdle\<rparr>) in
      case tx_man_msg (txs s t) of
        MsgSent (UM_MAN_ADDBA_REQ_TX_REQ _ _ _) \<Rightarrow>
          idle (mtlk_addba_peer_on_addba_req_tx_cfm_clb (env_now env) confirmed status s t)
      | MsgSent (UM_MAN_OPEN_AGGR_REQ _) \<Rightarrow> idle (mtlk_addba_peer_on_open_aggr_cfm_clb confirmed status u8TsId s t)
      | MsgSent (UM_MAN_CLOSE_AGGR_REQ _) \<Rightarrow> idle (mtlk_addba_peer_on_close_aggr_cfm_clb confirmed status s t)
      | _ \<Rightarrow> s)"

definition addba_rx_cfm :: "bool \<Rightarrow> u16 \<Rightarrow> addba_st \<Rightarrow> nat \<Rightarrow> addba_st" where
  "addba_rx_cfm confirmed status s t =
     (let idle = upd_rx t (\<lambda>x. x\<lparr>rx_man_msg := MsgIdle\<rparr>) in
      case rx_man_msg (rxs s t) of
        MsgSent (UM_MAN_DELBA_REQ orig) \<Rightarrow> idle (mtlk_addba_peer_on_delba_req_tx_cfm_clb confirmed status orig s t)
      | MsgSent (UM_MAN_ADDBA_RES_TX_REQ _) \<Rightarrow> idle (mtlk_addba_peer_on_addba_res_tx_cfm_clb confirmed status s t)
      | _ \<Rightarrow> s)"

datatype addba_event =
    EvReconfigure "nat \<Rightarrow> mtlk_addba_tid_cfg_t"
  | EvPeerStart bool | EvPeerStop bool
  | EvStartAggr nat bool | EvResetPowerSave nat
  | EvDelbaReqRx nat bool | EvAddbaResRx u16 nat u8 u8
  | EvAddbaReqRx u16 nat u8 u8 u16 bool u16
  | EvBaTxStatus ba_tx_message nat u16
  | EvAckOnBar nat | EvBar nat | EvQosWithoutReord nat
  | EvDelbaReq nat | EvDelbaReqAll | EvIterate
  | EvTxCfm nat bool u16 u8 | EvRxCfm nat bool u16

fun addba_step :: "addba_st \<Rightarrow> addba_env \<times> addba_event \<Rightarrow> addba_st" where
  "addba_step s (env, EvReconfigure c) = mtlk_addba_reconfigure s c"
| "addba_step s (env, EvPeerStart n) = mtlk_addba_peer_start (env_now env) s n"
| "addba_step s (env, EvPeerStop n) = mtlk_addba_peer_stop (env_now env) s n"
| "addba_step s (env, EvStartAggr t ps) = mtlk_addba_peer_start_aggr_negotiation env s t ps"
| "addba_step s (env, EvResetPowerSave t) = fst (mtlk_addba_peer_reset_power_save s t)"
| "addba_step s (env, EvDelbaReqRx t i) = mtlk_addba_peer_on_delba_req_rx env s t i"
| "addba_step s (env, EvAddbaResRx c t w d) = mtlk_addba_peer_on_addba_res_rx env s c t w d"
| "addba_step s (env, EvAddbaReqRx ssn t w d tm ack rate) = mtlk_addba_peer_on_addba_req_rx env s ssn t w d tm ack rate"
| "addba_step s (env, EvBaTxStatus m t st) = mtlk_addba_peer_on_ba_tx_status env s m t st"
| "addba_step s (env, EvAckOnBar t) = mtlk_addba_peer_on_ack_on_bar env s t"
| "addba_step s (env, EvBar t) = mtlk_addba_peer_on_bar env s t"
| "addba_step s (env, EvQosWithoutReord t) = mtlk_addba_on_qos_without_reord env s t"
| "addba_step s (env, EvDelbaReq t) = mtlk_addba_delba_req env s t"
| "addba_step s (env, EvDelbaReqAll) = mtlk_addba_delba_req_all env s"
| "addba_step s (env, EvIterate) = mtlk_addba_peer_iterate env s"
| "addba_step s (env, EvTxCfm t c st ts) = addba_tx_cfm env c st ts s t"
| "addba_step s (env, EvRxCfm t c st) = addba_rx_cfm c st s t"

end
