(* ===== verification/Addba_Inv.thy ===== *)
theory Addba_Inv
  imports Addba
begin

text \<open>
  The invariant of the block ack negotiation and its preservation by every operation of
  \<^verbatim>\<open>addba.c\<close>: the state of a TID agrees with the firmware request that is outstanding, with
  the references it holds on the shared limiters, with its statistics and with what the upper
  layer was told through the wrap API.
\<close>

section \<open>What the upper layer was told\<close>

fun aggr_started :: "api_call list \<Rightarrow> nat \<Rightarrow> bool" where
  "aggr_started [] t = False"
| "aggr_started (OnStartAggregation u # cs) t = (u = t \<or> aggr_started cs t)"
| "aggr_started (OnStopAggregation u # cs) t = (u \<noteq> t \<and> aggr_started cs t)"
| "aggr_started (c # cs) t = aggr_started cs t"

fun reord_started :: "api_call list \<Rightarrow> nat \<Rightarrow> bool" where
  "reord_started [] t = False"
| "reord_started (OnStartReordering u ssn w # cs) t = (u = t \<or> reord_started cs t)"
| "reord_started (OnStopReordering u # cs) t = (u \<noteq> t \<and> reord_started cs t)"
| "reord_started (c # cs) t = reord_started cs t"

text \<open>Start and stop alternate, for aggregation and for reordering; no window is 0.\<close>

fun calls_ok :: "api_call list \<Rightarrow> bool" where
  "calls_ok [] = True"
| "calls_ok (OnStartAggregation t # cs) = (\<not> aggr_started cs t \<and> calls_ok cs)"
| "calls_ok (OnStopAggregation t # cs) = (aggr_started cs t \<and> calls_ok cs)"
| "calls_ok (OnStartReordering t ssn w # cs) = (w \<noteq> 0 \<and> \<not> reord_started cs t \<and> calls_ok cs)"
| "calls_ok (OnStopReordering t # cs) = (reord_started cs t \<and> calls_ok cs)"
| "calls_ok (c # cs) = calls_ok cs"

section \<open>The invariant\<close>

definition tx_holds :: "mtlk_addba_peer_tx_t \<Rightarrow> bool" where
  "tx_holds x \<longleftrightarrow> tx_state x \<noteq> MTLK_ADDBA_TX_NONE \<and> tx_state x \<noteq> MTLK_ADDBA_TX_STA_POWER_SAVE"

fun tx_msg_ok :: "man_msg \<Rightarrow> mtlk_addba_peer_tx_state_e \<Rightarrow> bool" where
  "tx_msg_ok (MsgSent (UM_MAN_ADDBA_REQ_TX_REQ d w tm)) st = (st = MTLK_ADDBA_TX_ADDBA_REQ_SENT)"
| "tx_msg_ok (MsgSent (UM_MAN_OPEN_AGGR_REQ w)) st = (st = MTLK_ADDBA_TX_ADD_AGGR_REQ_SENT \<and> 1 \<le> w \<and> w \<le> 64)"
| "tx_msg_ok (MsgSent (UM_MAN_CLOSE_AGGR_REQ i)) st = (st = MTLK_ADDBA_TX_DEL_AGGR_REQ_SENT)"
| "tx_msg_ok (MsgSent _) st = False"
| "tx_msg_ok MsgAttached st = (st = MTLK_ADDBA_TX_NONE \<or> st = MTLK_ADDBA_TX_ADDBA_REQ_CFMD \<or> st = MTLK_ADDBA_TX_STA_POWER_SAVE)"
| "tx_msg_ok MsgIdle st = (st = MTLK_ADDBA_TX_NONE \<or> st = MTLK_ADDBA_TX_ADDBA_REQ_CFMD \<or>
     st = MTLK_ADDBA_TX_AGGR_OPENED \<or> st = MTLK_ADDBA_TX_STA_POWER_SAVE)"

fun rx_msg_ok :: "man_msg \<Rightarrow> bool" where
  "rx_msg_ok MsgIdle = True"
| "rx_msg_ok (MsgSent (UM_MAN_DELBA_REQ d)) = True"
| "rx_msg_ok (MsgSent (UM_MAN_ADDBA_RES_TX_REQ r)) = True"
| "rx_msg_ok m = False"

definition rx_ok :: "mtlk_addba_peer_rx_t \<Rightarrow> bool" where
  "rx_ok x \<longleftrightarrow> rx_msg_ok (rx_man_msg x) \<and>
     (reorder_is_active x \<longleftrightarrow> rx_state x = MTLK_ADDBA_RX_ADDBA_POSITIVE_RES_SENT \<or>
        rx_state x = MTLK_ADDBA_RX_REORD_IN_PROCESS \<or> rx_state x = MTLK_ADDBA_RX_DELBA_REQ_SENT) \<and>
     (rx_state x = MTLK_ADDBA_RX_ADDBA_POSITIVE_RES_SENT \<longrightarrow> res_ResultCode (addba_res x) = MTLK_ADDBA_RES_CODE_SUCCESS) \<and>
     (rx_state x = MTLK_ADDBA_RX_ADDBA_NEGATIVE_RES_SENT \<longrightarrow> res_ResultCode (addba_res x) \<noteq> MTLK_ADDBA_RES_CODE_SUCCESS) \<and>
     (rx_state x = MTLK_ADDBA_RX_DELBA_REQ_SENT \<longrightarrow>
        rx_delba_req_attempt x \<noteq> 0 \<or> rx_man_msg x = MsgSent (UM_MAN_DELBA_REQ False)) \<and>
     (rx_state x = MTLK_ADDBA_RX_ADDBA_POSITIVE_RES_SENT \<or> rx_state x = MTLK_ADDBA_RX_ADDBA_NEGATIVE_RES_SENT \<longrightarrow>
        addba_res_attempt x \<noteq> 0 \<or> (\<exists>r. rx_man_msg x = MsgSent (UM_MAN_ADDBA_RES_TX_REQ r)))"

definition tid_ok :: "addba_st \<Rightarrow> nat \<Rightarrow> bool" where
  "tid_ok s t \<longleftrightarrow> tx_msg_ok (tx_man_msg (txs s t)) (tx_state (txs s t)) \<and> rx_ok (rxs s t) \<and>
     (cntrs s t MTLK_ADDBAPI_CNT_AGGR_ACTIVE = (if tx_holds (txs s t) then 1 else 0)) \<and>
     (cntrs s t MTLK_ADDBAPI_CNT_REORD_ACTIVE = (if reorder_is_active (rxs s t) then 1 else 0)) \<and>
     aggr_started (calls s) t = mtlk_addba_is_aggr_on (tx_state (txs s t)) \<and>
     reord_started (calls s) t = reorder_is_active (rxs s t)"

definition aggr_refs :: "addba_st \<Rightarrow> nat" where
  "aggr_refs s = (\<Sum>t<8. if tx_holds (txs s t) then 1 else 0)"

definition reord_refs :: "addba_st \<Rightarrow> nat" where
  "reord_refs s = (\<Sum>t<8. if reorder_is_active (rxs s t) then 1 else 0)"

text \<open>\<open>a\<close> and \<open>r\<close> are the references other peers hold on the two limiters.\<close>

definition addba_inv :: "nat \<Rightarrow> nat \<Rightarrow> addba_st \<Rightarrow> bool" where
  "addba_inv a r s \<longleftrightarrow> (\<forall>t<8. tid_ok s t) \<and> calls_ok (calls s) \<and> next_dlg_token s \<noteq> INVALID_TAG_ID \<and>
     failed_asserts s \<subseteq> {1569} \<and> a < 2 ^ 31 \<and> r < 2 ^ 31 \<and>
     reflim_wf (aggr_reflim s) \<and> rl_cur (aggr_reflim s) = a + aggr_refs s \<and>
     reflim_wf (reord_reflim s) \<and> rl_cur (reord_reflim s) = r + reord_refs s"

section \<open>One TID at a time\<close>

lemma sum_upd:
  assumes t: "t < 8" and o: "\<forall>u. u \<noteq> t \<longrightarrow> g' u = g u"
  shows "(\<Sum>i<8::nat. f (g' i)) + f (g t) = (\<Sum>i<8. f (g i)) + (f (g' t) :: nat)"
proof -
  have "(\<Sum>i<8::nat. f (g' i)) = f (g' t) + (\<Sum>i\<in>{..<8} - {t}. f (g' i))"
    using t by (subst sum.remove [of _ t]) auto
  also have "(\<Sum>i\<in>{..<8} - {t}. f (g' i)) = (\<Sum>i\<in>{..<8} - {t}. f (g i))"
    by (rule sum.cong) (use o in auto)
  finally show ?thesis using t sum.remove [of "{..<8}" t "\<lambda>i. f (g i)"] by simp
qed

text \<open>The change an operation on TID \<open>t\<close> makes, seen from the limiters and from the other TIDs.\<close>

definition other_tids :: "addba_st \<Rightarrow> addba_st \<Rightarrow> nat \<Rightarrow> bool" where
  "other_tids s s' t \<longleftrightarrow> (\<forall>u. u \<noteq> t \<longrightarrow> txs s' u = txs s u \<and> rxs s' u = rxs s u \<and> cntrs s' u = cntrs s u \<and>
     aggr_started (calls s') u = aggr_started (calls s) u \<and> reord_started (calls s') u = reord_started (calls s) u)"

definition balanced :: "addba_st \<Rightarrow> addba_st \<Rightarrow> nat \<Rightarrow> bool" where
  "balanced s s' t \<longleftrightarrow> reflim_wf (aggr_reflim s') \<and> reflim_wf (reord_reflim s') \<and>
     rl_cur (aggr_reflim s') + (if tx_holds (txs s t) then 1 else 0) =
       rl_cur (aggr_reflim s) + (if tx_holds (txs s' t) then 1 else 0) \<and>
     rl_cur (reord_reflim s') + (if reorder_is_active (rxs s t) then 1 else 0) =
       rl_cur (reord_reflim s) + (if reorder_is_active (rxs s' t) then 1 else 0)"

definition tid_step :: "addba_st \<Rightarrow> addba_st \<Rightarrow> nat \<Rightarrow> bool" where
  "tid_step s s' t \<longleftrightarrow> other_tids s s' t \<and> balanced s s' t \<and> tid_ok s' t \<and> calls_ok (calls s') \<and>
     next_dlg_token s' \<noteq> INVALID_TAG_ID \<and> failed_asserts s' \<subseteq> {1569}"

lemma addba_inv_step:
  assumes i: "addba_inv a r s" and t: "t < 8" and st: "tid_step s s' t"
  shows "addba_inv a r s'"
proof -
  have o: "\<forall>u. u \<noteq> t \<longrightarrow> txs s' u = txs s u" "\<forall>u. u \<noteq> t \<longrightarrow> rxs s' u = rxs s u"
    using st by (auto simp: tid_step_def other_tids_def)
  have A: "aggr_refs s' + (if tx_holds (txs s t) then 1 else 0) = aggr_refs s + (if tx_holds (txs s' t) then 1 else 0)"
    using sum_upd [OF t o(1), of "\<lambda>x. if tx_holds x then 1 else 0"] by (simp add: aggr_refs_def)
  have R: "reord_refs s' + (if reorder_is_active (rxs s t) then 1 else 0) =
      reord_refs s + (if reorder_is_active (rxs s' t) then 1 else 0)"
    using sum_upd [OF t o(2), of "\<lambda>x. if reorder_is_active x then 1 else 0"] by (simp add: reord_refs_def)
  have T: "tid_ok s' u" if "u < 8" for u
    using that i st by (cases "u = t") (auto simp: addba_inv_def tid_step_def other_tids_def tid_ok_def)
  have "rl_cur (aggr_reflim s') = a + aggr_refs s'" "rl_cur (reord_reflim s') = r + reord_refs s'"
    using A R i st by (auto simp: addba_inv_def tid_step_def balanced_def split: if_splits)
  with T i st show ?thesis by (simp add: addba_inv_def tid_step_def balanced_def)
qed

text \<open>What an operation on TID \<open>t\<close> may assume.\<close>

definition tid_pre :: "addba_st \<Rightarrow> nat \<Rightarrow> bool" where
  "tid_pre s t \<longleftrightarrow> tid_ok s t \<and> calls_ok (calls s) \<and> next_dlg_token s \<noteq> INVALID_TAG_ID \<and>
     failed_asserts s \<subseteq> {1569} \<and> reflim_wf (aggr_reflim s) \<and> reflim_wf (reord_reflim s) \<and>
     rl_cur (aggr_reflim s) + 1 < 2 ^ 32 \<and> rl_cur (reord_reflim s) + 1 < 2 ^ 32 \<and>
     (tx_holds (txs s t) \<longrightarrow> 0 < rl_cur (aggr_reflim s)) \<and>
     (reorder_is_active (rxs s t) \<longrightarrow> 0 < rl_cur (reord_reflim s))"

lemma refs_bounds: "aggr_refs s \<le> 8" "reord_refs s \<le> 8"
proof -
  have "aggr_refs s \<le> (\<Sum>t<8::nat. 1)" unfolding aggr_refs_def by (rule sum_mono) simp
  then show "aggr_refs s \<le> 8" by simp
  have "reord_refs s \<le> (\<Sum>t<8::nat. 1)" unfolding reord_refs_def by (rule sum_mono) simp
  then show "reord_refs s \<le> 8" by simp
qed

lemma refs_pos:
  "t < 8 \<Longrightarrow> tx_holds (txs s t) \<Longrightarrow> 0 < aggr_refs s"
  "t < 8 \<Longrightarrow> reorder_is_active (rxs s t) \<Longrightarrow> 0 < reord_refs s"
  unfolding aggr_refs_def reord_refs_def by (auto intro: sum_pos2 [of _ t])

lemma addba_inv_pre: "addba_inv a r s \<Longrightarrow> t < 8 \<Longrightarrow> tid_pre s t"
  using refs_bounds [of s] refs_pos [of t s] by (auto simp: addba_inv_def tid_pre_def)

lemma addba_inv_by_step:
  "addba_inv a r s \<Longrightarrow> t < 8 \<Longrightarrow> (tid_pre s t \<Longrightarrow> tid_step s s' t) \<Longrightarrow> addba_inv a r s'"
  using addba_inv_step addba_inv_pre by blast

section \<open>Preservation by the operations on one TID\<close>

lemmas addba_upd =
  upd_tx_def upd_rx_def mtlk_addba_wss_cntr_inc_def mtlk_addba_wss_cntr_dec_def api_def mtlk_assert_def

lemmas tid_step_defs = tid_step_def other_tids_def balanced_def tid_ok_def tx_holds_def mtlk_addba_is_aggr_on_def

lemmas unref_facts = reflim.unref_held [THEN conjunct1] reflim.unref_held [THEN conjunct2, THEN conjunct1]

lemma u8_suc_nonzero: "(x::u8) < 4 \<Longrightarrow> x + 1 \<noteq> 0"
proof
  assume x: "x < 4" "x + 1 = 0"
  then have "x = - 1" by (simp add: eq_neg_iff_add_eq_0)
  with x(1) show False by simp
qed

lemma tid_step_refl: "tid_pre s t \<Longrightarrow> tid_step s s t"
  by (simp add: tid_pre_def tid_step_def other_tids_def balanced_def)

lemma cntr_irrelevant:
  assumes "tid_step s s' t" "c \<noteq> MTLK_ADDBAPI_CNT_AGGR_ACTIVE" "c \<noteq> MTLK_ADDBAPI_CNT_REORD_ACTIVE"
  shows "tid_step s (mtlk_addba_wss_cntr_inc t c s') t"
  using assms by (simp add: tid_step_defs mtlk_addba_wss_cntr_inc_def)

lemma cntr_pre:
  assumes "tid_pre s t" "c \<noteq> MTLK_ADDBAPI_CNT_AGGR_ACTIVE" "c \<noteq> MTLK_ADDBAPI_CNT_REORD_ACTIVE"
  shows "tid_pre (mtlk_addba_wss_cntr_inc t c s) t"
  using assms by (simp add: tid_pre_def tid_ok_def mtlk_addba_wss_cntr_inc_def)

lemma tid_step_from_cntr:
  "tid_step (mtlk_addba_wss_cntr_inc t c s) s' t \<Longrightarrow> tid_step s s' t"
  by (simp add: tid_step_def other_tids_def balanced_def mtlk_addba_wss_cntr_inc_def)

lemma send_delba_step:
  assumes "tid_pre s t"
  shows "tid_step s (mtlk_addba_peer_send_delba_req env s t orig) t"
proof (cases "rx_man_msg (rxs s t) = MsgIdle \<and> env_avail env t False")
  case False
  then show ?thesis using tid_step_refl [OF assms]
    by (auto simp: mtlk_addba_peer_send_delba_req_def msg_get_empty_data_def)
next
  case True
  note defs = mtlk_addba_peer_send_delba_req_def msg_get_empty_data_def msg_send_def tid_pre_def tid_step_defs
    addba_upd rx_ok_def mtlk_addba_is_reord_on_def
  show ?thesis
  proof (cases "env_send env t False = MTLK_ERR_OK")
    case False
    then show ?thesis using assms True by (simp add: defs)
  next
    case ok: True
    show ?thesis
    proof (cases orig)
      case True
      then show ?thesis using assms \<open>_ \<and> _\<close> ok by (simp add: defs)
    next
      case False
      then show ?thesis using assms True ok by (cases "reorder_is_active (rxs s t)") (simp_all add: defs)
    qed
  qed
qed

lemma reordering_stop_step:
  assumes "tid_pre s t"
  shows "tid_step s (mtlk_addba_peer_reordering_stop s t) t"
  using assms
  unfolding mtlk_addba_peer_reordering_stop_def mtlk_addba_peer_reset_rx_state_def
  by (auto simp: tid_pre_def tid_step_defs addba_upd rx_ok_def Let_def unref_facts)

lemma close_aggr_step:
  assumes "tid_pre s t"
  shows "tid_step s (mtlk_addba_peer_close_aggr_req env s t) t"
  using assms
  unfolding mtlk_addba_peer_close_aggr_req_def msg_get_empty_data_def msg_send_def
  by (auto simp: tid_pre_def tid_step_defs addba_upd Let_def split: option.splits)

lemma try_granted_facts:
  assumes "tid_pre s t"
  shows "mtlk_reflim_try_ref (aggr_reflim s) = (True, r) \<Longrightarrow>
      reflim_wf r \<and> rl_cur r = rl_cur (aggr_reflim s) + 1 \<and> reflim_wf (mtlk_reflim_unref r) \<and>
      rl_cur (mtlk_reflim_unref r) = rl_cur (aggr_reflim s)"
    and "mtlk_reflim_try_ref (aggr_reflim s) = (False, r) \<Longrightarrow> r = aggr_reflim s"
    and "mtlk_reflim_try_ref (reord_reflim s) = (True, r) \<Longrightarrow>
      reflim_wf r \<and> rl_cur r = rl_cur (reord_reflim s) + 1"
    and "mtlk_reflim_try_ref (reord_reflim s) = (False, r) \<Longrightarrow> r = reord_reflim s"
  using assms reflim.try_granted [of "aggr_reflim s" r] reflim.try_refused [of "aggr_reflim s" r]
    reflim.try_granted [of "reord_reflim s" r] reflim.try_refused [of "reord_reflim s" r]
    reflim.granted_then_unref [of "aggr_reflim s" r]
  by (auto simp: tid_pre_def)

lemma next_token_valid: "(n::u8) \<noteq> 255 \<Longrightarrow> (if n + 1 = 255 then n + 1 + 1 else n + 1) \<noteq> 255"
proof -
  assume "n \<noteq> 255"
  have "n + 1 = 255 \<Longrightarrow> n + 1 + 1 = 0" by simp
  then show ?thesis by auto
qed

lemma tx_msg_ok_none:
  "tx_msg_ok m MTLK_ADDBA_TX_NONE = (m = MsgIdle \<or> m = MsgAttached)"
  "tx_msg_ok m MTLK_ADDBA_TX_STA_POWER_SAVE = (m = MsgIdle \<or> m = MsgAttached)"
  "tx_msg_ok m MTLK_ADDBA_TX_ADDBA_REQ_CFMD = (m = MsgIdle \<or> m = MsgAttached)"
  "tx_msg_ok m MTLK_ADDBA_TX_AGGR_OPENED = (m = MsgIdle)"
  by (induction m "MTLK_ADDBA_TX_NONE" rule: tx_msg_ok.induct; simp)+

lemma tx_addba_req_step:
  assumes p: "tid_pre s t"
  shows "tid_step s (mtlk_addba_peer_tx_addba_req env s t ps) t"
proof -
  note defs = tid_pre_def tid_step_defs addba_upd
  consider (busy) "tx_state (txs s t) \<noteq> MTLK_ADDBA_TX_NONE"
    | (ps) "tx_state (txs s t) = MTLK_ADDBA_TX_NONE" ps
    | (go) "tx_state (txs s t) = MTLK_ADDBA_TX_NONE" "\<not> ps" by blast
  then show ?thesis
  proof cases
    case busy
    then show ?thesis using tid_step_refl [OF p] by (simp add: mtlk_addba_peer_tx_addba_req_def)
  next
    case ps
    then show ?thesis using p tx_msg_ok_none by (simp add: mtlk_addba_peer_tx_addba_req_def defs)
  next
    case go
    obtain g r where tr: "mtlk_reflim_try_ref (aggr_reflim s) = (g, r)" by fastforce
    show ?thesis
    proof (cases g)
      case False
      then have "s\<lparr>aggr_reflim := r\<rparr> = s" using try_granted_facts(2) [OF p] tr by simp
      then show ?thesis using go tr False tid_step_refl [OF p] by (simp add: mtlk_addba_peer_tx_addba_req_def)
    next
      case True
      with tr try_granted_facts(1) [OF p] have r: "reflim_wf r" "rl_cur r = rl_cur (aggr_reflim s) + 1"
        "reflim_wf (mtlk_reflim_unref r)" "rl_cur (mtlk_reflim_unref r) = rl_cur (aggr_reflim s)" by auto
      show ?thesis
      proof (cases "tx_man_msg (txs s t) = MsgIdle \<and> env_avail env t True")
        case False
        then have "msg_get_empty_data (env_avail env t True) (tx_man_msg (txs s t)) = None"
          by (auto simp: msg_get_empty_data_def)
        then show ?thesis using go tr \<open>g\<close> r p by (simp add: mtlk_addba_peer_tx_addba_req_def defs)
      next
        case idle: True
        show ?thesis
          using go tr \<open>g\<close> r p idle next_token_valid [of "next_dlg_token s"]
          by (cases "env_send env t True = MTLK_ERR_OK")
             (simp_all add: mtlk_addba_peer_tx_addba_req_def msg_get_empty_data_def msg_send_def
               mtlk_addba_peer_fill_addba_req_def mtlk_addba_peer_on_addba_req_sent_def Let_def defs INVALID_TAG_ID_def)
      qed
    qed
  qed
qed

lemma reset_tx_step:
  assumes "tid_pre s t" "tx_man_msg (txs s t) = MsgIdle \<or> tx_man_msg (txs s t) = MsgAttached"
    "\<not> mtlk_addba_is_aggr_on (tx_state (txs s t))"
  shows "tid_step s (fst (mtlk_addba_peer_reset_tx_state s t)) t" "\<not> snd (mtlk_addba_peer_reset_tx_state s t)"
  using assms unref_facts [of "aggr_reflim s"]
  by (auto simp: mtlk_addba_peer_reset_tx_state_def tid_pre_def tid_step_defs addba_upd Let_def)

lemma timeout_step:
  assumes p: "tid_pre s t"
  shows "tid_step s (addba_check_res_timeout_tid now s t) t"
proof -
  consider (cfmd) "tx_state (txs s t) = MTLK_ADDBA_TX_ADDBA_REQ_CFMD"
    | (none) "tx_state (txs s t) = MTLK_ADDBA_TX_NONE"
    | (other) "tx_state (txs s t) \<noteq> MTLK_ADDBA_TX_ADDBA_REQ_CFMD" "tx_state (txs s t) \<noteq> MTLK_ADDBA_TX_NONE" by blast
  then show ?thesis
  proof cases
    case cfmd
    then have "tx_man_msg (txs s t) = MsgIdle \<or> tx_man_msg (txs s t) = MsgAttached"
      "\<not> mtlk_addba_is_aggr_on (tx_state (txs s t))"
      using p tx_msg_ok_none by (simp_all add: tid_pre_def tid_ok_def mtlk_addba_is_aggr_on_def)
    note r = reset_tx_step [OF p this]
    then show ?thesis using cfmd tid_step_refl [OF p]
      by (auto simp: addba_check_res_timeout_tid_def Let_def split_beta tid_step_defs addba_upd)
  next
    case none
    then show ?thesis using p tid_step_refl [OF p]
      by (auto simp: addba_check_res_timeout_tid_def Let_def tid_pre_def tid_step_defs addba_upd)
  next
    case other
    then show ?thesis using tid_step_refl [OF p] by (simp add: addba_check_res_timeout_tid_def)
  qed
qed

lemma delba_timeout_step:
  assumes p: "tid_pre s t"
  shows "tid_step s (addba_check_delba_timeout_tid env s t) t"
  using tid_step_refl [OF p] tid_step_from_cntr [OF send_delba_step [OF cntr_pre [OF p]]]
  by (simp add: addba_check_delba_timeout_tid_def)

lemma negative_res_step:
  assumes p: "tid_pre s t" and "tx_state (txs s t) = MTLK_ADDBA_TX_ADDBA_REQ_CFMD"
  shows "tid_step s (addba_res_rx_negative now s t) t"
proof -
  have "tx_man_msg (txs s t) = MsgIdle \<or> tx_man_msg (txs s t) = MsgAttached"
    "\<not> mtlk_addba_is_aggr_on (tx_state (txs s t))"
    using assms tx_msg_ok_none by (simp_all add: tid_pre_def tid_ok_def mtlk_addba_is_aggr_on_def)
  note r = reset_tx_step [OF p this]
  then show ?thesis
    by (auto simp: addba_res_rx_negative_def Let_def split_beta tid_step_defs addba_upd)
qed

lemma u8_ge_one: "(1::u8) \<le> w \<longleftrightarrow> w \<noteq> 0"
  by (simp add: word_le_nat_alt Suc_le_eq unat_gt_0)

lemma aggr_win_size_fw_range: "aggr_win_size_fw req rsp = Some w \<Longrightarrow> 1 \<le> w \<and> w \<le> 64"
  using u8_ge_one [of w] by (auto simp: aggr_win_size_fw_def Let_def addba_consts not_less split: if_splits)

lemma positive_res_step:
  assumes p: "tid_pre s t"
    and st: "tx_state (txs s t) = MTLK_ADDBA_TX_ADDBA_REQ_SENT \<or> tx_state (txs s t) = MTLK_ADDBA_TX_ADDBA_REQ_CFMD"
  shows "tid_step s (addba_res_rx_positive env s t w) t"
proof (cases "tx_man_msg (txs s t) = MsgIdle \<and> env_avail env t True")
  case False
  then show ?thesis using p
    by (auto simp: addba_res_rx_positive_def msg_get_empty_data_def Let_def tid_pre_def tid_step_defs addba_upd)
next
  case idle: True
  with p st have st: "tx_state (txs s t) = MTLK_ADDBA_TX_ADDBA_REQ_CFMD" by (auto simp: tid_pre_def tid_ok_def)
  show ?thesis
  proof (cases "aggr_win_size_fw (win_size_req (txs s t)) w")
    case None
    then show ?thesis using p idle st
      by (simp add: addba_res_rx_positive_def msg_get_empty_data_def Let_def tid_pre_def tid_step_defs addba_upd)
  next
    case (Some v)
    then show ?thesis using p idle st aggr_win_size_fw_range [OF Some]
      by (cases "env_send env t True = MTLK_ERR_OK")
         (simp_all add: addba_res_rx_positive_def msg_get_empty_data_def msg_send_def Let_def tid_pre_def
           tid_step_defs addba_upd)
  qed
qed

lemma tx_cfm_step:
  assumes p: "tid_pre s t"
  shows "tid_step s (addba_tx_cfm env c st ts s t) t"
proof (cases "tx_man_msg (txs s t)")
  case (MsgSent q)
  show ?thesis
  proof (cases q)
    case (UM_MAN_ADDBA_REQ_TX_REQ d w tm)
    then show ?thesis using p MsgSent
      by (simp add: addba_tx_cfm_def mtlk_addba_peer_on_addba_req_tx_cfm_clb_def cfm_cnt_def
          tid_pre_def tid_step_defs addba_upd)
  next
    case (UM_MAN_OPEN_AGGR_REQ w)
    then show ?thesis using p MsgSent
      by (simp add: addba_tx_cfm_def mtlk_addba_peer_on_open_aggr_cfm_clb_def cfm_cnt_def Let_def
          tid_pre_def tid_step_defs addba_upd)
  next
    case (UM_MAN_CLOSE_AGGR_REQ i)
    then show ?thesis using p MsgSent unref_facts [of "aggr_reflim s"]
      by (simp add: addba_tx_cfm_def mtlk_addba_peer_on_close_aggr_cfm_clb_def cfm_cnt_def Let_def
          mtlk_addba_peer_reset_tx_state_def tid_pre_def tid_step_defs addba_upd)
  qed (use p MsgSent in \<open>simp_all add: tid_pre_def tid_ok_def\<close>)
qed (use tid_step_refl [OF p] in \<open>simp_all add: addba_tx_cfm_def\<close>)

lemma tx_holds_attempt [simp]: "tx_holds (x\<lparr>tx_delba_req_attempt := n\<rparr>) = tx_holds x"
  by (simp add: tx_holds_def)

lemma cfm_cnt_plain:
  "x \<noteq> c \<Longrightarrow> y \<noteq> c \<Longrightarrow> z \<noteq> c \<Longrightarrow> cfm_cnt b st x y z \<noteq> c"
  by (simp add: cfm_cnt_def)

lemma rx_cfm_step:
  assumes p: "tid_pre s t"
  shows "tid_step s (addba_rx_cfm c st s t) t"
proof (cases "rx_man_msg (rxs s t)")
  case (MsgSent q)
  note defs = tid_pre_def tid_step_def other_tids_def balanced_def tid_ok_def rx_ok_def upd_tx_def upd_rx_def
  show ?thesis
  proof (cases q)
    case (UM_MAN_DELBA_REQ d)
    let ?k = "if d then cfm_cnt c st MTLK_ADDBAPI_CNT_TX_DELBA_REQ_NOT_CFMD
             MTLK_ADDBAPI_CNT_TX_DELBA_REQ_CFMD_FAIL MTLK_ADDBAPI_CNT_TX_DELBA_REQ_CFMD_SUCCESS
      else cfm_cnt c st MTLK_ADDBAPI_CNT_RX_DELBA_REQ_NOT_CFMD
             MTLK_ADDBAPI_CNT_RX_DELBA_REQ_CFMD_FAIL MTLK_ADDBAPI_CNT_RX_DELBA_REQ_CFMD_SUCCESS"
    let ?s = "mtlk_addba_wss_cntr_inc t ?k s"
    have p1: "tid_pre ?s t" by (rule cntr_pre [OF p]) (simp_all add: cfm_cnt_plain)
    have m: "rx_man_msg (rxs ?s t) = MsgSent (UM_MAN_DELBA_REQ d)"
      using MsgSent UM_MAN_DELBA_REQ by (simp add: mtlk_addba_wss_cntr_inc_def)
    have "tid_step ?s (upd_rx t (\<lambda>x. x\<lparr>rx_man_msg := MsgIdle\<rparr>)
      (if d then upd_tx t (\<lambda>x. if tx_delba_req_attempt x = 0 then x\<lparr>tx_delba_req_attempt := 1\<rparr> else x) ?s
       else upd_rx t (\<lambda>x. if rx_delba_req_attempt x = 0 then x\<lparr>rx_delba_req_attempt := 1\<rparr> else x) ?s)) t"
      using p1 m by (cases d) (simp_all add: defs)
    then have "tid_step s (addba_rx_cfm c st s t) t"
      using MsgSent UM_MAN_DELBA_REQ tid_step_from_cntr [of t ?k s]
      by (cases d) (simp_all add: addba_rx_cfm_def mtlk_addba_peer_on_delba_req_tx_cfm_clb_def)
    then show ?thesis .
  next
    case (UM_MAN_ADDBA_RES_TX_REQ r)
    let ?k = "cfm_cnt c st MTLK_ADDBAPI_CNT_RX_ADDBA_RES_NOT_CFMD
          MTLK_ADDBAPI_CNT_RX_ADDBA_RES_CFMD_FAIL MTLK_ADDBAPI_CNT_RX_ADDBA_RES_CFMD_SUCCESS"
    let ?s = "mtlk_addba_wss_cntr_inc t ?k s"
    have p1: "tid_pre ?s t" by (rule cntr_pre [OF p]) (simp_all add: cfm_cnt_plain)
    have m: "rx_man_msg (rxs ?s t) = MsgSent (UM_MAN_ADDBA_RES_TX_REQ r)"
      using MsgSent UM_MAN_ADDBA_RES_TX_REQ by (simp add: mtlk_addba_wss_cntr_inc_def)
    have "tid_step ?s (upd_rx t (\<lambda>x. x\<lparr>rx_man_msg := MsgIdle\<rparr>)
       (upd_rx t (\<lambda>x. if addba_res_attempt x = 0 then x\<lparr>addba_res_attempt := 1\<rparr> else x) ?s)) t"
      using p1 m by (simp add: defs)
    then show ?thesis
      using MsgSent UM_MAN_ADDBA_RES_TX_REQ tid_step_from_cntr [of t ?k s]
      by (simp add: addba_rx_cfm_def mtlk_addba_peer_on_addba_res_tx_cfm_clb_def)
  qed (use p MsgSent in \<open>simp_all add: tid_pre_def tid_ok_def rx_ok_def\<close>)
qed (use tid_step_refl [OF p] in \<open>simp_all add: addba_rx_cfm_def\<close>)

text \<open>Accepting or refusing an ADDBA request on a TID whose receive side was just reset.\<close>

definition rx_clear :: "addba_st \<Rightarrow> nat \<Rightarrow> bool" where
  "rx_clear s t \<longleftrightarrow> rx_state (rxs s t) = MTLK_ADDBA_RX_NONE \<and> \<not> reorder_is_active (rxs s t)"

lemma reordering_stop_clear: "rx_clear (mtlk_addba_peer_reordering_stop s t) t"
  by (simp add: rx_clear_def mtlk_addba_peer_reordering_stop_def mtlk_addba_peer_reset_rx_state_def addba_upd Let_def)

lemma correct_win_nonzero: "mtlk_addba_correct_res_win_size w \<noteq> 0"
  by (simp add: mtlk_addba_correct_res_win_size_def addba_consts)

text \<open>
  After the decision everything is as the invariant wants it, except that an accepted request has
  reordering active while the state is still \<^verbatim>\<open>MTLK_ADDBA_RX_NONE\<close>.
\<close>

definition decided :: "addba_st \<Rightarrow> addba_st \<Rightarrow> nat \<Rightarrow> bool" where
  "decided s s' t \<longleftrightarrow> other_tids s s' t \<and> balanced s s' t \<and> txs s' t = txs s t \<and>
     rx_state (rxs s' t) = MTLK_ADDBA_RX_NONE \<and> rx_man_msg (rxs s' t) = rx_man_msg (rxs s t) \<and>
     (reorder_is_active (rxs s' t) \<longleftrightarrow> res_ResultCode (addba_res (rxs s' t)) = MTLK_ADDBA_RES_CODE_SUCCESS) \<and>
     cntrs s' t MTLK_ADDBAPI_CNT_AGGR_ACTIVE = cntrs s t MTLK_ADDBAPI_CNT_AGGR_ACTIVE \<and>
     cntrs s' t MTLK_ADDBAPI_CNT_REORD_ACTIVE = (if reorder_is_active (rxs s' t) then 1 else 0) \<and>
     aggr_started (calls s') t = aggr_started (calls s) t \<and>
     reord_started (calls s') t = reorder_is_active (rxs s' t) \<and> calls_ok (calls s') \<and>
     next_dlg_token s' = next_dlg_token s \<and> failed_asserts s' = failed_asserts s \<and>
     (reorder_is_active (rxs s' t) \<longrightarrow> 0 < rl_cur (reord_reflim s'))"

lemma decide_decided:
  assumes p: "tid_pre s t" and c: "rx_clear s t"
  shows "decided s (addba_req_decide s ssn t w d tm ack rate) t"
proof -
  note defs = decided_def other_tids_def balanced_def tid_pre_def tid_ok_def rx_clear_def addba_upd addba_consts
  obtain g r where tr: "mtlk_reflim_try_ref (reord_reflim s) = (g, r)" by fastforce
  show ?thesis
  proof (cases "mtlk_addba_is_allowed_rate rate \<and> accept_aggr (addba_cfg s t) \<and> ack \<and> g")
    case True
    with tr try_granted_facts(3) [OF p] have "reflim_wf r" "rl_cur r = rl_cur (reord_reflim s) + 1" by auto
    with True tr p c correct_win_nonzero [of w] show ?thesis
      by (simp add: addba_req_decide_def mtlk_addba_peer_reordering_start_def Let_def defs)
  next
    case False
    have "g \<or> r = reord_reflim s" using try_granted_facts(4) [OF p] tr by (cases g) auto
    with False tr p c show ?thesis
      by (cases g) (auto simp: addba_req_decide_def mtlk_addba_peer_reordering_start_def Let_def defs)
  qed
qed

lemma send_res_failed:
  assumes "mtlk_addba_peer_send_rx_addba_res env s t = (s', e)" "e \<noteq> MTLK_ERR_OK"
  shows "s' = s"
proof -
  have "upd_rx t (\<lambda>x. x\<lparr>rx_man_msg := MsgIdle\<rparr>) s = s" if "rx_man_msg (rxs s t) = MsgIdle"
  proof -
    have "(rxs s t)\<lparr>rx_man_msg := MsgIdle\<rparr> = rxs s t" using that by (cases "rxs s t") simp
    then show ?thesis by (simp add: upd_rx_def)
  qed
  with assms show ?thesis
    by (auto simp: mtlk_addba_peer_send_rx_addba_res_def msg_get_empty_data_def msg_send_def Let_def
        split: if_splits)
qed

lemma send_res_ok:
  assumes "mtlk_addba_peer_send_rx_addba_res env s t = (s', MTLK_ERR_OK)"
  shows "\<exists>k y. k \<noteq> MTLK_ADDBAPI_CNT_AGGR_ACTIVE \<and> k \<noteq> MTLK_ADDBAPI_CNT_REORD_ACTIVE \<and>
    s' = mtlk_addba_wss_cntr_inc t k (upd_rx t (\<lambda>_. y) s) \<and>
    rx_man_msg y = MsgSent (UM_MAN_ADDBA_RES_TX_REQ (addba_res (rxs s t))) \<and>
    addba_res y = addba_res (rxs s t) \<and> reorder_is_active y = reorder_is_active (rxs s t) \<and>
    rx_state y = (if res_ResultCode (addba_res (rxs s t)) = MTLK_ADDBA_RES_CODE_SUCCESS
      then MTLK_ADDBA_RX_ADDBA_POSITIVE_RES_SENT else MTLK_ADDBA_RX_ADDBA_NEGATIVE_RES_SENT)"
proof -
  let ?y = "(rxs s t)\<lparr>rx_man_msg := MsgSent (UM_MAN_ADDBA_RES_TX_REQ (addba_res (rxs s t)))\<rparr>"
  show ?thesis
  proof (cases "res_ResultCode (addba_res (rxs s t)) = MTLK_ADDBA_RES_CODE_SUCCESS")
    case True
    then show ?thesis using assms
      by (intro exI [of _ MTLK_ADDBAPI_CNT_RX_ADDBA_RES_POSITIVE_SENT]
           exI [of _ "?y\<lparr>rx_state := MTLK_ADDBA_RX_ADDBA_POSITIVE_RES_SENT, req_tstamp := env_now env\<rparr>"])
         (auto simp: mtlk_addba_peer_send_rx_addba_res_def msg_get_empty_data_def msg_send_def upd_rx_def Let_def split: if_splits)
  next
    case False
    then show ?thesis using assms
      by (intro exI [of _ MTLK_ADDBAPI_CNT_RX_ADDBA_RES_NEGATIVE_SENT]
           exI [of _ "?y\<lparr>rx_state := MTLK_ADDBA_RX_ADDBA_NEGATIVE_RES_SENT\<rparr>"])
         (auto simp: mtlk_addba_peer_send_rx_addba_res_def msg_get_empty_data_def msg_send_def upd_rx_def Let_def split: if_splits)
  qed
qed

lemma decided_stop_step:
  assumes p: "tid_pre s t" and c: "rx_clear s t" and d: "decided s s1 t"
  shows "tid_step s (mtlk_addba_peer_reordering_stop s1 t) t"
proof -
  note defs = tid_step_def other_tids_def balanced_def tid_pre_def tid_ok_def rx_clear_def addba_upd rx_ok_def
    mtlk_addba_peer_reordering_stop_def mtlk_addba_peer_reset_rx_state_def decided_def
  show ?thesis
  proof (cases "reorder_is_active (rxs s1 t)")
    case True
    then have "0 < rl_cur (reord_reflim s1)" "reflim_wf (reord_reflim s1)"
      using d by (simp_all add: decided_def balanced_def)
    with True p c d unref_facts [of "reord_reflim s1"] show ?thesis by (simp add: defs)
  next
    case False
    with p c d show ?thesis by (simp add: defs)
  qed
qed

lemma decided_sent_step:
  assumes p: "tid_pre s t" and c: "rx_clear s t" and d: "decided s s1 t"
    and k: "k \<noteq> MTLK_ADDBAPI_CNT_AGGR_ACTIVE" "k \<noteq> MTLK_ADDBAPI_CNT_REORD_ACTIVE"
    and y: "rx_man_msg y = MsgSent (UM_MAN_ADDBA_RES_TX_REQ (addba_res (rxs s1 t)))"
      "addba_res y = addba_res (rxs s1 t)" "reorder_is_active y = reorder_is_active (rxs s1 t)"
      "rx_state y = (if res_ResultCode (addba_res (rxs s1 t)) = MTLK_ADDBA_RES_CODE_SUCCESS
      then MTLK_ADDBA_RX_ADDBA_POSITIVE_RES_SENT else MTLK_ADDBA_RX_ADDBA_NEGATIVE_RES_SENT)"
  shows "tid_step s (mtlk_addba_wss_cntr_inc t k (upd_rx t (\<lambda>_. y) s1)) t"
proof (rule cntr_irrelevant [OF _ k])
  have "other_tids s (upd_rx t (\<lambda>_. y) s1) t" "balanced s (upd_rx t (\<lambda>_. y) s1) t"
    using d y(3) by (simp_all add: decided_def other_tids_def balanced_def upd_rx_def)
  moreover have "rx_ok y" using y d by (simp add: rx_ok_def decided_def)
  ultimately show "tid_step s (upd_rx t (\<lambda>_. y) s1) t"
    using p c d y by (simp add: decided_def tid_step_def tid_pre_def tid_ok_def rx_clear_def upd_rx_def)
qed

lemma delba_timeout_irrelevant:
  "tid_step s s' t \<Longrightarrow> tid_step s (upd_rx t (\<lambda>x. x\<lparr>delba_timeout := tm\<rparr>) s') t"
  by (simp add: tid_step_def other_tids_def balanced_def tid_ok_def rx_ok_def upd_rx_def)

lemma decided_send_step:
  assumes p: "tid_pre s t" and c: "rx_clear s t" and d: "decided s s1 t"
    and e: "mtlk_addba_peer_send_rx_addba_res env s1 t = (s2, e)"
  shows "tid_step s (if e \<noteq> MTLK_ERR_OK then mtlk_addba_peer_reordering_stop s2 t
                else if mtlk_addba_is_reord_on s2 t then upd_rx t (\<lambda>x. x\<lparr>delba_timeout := tm\<rparr>) s2 else s2) t"
proof (cases "e = MTLK_ERR_OK")
  case False
  then show ?thesis using send_res_failed [OF e False] decided_stop_step [OF p c d] by simp
next
  case True
  with send_res_ok [of env s1 t s2] e decided_sent_step [OF p c d] have "tid_step s s2 t" by blast
  then show ?thesis using True delba_timeout_irrelevant by simp
qed

lemma addba_req_rx_step:
  assumes "addba_inv a r s" "t < 8"
  shows "addba_inv a r (mtlk_addba_peer_on_addba_req_rx env s ssn t w d tm ack rate)"
proof -
  let ?s = "mtlk_addba_wss_cntr_inc t MTLK_ADDBAPI_CNT_RX_ADDBA_REQ_RECEIVED s"
  have i1: "addba_inv a r ?s"
    by (rule addba_inv_by_step [OF assms]) (simp add: cntr_irrelevant tid_step_refl)
  have i2: "addba_inv a r (mtlk_addba_peer_reordering_stop ?s t)"
    by (rule addba_inv_by_step [OF i1 assms(2)]) (rule reordering_stop_step)
  note p = addba_inv_pre [OF i2 assms(2)]
  let ?s3 = "addba_req_decide (mtlk_addba_peer_reordering_stop ?s t) ssn t w d tm ack rate"
  obtain s4 e where e: "mtlk_addba_peer_send_rx_addba_res env ?s3 t = (s4, e)" by fastforce
  have i3: "addba_inv a r (if e \<noteq> MTLK_ERR_OK then mtlk_addba_peer_reordering_stop s4 t
                else if mtlk_addba_is_reord_on s4 t then upd_rx t (\<lambda>x. x\<lparr>delba_timeout := ADDBA_TU_TO_MS tm\<rparr>) s4 else s4)"
    by (rule addba_inv_step [OF i2 assms(2)])
       (rule decided_send_step [OF p reordering_stop_clear decide_decided [OF p reordering_stop_clear] e])
  show ?thesis using assms(1) i1 i3 e by (simp add: mtlk_addba_peer_on_addba_req_rx_def Let_def)
qed

section \<open>Preservation by the entry points\<close>

lemma inv_cntr:
  assumes "addba_inv a r s" "t < 8" "c \<noteq> MTLK_ADDBAPI_CNT_AGGR_ACTIVE" "c \<noteq> MTLK_ADDBAPI_CNT_REORD_ACTIVE"
  shows "addba_inv a r (mtlk_addba_wss_cntr_inc t c s)"
  by (rule addba_inv_by_step [OF assms(1,2)]) (simp add: cntr_irrelevant tid_step_refl assms)

lemma inv_send_delba:
  "addba_inv a r s \<Longrightarrow> t < 8 \<Longrightarrow> addba_inv a r (mtlk_addba_peer_send_delba_req env s t d)"
  by (erule addba_inv_by_step, assumption) (rule send_delba_step)

lemma inv_reordering_stop:
  "addba_inv a r s \<Longrightarrow> t < 8 \<Longrightarrow> addba_inv a r (mtlk_addba_peer_reordering_stop s t)"
  by (erule addba_inv_by_step, assumption) (rule reordering_stop_step)

lemma inv_close_aggr:
  "addba_inv a r s \<Longrightarrow> t < 8 \<Longrightarrow> addba_inv a r (mtlk_addba_peer_close_aggr_req env s t)"
  by (erule addba_inv_by_step, assumption) (rule close_aggr_step)

text \<open>Replacing the receive side of one TID by one that is still in order.\<close>

lemma inv_upd_rx:
  assumes "addba_inv a r s" "t < 8" "rx_ok (f (rxs s t))" "reorder_is_active (f (rxs s t)) = reorder_is_active (rxs s t)"
  shows "addba_inv a r (upd_rx t f s)"
  by (rule addba_inv_by_step [OF assms(1,2)])
     (use assms(3,4) in \<open>simp add: tid_pre_def tid_step_def other_tids_def balanced_def tid_ok_def upd_rx_def\<close>)

lemma inv_upd_tx:
  assumes "addba_inv a r s" "t < 8" "tx_state (f (txs s t)) = tx_state (txs s t)" "tx_man_msg (f (txs s t)) = tx_man_msg (txs s t)"
  shows "addba_inv a r (upd_tx t f s)"
  by (rule addba_inv_by_step [OF assms(1,2)])
     (use assms(3,4) in \<open>simp add: tid_pre_def tid_step_defs upd_tx_def\<close>)

lemma inv_rx_ok: "addba_inv a r s \<Longrightarrow> t < 8 \<Longrightarrow> rx_ok (rxs s t)"
  by (simp add: addba_inv_def tid_ok_def)

lemma inv_reset_rx:
  assumes "addba_inv a r s" "t < 8" "\<not> reorder_is_active (rxs s t)"
  shows "addba_inv a r (mtlk_addba_peer_reset_rx_state s t)"
  unfolding mtlk_addba_peer_reset_rx_state_def
  by (rule inv_upd_rx [OF assms(1,2)]) (use assms inv_rx_ok [OF assms(1,2)] in \<open>auto simp: rx_ok_def\<close>)

lemma inv_on_rx_delba_status:
  assumes i: "addba_inv a r s" and t: "t < 8" and m: "rx_man_msg (rxs s t) \<noteq> MsgSent (UM_MAN_DELBA_REQ False)"
  shows "addba_inv a r (mtlk_addba_peer_on_rx_delba_req_tx_status env s t status)"
proof -
  note ok = inv_rx_ok [OF i t]
  let ?st = "rx_state (rxs s t)"
  have act: "reorder_is_active (rxs s t) \<longleftrightarrow> ?st = MTLK_ADDBA_RX_ADDBA_POSITIVE_RES_SENT \<or>
        ?st = MTLK_ADDBA_RX_REORD_IN_PROCESS \<or> ?st = MTLK_ADDBA_RX_DELBA_REQ_SENT"
    using ok by (simp add: rx_ok_def)
  show ?thesis
  proof (cases "status \<noteq> UMI_OK \<and> ?st = MTLK_ADDBA_RX_DELBA_REQ_SENT")
    case True
    then have att: "rx_delba_req_attempt (rxs s t) \<noteq> 0" using ok m by (simp add: rx_ok_def)
    show ?thesis
    proof (cases "rx_delba_req_attempt (rxs s t) \<ge> MTLK_DELBA_REQ_MAX_RETRANSMISSIONS")
      case big: True
      have eq: "mtlk_addba_peer_reordering_stop (upd_rx t (\<lambda>x. x\<lparr>rx_delba_req_attempt := 0\<rparr>) s) t =
            mtlk_addba_peer_reordering_stop s t"
        by (simp add: mtlk_addba_peer_reordering_stop_def mtlk_addba_peer_reset_rx_state_def upd_rx_def)
      show ?thesis using True att big eq inv_cntr [OF inv_reordering_stop [OF i t] t]
        by (simp add: mtlk_addba_peer_on_rx_delba_req_tx_status_def mtlk_assert_def)
    next
      case False
      have "rx_ok ((rxs s t)\<lparr>rx_delba_req_attempt := rx_delba_req_attempt (rxs s t) + 1\<rparr>)"
        using ok False u8_suc_nonzero [of "rx_delba_req_attempt (rxs s t)"]
        by (simp add: rx_ok_def addba_consts not_le)
      then have "addba_inv a r (upd_rx t (\<lambda>x. x\<lparr>rx_delba_req_attempt := rx_delba_req_attempt x + 1\<rparr>) s)"
        by (intro inv_upd_rx [OF i t]) simp_all
      from inv_cntr [OF inv_send_delba [OF this t] t] show ?thesis using True att False
        by (simp add: mtlk_addba_peer_on_rx_delba_req_tx_status_def mtlk_assert_def)
    qed
  next
    case False
    have z: "addba_inv a r (upd_rx t (\<lambda>x. x\<lparr>rx_delba_req_attempt := 0\<rparr>) s)" if "?st \<noteq> MTLK_ADDBA_RX_DELBA_REQ_SENT"
      by (rule inv_upd_rx [OF i t]) (use ok that in \<open>simp_all add: rx_ok_def\<close>)
    show ?thesis using False act i t z
      by (auto simp: mtlk_addba_peer_on_rx_delba_req_tx_status_def Let_def
          intro!: inv_cntr inv_reordering_stop inv_reset_rx)
  qed
qed

lemma inv_on_tx_delba_status:
  assumes i: "addba_inv a r s" and t: "t < 8"
  shows "addba_inv a r (mtlk_addba_peer_on_tx_delba_req_tx_status env s t status)"
proof -
  have u: "addba_inv a r (upd_tx t (\<lambda>x. x\<lparr>tx_delba_req_attempt := f x\<rparr>) s)"
    if "addba_inv a r s" for f s by (rule inv_upd_tx [OF that t]) simp_all
  have as: "addba_inv a r (mtlk_assert 1569 c s)" for c
    using i by (auto simp: mtlk_assert_def addba_inv_def tid_ok_def aggr_refs_def reord_refs_def)
  show ?thesis using i t u as
    by (auto simp: mtlk_addba_peer_on_tx_delba_req_tx_status_def Let_def intro!: inv_cntr inv_send_delba)
qed

lemma inv_resend_addba_res:
  assumes i: "addba_inv a r s" and t: "t < 8"
    and st: "rx_state (rxs s t) = MTLK_ADDBA_RX_ADDBA_POSITIVE_RES_SENT \<or> rx_state (rxs s t) = MTLK_ADDBA_RX_ADDBA_NEGATIVE_RES_SENT"
  shows "addba_inv a r (fst (mtlk_addba_peer_send_rx_addba_res env s t))"
proof -
  obtain s' e where e: "mtlk_addba_peer_send_rx_addba_res env s t = (s', e)" by fastforce
  show ?thesis
  proof (cases "e = MTLK_ERR_OK")
    case False
    then show ?thesis using send_res_failed [OF e False] i e by simp
  next
    case True
    with send_res_ok [of env s t s'] e obtain k y where
      k: "k \<noteq> MTLK_ADDBAPI_CNT_AGGR_ACTIVE" "k \<noteq> MTLK_ADDBAPI_CNT_REORD_ACTIVE"
      and s': "s' = mtlk_addba_wss_cntr_inc t k (upd_rx t (\<lambda>_. y) s)"
      and y: "rx_man_msg y = MsgSent (UM_MAN_ADDBA_RES_TX_REQ (addba_res (rxs s t)))"
        "addba_res y = addba_res (rxs s t)" "reorder_is_active y = reorder_is_active (rxs s t)"
        "rx_state y = (if res_ResultCode (addba_res (rxs s t)) = MTLK_ADDBA_RES_CODE_SUCCESS
          then MTLK_ADDBA_RX_ADDBA_POSITIVE_RES_SENT else MTLK_ADDBA_RX_ADDBA_NEGATIVE_RES_SENT)" by auto
    have "rx_ok y" using inv_rx_ok [OF i t] st y by (auto simp: rx_ok_def)
    with inv_upd_rx [OF i t, of "\<lambda>_. y"] y(3) have "addba_inv a r (upd_rx t (\<lambda>_. y) s)" by simp
    from inv_cntr [OF this t k] show ?thesis using e s' by simp
  qed
qed

lemma inv_on_addba_res_status:
  assumes i: "addba_inv a r s" and t: "t < 8" and m: "\<forall>q. rx_man_msg (rxs s t) \<noteq> MsgSent (UM_MAN_ADDBA_RES_TX_REQ q)"
  shows "addba_inv a r (mtlk_addba_peer_on_addba_res_tx_req_tx_status env s t status)"
proof -
  note ok = inv_rx_ok [OF i t]
  let ?st = "rx_state (rxs s t)"
  let ?sent = "?st = MTLK_ADDBA_RX_ADDBA_POSITIVE_RES_SENT \<or> ?st = MTLK_ADDBA_RX_ADDBA_NEGATIVE_RES_SENT"
  note D = mtlk_addba_peer_on_addba_res_tx_req_tx_status_def
  have z: "addba_inv a r (upd_rx t (\<lambda>x. x\<lparr>addba_res_attempt := 0\<rparr>) s)" if "\<not> ?sent"
    by (rule inv_upd_rx [OF i t]) (use ok that in \<open>simp_all add: rx_ok_def\<close>)
  show ?thesis
  proof (cases "status = UMI_OK")
    case True
    have pos: "addba_inv a r (upd_rx t (\<lambda>x. x\<lparr>rx_state := MTLK_ADDBA_RX_REORD_IN_PROCESS, addba_res_attempt := 0\<rparr>) s)"
      if "?st = MTLK_ADDBA_RX_ADDBA_POSITIVE_RES_SENT"
      by (rule inv_upd_rx [OF i t]) (use ok that in \<open>simp_all add: rx_ok_def\<close>)
    have neg: "addba_inv a r (mtlk_addba_peer_reset_rx_state s t)" if "?st = MTLK_ADDBA_RX_ADDBA_NEGATIVE_RES_SENT"
      by (rule inv_reset_rx [OF i t]) (use ok that in \<open>simp add: rx_ok_def\<close>)
    have eqs: "upd_rx t (\<lambda>x. x\<lparr>addba_res_attempt := 0\<rparr>) (upd_rx t (\<lambda>x. x\<lparr>rx_state := MTLK_ADDBA_RX_REORD_IN_PROCESS\<rparr>) s) =
        upd_rx t (\<lambda>x. x\<lparr>rx_state := MTLK_ADDBA_RX_REORD_IN_PROCESS, addba_res_attempt := 0\<rparr>) s"
      "upd_rx t (\<lambda>x. x\<lparr>addba_res_attempt := 0\<rparr>) (mtlk_addba_peer_reset_rx_state s t) = mtlk_addba_peer_reset_rx_state s t"
      by (simp_all add: upd_rx_def mtlk_addba_peer_reset_rx_state_def)
    show ?thesis using True inv_cntr [OF pos t] inv_cntr [OF neg t] inv_cntr [OF z t] eqs
      by (auto simp: D Let_def)
  next
    case bad: False
    show ?thesis
    proof (cases ?sent)
      case False
      then show ?thesis using bad z by (auto simp: D Let_def)
    next
      case True
      then have att: "addba_res_attempt (rxs s t) \<noteq> 0" using ok m by (auto simp: rx_ok_def)
      show ?thesis
      proof (cases "addba_res_attempt (rxs s t) \<ge> MTLK_ADDBA_RSP_MAX_RETRANSMISSIONS")
        case big: True
        have eq: "mtlk_addba_peer_reordering_stop (upd_rx t (\<lambda>x. x\<lparr>addba_res_attempt := 0, rx_state := MTLK_ADDBA_RX_NONE\<rparr>) s) t =
            mtlk_addba_peer_reordering_stop s t"
          by (simp add: mtlk_addba_peer_reordering_stop_def mtlk_addba_peer_reset_rx_state_def upd_rx_def)
        show ?thesis using True bad att big eq inv_cntr [OF inv_reordering_stop [OF i t] t]
          by (auto simp: D Let_def mtlk_assert_def)
      next
        case False
        let ?s = "upd_rx t (\<lambda>x. x\<lparr>addba_res_attempt := addba_res_attempt x + 1\<rparr>) s"
        have "rx_ok ((rxs s t)\<lparr>addba_res_attempt := addba_res_attempt (rxs s t) + 1\<rparr>)"
          using ok False u8_suc_nonzero [of "addba_res_attempt (rxs s t)"]
          by (simp add: rx_ok_def addba_consts not_le)
        then have i1: "addba_inv a r ?s" by (intro inv_upd_rx [OF i t]) simp_all
        have st: "rx_state (rxs ?s t) = ?st" by (simp add: upd_rx_def)
        from inv_resend_addba_res [OF i1 t, of env] True
        have "addba_inv a r (fst (mtlk_addba_peer_send_rx_addba_res env ?s t))" unfolding st by blast
        from inv_cntr [OF this t] show ?thesis using True bad att False by (auto simp: D Let_def mtlk_assert_def)
      qed
    qed
  qed
qed

text \<open>Stopping the peer: every TID is released whatever state it was in.\<close>

lemma peer_stop_tx_step:
  assumes p: "tid_pre s t"
  shows "tid_step s ((if mtlk_addba_is_aggr_on (tx_state (txs s t)) then api (OnStopAggregation t) else (\<lambda>s. s))
    (upd_tx t (\<lambda>x. x\<lparr>tx_man_msg := MsgIdle\<rparr>) (fst (mtlk_addba_peer_reset_tx_state s t)))) t"
  using p unref_facts [of "aggr_reflim s"]
  by (auto simp: mtlk_addba_peer_reset_tx_state_def tid_pre_def tid_step_defs addba_upd Let_def)

lemma reordering_stop_cancel:
  "mtlk_addba_peer_reordering_stop (upd_rx t (\<lambda>x. x\<lparr>rx_man_msg := MsgIdle\<rparr>) (mtlk_addba_peer_reset_rx_state s t)) t =
   upd_rx t (\<lambda>x. x\<lparr>rx_man_msg := MsgIdle\<rparr>) (mtlk_addba_peer_reordering_stop s t)"
  by (cases s, cases "rxs s t")
     (simp add: mtlk_addba_peer_reordering_stop_def mtlk_addba_peer_reset_rx_state_def addba_upd Let_def)

lemma snd_reset_tx: "snd (mtlk_addba_peer_reset_tx_state s t) = mtlk_addba_is_aggr_on (tx_state (txs s t))"
  by (simp add: mtlk_addba_peer_reset_tx_state_def mtlk_addba_is_aggr_on_def Let_def)

lemma inv_peer_stop_tid:
  assumes i: "addba_inv a r s" and t: "t < 8"
  shows "addba_inv a r (addba_peer_stop_tid now s t)"
proof -
  let ?s3 = "(if mtlk_addba_is_aggr_on (tx_state (txs s t)) then api (OnStopAggregation t) else (\<lambda>s. s))
    (upd_tx t (\<lambda>x. x\<lparr>tx_man_msg := MsgIdle\<rparr>) (fst (mtlk_addba_peer_reset_tx_state s t)))"
  let ?s6 = "upd_rx t (\<lambda>x. x\<lparr>rx_man_msg := MsgIdle\<rparr>) (mtlk_addba_peer_reordering_stop ?s3 t)"
  let ?s7 = "upd_tx t (\<lambda>x. x\<lparr>tx_state := MTLK_ADDBA_TX_NONE, addba_req_cfmd_time := 0, addba_req_dlgt := 0,
                               addba_res_rejects := 0\<rparr>) ?s6"
  let ?s8 = "upd_rx t (\<lambda>x. x\<lparr>rx_state := MTLK_ADDBA_RX_NONE, delba_timeout := 0, req_tstamp := 0\<rparr>) ?s7"
  have i3: "addba_inv a r ?s3" by (rule addba_inv_by_step [OF i t]) (rule peer_stop_tx_step)
  have n3: "tx_state (txs ?s3 t) = MTLK_ADDBA_TX_NONE"
    by (simp add: mtlk_addba_peer_reset_tx_state_def addba_upd Let_def)
  have i5: "addba_inv a r (mtlk_addba_peer_reordering_stop ?s3 t)" by (rule inv_reordering_stop [OF i3 t])
  note cl = reordering_stop_clear [of ?s3 t, unfolded rx_clear_def]
  have i6: "addba_inv a r ?s6" by (rule inv_upd_rx [OF i5 t]) (use cl in \<open>simp_all add: rx_ok_def\<close>)
  have n6: "txs ?s6 t = txs ?s3 t"
    by (simp add: mtlk_addba_peer_reordering_stop_def mtlk_addba_peer_reset_rx_state_def addba_upd Let_def)
  have i7: "addba_inv a r ?s7" by (rule inv_upd_tx [OF i6 t]) (use n3 n6 in simp_all)
  have c7: "\<not> reorder_is_active (rxs ?s7 t)" "rx_man_msg (rxs ?s7 t) = MsgIdle"
    using cl by (simp_all add: upd_tx_def upd_rx_def)
  have i8: "addba_inv a r ?s8" by (rule inv_upd_rx [OF i7 t]) (use c7 in \<open>simp_all add: rx_ok_def\<close>)
  have "addba_inv a r (upd_rx t (\<lambda>x. x\<lparr>delba_on_rx_time := now\<rparr>) ?s8)"
    by (rule inv_upd_rx [OF i8 t]) (use inv_rx_ok [OF i8 t] in \<open>simp_all add: rx_ok_def\<close>)
  moreover have "addba_peer_stop_tid now s t = upd_rx t (\<lambda>x. x\<lparr>delba_on_rx_time := now\<rparr>) ?s8"
    by (simp add: addba_peer_stop_tid_def Let_def split_beta snd_reset_tx reordering_stop_cancel)
  ultimately show ?thesis by simp
qed

lemma inv_foldl_tids:
  assumes "\<And>s t. addba_inv a r s \<Longrightarrow> t < 8 \<Longrightarrow> addba_inv a r (f s t)" "addba_inv a r s"
  shows "addba_inv a r (foldl f s all_tids)"
proof -
  have "addba_inv a r (foldl f s ts)" if "\<forall>t\<in>set ts. t < 8" for ts
    using that assms(2) by (induction ts arbitrary: s) (auto intro: assms(1))
  then show ?thesis by (simp add: all_tids_def MTLK_ADDBA_NOF_TIDs_def)
qed

lemma inv_is_active [simp]: "addba_inv a r (s\<lparr>is_active := b\<rparr>) = addba_inv a r s"
  by (simp add: addba_inv_def tid_ok_def aggr_refs_def reord_refs_def)

lemma inv_cfg [simp]: "addba_inv a r (s\<lparr>addba_cfg := c\<rparr>) = addba_inv a r s"
  by (simp add: addba_inv_def tid_ok_def aggr_refs_def reord_refs_def)

lemma inv_delba_req:
  "addba_inv a r s \<Longrightarrow> t < 8 \<Longrightarrow> addba_inv a r (mtlk_addba_delba_req env s t)"
  by (simp add: mtlk_addba_delba_req_def inv_send_delba inv_close_aggr)

section \<open>The step function\<close>

text \<open>
  What the callers and the firmware guarantee: the API preconditions the code asserts; a refused
  ADDBA response arrives after the confirmation of the request it answers; the transmission
  status of a DELBA or ADDBA response arrives after the confirmation of that message.
\<close>

fun addba_event_ok :: "addba_st \<Rightarrow> addba_env \<times> addba_event \<Rightarrow> bool" where
  "addba_event_ok s (env, EvPeerStart n) = (\<not> is_active s)"
| "addba_event_ok s (env, EvPeerStop n) = (n \<longrightarrow> is_active s)"
| "addba_event_ok s (env, EvStartAggr t ps) = (is_active s \<and> t < 8)"
| "addba_event_ok s (env, EvResetPowerSave t) = (is_active s \<and> t < 8)"
| "addba_event_ok s (env, EvAddbaResRx c t w d) =
     (c = MTLK_ADDBA_RES_CODE_SUCCESS \<or> tx_state (txs s t) \<noteq> MTLK_ADDBA_TX_ADDBA_REQ_SENT)"
| "addba_event_ok s (env, EvBaTxStatus m t st) =
     (case m of BaTxDelbaReq orig \<Rightarrow> orig \<or> rx_man_msg (rxs s t) \<noteq> MsgSent (UM_MAN_DELBA_REQ False)
      | BaTxAddbaRes \<Rightarrow> (case rx_man_msg (rxs s t) of MsgSent (UM_MAN_ADDBA_RES_TX_REQ q) \<Rightarrow> False | _ \<Rightarrow> True)
      | BaTxOther \<Rightarrow> True)"
| "addba_event_ok s (env, EvDelbaReq t) = (t < 8)"
| "addba_event_ok s (env, EvTxCfm t c st ts) = (t < 8)"
| "addba_event_ok s (env, EvRxCfm t c st) = (t < 8)"
| "addba_event_ok s (env, e) = True"

lemma inv_ba_tx_status:
  assumes "addba_inv a r s" "addba_event_ok s (env, EvBaTxStatus m t st)"
  shows "addba_inv a r (mtlk_addba_peer_on_ba_tx_status env s m t st)"
proof (cases "is_active s \<and> t < 8")
  case False
  then show ?thesis using assms(1) by (auto simp: mtlk_addba_peer_on_ba_tx_status_def MTLK_ADDBA_NOF_TIDs_def)
next
  case True
  then have t: "t < 8" by simp
  show ?thesis
  proof (cases m)
    case (BaTxDelbaReq orig)
    then show ?thesis using assms True inv_on_rx_delba_status [OF assms(1) t] inv_on_tx_delba_status [OF assms(1) t]
      by (cases orig) (simp_all add: mtlk_addba_peer_on_ba_tx_status_def MTLK_ADDBA_NOF_TIDs_def)
  next
    case BaTxAddbaRes
    then have "\<forall>q. rx_man_msg (rxs s t) \<noteq> MsgSent (UM_MAN_ADDBA_RES_TX_REQ q)" using assms(2) by auto
    then show ?thesis using inv_on_addba_res_status [OF assms(1) t] BaTxAddbaRes True
      by (simp add: mtlk_addba_peer_on_ba_tx_status_def MTLK_ADDBA_NOF_TIDs_def)
  qed (use assms(1) True in \<open>simp add: mtlk_addba_peer_on_ba_tx_status_def\<close>)
qed

lemma inv_addba_res_rx:
  assumes "addba_inv a r s" "addba_event_ok s (env, EvAddbaResRx c t w d)"
  shows "addba_inv a r (mtlk_addba_peer_on_addba_res_rx env s c t w d)"
proof (cases "t < 8")
  case True
  have "addba_inv a r (addba_res_rx_positive env s t w)"
    if "tx_state (txs s t) = MTLK_ADDBA_TX_ADDBA_REQ_SENT \<or> tx_state (txs s t) = MTLK_ADDBA_TX_ADDBA_REQ_CFMD"
    by (rule addba_inv_by_step [OF assms(1) True]) (rule positive_res_step [OF _ that])
  moreover have "addba_inv a r (addba_res_rx_negative (env_now env) s t)"
    if "tx_state (txs s t) = MTLK_ADDBA_TX_ADDBA_REQ_CFMD"
    by (rule addba_inv_by_step [OF assms(1) True]) (rule negative_res_step [OF _ that])
  ultimately show ?thesis using assms by (simp add: mtlk_addba_peer_on_addba_res_rx_def) blast
qed (use assms(1) in \<open>simp add: mtlk_addba_peer_on_addba_res_rx_def MTLK_ADDBA_NOF_TIDs_def\<close>)

lemma inv_on_bar:
  "addba_inv a r s \<Longrightarrow> addba_inv a r (mtlk_addba_peer_on_bar env s t)"
  by (auto simp: mtlk_addba_peer_on_bar_def MTLK_ADDBA_NOF_TIDs_def intro!: inv_send_delba inv_cntr)

lemma inv_qos_without_reord:
  assumes "addba_inv a r s"
  shows "addba_inv a r (mtlk_addba_on_qos_without_reord env s t)"
proof (cases "t < 8")
  case True
  have "addba_inv a r (upd_rx t (\<lambda>x. x\<lparr>delba_on_rx_time := env_now env\<rparr>) s)"
    by (rule inv_upd_rx [OF assms True]) (use inv_rx_ok [OF assms True] in \<open>simp_all add: rx_ok_def\<close>)
  then show ?thesis using assms True
    by (auto simp: mtlk_addba_on_qos_without_reord_def Let_def intro!: inv_send_delba inv_cntr)
qed (use assms in \<open>simp add: mtlk_addba_on_qos_without_reord_def MTLK_ADDBA_NOF_TIDs_def\<close>)

lemma inv_iterate: "addba_inv a r s \<Longrightarrow> addba_inv a r (mtlk_addba_peer_iterate env s)"
proof -
  assume i: "addba_inv a r s"
  have "addba_inv a r (mtlk_addba_peer_check_delba_timeouts env s)"
    unfolding mtlk_addba_peer_check_delba_timeouts_def
    by (rule inv_foldl_tids [OF _ i]) (erule addba_inv_by_step, assumption, rule delba_timeout_step)
  then have "addba_inv a r (mtlk_addba_peer_check_addba_res_rx_timeouts (env_now env) (mtlk_addba_peer_check_delba_timeouts env s))"
    unfolding mtlk_addba_peer_check_addba_res_rx_timeouts_def
    by (rule inv_foldl_tids [rotated]) (erule addba_inv_by_step, assumption, rule timeout_step)
  with i show ?thesis by (simp add: mtlk_addba_peer_iterate_def)
qed

lemma inv_start_stop:
  assumes "addba_inv a r s"
  shows "\<not> is_active s \<Longrightarrow> addba_inv a r (mtlk_addba_peer_start now s n)"
    and "(n \<longrightarrow> is_active s) \<Longrightarrow> addba_inv a r (mtlk_addba_peer_stop now s n)"
proof -
  have "addba_inv a r (addba_peer_stop_all now s)" if "addba_inv a r s" for s
    unfolding addba_peer_stop_all_def by (rule inv_foldl_tids [OF _ that]) (rule inv_peer_stop_tid)
  then show "\<not> is_active s \<Longrightarrow> addba_inv a r (mtlk_addba_peer_start now s n)"
    "(n \<longrightarrow> is_active s) \<Longrightarrow> addba_inv a r (mtlk_addba_peer_stop now s n)"
    using assms by (simp_all add: mtlk_addba_peer_start_def mtlk_addba_peer_stop_def mtlk_assert_def)
qed

lemma inv_reset_power_save:
  assumes "addba_inv a r s" "is_active s" "t < 8"
  shows "addba_inv a r (fst (mtlk_addba_peer_reset_power_save s t))"
proof (cases "tx_state (txs s t) = MTLK_ADDBA_TX_STA_POWER_SAVE")
  case True
  have "addba_inv a r (upd_tx t (\<lambda>x. x\<lparr>tx_state := MTLK_ADDBA_TX_NONE\<rparr>) s)"
    by (rule addba_inv_by_step [OF assms(1,3)])
       (use True in \<open>simp add: tid_pre_def tid_step_defs upd_tx_def tx_msg_ok_none\<close>)
  then show ?thesis using assms True
    by (simp add: mtlk_addba_peer_reset_power_save_def mtlk_assert_def MTLK_ADDBA_NOF_TIDs_def)
qed (use assms in \<open>simp add: mtlk_addba_peer_reset_power_save_def mtlk_assert_def MTLK_ADDBA_NOF_TIDs_def\<close>)

lemma inv_on_delba_req_rx:
  "addba_inv a r s \<Longrightarrow> addba_inv a r (mtlk_addba_peer_on_delba_req_rx env s t i)"
  by (auto simp: mtlk_addba_peer_on_delba_req_rx_def MTLK_ADDBA_NOF_TIDs_def
      intro!: inv_reordering_stop inv_close_aggr inv_cntr)

lemma inv_start_aggr:
  assumes "addba_inv a r s" "is_active s" "t < 8"
  shows "addba_inv a r (mtlk_addba_peer_start_aggr_negotiation env s t ps)"
proof -
  have "addba_inv a r (mtlk_addba_peer_tx_addba_req env s t ps)"
    by (rule addba_inv_by_step [OF assms(1,3)]) (rule tx_addba_req_step)
  then show ?thesis using assms
    by (simp add: mtlk_addba_peer_start_aggr_negotiation_def mtlk_assert_def MTLK_ADDBA_NOF_TIDs_def)
qed

lemma addba_step_inv:
  assumes i: "addba_inv a r s" and ok: "addba_event_ok s (env, e)"
  shows "addba_inv a r (addba_step s (env, e))"
proof (cases e)
  case (EvAddbaReqRx ssn t w d tm ack rate)
  then show ?thesis using i addba_req_rx_step [OF i, of t env ssn w d tm ack rate]
    by (cases "t < 8") (simp_all add: mtlk_addba_peer_on_addba_req_rx_def MTLK_ADDBA_NOF_TIDs_def)
next
  case (EvAckOnBar t)
  then show ?thesis using i
    by (auto simp: mtlk_addba_peer_on_ack_on_bar_def MTLK_ADDBA_NOF_TIDs_def intro!: inv_delba_req inv_cntr)
next
  case EvDelbaReqAll
  then show ?thesis using i by (auto simp: mtlk_addba_delba_req_all_def intro: inv_foldl_tids inv_delba_req)
next
  case (EvTxCfm t c st ts)
  then have "t < 8" using ok by simp
  from addba_inv_by_step [OF i this tx_cfm_step] EvTxCfm show ?thesis by simp
next
  case (EvRxCfm t c st)
  then have "t < 8" using ok by simp
  from addba_inv_by_step [OF i this rx_cfm_step] EvRxCfm show ?thesis by simp
next
  case (EvReconfigure c)
  then show ?thesis using i by (simp add: mtlk_addba_reconfigure_def)
qed (use i ok inv_start_stop [OF i] inv_start_aggr [OF i] inv_reset_power_save [OF i] inv_on_delba_req_rx [OF i]
    inv_addba_res_rx [OF i] inv_ba_tx_status [OF i] inv_on_bar [OF i] inv_qos_without_reord [OF i]
    inv_delba_req [OF i] inv_iterate [OF i] in \<open>simp_all del: addba_event_ok.simps(5,6)\<close>)

end
