(* ===== verification/Addba_Props.thy ===== *)
theory Addba_Props
  imports Addba_Inv
begin

text \<open>
  The properties of the block ack negotiation: whole runs of events from a fresh peer, and the
  states in which the code loses a reference, a message or an aggregation.
\<close>

section \<open>Runs\<close>

interpretation addba: step_system addba_step addba_event_ok "addba_inv a r" for a r
proof
  fix s e assume "addba_inv a r s" "addba_event_ok s e"
  then show "addba_inv a r (addba_step s e)" using addba_step_inv [of a r s "fst e" "snd e"] by simp
qed

lemma addba_inv_init:
  assumes "reflim_wf la" "reflim_wf lr" "rl_cur la < 2 ^ 31" "rl_cur lr < 2 ^ 31"
  shows "addba_inv (rl_cur la) (rl_cur lr) (mtlk_addba_peer_init c la lr)"
  using assms
  by (simp add: addba_inv_def mtlk_addba_peer_init_def tid_ok_def zero_tx_def zero_rx_def rx_ok_def tx_holds_def
      mtlk_addba_is_aggr_on_def aggr_refs_def reord_refs_def INVALID_TAG_ID_def)

text \<open>Limiters as other peers may leave them: well formed, with room to count.\<close>

definition limiters_ok :: "mtlk_reflim_t \<Rightarrow> mtlk_reflim_t \<Rightarrow> bool" where
  "limiters_ok la lr \<longleftrightarrow> reflim_wf la \<and> reflim_wf lr \<and> rl_cur la < 2 ^ 31 \<and> rl_cur lr < 2 ^ 31"

lemma addba_run_inv:
  assumes "limiters_ok la lr" "addba.run_ok (mtlk_addba_peer_init c la lr) es"
  shows "addba_inv (rl_cur la) (rl_cur lr) (foldl addba_step (mtlk_addba_peer_init c la lr) es)"
  using assms addba_inv_init [of la lr c]
  by (intro addba.run_inv) (simp_all add: limiters_ok_def)

definition demo_env :: addba_env where
  "demo_env = \<lparr>env_now = 5000, env_avail = (\<lambda>_ _. True), env_send = (\<lambda>_ _. MTLK_ERR_OK), env_last_rx = (\<lambda>_. 0)\<rparr>"

definition late_env :: addba_env where
  "late_env = demo_env\<lparr>env_now := 9000\<rparr>"

definition demo_cfg :: "nat \<Rightarrow> mtlk_addba_tid_cfg_t" where
  "demo_cfg t = \<lparr>use_aggr = True, accept_aggr = True, max_nof_packets = 7, max_nof_bytes = 12000,
     timeout_interval = 3, min_packet_size_in_aggr = 10, addba_timeout = 0, aggr_win_size = 64\<rparr>"

definition demo_run :: "(addba_env \<times> addba_event) list" where
  "demo_run = [(demo_env, EvPeerStart True), (demo_env, EvStartAggr 0 False), (demo_env, EvTxCfm 0 True 0 0),
     (demo_env, EvAddbaResRx 0 0 32 0), (demo_env, EvTxCfm 0 True 0 9), (demo_env, EvAddbaReqRx 17 3 64 5 100 True 65535),
     (demo_env, EvRxCfm 3 True 0), (demo_env, EvDelbaReqRx 3 True), (demo_env, EvIterate)]"

abbreviation demo_peer :: addba_st where
  "demo_peer \<equiv> mtlk_addba_peer_init demo_cfg (mtlk_reflim_init 16) (mtlk_reflim_init 16)"

lemma active_after_start: "is_active (mtlk_addba_peer_start now s True)"
  by (simp add: mtlk_addba_peer_start_def Let_def)

lemma demo_run_ok: "addba.run_ok demo_peer demo_run"
  by (simp add: demo_run_def active_after_start MTLK_ADDBA_RES_CODE_SUCCESS_def) (simp add: mtlk_addba_peer_init_def)

lemma demo_limiters_ok: "limiters_ok (mtlk_reflim_init 16) (mtlk_reflim_init 16)"
  by (simp add: limiters_ok_def mtlk_reflim_init_def reflim_wf_def)

section \<open>Properties\<close>







definition stopped :: "addba_st \<Rightarrow> nat \<Rightarrow> bool" where
  "stopped s t \<longleftrightarrow> tx_state (txs s t) = MTLK_ADDBA_TX_NONE \<and> tx_man_msg (txs s t) = MsgIdle \<and>
     rx_state (rxs s t) = MTLK_ADDBA_RX_NONE \<and> rx_man_msg (rxs s t) = MsgIdle \<and> \<not> reorder_is_active (rxs s t)"

lemma stop_tid_stopped: "stopped (addba_peer_stop_tid now s t) t"
  by (simp add: stopped_def addba_peer_stop_tid_def mtlk_addba_peer_reset_tx_state_def mtlk_addba_peer_reset_rx_state_def
      mtlk_addba_peer_reordering_stop_def addba_upd Let_def)

lemma stop_tid_other: "u \<noteq> t \<Longrightarrow> stopped s u \<Longrightarrow> stopped (addba_peer_stop_tid now s t) u"
  by (simp add: stopped_def addba_peer_stop_tid_def mtlk_addba_peer_reset_tx_state_def mtlk_addba_peer_reset_rx_state_def
      mtlk_addba_peer_reordering_stop_def addba_upd Let_def)

lemma stop_tids_stopped: "u \<in> set ts \<or> stopped s u \<Longrightarrow> stopped (foldl (addba_peer_stop_tid now) s ts) u"
proof (induction ts arbitrary: s)
  case (Cons t ts)
  then show ?case using stop_tid_stopped [of now s u] stop_tid_other [of u t s now] by (cases "u = t") auto
qed simp



text \<open>
  The transmit window. Whatever the peer answers to a request, the window size handed to the
  firmware when an aggregation is opened is between 1 and 64, and not larger than what was
  asked for (when a size was asked for) nor than what the peer granted.
\<close>

lemma open_aggr_window_in_range:
  assumes "aggr_win_size_fw req rsp = Some w"
  shows "1 \<le> w \<and> w \<le> 64 \<and> w \<le> rsp \<and> (req \<noteq> 0 \<longrightarrow> w \<le> req)"
  using assms u8_ge_one [of w]
  by (auto simp: aggr_win_size_fw_def Let_def addba_consts not_less split: if_splits)


section \<open>Where the negotiation goes wrong\<close>

text \<open>
  A refused response that overtakes the confirmation of its request makes the limiter lose a
  reference that another TID or peer holds. From any reachable state with a request outstanding
  on TID \<open>t\<close>, the refusal gives the reference back, the confirmation moves the idle TID to
  \<^verbatim>\<open>MTLK_ADDBA_TX_ADDBA_REQ_CFMD\<close>, and the response timeout gives it back a second time.
\<close>

lemma early_refusal_unrefs_twice:
  assumes "tx_state (txs s t) = MTLK_ADDBA_TX_ADDBA_REQ_SENT" "tx_man_msg (txs s t) = MsgSent (UM_MAN_ADDBA_REQ_TX_REQ d w tm)"
    and "addba_req_dlgt (txs s t) = d" "is_active s" "t < 8" "code \<noteq> MTLK_ADDBA_RES_CODE_SUCCESS"
    and "s1 = mtlk_addba_peer_on_addba_res_rx env s code t w' d"
    and "s2 = addba_tx_cfm env c st ts s1 t"
    and "mtlk_osal_ms_time_diff later (env_now env) \<ge> MTLK_DOT11_ADDBA_RESPONSE_TIMEOUT_MS"
    and "s3 = addba_check_res_timeout_tid later s2 t"
  shows "\<not> tx_holds (txs s1 t) \<and> rl_cur (aggr_reflim s1) = dec32 (rl_cur (aggr_reflim s)) \<and>
    tx_state (txs s2 t) = MTLK_ADDBA_TX_ADDBA_REQ_CFMD \<and>
    rl_cur (aggr_reflim s3) = dec32 (dec32 (rl_cur (aggr_reflim s)))"
proof -
  have a: "\<not> tx_holds (txs s1 t)" "rl_cur (aggr_reflim s1) = dec32 (rl_cur (aggr_reflim s))"
    "tx_man_msg (txs s1 t) = MsgSent (UM_MAN_ADDBA_REQ_TX_REQ d w tm)"
    using assms(1-7)
    by (simp_all add: mtlk_addba_peer_on_addba_res_rx_def MTLK_ADDBA_NOF_TIDs_def addba_res_rx_negative_def
        mtlk_addba_peer_reset_tx_state_def mtlk_addba_is_aggr_on_def mtlk_reflim_unref_def tx_holds_def addba_upd Let_def)
  have b: "tx_state (txs s2 t) = MTLK_ADDBA_TX_ADDBA_REQ_CFMD" "addba_req_cfmd_time (txs s2 t) = env_now env"
    "aggr_reflim s2 = aggr_reflim s1"
    using assms(8) a(3) by (simp_all add: addba_tx_cfm_def mtlk_addba_peer_on_addba_req_tx_cfm_clb_def addba_upd)
  have "rl_cur (aggr_reflim s3) = dec32 (rl_cur (aggr_reflim s2))"
    using assms(9,10) b
    by (simp add: addba_check_res_timeout_tid_def mtlk_addba_peer_reset_tx_state_def mtlk_addba_is_aggr_on_def
        mtlk_reflim_unref_def addba_upd Let_def)
  with a b show ?thesis by simp
qed

definition racing_peer :: addba_st where
  "racing_peer = demo_peer\<lparr>is_active := True, aggr_reflim := \<lparr>rl_max = 16, rl_cur = 1\<rparr>,
     txs := (\<lambda>_. zero_tx\<lparr>tx_state := MTLK_ADDBA_TX_ADDBA_REQ_SENT, tx_man_msg := MsgSent (UM_MAN_ADDBA_REQ_TX_REQ 0 64 0)\<rparr>)\<rparr>"


text \<open>
  A positive response that grants a window of 0 blocks the TID. The message taken for the open
  request is neither sent nor cancelled; once the response timeout has returned the TID to idle,
  starting a negotiation does nothing any more, whatever resources are free.
\<close>

lemma zero_window_response_blocks_tid:
  assumes "tx_state (txs s t) = MTLK_ADDBA_TX_ADDBA_REQ_CFMD" "tx_man_msg (txs s t) = MsgIdle"
    and "addba_req_dlgt (txs s t) = d" "is_active s" "t < 8" "env_avail env t True"
    and "tid_pre s t"
    and "s1 = mtlk_addba_peer_on_addba_res_rx env s MTLK_ADDBA_RES_CODE_SUCCESS t 0 d"
    and "mtlk_osal_ms_time_diff later (addba_req_cfmd_time (txs s t)) \<ge> MTLK_DOT11_ADDBA_RESPONSE_TIMEOUT_MS"
    and "s2 = addba_check_res_timeout_tid later s1 t"
  shows "tx_man_msg (txs s2 t) = MsgAttached \<and> tx_state (txs s2 t) = MTLK_ADDBA_TX_NONE \<and>
    txs (mtlk_addba_peer_tx_addba_req env' s2 t False) = txs s2 \<and>
    rl_cur (aggr_reflim (mtlk_addba_peer_tx_addba_req env' s2 t False)) = rl_cur (aggr_reflim s2)"
proof -
  have "aggr_win_size_fw (win_size_req (txs s t)) 0 = None" by (simp add: aggr_win_size_fw_def addba_consts min_def)
  then have s1: "tx_man_msg (txs s1 t) = MsgAttached" "tx_state (txs s1 t) = MTLK_ADDBA_TX_ADDBA_REQ_CFMD"
    "addba_req_cfmd_time (txs s1 t) = addba_req_cfmd_time (txs s t)"
    using assms(1-6,8)
    by (simp_all add: mtlk_addba_peer_on_addba_res_rx_def MTLK_ADDBA_NOF_TIDs_def addba_res_rx_positive_def
        msg_get_empty_data_def addba_upd Let_def)
  have "tid_step s s1 t"
    using assms(3-5,8) positive_res_step [OF assms(7) disjI2 [OF assms(1)]] assms(1)
    by (simp add: mtlk_addba_peer_on_addba_res_rx_def MTLK_ADDBA_NOF_TIDs_def)
  then have wf: "reflim_wf (aggr_reflim s1)" "rl_cur (aggr_reflim s1) = rl_cur (aggr_reflim s)"
    using assms(1) s1(2) by (simp_all add: tid_step_def balanced_def tx_holds_def)
  have c: "0 < rl_cur (aggr_reflim s)" "rl_cur (aggr_reflim s) + 1 < 2 ^ 32"
    using assms(1,7) by (simp_all add: tid_pre_def tx_holds_def)
  have s2: "tx_man_msg (txs s2 t) = MsgAttached" "tx_state (txs s2 t) = MTLK_ADDBA_TX_NONE"
    "aggr_reflim s2 = mtlk_reflim_unref (aggr_reflim s1)"
    using assms(9,10) s1
    by (simp_all add: addba_check_res_timeout_tid_def mtlk_addba_peer_reset_tx_state_def mtlk_addba_is_aggr_on_def addba_upd Let_def)
  have w2: "reflim_wf (aggr_reflim s2)" "rl_cur (aggr_reflim s2) + 1 < 2 ^ 32"
    using reflim.unref_held [of "aggr_reflim s1"] wf c s2(3) by simp_all
  obtain g r where tr: "mtlk_reflim_try_ref (aggr_reflim s2) = (g, r)" by fastforce
  show ?thesis
  proof (cases g)
    case True
    then show ?thesis
      using s2 tr reflim.granted_then_unref [OF w2, of r]
      by (simp add: mtlk_addba_peer_tx_addba_req_def msg_get_empty_data_def Let_def)
  next
    case False
    then show ?thesis using s2 tr reflim.try_refused [OF w2, of r] by (simp add: mtlk_addba_peer_tx_addba_req_def)
  qed
qed


text \<open>
  A refused open request opens the aggregation all the same. When the firmware does not
  confirm the open request, or confirms it with an error, the TID is marked as opened and the
  upper layer is told to start aggregating; its traffic stream id stays invalid, so that no
  DELBA, sent or received, can close it.
\<close>

lemma failed_open_is_opened_and_cannot_close:
  assumes "tx_man_msg (txs s t) = MsgSent (UM_MAN_OPEN_AGGR_REQ w)" "ts_id (txs s t) = MTLK_TS_ID_INVALID"
    and "\<not> confirmed \<or> status \<noteq> UMI_OK" "s1 = addba_tx_cfm env confirmed status ts s t"
  shows "tx_state (txs s1 t) = MTLK_ADDBA_TX_AGGR_OPENED \<and> hd (calls s1) = OnStartAggregation t \<and>
    mtlk_addba_peer_close_aggr_req env' s1 t = s1"
  using assms
  by (auto simp: addba_tx_cfm_def mtlk_addba_peer_on_open_aggr_cfm_clb_def mtlk_addba_peer_close_aggr_req_def addba_upd Let_def)


text \<open>
  The back-off after repeated refusals starts at 0 ms. \<^verbatim>\<open>addba_req_reject_interval\<close> is set to
  its minimum only by a positive response. Until a peer has given one the interval stays 0: five
  refusals in a row put the TID into the reject state, and the next timer tick, at whatever time,
  leaves it at once, with the doubled interval still 0.
\<close>

lemma reject_backoff_stays_zero:
  assumes "addba_req_reject_interval (txs s t) = 0" "tx_state (txs s t) = MTLK_ADDBA_TX_ADDBA_REQ_CFMD"
    and "addba_res_rejects (txs s t) = 4" "s1 = addba_res_rx_negative now s t" "s2 = addba_check_res_timeout_tid later s1 t"
  shows "addba_req_reject_state (txs s1 t) \<and> \<not> addba_req_reject_state (txs s2 t) \<and>
    hd (calls s2) = OnBaReqUnconfirmed t \<and> addba_req_reject_interval (txs s2 t) = 0"
proof -
  have s1: "addba_req_reject_state (txs s1 t)" "tx_state (txs s1 t) = MTLK_ADDBA_TX_NONE" "addba_req_reject_interval (txs s1 t) = 0"
    using assms(1-4)
    by (simp_all add: addba_res_rx_negative_def mtlk_addba_peer_reset_tx_state_def mtlk_addba_is_aggr_on_def addba_upd addba_consts Let_def)
  then show ?thesis using assms(5) by (simp add: addba_check_res_timeout_tid_def addba_upd addba_consts Let_def)
qed


end
