(* ===== verification/Txmm.thy ===== *)
theory Txmm
  imports Wave_Prelude
begin

text \<open>
  The transmit message manager of \<^verbatim>\<open>wireless/driver/shared/txmm.c\<close>: a fixed number of message
  blocks moves between four ring queues (free, queued, sent, timed out) and the responsibility of
  a user message.

  \<^item> Blocks are the indices below \<open>max_msgs\<close> of the storage array; \<open>blocks\<close> holds their fields,
    \<open>msgs\<close> the \<^verbatim>\<open>data\<close> pointer of each user message (\<^verbatim>\<open>obj\<close> is set exactly when \<^verbatim>\<open>data\<close> is).
  \<^item> A queue is the ring \<^verbatim>\<open>ptr\<close>, \<^verbatim>\<open>from\<close>, \<^verbatim>\<open>to\<close>, \<^verbatim>\<open>total\<close>; \<open>qlist\<close> reads it as a list.
  \<^item> The slot that \<^verbatim>\<open>msg_get_from_pool\<close> returns, the action a user callback returns and the clock
    are arguments; calls to \<^verbatim>\<open>msg_send\<close>, \<^verbatim>\<open>msg_free_to_pool\<close>, \<^verbatim>\<open>msg_timed_out\<close> and to user
    callbacks are recorded in \<open>txmm_log\<close>, newest first.
  \<^item> Every operation holds the object lock and is one atomic step; the message history, compiled
    out by default, and the blocking send are not modelled.
\<close>

section \<open>Data\<close>

datatype mtlk_txmm_block_e =
  MTLK_TXMMB_FREE | MTLK_TXMMB_QUEUED | MTLK_TXMMB_SENT | MTLK_TXMMB_TIMED_OUT | MTLK_TXMMB_NONE

datatype mtlk_txmm_clb_reason_e =
    MTLK_TXMM_CLBR_CONFIRMED | MTLK_TXMM_CLBR_TIMEOUT_UNSENT | MTLK_TXMM_CLBR_TIMEOUT_SENT
  | MTLK_TXMM_CLBR_RCVRY_DISCARD

datatype mtlk_txmm_clb_action_e = MTLK_TXMM_CLBA_FREE | MTLK_TXMM_CLBA_SEND | MTLK_TXMM_CLBA_KEEP

record mtlk_txmm_que_t =
  q_ptr :: "nat list"
  q_from :: nat
  q_to :: nat
  q_total :: nat

record mtlk_txmm_block_t =
  blk_payload_size :: nat
  blk_slot :: "nat option"
  blk_clb :: bool
  blk_que :: mtlk_txmm_block_e
  blk_idx :: nat
  blk_send_time :: u32
  blk_timeout :: u32
  blk_msg :: "nat option"

datatype txmm_call =
    MsgSend nat nat | MsgFreeToPool nat | MsgTimedOut nat | UserClb nat mtlk_txmm_clb_reason_e

record mtlk_txmm_base_t =
  max_msgs :: nat
  max_payload_size :: nat
  ques :: "mtlk_txmm_block_e \<Rightarrow> mtlk_txmm_que_t"
  blocks :: "nat \<Rightarrow> mtlk_txmm_block_t"
  msgs :: "nat \<Rightarrow> nat option"
  flag_active :: bool
  flag_stopped :: bool
  nof_sent :: nat
  nof_cfmed :: nat
  used_peak :: nat
  txmm_log :: "txmm_call list"

definition upd_blk :: "nat \<Rightarrow> (mtlk_txmm_block_t \<Rightarrow> mtlk_txmm_block_t) \<Rightarrow> mtlk_txmm_base_t \<Rightarrow> mtlk_txmm_base_t" where
  "upd_blk b f s = s\<lparr>blocks := (blocks s)(b := f (blocks s b))\<rparr>"

definition upd_que :: "mtlk_txmm_block_e \<Rightarrow> (mtlk_txmm_que_t \<Rightarrow> mtlk_txmm_que_t) \<Rightarrow> mtlk_txmm_base_t \<Rightarrow> mtlk_txmm_base_t" where
  "upd_que e f s = s\<lparr>ques := (ques s)(e := f (ques s e))\<rparr>"

definition txmm_call :: "txmm_call \<Rightarrow> mtlk_txmm_base_t \<Rightarrow> mtlk_txmm_base_t" where
  "txmm_call c s = s\<lparr>txmm_log := c # txmm_log s\<rparr>"

section \<open>Ring queues\<close>

definition mtlk_txmm_adjust_usage_stats :: "mtlk_txmm_base_t \<Rightarrow> mtlk_txmm_base_t" where
  "mtlk_txmm_adjust_usage_stats s =
     (let n = max_msgs s - q_total (ques s MTLK_TXMMB_FREE) in
      if used_peak s < n then s\<lparr>used_peak := n\<rparr> else s)"

definition mtlk_txmm_zero_block :: "nat \<Rightarrow> mtlk_txmm_base_t \<Rightarrow> mtlk_txmm_base_t" where
  "mtlk_txmm_zero_block b s = upd_blk b (\<lambda>_. \<lparr>blk_payload_size = 0, blk_slot = None, blk_clb = False,
     blk_que = MTLK_TXMMB_FREE, blk_idx = 0, blk_send_time = 0, blk_timeout = 0, blk_msg = None\<rparr>) s"

definition mtlk_txmm_get_buf :: "mtlk_txmm_base_t \<Rightarrow> mtlk_txmm_block_e \<Rightarrow> nat option \<times> mtlk_txmm_base_t" where
  "mtlk_txmm_get_buf s e =
     (if e \<noteq> MTLK_TXMMB_NONE \<and> q_total (ques s e) \<noteq> 0 then
        (Some (q_ptr (ques s e) ! q_from (ques s e)),
         upd_que e (\<lambda>q. q\<lparr>q_from := INC_WRAP_IDX (q_from q) (max_msgs s), q_total := dec32 (q_total q)\<rparr>) s)
      else (None, s))"

definition mtlk_txmm_put_buf :: "mtlk_txmm_base_t \<Rightarrow> mtlk_txmm_block_e \<Rightarrow> nat \<Rightarrow> mtlk_txmm_base_t" where
  "mtlk_txmm_put_buf s e b =
     (if e \<noteq> MTLK_TXMMB_NONE then
        upd_que e (\<lambda>q. q\<lparr>q_ptr := (q_ptr q)[q_to q := b], q_to := INC_WRAP_IDX (q_to q) (max_msgs s),
                         q_total := inc32 (q_total q)\<rparr>)
          (upd_blk b (\<lambda>x. x\<lparr>blk_que := e, blk_idx := q_to (ques s e)\<rparr>) s)
      else s)"

text \<open>
  The \<^verbatim>\<open>do\<close>-\<^verbatim>\<open>while\<close> loop that shifts the foregoing elements right. Each turn steps \<open>i\<close> back by
  one modulo \<open>max_msgs\<close>, so \<open>max_msgs\<close> turns always reach \<^verbatim>\<open>from\<close>; the last argument counts them.
\<close>

fun txmm_shift :: "mtlk_txmm_base_t \<Rightarrow> mtlk_txmm_block_e \<Rightarrow> nat \<Rightarrow> nat \<Rightarrow> mtlk_txmm_base_t" where
  "txmm_shift s e i 0 = s"
| "txmm_shift s e i (Suc fuel) =
     (let prev = (if i = 0 then max_msgs s - 1 else i - 1);
          b = q_ptr (ques s e) ! prev;
          s1 = upd_blk b (\<lambda>x. x\<lparr>blk_idx := i\<rparr>) (upd_que e (\<lambda>q. q\<lparr>q_ptr := (q_ptr q)[i := b]\<rparr>) s)
      in if prev = q_from (ques s e) then s1 else txmm_shift s1 e prev fuel)"

definition mtlk_txmm_del_buf_from_que ::
  "mtlk_txmm_base_t \<Rightarrow> mtlk_txmm_block_e \<Rightarrow> nat \<Rightarrow> bool \<Rightarrow> mtlk_txmm_base_t \<times> bool" where
  "mtlk_txmm_del_buf_from_que s e b preserve_order =
     (if e \<noteq> MTLK_TXMMB_NONE \<and> q_ptr (ques s e) ! blk_idx (blocks s b) = b then
        let i = blk_idx (blocks s b);
            s1 = (if i \<noteq> q_from (ques s e) then
                    if preserve_order then txmm_shift s e i (max_msgs s)
                    else let f = q_ptr (ques s e) ! q_from (ques s e) in
                      upd_blk f (\<lambda>x. x\<lparr>blk_idx := i\<rparr>) (upd_que e (\<lambda>q. q\<lparr>q_ptr := (q_ptr q)[i := f]\<rparr>) s)
                  else s);
            s2 = upd_que e (\<lambda>q. q\<lparr>q_from := INC_WRAP_IDX (q_from q) (max_msgs s), q_total := dec32 (q_total q)\<rparr>) s1
        in (upd_blk b (\<lambda>x. x\<lparr>blk_que := MTLK_TXMMB_NONE\<rparr>) s2, True)
      else (s, False))"

definition mtlk_txmm_free_buf :: "mtlk_txmm_base_t \<Rightarrow> nat \<Rightarrow> bool \<Rightarrow> bool \<Rightarrow> mtlk_txmm_base_t" where
  "mtlk_txmm_free_buf s b del_from_current_queue preserve_order =
     (if blk_que (blocks s b) \<noteq> MTLK_TXMMB_FREE then
        let s1 = (if del_from_current_queue
                  then fst (mtlk_txmm_del_buf_from_que s (blk_que (blocks s b)) b preserve_order) else s)
        in mtlk_txmm_put_buf (mtlk_txmm_zero_block b s1) MTLK_TXMMB_FREE b
      else s)"

section \<open>Sending\<close>

definition mtlk_txmm_send_block_prepare :: "mtlk_txmm_base_t \<Rightarrow> nat \<Rightarrow> nat \<Rightarrow> mtlk_txmm_base_t" where
  "mtlk_txmm_send_block_prepare s b pmsg =
     (let s1 = upd_blk b (\<lambda>x. x\<lparr>blk_payload_size :=
                   (if blk_payload_size x = 0 \<or> blk_payload_size x > max_payload_size s
                    then max_payload_size s else blk_payload_size x), blk_slot := Some pmsg\<rparr>) s;
          s2 = mtlk_txmm_put_buf s1 MTLK_TXMMB_SENT b
      in s2\<lparr>nof_sent := inc32 (nof_sent s2)\<rparr>)"

datatype txmm_status = MTLK_TXMM_OK_HANDLED | MTLK_TXMM_OK_SENT | MTLK_TXMM_OK_FREED

text \<open>
  \<^verbatim>\<open>_mtlk_txmm_pump\<close>: the slot passed in or, if there is none, the one \<^verbatim>\<open>msg_get_from_pool\<close> gives
  (\<open>pool\<close>); the result carries the slot to send and the status. The block sent is also returned,
  for the log.
\<close>

definition txmm_pump ::
  "mtlk_txmm_base_t \<Rightarrow> nat option \<Rightarrow> nat option \<Rightarrow> mtlk_txmm_base_t \<times> (nat \<times> nat) option \<times> txmm_status" where
  "txmm_pump s pmsg pool =
     (if q_total (ques s MTLK_TXMMB_QUEUED) \<noteq> 0 then
        (case (if pmsg = None then pool else pmsg) of
           Some p \<Rightarrow>
             (case mtlk_txmm_get_buf s MTLK_TXMMB_QUEUED of
                (Some b, s1) \<Rightarrow> (mtlk_txmm_send_block_prepare s1 b p, Some (p, b), MTLK_TXMM_OK_SENT)
              | (None, s1) \<Rightarrow> (s1, None, MTLK_TXMM_OK_HANDLED))
         | None \<Rightarrow> (s, None, MTLK_TXMM_OK_HANDLED))
      else case pmsg of
        Some p \<Rightarrow> (txmm_call (MsgFreeToPool p) s, None, MTLK_TXMM_OK_FREED)
      | None \<Rightarrow> (s, None, MTLK_TXMM_OK_HANDLED))"

definition txmm_do_send :: "mtlk_txmm_base_t \<times> (nat \<times> nat) option \<times> txmm_status \<Rightarrow> mtlk_txmm_base_t" where
  "txmm_do_send r = (case r of (s, Some (p, b), _) \<Rightarrow> txmm_call (MsgSend p b) s | (s, None, _) \<Rightarrow> s)"

definition mtlk_txmm_pump :: "mtlk_txmm_base_t \<Rightarrow> nat option \<Rightarrow> nat option \<Rightarrow> mtlk_txmm_base_t" where
  "mtlk_txmm_pump s pmsg pool = txmm_do_send (txmm_pump s pmsg pool)"

definition mtlk_txmm_send_ex ::
  "mtlk_txmm_base_t \<Rightarrow> nat \<Rightarrow> u32 \<Rightarrow> u32 \<Rightarrow> nat option \<Rightarrow> mtlk_txmm_base_t \<times> mtlk_error_t" where
  "mtlk_txmm_send_ex s b timeout_ms now pool =
     (let s1 = upd_blk b (\<lambda>x. x\<lparr>blk_slot := None, blk_clb := True, blk_timeout := timeout_ms,
                 blk_send_time := (if timeout_ms \<noteq> 0 then now else blk_send_time x)\<rparr>) s
      in (case pool of
            Some p \<Rightarrow>
              if q_total (ques s1 MTLK_TXMMB_QUEUED) = 0
              then txmm_call (MsgSend p b) (mtlk_txmm_send_block_prepare s1 b p)
              else txmm_do_send (txmm_pump (mtlk_txmm_put_buf s1 MTLK_TXMMB_QUEUED b) (Some p) None)
          | None \<Rightarrow> mtlk_txmm_put_buf s1 MTLK_TXMMB_QUEUED b, MTLK_ERR_OK))"

definition mtlk_txmm_free :: "mtlk_txmm_base_t \<Rightarrow> nat \<Rightarrow> mtlk_txmm_base_t" where
  "mtlk_txmm_free s b =
     (case blk_que (blocks s b) of
        MTLK_TXMMB_FREE \<Rightarrow> s
      | MTLK_TXMMB_QUEUED \<Rightarrow> mtlk_txmm_free_buf s b True True
      | MTLK_TXMMB_SENT \<Rightarrow> mtlk_txmm_free_buf s b True False
      | _ \<Rightarrow> mtlk_txmm_free_buf s b False False)"

section \<open>User messages\<close>

definition mtlk_txmm_attach_data :: "mtlk_txmm_base_t \<Rightarrow> nat \<Rightarrow> mtlk_txmm_base_t" where
  "mtlk_txmm_attach_data s m =
     (if \<not> flag_active s then s
      else case mtlk_txmm_get_buf s MTLK_TXMMB_FREE of
        (Some b, s1) \<Rightarrow>
          let s2 = mtlk_txmm_adjust_usage_stats s1;
              s3 = upd_blk b (\<lambda>x. x\<lparr>blk_msg := Some m, blk_que := MTLK_TXMMB_NONE\<rparr>) s2
          in s3\<lparr>msgs := (msgs s3)(m := Some b)\<rparr>
      | (None, s1) \<Rightarrow> s1\<lparr>msgs := (msgs s1)(m := None)\<rparr>)"

definition mtlk_txmm_msg_get_empty_data :: "mtlk_txmm_base_t \<Rightarrow> nat \<Rightarrow> mtlk_txmm_base_t \<times> nat option" where
  "mtlk_txmm_msg_get_empty_data s m =
     (if msgs s m = None then let s1 = mtlk_txmm_attach_data s m in (s1, msgs s1 m) else (s, None))"

definition mtlk_txmm_msg_cancel :: "mtlk_txmm_base_t \<Rightarrow> nat \<Rightarrow> mtlk_txmm_base_t" where
  "mtlk_txmm_msg_cancel s m =
     (case msgs s m of
        None \<Rightarrow> s
      | Some b \<Rightarrow> let s1 = mtlk_txmm_free s b in s1\<lparr>msgs := (msgs s1)(m := None)\<rparr>)"

text \<open>The caller guarantees that the message has data: the code asserts it.\<close>

definition mtlk_txmm_msg_send ::
  "mtlk_txmm_base_t \<Rightarrow> nat \<Rightarrow> u32 \<Rightarrow> u32 \<Rightarrow> nat option \<Rightarrow> mtlk_txmm_base_t \<times> mtlk_error_t" where
  "mtlk_txmm_msg_send s m timeout_ms now pool =
     (case msgs s m of
        None \<Rightarrow> (s, MTLK_ERR_UNKNOWN)
      | Some b \<Rightarrow>
          let (s1, res) = mtlk_txmm_send_ex s b timeout_ms now pool
          in (if res \<noteq> MTLK_ERR_OK then mtlk_txmm_msg_cancel s1 m else s1, res))"

section \<open>Confirmation, timeout, recovery\<close>

definition mtlk_txmm_call_usr_clb_locked ::
  "mtlk_txmm_base_t \<Rightarrow> nat \<Rightarrow> mtlk_txmm_clb_reason_e \<Rightarrow> mtlk_txmm_clb_action_e \<Rightarrow> u32 \<Rightarrow> mtlk_txmm_base_t" where
  "mtlk_txmm_call_usr_clb_locked s b reason action now =
     (case blk_msg (blocks s b) of
        None \<Rightarrow> s
      | Some m \<Rightarrow>
          if msgs s m = None then s
          else let s1 = txmm_call (UserClb b reason) s in
            (case action of
               MTLK_TXMM_CLBA_FREE \<Rightarrow>
                 let s2 = mtlk_txmm_free_buf s1 b False False in s2\<lparr>msgs := (msgs s2)(m := None)\<rparr>
             | MTLK_TXMM_CLBA_SEND \<Rightarrow>
                 mtlk_txmm_put_buf
                   (if blk_timeout (blocks s1 b) \<noteq> 0 then upd_blk b (\<lambda>x. x\<lparr>blk_send_time := now\<rparr>) s1 else s1)
                   MTLK_TXMMB_QUEUED b
             | MTLK_TXMM_CLBA_KEEP \<Rightarrow> s1))"

text \<open>The first loop of \<^verbatim>\<open>_mtlk_txmm_on_timer_que\<close>; \<open>max_msgs\<close> turns reach \<^verbatim>\<open>to\<close>.\<close>

definition txmm_expired :: "u32 \<Rightarrow> mtlk_txmm_block_t \<Rightarrow> bool" where
  "txmm_expired now x \<longleftrightarrow> blk_timeout x \<noteq> 0 \<and> blk_clb x \<and> now - blk_send_time x \<ge> blk_timeout x"

fun txmm_timer_scan ::
  "mtlk_txmm_base_t \<Rightarrow> u32 \<Rightarrow> mtlk_txmm_block_e \<Rightarrow> bool \<Rightarrow> nat \<Rightarrow> nat \<Rightarrow> mtlk_txmm_base_t" where
  "txmm_timer_scan s now e preserve_order i 0 = s"
| "txmm_timer_scan s now e preserve_order i (Suc fuel) =
     (if i = q_to (ques s e) then s
      else let b = q_ptr (ques s e) ! i;
               s1 = (if txmm_expired now (blocks s b)
                     then mtlk_txmm_put_buf (fst (mtlk_txmm_del_buf_from_que s e b preserve_order)) MTLK_TXMMB_TIMED_OUT b
                     else s)
           in txmm_timer_scan s1 now e preserve_order (INC_WRAP_IDX i (max_msgs s1)) fuel)"

text \<open>
  The second loop calls the user for every timed out block; \<open>act\<close> is what the callback of a block
  returns. A callback can queue a block again but never makes one time out, so the number of
  timed out blocks bounds the turns.
\<close>

fun txmm_timer_notify ::
  "mtlk_txmm_base_t \<Rightarrow> mtlk_txmm_clb_reason_e \<Rightarrow> (nat \<Rightarrow> mtlk_txmm_clb_action_e) \<Rightarrow> u32 \<Rightarrow> nat \<Rightarrow> mtlk_txmm_base_t" where
  "txmm_timer_notify s reason act now 0 = s"
| "txmm_timer_notify s reason act now (Suc fuel) =
     (if q_total (ques s MTLK_TXMMB_TIMED_OUT) = 0 then s
      else let b = q_ptr (ques s MTLK_TXMMB_TIMED_OUT) ! q_from (ques s MTLK_TXMMB_TIMED_OUT);
               s1 = fst (mtlk_txmm_del_buf_from_que s MTLK_TXMMB_TIMED_OUT b False);
               s2 = mtlk_txmm_call_usr_clb_locked (txmm_call (MsgTimedOut b) s1) b reason (act b) now
           in txmm_timer_notify s2 reason act now fuel)"

definition mtlk_txmm_on_timer_que ::
  "mtlk_txmm_base_t \<Rightarrow> u32 \<Rightarrow> mtlk_txmm_block_e \<Rightarrow> mtlk_txmm_clb_reason_e \<Rightarrow> bool \<Rightarrow>
   (nat \<Rightarrow> mtlk_txmm_clb_action_e) \<Rightarrow> mtlk_txmm_base_t" where
  "mtlk_txmm_on_timer_que s now e reason preserve_order act =
     (let s1 = txmm_timer_scan s now e preserve_order (q_from (ques s e)) (max_msgs s)
      in txmm_timer_notify s1 reason act now (q_total (ques s1 MTLK_TXMMB_TIMED_OUT)))"

definition mtlk_txmm_on_timer :: "mtlk_txmm_base_t \<Rightarrow> u32 \<Rightarrow> (nat \<Rightarrow> mtlk_txmm_clb_action_e) \<Rightarrow> mtlk_txmm_base_t" where
  "mtlk_txmm_on_timer s now act =
     mtlk_txmm_on_timer_que
       (mtlk_txmm_on_timer_que s now MTLK_TXMMB_SENT MTLK_TXMM_CLBR_TIMEOUT_SENT False act)
       now MTLK_TXMMB_QUEUED MTLK_TXMM_CLBR_TIMEOUT_UNSENT True act"

text \<open>The search loop of \<^verbatim>\<open>_mtlk_txmm_on_cfm\<close>.\<close>

fun txmm_find_slot :: "mtlk_txmm_base_t \<Rightarrow> nat \<Rightarrow> nat \<Rightarrow> nat \<Rightarrow> nat option" where
  "txmm_find_slot s pmsg i 0 = None"
| "txmm_find_slot s pmsg i (Suc fuel) =
     (let q = ques s MTLK_TXMMB_SENT; b = q_ptr q ! i in
      if blk_slot (blocks s b) = Some pmsg then Some b
      else let i' = INC_WRAP_IDX i (max_msgs s) in
        if i' = q_to q then None else txmm_find_slot s pmsg i' fuel)"

definition txmm_on_cfm :: "mtlk_txmm_base_t \<Rightarrow> nat \<Rightarrow> mtlk_txmm_clb_action_e \<Rightarrow> u32 \<Rightarrow> mtlk_txmm_base_t \<times> mtlk_error_t" where
  "txmm_on_cfm s pmsg action now =
     (let s1 = s\<lparr>nof_cfmed := inc32 (nof_cfmed s)\<rparr> in
      case (if q_total (ques s1 MTLK_TXMMB_SENT) \<noteq> 0
            then txmm_find_slot s1 pmsg (q_from (ques s1 MTLK_TXMMB_SENT)) (max_msgs s1) else None) of
        None \<Rightarrow> (s1, MTLK_ERR_UNKNOWN)
      | Some b \<Rightarrow>
          (mtlk_txmm_call_usr_clb_locked (fst (mtlk_txmm_del_buf_from_que s1 MTLK_TXMMB_SENT b False)) b
             MTLK_TXMM_CLBR_CONFIRMED action now, MTLK_ERR_OK))"

definition mtlk_txmm_on_cfm ::
  "mtlk_txmm_base_t \<Rightarrow> nat option \<Rightarrow> mtlk_txmm_clb_action_e \<Rightarrow> u32 \<Rightarrow> mtlk_txmm_base_t \<times> mtlk_error_t" where
  "mtlk_txmm_on_cfm s pmsg action now =
     (case pmsg of Some p \<Rightarrow> txmm_on_cfm s p action now | None \<Rightarrow> (s, MTLK_ERR_PARAMS))"

definition txmm_restore_block :: "(nat \<Rightarrow> mtlk_txmm_clb_action_e) \<Rightarrow> u32 \<Rightarrow> mtlk_txmm_base_t \<Rightarrow> nat \<Rightarrow> mtlk_txmm_base_t" where
  "txmm_restore_block act now s b =
     mtlk_txmm_free_buf
       (if blk_que (blocks s b) = MTLK_TXMMB_SENT \<or> blk_que (blocks s b) = MTLK_TXMMB_QUEUED
        then mtlk_txmm_call_usr_clb_locked s b MTLK_TXMM_CLBR_RCVRY_DISCARD (act b) now else s) b True False"

definition mtlk_txmm_restore :: "mtlk_txmm_base_t \<Rightarrow> (nat \<Rightarrow> mtlk_txmm_clb_action_e) \<Rightarrow> u32 \<Rightarrow> mtlk_txmm_base_t" where
  "mtlk_txmm_restore s act now = foldl (txmm_restore_block act now) s [0..<max_msgs s]"

text \<open>The sanity check at the end of \<^verbatim>\<open>mtlk_txmm_restore\<close>.\<close>

definition txmm_restore_asserts :: "mtlk_txmm_base_t \<Rightarrow> bool" where
  "txmm_restore_asserts s \<longleftrightarrow>
     (\<forall>e\<in>{MTLK_TXMMB_QUEUED, MTLK_TXMMB_SENT, MTLK_TXMMB_TIMED_OUT}.
        q_from (ques s e) = q_to (ques s e) \<and> q_total (ques s e) = 0) \<and>
     q_from (ques s MTLK_TXMMB_FREE) = q_to (ques s MTLK_TXMMB_FREE) \<and>
     q_total (ques s MTLK_TXMMB_FREE) = max_msgs s"

section \<open>Life cycle\<close>

definition mtlk_txmm_init :: "nat \<Rightarrow> nat \<Rightarrow> mtlk_txmm_base_t" where
  "mtlk_txmm_init n payload =
     \<lparr>max_msgs = n, max_payload_size = payload,
      ques = (\<lambda>e. \<lparr>q_ptr = (if e = MTLK_TXMMB_FREE then [0..<n] else replicate n 0), q_from = 0, q_to = 0,
                   q_total = (if e = MTLK_TXMMB_FREE then n else 0)\<rparr>),
      blocks = (\<lambda>b. \<lparr>blk_payload_size = 0, blk_slot = None, blk_clb = False, blk_que = MTLK_TXMMB_FREE, blk_idx = b,
                     blk_send_time = 0, blk_timeout = 0, blk_msg = None\<rparr>),
      msgs = (\<lambda>_. None), flag_active = False, flag_stopped = True, nof_sent = 0, nof_cfmed = 0, used_peak = 0,
      txmm_log = []\<rparr>"

definition mtlk_txmm_start :: "mtlk_txmm_base_t \<Rightarrow> mtlk_txmm_base_t" where
  "mtlk_txmm_start s = s\<lparr>flag_active := True, flag_stopped := False\<rparr>"

definition mtlk_txmm_stop :: "mtlk_txmm_base_t \<Rightarrow> mtlk_txmm_base_t" where
  "mtlk_txmm_stop s = (if flag_stopped s then s else s\<lparr>flag_stopped := True\<rparr>)"

definition mtlk_txmm_halt :: "mtlk_txmm_base_t \<Rightarrow> mtlk_txmm_base_t" where
  "mtlk_txmm_halt s = s\<lparr>flag_active := False\<rparr>"

definition mtlk_txmm_is_running :: "mtlk_txmm_base_t \<Rightarrow> bool" where
  "mtlk_txmm_is_running s = flag_active s"

end
