(* ===== verification/Txmm_Rings.thy ===== *)
theory Txmm_Rings
  imports Txmm
begin

text \<open>
  The ring queues of \<^verbatim>\<open>txmm.c\<close> as lists: every block knows the queue and the ring index where it
  is stored, which keeps the four queues disjoint, and the operations on the rings are append,
  take the first, and remove.
\<close>

section \<open>Rings as lists\<close>

definition ring_pos :: "mtlk_txmm_base_t \<Rightarrow> mtlk_txmm_block_e \<Rightarrow> nat \<Rightarrow> nat" where
  "ring_pos s e k = (q_from (ques s e) + k) mod max_msgs s"

definition ring_at :: "mtlk_txmm_base_t \<Rightarrow> mtlk_txmm_block_e \<Rightarrow> nat \<Rightarrow> nat" where
  "ring_at s e k = q_ptr (ques s e) ! ring_pos s e k"

definition qlist :: "mtlk_txmm_base_t \<Rightarrow> mtlk_txmm_block_e \<Rightarrow> nat list" where
  "qlist s e = map (ring_at s e) [0..<q_total (ques s e)]"

definition que_ok :: "mtlk_txmm_base_t \<Rightarrow> mtlk_txmm_block_e \<Rightarrow> bool" where
  "que_ok s e \<longleftrightarrow> length (q_ptr (ques s e)) = max_msgs s \<and> q_from (ques s e) < max_msgs s \<and>
     q_total (ques s e) \<le> max_msgs s \<and> q_to (ques s e) = ring_pos s e (q_total (ques s e))"

text \<open>
  \<open>L\<close> are the blocks in the hands of a running operation, \<open>H\<close> the ring positions that are being
  overwritten; between operations both are empty.
\<close>

definition rings_ok :: "nat set \<Rightarrow> (mtlk_txmm_block_e \<times> nat) set \<Rightarrow> mtlk_txmm_base_t \<Rightarrow> bool" where
  "rings_ok L H s \<longleftrightarrow> 0 < max_msgs s \<and> max_msgs s < 2 ^ 32 \<and>
     (\<forall>e. e \<noteq> MTLK_TXMMB_NONE \<longrightarrow> que_ok s e \<and>
        (\<forall>k<q_total (ques s e). (e, k) \<notin> H \<longrightarrow>
           ring_at s e k < max_msgs s \<and> ring_at s e k \<notin> L \<and> blk_que (blocks s (ring_at s e k)) = e \<and>
           blk_idx (blocks s (ring_at s e k)) = ring_pos s e k)) \<and>
     (\<forall>b<max_msgs s. b \<notin> L \<longrightarrow> blk_que (blocks s b) \<noteq> MTLK_TXMMB_NONE \<longrightarrow>
        (\<exists>k<q_total (ques s (blk_que (blocks s b))). (blk_que (blocks s b), k) \<notin> H \<and>
           ring_at s (blk_que (blocks s b)) k = b))"

lemma ring_pos_less: "rings_ok L H s \<Longrightarrow> ring_pos s e k < max_msgs s"
  by (simp add: rings_ok_def ring_pos_def)

lemma ring_pos_inj:
  "ring_pos s e j = ring_pos s e k \<Longrightarrow> j < max_msgs s \<Longrightarrow> k < max_msgs s \<Longrightarrow> j = k"
  unfolding ring_pos_def by (rule mod_add_inj)

lemma rings_entry:
  assumes "rings_ok L H s" "e \<noteq> MTLK_TXMMB_NONE" "k < q_total (ques s e)" "(e, k) \<notin> H"
  shows "ring_at s e k < max_msgs s" "ring_at s e k \<notin> L" "blk_que (blocks s (ring_at s e k)) = e"
    "blk_idx (blocks s (ring_at s e k)) = ring_pos s e k"
  using assms by (auto simp: rings_ok_def)

lemma rings_que: "rings_ok L H s \<Longrightarrow> e \<noteq> MTLK_TXMMB_NONE \<Longrightarrow> que_ok s e"
  by (simp add: rings_ok_def)

lemma ring_at_inj:
  assumes "rings_ok L H s" "e \<noteq> MTLK_TXMMB_NONE" "j < q_total (ques s e)" "k < q_total (ques s e)"
    "(e, j) \<notin> H" "(e, k) \<notin> H" "ring_at s e j = ring_at s e k"
  shows "j = k"
proof -
  have "ring_pos s e j = ring_pos s e k"
    using rings_entry(4) [OF assms(1,2,3,5)] rings_entry(4) [OF assms(1,2,4,6)] assms(7) by simp
  then show ?thesis using rings_que [OF assms(1,2)] assms(3,4) by (auto simp: que_ok_def intro: ring_pos_inj)
qed

lemma qlist_simps: "length (qlist s e) = q_total (ques s e)" "k < q_total (ques s e) \<Longrightarrow> qlist s e ! k = ring_at s e k"
  by (simp_all add: qlist_def)

lemma qlist_distinct: "rings_ok L {} s \<Longrightarrow> e \<noteq> MTLK_TXMMB_NONE \<Longrightarrow> distinct (qlist s e)"
  by (auto simp: distinct_conv_nth qlist_simps intro: ring_at_inj)

lemma qlist_entry:
  assumes "rings_ok L {} s" "e \<noteq> MTLK_TXMMB_NONE" "b \<in> set (qlist s e)"
  shows "b < max_msgs s" "b \<notin> L" "blk_que (blocks s b) = e"
    "\<exists>k<q_total (ques s e). ring_at s e k = b \<and> blk_idx (blocks s b) = ring_pos s e k"
proof -
  from assms(3) obtain k where k: "k < q_total (ques s e)" "ring_at s e k = b" by (auto simp: qlist_def)
  with rings_entry [OF assms(1,2) k(1)]
  show "b < max_msgs s" "b \<notin> L" "blk_que (blocks s b) = e"
    "\<exists>k<q_total (ques s e). ring_at s e k = b \<and> blk_idx (blocks s b) = ring_pos s e k" by auto
qed

lemma qlist_member:
  assumes "rings_ok L {} s" "b < max_msgs s" "b \<notin> L" "blk_que (blocks s b) = e" "e \<noteq> MTLK_TXMMB_NONE"
  shows "b \<in> set (qlist s e)"
proof -
  from assms obtain k where "k < q_total (ques s e)" "ring_at s e k = b" by (auto simp: rings_ok_def)
  then show ?thesis by (auto simp: qlist_def)
qed

text \<open>A block in hand leaves room in every queue.\<close>

lemma ring_room:
  assumes "rings_ok L {} s" "e \<noteq> MTLK_TXMMB_NONE" "b \<in> L" "b < max_msgs s"
  shows "q_total (ques s e) < max_msgs s"
proof -
  have "set (qlist s e) \<subseteq> {..<max_msgs s} - {b}"
    using qlist_entry(1,2) [OF assms(1,2)] assms(3) by auto
  then have "card (set (qlist s e)) \<le> card ({..<max_msgs s} - {b})" by (intro card_mono) auto
  then have "length (qlist s e) \<le> max_msgs s - 1"
    using distinct_card [OF qlist_distinct [OF assms(1,2)]] assms(4) by simp
  then show ?thesis using assms(4) by (simp add: qlist_simps)
qed

section \<open>Primitive steps\<close>

lemma wrap_idx: "rings_ok L H s \<Longrightarrow> i < max_msgs s \<Longrightarrow> INC_WRAP_IDX i (max_msgs s) = Suc i mod max_msgs s"
  by (simp add: rings_ok_def INC_WRAP_IDX_eq)

lemma ring_pos_Suc:
  assumes "rings_ok L H s" "e \<noteq> MTLK_TXMMB_NONE"
  shows "INC_WRAP_IDX (ring_pos s e k) (max_msgs s) = ring_pos s e (Suc k)"
  using wrap_idx [OF assms(1) ring_pos_less [OF assms(1)], of e k]
  by (simp add: ring_pos_def mod_Suc_eq)

text \<open>Taking the first entry away, once nothing depends on it.\<close>

definition ring_drop :: "mtlk_txmm_block_e \<Rightarrow> mtlk_txmm_base_t \<Rightarrow> mtlk_txmm_base_t" where
  "ring_drop e s =
     upd_que e (\<lambda>q. q\<lparr>q_from := INC_WRAP_IDX (q_from q) (max_msgs s), q_total := dec32 (q_total q)\<rparr>) s"

lemma ring_drop_sel [simp]:
  "max_msgs (ring_drop e s) = max_msgs s" "blocks (ring_drop e s) = blocks s" "msgs (ring_drop e s) = msgs s"
  "u \<noteq> e \<Longrightarrow> ques (ring_drop e s) u = ques s u"
  by (simp_all add: ring_drop_def upd_que_def)

lemma ring_drop_pos:
  assumes "rings_ok L H s" "e \<noteq> MTLK_TXMMB_NONE" "0 < q_total (ques s e)"
  shows "ring_pos (ring_drop e s) u k = (if u = e then ring_pos s e (Suc k) else ring_pos s u k)"
    and "ring_at (ring_drop e s) u k = (if u = e then ring_at s e (Suc k) else ring_at s u k)"
    and "q_total (ques (ring_drop e s) e) = q_total (ques s e) - 1"
proof -
  have f: "q_from (ques s e) < max_msgs s" using rings_que [OF assms(1,2)] by (simp add: que_ok_def)
  have t: "q_total (ques s e) < 2 ^ 32" using rings_que [OF assms(1,2)] assms(1) by (simp add: que_ok_def rings_ok_def)
  show p: "ring_pos (ring_drop e s) u k = (if u = e then ring_pos s e (Suc k) else ring_pos s u k)" for u k
    using wrap_idx [OF assms(1) f] by (simp add: ring_drop_def upd_que_def ring_pos_def mod_add_left_eq)
  show "ring_at (ring_drop e s) u k = (if u = e then ring_at s e (Suc k) else ring_at s u k)"
    by (simp add: ring_at_def p) (simp add: ring_drop_def upd_que_def)
  show "q_total (ques (ring_drop e s) e) = q_total (ques s e) - 1"
    using assms(3) t by (simp add: ring_drop_def upd_que_def dec32_eq)
qed

lemma rings_ok_drop:
  assumes r: "rings_ok L {(e, 0)} s" and e: "e \<noteq> MTLK_TXMMB_NONE" and t: "0 < q_total (ques s e)"
  shows "rings_ok L {} (ring_drop e s)"
proof -
  note P = ring_drop_pos [OF r e t]
  have q: "que_ok (ring_drop e s) u" if "u \<noteq> MTLK_TXMMB_NONE" for u
  proof (cases "u = e")
    case True
    have "q_from (ques (ring_drop e s) e) < max_msgs s"
      using ring_pos_less [OF r, of e 1] wrap_idx [OF r, of "q_from (ques s e)"] rings_que [OF r e]
      by (simp add: ring_drop_def upd_que_def ring_pos_def que_ok_def)
    moreover have "q_ptr (ques (ring_drop e s) e) = q_ptr (ques s e)" "q_to (ques (ring_drop e s) e) = q_to (ques s e)"
      by (simp_all add: ring_drop_def upd_que_def)
    ultimately show ?thesis using True rings_que [OF r e] P t by (auto simp: que_ok_def)
  next
    case False
    then show ?thesis using rings_que [OF r that] P by (simp add: que_ok_def)
  qed
  have ent: "ring_at (ring_drop e s) u k < max_msgs s \<and> ring_at (ring_drop e s) u k \<notin> L \<and>
      blk_que (blocks s (ring_at (ring_drop e s) u k)) = u \<and>
      blk_idx (blocks s (ring_at (ring_drop e s) u k)) = ring_pos (ring_drop e s) u k"
    if "u \<noteq> MTLK_TXMMB_NONE" "k < q_total (ques (ring_drop e s) u)" for u k
  proof (cases "u = e")
    case True
    then show ?thesis using that P rings_entry [OF r e, of "Suc k"] by simp
  next
    case False
    then show ?thesis using that P rings_entry [OF r that(1), of k] by simp
  qed
  have mem: "\<exists>k<q_total (ques (ring_drop e s) (blk_que (blocks s b))). ring_at (ring_drop e s) (blk_que (blocks s b)) k = b"
    if b: "b < max_msgs s" "b \<notin> L" "blk_que (blocks s b) \<noteq> MTLK_TXMMB_NONE" for b
  proof -
    from r b obtain k where k: "k < q_total (ques s (blk_que (blocks s b)))" "(blk_que (blocks s b), k) \<noteq> (e, 0)"
      "ring_at s (blk_que (blocks s b)) k = b" by (auto simp: rings_ok_def)
    show ?thesis
    proof (cases "blk_que (blocks s b) = e")
      case True
      with k obtain j where "k = Suc j" by (cases k) auto
      then show ?thesis using True k P by (intro exI [of _ j]) simp
    next
      case False
      then show ?thesis using k P by auto
    qed
  qed
  show ?thesis using r q ent mem unfolding rings_ok_def [of L "{}"] by (simp add: rings_ok_def)
qed

lemma qlist_drop:
  assumes "rings_ok L H s" "e \<noteq> MTLK_TXMMB_NONE" "0 < q_total (ques s e)"
  shows "qlist (ring_drop e s) e = tl (qlist s e)" and "u \<noteq> e \<Longrightarrow> qlist (ring_drop e s) u = qlist s u"
  by (rule nth_equalityI) (simp_all add: ring_drop_pos [OF assms] qlist_def nth_tl)

text \<open>Copying the entry at position \<open>j\<close> over the hole at position \<open>k\<close>.\<close>

definition ring_copy :: "mtlk_txmm_block_e \<Rightarrow> nat \<Rightarrow> nat \<Rightarrow> mtlk_txmm_base_t \<Rightarrow> mtlk_txmm_base_t" where
  "ring_copy e j k s =
     upd_blk (ring_at s e j) (\<lambda>x. x\<lparr>blk_idx := ring_pos s e k\<rparr>)
       (upd_que e (\<lambda>q. q\<lparr>q_ptr := (q_ptr q)[ring_pos s e k := ring_at s e j]\<rparr>) s)"

lemma ring_copy_sel [simp]:
  "max_msgs (ring_copy e j k s) = max_msgs s" "ring_pos (ring_copy e j k s) u i = ring_pos s u i"
  "q_total (ques (ring_copy e j k s) u) = q_total (ques s u)" "q_from (ques (ring_copy e j k s) u) = q_from (ques s u)"
  "q_to (ques (ring_copy e j k s) u) = q_to (ques s u)" "msgs (ring_copy e j k s) = msgs s"
  "length (q_ptr (ques (ring_copy e j k s) u)) = length (q_ptr (ques s u))"
  "blk_que (blocks (ring_copy e j k s) b) = blk_que (blocks s b)"
  "blk_msg (blocks (ring_copy e j k s) b) = blk_msg (blocks s b)"
  by (simp_all add: ring_copy_def upd_blk_def upd_que_def ring_pos_def)

lemma ring_copy_at:
  assumes "rings_ok L H s" "e \<noteq> MTLK_TXMMB_NONE" "k < q_total (ques s e)" "i < q_total (ques s u)" "u \<noteq> MTLK_TXMMB_NONE"
  shows "ring_at (ring_copy e j k s) u i = (if u = e \<and> i = k then ring_at s e j else ring_at s u i)"
proof (cases "u = e \<and> i \<noteq> k")
  case True
  then have "ring_pos s e i \<noteq> ring_pos s e k"
    using ring_pos_inj [of s e i k] assms rings_que [OF assms(1,2)] by (auto simp: que_ok_def)
  then show ?thesis using True by (simp add: ring_at_def ring_copy_def upd_blk_def upd_que_def ring_pos_def)
next
  case False
  have "ring_pos s e k < length (q_ptr (ques s e))"
    using ring_pos_less [OF assms(1)] rings_que [OF assms(1,2)] by (simp add: que_ok_def)
  then show ?thesis using False by (auto simp: ring_at_def ring_copy_def upd_blk_def upd_que_def ring_pos_def)
qed

lemma rings_ok_copy:
  assumes r: "rings_ok L {(e, k)} s" and e: "e \<noteq> MTLK_TXMMB_NONE"
    and j: "j < q_total (ques s e)" and k: "k < q_total (ques s e)" and jk: "j \<noteq> k"
  shows "rings_ok L {(e, j)} (ring_copy e j k s)"
proof -
  let ?c = "ring_at s e j" and ?s = "ring_copy e j k s"
  have c: "?c < max_msgs s" "?c \<notin> L" "blk_que (blocks s ?c) = e" "blk_idx (blocks s ?c) = ring_pos s e j"
    using rings_entry [OF r e j] jk by auto
  note A = ring_copy_at [OF r e k]
  have idx: "blk_idx (blocks ?s b) = (if b = ?c then ring_pos s e k else blk_idx (blocks s b))" for b
    by (simp add: ring_copy_def upd_blk_def upd_que_def)
  have q: "que_ok ?s u" if "u \<noteq> MTLK_TXMMB_NONE" for u
    using rings_que [OF r that] by (simp add: que_ok_def)
  have ent: "ring_at ?s u i < max_msgs s \<and> ring_at ?s u i \<notin> L \<and>
      blk_que (blocks s (ring_at ?s u i)) = u \<and> blk_idx (blocks ?s (ring_at ?s u i)) = ring_pos s u i"
    if u: "u \<noteq> MTLK_TXMMB_NONE" "i < q_total (ques s u)" "(u, i) \<noteq> (e, j)" for u i
  proof (cases "u = e \<and> i = k")
    case True
    then show ?thesis using A [OF u(2,1), of j] c idx by simp
  next
    case False
    then have E: "ring_at s u i < max_msgs s" "ring_at s u i \<notin> L" "blk_que (blocks s (ring_at s u i)) = u"
      "blk_idx (blocks s (ring_at s u i)) = ring_pos s u i"
      using rings_entry [OF r u(1,2)] by auto
    have "ring_at s u i \<noteq> ?c"
    proof
      assume a: "ring_at s u i = ?c"
      with E c have "u = e" by simp
      with a False u jk ring_at_inj [OF r e, of i j] j show False by auto
    qed
    then show ?thesis using A [OF u(2,1), of j] E idx False by (auto simp: if_distrib)
  qed
  have mem: "\<exists>i<q_total (ques s (blk_que (blocks s b))). (blk_que (blocks s b), i) \<noteq> (e, j) \<and>
      ring_at ?s (blk_que (blocks s b)) i = b"
    if b: "b < max_msgs s" "b \<notin> L" "blk_que (blocks s b) \<noteq> MTLK_TXMMB_NONE" for b
  proof (cases "b = ?c")
    case True
    then show ?thesis using c k jk A [OF k e, of j] by (intro exI [of _ k]) simp
  next
    case False
    from r b obtain i where i: "i < q_total (ques s (blk_que (blocks s b)))" "(blk_que (blocks s b), i) \<noteq> (e, k)"
      "ring_at s (blk_que (blocks s b)) i = b" by (auto simp: rings_ok_def)
    with False have "(blk_que (blocks s b), i) \<noteq> (e, j)" by auto
    with i A [OF i(1) b(3), of j] show ?thesis by (intro exI [of _ i]) auto
  qed
  show ?thesis using r q ent mem unfolding rings_ok_def [of L "{(e, j)}"] by (simp add: rings_ok_def)
qed

text \<open>A block taken in hand makes its position a hole; handing it over as \<open>NONE\<close> lets it go.\<close>

lemma rings_ok_take:
  assumes r: "rings_ok L {} s" and e: "e \<noteq> MTLK_TXMMB_NONE" and k: "k < q_total (ques s e)"
  shows "rings_ok (insert (ring_at s e k) L) {(e, k)} s"
proof -
  have ne: "ring_at s u i \<noteq> ring_at s e k" if "u \<noteq> MTLK_TXMMB_NONE" "i < q_total (ques s u)" "(u, i) \<noteq> (e, k)" for u i
  proof
    assume a: "ring_at s u i = ring_at s e k"
    then have "u = e" using rings_entry(3) [OF r that(1,2)] rings_entry(3) [OF r e k] by simp
    with a that ring_at_inj [OF r e] k show False by auto
  qed
  have ent: "ring_at s u i < max_msgs s \<and> ring_at s u i \<notin> insert (ring_at s e k) L \<and>
     blk_que (blocks s (ring_at s u i)) = u \<and> blk_idx (blocks s (ring_at s u i)) = ring_pos s u i"
    if "u \<noteq> MTLK_TXMMB_NONE" "i < q_total (ques s u)" "(u, i) \<noteq> (e, k)" for u i
    using rings_entry [OF r that(1,2)] ne [OF that] by simp
  have mem: "\<exists>i<q_total (ques s (blk_que (blocks s b))). (blk_que (blocks s b), i) \<noteq> (e, k) \<and>
      ring_at s (blk_que (blocks s b)) i = b"
    if b: "b < max_msgs s" "b \<notin> insert (ring_at s e k) L" "blk_que (blocks s b) \<noteq> MTLK_TXMMB_NONE" for b
  proof -
    from r b obtain i where "i < q_total (ques s (blk_que (blocks s b)))" "ring_at s (blk_que (blocks s b)) i = b"
      by (auto simp: rings_ok_def)
    with b(2) show ?thesis by auto
  qed
  show ?thesis using r ent mem unfolding rings_ok_def [of "insert (ring_at s e k) L"] by (simp add: rings_ok_def)
qed

lemma rings_ok_upd_loose:
  assumes "rings_ok L H s" "b \<in> L"
  shows "rings_ok L H (upd_blk b f s)"
  using assms by (auto simp: rings_ok_def que_ok_def ring_at_def ring_pos_def upd_blk_def)

lemma rings_ok_release:
  assumes "rings_ok (insert b L) {} s" "blk_que (blocks s b) = MTLK_TXMMB_NONE"
  shows "rings_ok L {} s"
  using assms unfolding rings_ok_def by auto

text \<open>Only the rings and the queue fields of the blocks matter.\<close>

lemma rings_ok_cong:
  assumes "ques s' = ques s" "max_msgs s' = max_msgs s"
    "\<And>b. blk_que (blocks s' b) = blk_que (blocks s b)" "\<And>b. blk_idx (blocks s' b) = blk_idx (blocks s b)"
  shows "rings_ok L H s' = rings_ok L H s"
  by (simp add: rings_ok_def que_ok_def ring_at_def ring_pos_def assms)

lemma qlist_cong: "ques s' = ques s \<Longrightarrow> max_msgs s' = max_msgs s \<Longrightarrow> qlist s' e = qlist s e"
  by (simp add: qlist_def ring_at_def ring_pos_def)

lemma rings_ok_upd_other:
  assumes "rings_ok L H s" "\<And>x. blk_que (f x) = blk_que x" "\<And>x. blk_idx (f x) = blk_idx x"
  shows "rings_ok L H (upd_blk b f s)"
  using assms(1) by (rule rings_ok_cong [THEN iffD2, rotated -1]) (simp_all add: upd_blk_def assms(2,3))

section \<open>The queue operations\<close>

text \<open>Appending a block in hand.\<close>

lemma put_buf_rings:
  assumes r: "rings_ok (insert b L) {} s" and b: "b < max_msgs s" "b \<notin> L" and e: "e \<noteq> MTLK_TXMMB_NONE"
  shows "rings_ok L {} (mtlk_txmm_put_buf s e b)"
    and "qlist (mtlk_txmm_put_buf s e b) u = (if u = e then qlist s e @ [b] else qlist s u)"
proof -
  let ?s = "mtlk_txmm_put_buf s e b" and ?n = "max_msgs s" and ?t = "q_total (ques s e)"
  have room: "?t < ?n" using ring_room [OF r e _ b(1)] by simp
  have q: "que_ok s e" by (rule rings_que [OF r e])
  have n: "?n < 2 ^ 32" using r by (simp add: rings_ok_def)
  have tot: "q_total (ques ?s u) = (if u = e then Suc ?t else q_total (ques s u))" for u
    using e room n by (simp add: mtlk_txmm_put_buf_def upd_que_def upd_blk_def inc32_eq)
  have to: "q_to (ques s e) = ring_pos s e ?t" using q by (simp add: que_ok_def)
  have pos: "ring_pos ?s u k = ring_pos s u k" for u k
    using e by (simp add: mtlk_txmm_put_buf_def upd_que_def upd_blk_def ring_pos_def)
  have at_old: "ring_at ?s u k = ring_at s u k" if "u \<noteq> e \<or> k < ?t" for u k
  proof (cases "u = e")
    case True
    with that have "ring_pos s e k \<noteq> ring_pos s e ?t" using ring_pos_inj [of s e k ?t] room by auto
    then show ?thesis using True e to pos [of e k] by (simp add: ring_at_def mtlk_txmm_put_buf_def upd_que_def upd_blk_def)
  next
    case False
    then show ?thesis using e pos [of u k] by (simp add: ring_at_def mtlk_txmm_put_buf_def upd_que_def upd_blk_def)
  qed
  have at_new: "ring_at ?s e ?t = b"
    using e to pos [of e ?t] q ring_pos_less [OF r, of e ?t]
    by (simp add: ring_at_def mtlk_txmm_put_buf_def upd_que_def upd_blk_def que_ok_def)
  have bl: "blocks ?s x = (if x = b then (blocks s b)\<lparr>blk_que := e, blk_idx := ring_pos s e ?t\<rparr> else blocks s x)" for x
    using e to by (simp add: mtlk_txmm_put_buf_def upd_que_def upd_blk_def)
  have mx: "max_msgs ?s = ?n" by (simp add: mtlk_txmm_put_buf_def upd_que_def upd_blk_def)
  have qo: "que_ok ?s u" if "u \<noteq> MTLK_TXMMB_NONE" for u
  proof (cases "u = e")
    case True
    have "q_to (ques ?s e) = ring_pos s e (Suc ?t)"
      using ring_pos_Suc [OF r e, of ?t] e to by (simp add: mtlk_txmm_put_buf_def upd_que_def upd_blk_def)
    moreover have "length (q_ptr (ques ?s e)) = ?n" "q_from (ques ?s e) = q_from (ques s e)"
      using q e by (simp_all add: mtlk_txmm_put_buf_def upd_que_def upd_blk_def que_ok_def)
    ultimately show ?thesis using True q room tot pos mx by (simp add: que_ok_def)
  next
    case False
    then have "ques ?s u = ques s u" using e by (simp add: mtlk_txmm_put_buf_def upd_que_def upd_blk_def)
    then show ?thesis using rings_que [OF r that] pos mx by (simp add: que_ok_def)
  qed
  have ent: "ring_at ?s u k < ?n \<and> ring_at ?s u k \<notin> L \<and> blk_que (blocks ?s (ring_at ?s u k)) = u \<and>
      blk_idx (blocks ?s (ring_at ?s u k)) = ring_pos ?s u k"
    if u: "u \<noteq> MTLK_TXMMB_NONE" "k < q_total (ques ?s u)" for u k
  proof (cases "u = e \<and> k = ?t")
    case True
    then show ?thesis using at_new bl b pos by simp
  next
    case False
    with u tot have k: "k < q_total (ques s u)" "u \<noteq> e \<or> k < ?t" by (auto split: if_splits)
    show ?thesis using rings_entry [OF r u(1) k(1)] at_old [OF k(2)] bl pos by auto
  qed
  have mem: "\<exists>k<q_total (ques ?s (blk_que (blocks ?s x))). ring_at ?s (blk_que (blocks ?s x)) k = x"
    if x: "x < ?n" "x \<notin> L" "blk_que (blocks ?s x) \<noteq> MTLK_TXMMB_NONE" for x
  proof (cases "x = b")
    case True
    then show ?thesis using bl tot at_new by auto
  next
    case False
    with x bl r obtain k where k: "k < q_total (ques s (blk_que (blocks s x)))" "ring_at s (blk_que (blocks s x)) k = x"
      by (auto simp: rings_ok_def)
    have "k < q_total (ques ?s (blk_que (blocks s x)))" using k(1) tot [of "blk_que (blocks s x)"] by (simp split: if_splits)
    moreover have "ring_at ?s (blk_que (blocks s x)) k = x" using k at_old [of "blk_que (blocks s x)" k] by auto
    ultimately show ?thesis using False bl by auto
  qed
  show "rings_ok L {} ?s" using r qo ent mem mx unfolding rings_ok_def [of L "{}" ?s] by (simp add: rings_ok_def)
  show "qlist ?s u = (if u = e then qlist s e @ [b] else qlist s u)"
  proof (rule nth_equalityI)
    show "length (qlist ?s u) = length (if u = e then qlist s e @ [b] else qlist s u)" using tot by (simp add: qlist_simps)
    fix i assume "i < length (qlist ?s u)"
    then have i: "i < q_total (ques ?s u)" by (simp add: qlist_simps)
    show "qlist ?s u ! i = (if u = e then qlist s e @ [b] else qlist s u) ! i"
    proof (cases "u = e \<and> i = ?t")
      case True
      then show ?thesis using i at_new by (simp add: qlist_simps nth_append)
    next
      case False
      with i tot have k: "i < q_total (ques s u)" "u \<noteq> e \<or> i < ?t" by (auto split: if_splits)
      then show ?thesis using i at_old [OF k(2)] by (auto simp: qlist_simps nth_append)
    qed
  qed
qed

text \<open>Taking the first block.\<close>

lemma get_buf_rings:
  assumes r: "rings_ok L {} s" and e: "e \<noteq> MTLK_TXMMB_NONE" and ne: "qlist s e \<noteq> []"
  shows "mtlk_txmm_get_buf s e = (Some (hd (qlist s e)), ring_drop e s)"
    and "rings_ok (insert (hd (qlist s e)) L) {} (ring_drop e s)"
    and "qlist (ring_drop e s) u = (if u = e then tl (qlist s e) else qlist s u)"
proof -
  have t: "0 < q_total (ques s e)" using ne by (simp add: qlist_def)
  have h: "hd (qlist s e) = ring_at s e 0" using ne t by (simp add: hd_conv_nth qlist_simps)
  have p: "ring_pos s e 0 = q_from (ques s e)" using rings_que [OF r e] by (simp add: ring_pos_def que_ok_def)
  show "mtlk_txmm_get_buf s e = (Some (hd (qlist s e)), ring_drop e s)"
    using e t h p by (simp add: mtlk_txmm_get_buf_def ring_drop_def ring_at_def)
  show "rings_ok (insert (hd (qlist s e)) L) {} (ring_drop e s)"
    unfolding h by (rule rings_ok_drop [OF rings_ok_take [OF r e t] e t])
  show "qlist (ring_drop e s) u = (if u = e then tl (qlist s e) else qlist s u)"
    using qlist_drop [OF r e t] by simp
qed

lemma get_buf_empty: "qlist s e = [] \<Longrightarrow> mtlk_txmm_get_buf s e = (None, s)"
  by (simp add: mtlk_txmm_get_buf_def qlist_def)

text \<open>Removing a block: what stays the same apart from ring indices.\<close>

definition same_blocks :: "mtlk_txmm_base_t \<Rightarrow> mtlk_txmm_base_t \<Rightarrow> bool" where
  "same_blocks s s' \<longleftrightarrow> max_msgs s' = max_msgs s \<and> msgs s' = msgs s \<and> txmm_log s' = txmm_log s \<and>
     flag_active s' = flag_active s \<and> (\<forall>b. (blocks s' b)\<lparr>blk_idx := 0\<rparr> = (blocks s b)\<lparr>blk_idx := 0\<rparr>)"

lemma same_blocks_refl [simp]: "same_blocks s s"
  by (simp add: same_blocks_def)

lemma same_blocks_trans: "same_blocks s s1 \<Longrightarrow> same_blocks s1 s2 \<Longrightarrow> same_blocks s s2"
  by (simp add: same_blocks_def)

lemma same_blocks_drop [simp]: "same_blocks s (ring_drop e s)"
  by (simp add: same_blocks_def ring_drop_def upd_que_def)

lemma same_block_que:
  "(x :: mtlk_txmm_block_t)\<lparr>blk_idx := 0\<rparr> = y\<lparr>blk_idx := 0\<rparr> \<Longrightarrow> x\<lparr>blk_que := u, blk_idx := 0\<rparr> = y\<lparr>blk_que := u, blk_idx := 0\<rparr>"
  by (cases x; cases y) simp

lemma same_blocks_none:
  assumes "same_blocks s g"
  shows "same_blocks (upd_blk b (\<lambda>x. x\<lparr>blk_que := u\<rparr>) s) (upd_blk b (\<lambda>x. x\<lparr>blk_que := u\<rparr>) (ring_drop e g))"
proof -
  have *: "(blocks g x)\<lparr>blk_idx := 0\<rparr> = (blocks s x)\<lparr>blk_idx := 0\<rparr>" for x using assms by (simp add: same_blocks_def)
  note ** = same_block_que [OF * [of b], of u]
  show ?thesis using assms * ** by (simp add: same_blocks_def upd_blk_def ring_drop_def upd_que_def)
qed

lemma same_blocks_copy: "same_blocks s (ring_copy e j k s)"
  by (simp add: same_blocks_def ring_copy_def upd_blk_def upd_que_def)

lemma ring_pos_prev:
  assumes "rings_ok L H s" "0 < k"
  shows "(if ring_pos s e k = 0 then max_msgs s - 1 else ring_pos s e k - 1) = ring_pos s e (k - 1)"
proof -
  obtain m where k: "k = Suc m" using assms(2) by (cases k) auto
  have "0 < max_msgs s" using assms(1) by (simp add: rings_ok_def)
  then show ?thesis unfolding k ring_pos_def by (auto simp: mod_Suc)
qed

lemma ring_from: "rings_ok L H s \<Longrightarrow> e \<noteq> MTLK_TXMMB_NONE \<Longrightarrow> q_from (ques s e) = ring_pos s e 0"
  using rings_que [of L H s e] by (simp add: que_ok_def ring_pos_def)

lemma qlist_copy:
  assumes "rings_ok L H s" "e \<noteq> MTLK_TXMMB_NONE" "k < q_total (ques s e)" "j < q_total (ques s e)" "u \<noteq> MTLK_TXMMB_NONE"
  shows "qlist (ring_copy e j k s) u = (if u = e then (qlist s e)[k := qlist s e ! j] else qlist s u)"
  by (rule nth_equalityI)
     (use assms ring_copy_at [OF assms(1,2,3) _ assms(5)] in \<open>auto simp: qlist_simps nth_list_update\<close>)

lemma take_drop_shift:
  assumes "k < length xs" "0 < k"
  shows "take (k - 1) (xs[k := xs ! (k - 1)]) @ drop (Suc (k - 1)) (xs[k := xs ! (k - 1)]) = take k xs @ drop (Suc k) xs"
proof -
  obtain m where k: "k = Suc m" using assms(2) by (cases k) auto
  have "drop (Suc m) (xs[Suc m := xs ! m]) = xs ! m # drop (Suc (Suc m)) xs"
    using assms k by (simp add: Cons_nth_drop_Suc [symmetric] drop_update_cancel)
  then show ?thesis using assms k by (simp add: take_Suc_conv_app_nth)
qed

lemma txmm_shift_rings:
  assumes "rings_ok L {(e, k)} s" "e \<noteq> MTLK_TXMMB_NONE" "0 < k" "k < q_total (ques s e)" "k \<le> fuel"
  shows "rings_ok L {(e, 0)} (txmm_shift s e (ring_pos s e k) fuel) \<and>
    tl (qlist (txmm_shift s e (ring_pos s e k) fuel) e) = take k (qlist s e) @ drop (Suc k) (qlist s e) \<and>
    q_total (ques (txmm_shift s e (ring_pos s e k) fuel) e) = q_total (ques s e) \<and>
    (\<forall>u. u \<noteq> e \<longrightarrow> u \<noteq> MTLK_TXMMB_NONE \<longrightarrow> qlist (txmm_shift s e (ring_pos s e k) fuel) u = qlist s u) \<and>
    same_blocks s (txmm_shift s e (ring_pos s e k) fuel)"
  using assms
proof (induction k arbitrary: s fuel)
  case 0
  then show ?case by simp
next
  case (Suc k)
  then obtain fuel' where fuel: "fuel = Suc fuel'" by (cases fuel) auto
  let ?s = "ring_copy e k (Suc k) s" and ?xs = "qlist s e"
  have k: "k < q_total (ques s e)" using Suc.prems(4) by simp
  have prev: "(if ring_pos s e (Suc k) = 0 then max_msgs s - 1 else ring_pos s e (Suc k) - 1) = ring_pos s e k"
    using ring_pos_prev [OF Suc.prems(1), of "Suc k" e] by simp
  have cp: "upd_blk (q_ptr (ques s e) ! ring_pos s e k) (\<lambda>x. x\<lparr>blk_idx := ring_pos s e (Suc k)\<rparr>)
      (upd_que e (\<lambda>q. q\<lparr>q_ptr := (q_ptr q)[ring_pos s e (Suc k) := q_ptr (ques s e) ! ring_pos s e k]\<rparr>) s) = ?s"
    by (simp add: ring_copy_def ring_at_def)
  have unfold: "txmm_shift s e (ring_pos s e (Suc k)) fuel =
      (if ring_pos s e k = q_from (ques s e) then ?s else txmm_shift ?s e (ring_pos s e k) fuel')"
    unfolding fuel txmm_shift.simps Let_def prev cp by simp
  have r: "rings_ok L {(e, k)} ?s" by (rule rings_ok_copy [OF Suc.prems(1,2) k Suc.prems(4)]) simp
  have n: "q_total (ques s e) \<le> max_msgs s" using rings_que [OF Suc.prems(1,2)] by (simp add: que_ok_def)
  have first: "ring_pos s e k = q_from (ques s e) \<longleftrightarrow> k = 0"
    using ring_from [OF Suc.prems(1,2)] ring_pos_inj [of s e k 0] k n by auto
  have ql: "qlist ?s e = ?xs[Suc k := ?xs ! k]" "u \<noteq> e \<Longrightarrow> u \<noteq> MTLK_TXMMB_NONE \<Longrightarrow> qlist ?s u = qlist s u" for u
    using qlist_copy [OF Suc.prems(1,2,4) k] Suc.prems(2) by simp_all
  have len: "Suc k < length ?xs" using Suc.prems(4) by (simp add: qlist_simps)
  note td = take_drop_shift [OF len, simplified]
  show ?case
  proof (cases "k = 0")
    case True
    then show ?thesis using unfold first r ql td same_blocks_copy [of s e k "Suc k"] by (simp add: drop_Suc)
  next
    case False
    have "txmm_shift s e (ring_pos s e (Suc k)) fuel = txmm_shift ?s e (ring_pos ?s e k) fuel'"
      using unfold first False by simp
    moreover note Suc.IH [OF r Suc.prems(2), of fuel'] same_blocks_copy [of s e k "Suc k"]
    ultimately show ?thesis using False k Suc.prems(5) fuel ql td by (auto intro: same_blocks_trans)
  qed
qed

text \<open>The list a removal leaves: order is kept, or the first element takes the place of the removed one.\<close>

definition removed :: "bool \<Rightarrow> nat \<Rightarrow> nat list \<Rightarrow> nat list" where
  "removed preserve_order b xs =
     (if preserve_order then remove1 b xs else if hd xs = b then tl xs else tl (map (\<lambda>x. if x = b then hd xs else x) xs))"

lemma mset_removed: "distinct xs \<Longrightarrow> b \<in> set xs \<Longrightarrow> mset (removed p b xs) = mset xs - {#b#}"
proof (cases "p \<or> hd xs = b")
  case True
  assume a: "distinct xs" "b \<in> set xs"
  then show ?thesis using True by (cases xs) (auto simp: removed_def)
next
  case False
  assume a: "distinct xs" "b \<in> set xs"
  then obtain h ys where xs: "xs = h # ys" by (cases xs) auto
  with False a have b: "b \<in> set ys" "h \<noteq> b" "distinct ys" by auto
  have "mset (map (\<lambda>x. if x = b then h else x) ys) = add_mset h (mset ys - {#b#})"
    using b(1,3)
  proof (induction ys)
    case (Cons y ys)
    have "map (\<lambda>x. if x = b then h else x) ys = ys" if "b \<notin> set ys" using that by (induction ys) auto
    then show ?case using Cons by (cases "y = b") (auto simp: add_mset_commute)
  qed simp
  moreover have "removed p b xs = map (\<lambda>x. if x = b then h else x) ys" using xs False by (simp add: removed_def)
  ultimately show ?thesis using xs b by simp
qed

lemma map_swap_distinct:
  assumes "distinct xs" "k < length xs"
  shows "map (\<lambda>x. if x = xs ! k then y else x) xs = xs[k := y]"
  by (rule nth_equalityI) (use assms in \<open>auto simp: nth_list_update nth_eq_iff_index_eq\<close>)

lemma remove1_nth:
  assumes "distinct xs" "k < length xs"
  shows "remove1 (xs ! k) xs = take k xs @ drop (Suc k) xs"
proof -
  have "xs ! k \<notin> set (take k xs)" using assms by (auto simp: in_set_conv_nth nth_eq_iff_index_eq)
  then show ?thesis using assms id_take_nth_drop [OF assms(2)] remove1_append [of "xs ! k" "take k xs" "xs ! k # drop (Suc k) xs"] by simp
qed

text \<open>What the three ways of closing the gap at position \<open>k\<close> have in common.\<close>

definition gap_closed :: "bool \<Rightarrow> mtlk_txmm_block_e \<Rightarrow> nat \<Rightarrow> mtlk_txmm_base_t \<Rightarrow> mtlk_txmm_base_t" where
  "gap_closed p e k s = (if k = 0 then s else if p then txmm_shift s e (ring_pos s e k) (max_msgs s) else ring_copy e 0 k s)"

lemma gap_closed_rings:
  assumes r: "rings_ok L {} s" and e: "e \<noteq> MTLK_TXMMB_NONE" and k: "k < q_total (ques s e)"
  shows "rings_ok (insert (ring_at s e k) L) {(e, 0)} (gap_closed p e k s)"
    and "tl (qlist (gap_closed p e k s) e) = removed p (ring_at s e k) (qlist s e)"
    and "q_total (ques (gap_closed p e k s) e) = q_total (ques s e)"
    and "u \<noteq> e \<Longrightarrow> u \<noteq> MTLK_TXMMB_NONE \<Longrightarrow> qlist (gap_closed p e k s) u = qlist s u"
    and "same_blocks s (gap_closed p e k s)"
proof -
  let ?xs = "qlist s e" and ?g = "gap_closed p e k s" and ?b = "ring_at s e k"
  have h: "rings_ok (insert ?b L) {(e, k)} s" by (rule rings_ok_take [OF r e k])
  have d: "distinct ?xs" by (rule qlist_distinct [OF r e])
  have len: "k < length ?xs" "?xs \<noteq> []" and b: "?xs ! k = ?b" and h0: "hd ?xs = ?xs ! 0"
    using k by (auto simp: qlist_simps qlist_def hd_conv_nth)
  have first: "hd ?xs = ?b \<longleftrightarrow> k = 0" using nth_eq_iff_index_eq [OF d, of 0 k] len b h0 by auto
  have nk: "k \<le> max_msgs s" using k rings_que [OF r e] by (simp add: que_ok_def)
  have rm: "removed True ?b ?xs = take k ?xs @ drop (Suc k) ?xs"
    using remove1_nth [OF d len(1)] b by (simp add: removed_def)
  have rf: "removed False ?b ?xs = (if k = 0 then tl ?xs else tl (?xs[k := hd ?xs]))"
    using map_swap_distinct [OF d len(1), of "hd ?xs"] b first by (simp add: removed_def)
  have "rings_ok (insert ?b L) {(e, 0)} ?g \<and> tl (qlist ?g e) = removed p ?b ?xs \<and> q_total (ques ?g e) = q_total (ques s e) \<and>
    (\<forall>u. u \<noteq> e \<longrightarrow> u \<noteq> MTLK_TXMMB_NONE \<longrightarrow> qlist ?g u = qlist s u) \<and> same_blocks s ?g"
  proof (cases "k = 0")
    case True
    then show ?thesis using h rm rf by (cases p) (simp_all add: gap_closed_def drop_Suc)
  next
    case k0: False
    show ?thesis
    proof (cases p)
      case True
      then show ?thesis using txmm_shift_rings [OF h e _ k nk] k0 rm by (simp add: gap_closed_def)
    next
      case False
      have t: "0 < q_total (ques s e)" using k by simp
      have "rings_ok (insert ?b L) {(e, 0)} (ring_copy e 0 k s)" using rings_ok_copy [OF h e t k] k0 by simp
      then show ?thesis using False k0 rf h0 qlist_copy [OF r e k t] e same_blocks_copy [of s e 0 k]
        by (simp add: gap_closed_def)
    qed
  qed
  then show "rings_ok (insert ?b L) {(e, 0)} ?g" "tl (qlist ?g e) = removed p ?b ?xs"
    "q_total (ques ?g e) = q_total (ques s e)" "u \<noteq> e \<Longrightarrow> u \<noteq> MTLK_TXMMB_NONE \<Longrightarrow> qlist ?g u = qlist s u" "same_blocks s ?g"
    by auto
qed

lemma del_buf_eq:
  assumes r: "rings_ok L {} s" and e: "e \<noteq> MTLK_TXMMB_NONE" and k: "k < q_total (ques s e)"
  shows "mtlk_txmm_del_buf_from_que s e (ring_at s e k) p =
    (upd_blk (ring_at s e k) (\<lambda>x. x\<lparr>blk_que := MTLK_TXMMB_NONE\<rparr>) (ring_drop e (gap_closed p e k s)), True)"
proof -
  have i: "blk_idx (blocks s (ring_at s e k)) = ring_pos s e k" using rings_entry(4) [OF r e k] by simp
  have at: "q_ptr (ques s e) ! ring_pos s e k = ring_at s e k" "q_ptr (ques s e) ! q_from (ques s e) = ring_at s e 0"
    using ring_from [OF r e] by (simp_all add: ring_at_def)
  have n: "q_total (ques s e) \<le> max_msgs s" using rings_que [OF r e] by (simp add: que_ok_def)
  have first: "ring_pos s e k = q_from (ques s e) \<longleftrightarrow> k = 0"
    using ring_from [OF r e] ring_pos_inj [of s e k 0] k n by auto
  have mx: "max_msgs (gap_closed p e k s) = max_msgs s"
    using gap_closed_rings(5) [OF r e k, of p] by (simp add: same_blocks_def)
  have cp: "upd_blk (ring_at s e 0) (\<lambda>x. x\<lparr>blk_idx := ring_pos s e k\<rparr>)
      (upd_que e (\<lambda>q. q\<lparr>q_ptr := (q_ptr q)[ring_pos s e k := ring_at s e 0]\<rparr>) s) = ring_copy e 0 k s"
    by (simp add: ring_copy_def)
  have g: "(if \<not> k = 0 then if p then txmm_shift s e (ring_pos s e k) (max_msgs s) else ring_copy e 0 k s else s) = gap_closed p e k s"
    by (simp add: gap_closed_def)
  show ?thesis
    unfolding mtlk_txmm_del_buf_from_que_def Let_def i at first cp g by (simp add: e ring_drop_def mx)
qed

lemma del_buf_rings:
  assumes r: "rings_ok L {} s" and e: "e \<noteq> MTLK_TXMMB_NONE" and b: "b \<in> set (qlist s e)"
  shows "\<exists>s'. mtlk_txmm_del_buf_from_que s e b p = (s', True) \<and> rings_ok L {} s' \<and>
    qlist s' e = removed p b (qlist s e) \<and>
    (\<forall>u. u \<noteq> e \<longrightarrow> u \<noteq> MTLK_TXMMB_NONE \<longrightarrow> qlist s' u = qlist s u) \<and>
    same_blocks (upd_blk b (\<lambda>x. x\<lparr>blk_que := MTLK_TXMMB_NONE\<rparr>) s) s'"
proof -
  from b obtain k where k: "k < q_total (ques s e)" and bk: "ring_at s e k = b" by (auto simp: qlist_def)
  let ?g = "gap_closed p e k s"
  let ?s = "upd_blk b (\<lambda>x. x\<lparr>blk_que := MTLK_TXMMB_NONE\<rparr>) (ring_drop e ?g)"
  have t: "0 < q_total (ques ?g e)" using gap_closed_rings(3) [OF r e k, of p] k by simp
  have h: "rings_ok (insert b L) {(e, 0)} ?g" using gap_closed_rings(1) [OF r e k, of p] bk by simp
  have "rings_ok (insert b L) {} (ring_drop e ?g)" by (rule rings_ok_drop [OF h e t])
  then have "rings_ok (insert b L) {} ?s" by (rule rings_ok_upd_loose) simp
  then have ok: "rings_ok L {} ?s" by (rule rings_ok_release) (simp add: upd_blk_def)
  have ql: "qlist ?s u = qlist (ring_drop e ?g) u" for u by (rule qlist_cong) (simp_all add: upd_blk_def)
  have sb: "same_blocks (upd_blk b (\<lambda>x. x\<lparr>blk_que := MTLK_TXMMB_NONE\<rparr>) s) ?s"
    using same_blocks_none gap_closed_rings(5) [OF r e k, of p] by blast
  show ?thesis
    using del_buf_eq [OF r e k, of p, unfolded bk] ok ql sb qlist_drop [OF h e t]
      gap_closed_rings(2) [OF r e k, of p] gap_closed_rings(4) [OF r e k, of _ p] bk by simp
qed

end
