(* ===== verification/Txmm_Inv.thy ===== *)
theory Txmm_Inv
  imports Txmm_Rings
begin

text \<open>
  The invariant of the transmit message manager and what each operation does to the queues read
  as lists. The invariant is: the rings are consistent, and the \<^verbatim>\<open>data\<close> pointer of a user
  message and the \<^verbatim>\<open>msg\<close> pointer of a block agree for every block that is not free.
\<close>

section \<open>Invariant\<close>

definition linked :: "mtlk_txmm_base_t \<Rightarrow> bool" where
  "linked s \<longleftrightarrow>
     (\<forall>m b. msgs s m = Some b \<longleftrightarrow>
        b < max_msgs s \<and> blk_que (blocks s b) \<noteq> MTLK_TXMMB_FREE \<and> blk_msg (blocks s b) = Some m) \<and>
     (\<forall>b<max_msgs s. blk_que (blocks s b) \<noteq> MTLK_TXMMB_FREE \<longrightarrow> blk_msg (blocks s b) \<noteq> None)"

definition txmm_ok :: "mtlk_txmm_base_t \<Rightarrow> bool" where
  "txmm_ok s \<longleftrightarrow> rings_ok {} {} s \<and> linked s"

definition txmm_inv :: "mtlk_txmm_base_t \<Rightarrow> bool" where
  "txmm_inv s \<longleftrightarrow> txmm_ok s \<and> qlist s MTLK_TXMMB_TIMED_OUT = []"

lemma linked_msg:
  assumes "linked s" "msgs s m = Some b"
  shows "b < max_msgs s" "blk_que (blocks s b) \<noteq> MTLK_TXMMB_FREE" "blk_msg (blocks s b) = Some m"
  using assms by (auto simp: linked_def)

lemma linked_block:
  assumes "linked s" "b < max_msgs s" "blk_que (blocks s b) \<noteq> MTLK_TXMMB_FREE"
  obtains m where "blk_msg (blocks s b) = Some m" "msgs s m = Some b"
  using assms by (auto simp: linked_def)

lemma linked_cong:
  assumes "linked s" "max_msgs s' = max_msgs s" "msgs s' = msgs s"
    "\<And>b. blk_msg (blocks s' b) = blk_msg (blocks s b)"
    "\<And>b. b < max_msgs s \<Longrightarrow> (blk_que (blocks s' b) = MTLK_TXMMB_FREE) = (blk_que (blocks s b) = MTLK_TXMMB_FREE)"
  shows "linked s'"
  using assms unfolding linked_def by metis

lemma txmm_ok_cong:
  assumes "txmm_ok s" "ques s' = ques s" "max_msgs s' = max_msgs s" "msgs s' = msgs s"
    "\<And>b. blk_que (blocks s' b) = blk_que (blocks s b)" "\<And>b. blk_idx (blocks s' b) = blk_idx (blocks s b)"
    "\<And>b. blk_msg (blocks s' b) = blk_msg (blocks s b)"
  shows "txmm_ok s'"
proof -
  have "rings_ok {} {} s'" using rings_ok_cong [of s' s "{}" "{}"] assms by (simp add: txmm_ok_def)
  moreover have "linked s'" by (rule linked_cong [of s]) (use assms in \<open>simp_all add: txmm_ok_def\<close>)
  ultimately show ?thesis by (simp add: txmm_ok_def)
qed

lemma same_blocks_fields:
  assumes "same_blocks s s'"
  shows "max_msgs s' = max_msgs s" "msgs s' = msgs s" "txmm_log s' = txmm_log s" "flag_active s' = flag_active s"
    "blk_que (blocks s' b) = blk_que (blocks s b)" "blk_msg (blocks s' b) = blk_msg (blocks s b)"
    "blk_timeout (blocks s' b) = blk_timeout (blocks s b)" "blk_clb (blocks s' b) = blk_clb (blocks s b)"
    "blk_send_time (blocks s' b) = blk_send_time (blocks s b)" "blk_slot (blocks s' b) = blk_slot (blocks s b)"
    "blk_payload_size (blocks s' b) = blk_payload_size (blocks s b)"
proof -
  have e: "(blocks s' b)\<lparr>blk_idx := 0\<rparr> = (blocks s b)\<lparr>blk_idx := 0\<rparr>" using assms by (simp add: same_blocks_def)
  show "max_msgs s' = max_msgs s" "msgs s' = msgs s" "txmm_log s' = txmm_log s" "flag_active s' = flag_active s"
    using assms by (simp_all add: same_blocks_def)
  show "blk_que (blocks s' b) = blk_que (blocks s b)" "blk_msg (blocks s' b) = blk_msg (blocks s b)"
    "blk_timeout (blocks s' b) = blk_timeout (blocks s b)" "blk_clb (blocks s' b) = blk_clb (blocks s b)"
    "blk_send_time (blocks s' b) = blk_send_time (blocks s b)" "blk_slot (blocks s' b) = blk_slot (blocks s b)"
    "blk_payload_size (blocks s' b) = blk_payload_size (blocks s b)"
    using e by (cases "blocks s' b"; cases "blocks s b"; simp)+
qed

section \<open>Moving blocks that no queue holds\<close>

lemma rings_ok_hold:
  assumes "rings_ok L {} s" "blk_que (blocks s b) = MTLK_TXMMB_NONE"
  shows "rings_ok (insert b L) {} s"
  using assms unfolding rings_ok_def by auto

lemma put_sel [simp]:
  "max_msgs (mtlk_txmm_put_buf s e b) = max_msgs s" "msgs (mtlk_txmm_put_buf s e b) = msgs s"
  "txmm_log (mtlk_txmm_put_buf s e b) = txmm_log s" "flag_active (mtlk_txmm_put_buf s e b) = flag_active s"
  "blk_msg (blocks (mtlk_txmm_put_buf s e b) x) = blk_msg (blocks s x)"
  "blk_slot (blocks (mtlk_txmm_put_buf s e b) x) = blk_slot (blocks s x)"
  "txmm_expired now (blocks (mtlk_txmm_put_buf s e b) x) = txmm_expired now (blocks s x)"
  "e \<noteq> MTLK_TXMMB_NONE \<Longrightarrow> blk_que (blocks (mtlk_txmm_put_buf s e b) x) = (if x = b then e else blk_que (blocks s x))"
  by (simp_all add: mtlk_txmm_put_buf_def upd_que_def upd_blk_def txmm_expired_def)

lemma put_held:
  assumes "txmm_ok s" "b < max_msgs s" "blk_que (blocks s b) = MTLK_TXMMB_NONE"
    "e \<noteq> MTLK_TXMMB_NONE" "e \<noteq> MTLK_TXMMB_FREE"
  shows "txmm_ok (mtlk_txmm_put_buf s e b)"
    and "qlist (mtlk_txmm_put_buf s e b) u = (if u = e then qlist s e @ [b] else qlist s u)"
proof -
  have r: "rings_ok (insert b {}) {} s" using rings_ok_hold assms by (simp add: txmm_ok_def)
  note P = put_buf_rings [OF r assms(2) _ assms(4)]
  have "linked (mtlk_txmm_put_buf s e b)"
    by (rule linked_cong [of s]) (use assms in \<open>auto simp: txmm_ok_def\<close>)
  then show "txmm_ok (mtlk_txmm_put_buf s e b)" using P(1) by (simp add: txmm_ok_def)
  show "qlist (mtlk_txmm_put_buf s e b) u = (if u = e then qlist s e @ [b] else qlist s u)" using P(2) by simp
qed

lemma linked_forget:
  assumes l: "linked s" and m: "blk_msg (blocks s b) = Some m" "b < max_msgs s" "blk_que (blocks s b) \<noteq> MTLK_TXMMB_FREE"
    and s': "max_msgs s' = max_msgs s" "msgs s' = (msgs s)(m := None)" "blk_que (blocks s' b) = MTLK_TXMMB_FREE"
      "\<And>x. x \<noteq> b \<Longrightarrow> blocks s' x = blocks s x"
  shows "linked s'"
proof -
  have mb: "msgs s m = Some b" using l m by (simp add: linked_def)
  have "msgs s' m' = Some b' \<longleftrightarrow>
      b' < max_msgs s' \<and> blk_que (blocks s' b') \<noteq> MTLK_TXMMB_FREE \<and> blk_msg (blocks s' b') = Some m'" for m' b'
  proof (cases "b' = b")
    case True
    then show ?thesis using linked_msg(3) [OF l, of m' b] m(1) s' by auto
  next
    case False
    have "msgs s m' = Some b' \<longleftrightarrow>
        b' < max_msgs s \<and> blk_que (blocks s b') \<noteq> MTLK_TXMMB_FREE \<and> blk_msg (blocks s b') = Some m'"
      using l by (simp add: linked_def)
    moreover have "m' = m \<Longrightarrow> msgs s m' \<noteq> Some b'" using mb False by auto
    ultimately show ?thesis using False s' by auto
  qed
  moreover have "blk_msg (blocks s' b') \<noteq> None" if "b' < max_msgs s'" "blk_que (blocks s' b') \<noteq> MTLK_TXMMB_FREE" for b'
    using that s' l by (cases "b' = b") (auto simp: linked_def)
  ultimately show ?thesis by (simp add: linked_def)
qed

text \<open>Freeing a block that no queue holds, and forgetting the message.\<close>

lemma free_held:
  fixes p :: bool
  assumes ok: "txmm_ok s" and b: "b < max_msgs s" "blk_que (blocks s b) = MTLK_TXMMB_NONE" "blk_msg (blocks s b) = Some m"
  defines "s1 \<equiv> mtlk_txmm_free_buf s b False p"
  shows "txmm_ok (s1\<lparr>msgs := (msgs s1)(m := None)\<rparr>)"
    and "qlist s1 u = (if u = MTLK_TXMMB_FREE then qlist s MTLK_TXMMB_FREE @ [b] else qlist s u)"
    and "max_msgs s1 = max_msgs s" "msgs s1 = msgs s" "txmm_log s1 = txmm_log s" "flag_active s1 = flag_active s"
    and "x \<noteq> b \<Longrightarrow> blocks s1 x = blocks s x"
proof -
  let ?z = "mtlk_txmm_zero_block b s"
  have s1: "s1 = mtlk_txmm_put_buf ?z MTLK_TXMMB_FREE b" using b by (simp add: s1_def mtlk_txmm_free_buf_def)
  have z: "rings_ok (insert b {}) {} ?z"
    unfolding mtlk_txmm_zero_block_def using rings_ok_hold ok b by (intro rings_ok_upd_loose) (auto simp: txmm_ok_def)
  have zs: "max_msgs ?z = max_msgs s" "msgs ?z = msgs s" "txmm_log ?z = txmm_log s" "flag_active ?z = flag_active s" "ques ?z = ques s"
    by (simp_all add: mtlk_txmm_zero_block_def upd_blk_def)
  note P = put_buf_rings [OF z, of MTLK_TXMMB_FREE]
  have r: "rings_ok {} {} s1" using P(1) b zs by (simp add: s1)
  show sel: "max_msgs s1 = max_msgs s" "msgs s1 = msgs s" "txmm_log s1 = txmm_log s" "flag_active s1 = flag_active s"
    using zs by (simp_all add: s1)
  show blk: "x \<noteq> b \<Longrightarrow> blocks s1 x = blocks s x" for x
    by (simp add: s1 mtlk_txmm_put_buf_def mtlk_txmm_zero_block_def upd_blk_def upd_que_def)
  have q: "blk_que (blocks s1 b) = MTLK_TXMMB_FREE" by (simp add: s1)
  have l: "linked (s1\<lparr>msgs := (msgs s1)(m := None)\<rparr>)"
    by (rule linked_forget [of s]) (use ok b q blk sel in \<open>simp_all add: txmm_ok_def\<close>)
  show "txmm_ok (s1\<lparr>msgs := (msgs s1)(m := None)\<rparr>)"
    using r l rings_ok_cong [of "s1\<lparr>msgs := (msgs s1)(m := None)\<rparr>" s1] by (simp add: txmm_ok_def)
  show "qlist s1 u = (if u = MTLK_TXMMB_FREE then qlist s MTLK_TXMMB_FREE @ [b] else qlist s u)"
    using P(2) b zs qlist_cong [of ?z s] by (simp add: s1)
qed

section \<open>Taking a block out of its queue\<close>

lemma del_ok:
  fixes p :: bool
  assumes ok: "txmm_ok s" and e: "e \<noteq> MTLK_TXMMB_NONE" "e \<noteq> MTLK_TXMMB_FREE" and b: "b \<in> set (qlist s e)"
  defines "s1 \<equiv> fst (mtlk_txmm_del_buf_from_que s e b p)"
  shows "txmm_ok s1" "qlist s1 e = removed p b (qlist s e)" "u \<noteq> e \<Longrightarrow> u \<noteq> MTLK_TXMMB_NONE \<Longrightarrow> qlist s1 u = qlist s u"
    "same_blocks (upd_blk b (\<lambda>x. x\<lparr>blk_que := MTLK_TXMMB_NONE\<rparr>) s) s1"
proof -
  have r: "rings_ok {} {} s" using ok by (simp add: txmm_ok_def)
  from del_buf_rings [OF r e(1) b, of p] have D: "rings_ok {} {} s1" "qlist s1 e = removed p b (qlist s e)"
    "u \<noteq> e \<Longrightarrow> u \<noteq> MTLK_TXMMB_NONE \<Longrightarrow> qlist s1 u = qlist s u"
    "same_blocks (upd_blk b (\<lambda>x. x\<lparr>blk_que := MTLK_TXMMB_NONE\<rparr>) s) s1" for u
    by (auto simp: s1_def)
  have q: "blk_que (blocks s b) = e" by (rule qlist_entry(3) [OF r e(1) b])
  note F = same_blocks_fields [OF D(4)]
  have "linked s1"
    by (rule linked_cong [of s]) (use ok F q e in \<open>simp_all add: txmm_ok_def upd_blk_def\<close>)
  with D show "txmm_ok s1" "qlist s1 e = removed p b (qlist s e)" "u \<noteq> e \<Longrightarrow> u \<noteq> MTLK_TXMMB_NONE \<Longrightarrow> qlist s1 u = qlist s u"
    "same_blocks (upd_blk b (\<lambda>x. x\<lparr>blk_que := MTLK_TXMMB_NONE\<rparr>) s) s1"
    by (simp_all add: txmm_ok_def)
qed

lemma del_fields:
  fixes p :: bool
  assumes "txmm_ok s" "e \<noteq> MTLK_TXMMB_NONE" "e \<noteq> MTLK_TXMMB_FREE" "b \<in> set (qlist s e)"
  defines "s1 \<equiv> fst (mtlk_txmm_del_buf_from_que s e b p)"
  shows "max_msgs s1 = max_msgs s" "msgs s1 = msgs s" "txmm_log s1 = txmm_log s" "flag_active s1 = flag_active s"
    "blk_que (blocks s1 x) = (if x = b then MTLK_TXMMB_NONE else blk_que (blocks s x))"
    "blk_msg (blocks s1 x) = blk_msg (blocks s x)" "blk_slot (blocks s1 x) = blk_slot (blocks s x)"
    "txmm_expired now (blocks s1 x) = txmm_expired now (blocks s x)" "b < max_msgs s" "blk_que (blocks s b) = e"
proof -
  have "same_blocks (upd_blk b (\<lambda>x. x\<lparr>blk_que := MTLK_TXMMB_NONE\<rparr>) s) s1"
    using del_ok(4) [OF assms(1-4), of p] by (simp add: s1_def)
  note F = same_blocks_fields [OF this]
  show "max_msgs s1 = max_msgs s" "msgs s1 = msgs s" "txmm_log s1 = txmm_log s" "flag_active s1 = flag_active s"
    using F(1-4) by (simp_all add: upd_blk_def)
  show "blk_que (blocks s1 x) = (if x = b then MTLK_TXMMB_NONE else blk_que (blocks s x))"
    "blk_msg (blocks s1 x) = blk_msg (blocks s x)" "blk_slot (blocks s1 x) = blk_slot (blocks s x)"
    using F(5,6,10) [of x] by (simp_all add: upd_blk_def)
  show "txmm_expired now (blocks s1 x) = txmm_expired now (blocks s x)"
    using F(7,8,9) [of x] by (simp add: txmm_expired_def upd_blk_def)
  show "b < max_msgs s" "blk_que (blocks s b) = e"
    using qlist_entry(1,3) [of "{}" s e b] assms by (simp_all add: txmm_ok_def)
qed

section \<open>The user callback\<close>

definition clb_target :: "mtlk_txmm_clb_action_e \<Rightarrow> mtlk_txmm_block_e" where
  "clb_target a = (case a of MTLK_TXMM_CLBA_FREE \<Rightarrow> MTLK_TXMMB_FREE | MTLK_TXMM_CLBA_SEND \<Rightarrow> MTLK_TXMMB_QUEUED
     | MTLK_TXMM_CLBA_KEEP \<Rightarrow> MTLK_TXMMB_NONE)"

text \<open>
  Called on a block that no queue holds, the callback runs exactly once and the block goes where
  the returned action says; with \<open>FREE\<close> the message loses its data.
\<close>

definition forgets :: "nat \<Rightarrow> mtlk_txmm_clb_action_e \<Rightarrow> (nat \<Rightarrow> nat option) \<Rightarrow> (nat \<Rightarrow> nat option) \<Rightarrow> bool" where
  "forgets b action M M' \<longleftrightarrow> (\<exists>m. M m = Some b \<and> M' = (if action = MTLK_TXMM_CLBA_FREE then M(m := None) else M))"

definition clb_outcome ::
  "mtlk_txmm_base_t \<Rightarrow> nat \<Rightarrow> mtlk_txmm_clb_reason_e \<Rightarrow> mtlk_txmm_clb_action_e \<Rightarrow> mtlk_txmm_base_t \<Rightarrow> bool" where
  "clb_outcome s b reason action s1 \<longleftrightarrow> txmm_ok s1 \<and>
     (\<forall>u. u \<noteq> MTLK_TXMMB_NONE \<longrightarrow> qlist s1 u = (if u = clb_target action then qlist s u @ [b] else qlist s u)) \<and>
     max_msgs s1 = max_msgs s \<and> txmm_log s1 = UserClb b reason # txmm_log s \<and> flag_active s1 = flag_active s \<and>
     (\<forall>x. x \<noteq> b \<longrightarrow> blocks s1 x = blocks s x) \<and> blk_que (blocks s1 b) = clb_target action \<and>
     forgets b action (msgs s) (msgs s1)"

lemma upd_blk_sel [simp]:
  "max_msgs (upd_blk b f s) = max_msgs s" "msgs (upd_blk b f s) = msgs s" "ques (upd_blk b f s) = ques s"
  "txmm_log (upd_blk b f s) = txmm_log s" "flag_active (upd_blk b f s) = flag_active s" "blocks (upd_blk b f s) b = f (blocks s b)"
  "x \<noteq> b \<Longrightarrow> blocks (upd_blk b f s) x = blocks s x" "qlist (upd_blk b f s) u = qlist s u"
  by (simp_all add: upd_blk_def qlist_def ring_at_def ring_pos_def)

lemma txmm_call_sel [simp]:
  "max_msgs (txmm_call c s) = max_msgs s" "msgs (txmm_call c s) = msgs s" "ques (txmm_call c s) = ques s"
  "txmm_log (txmm_call c s) = c # txmm_log s" "flag_active (txmm_call c s) = flag_active s" "blocks (txmm_call c s) = blocks s"
  "qlist (txmm_call c s) u = qlist s u" "txmm_ok (txmm_call c s) = txmm_ok s"
  by (simp_all add: txmm_call_def qlist_def ring_at_def ring_pos_def txmm_ok_def rings_ok_def que_ok_def linked_def)

lemma txmm_ok_upd:
  assumes "txmm_ok s" "\<And>x. blk_que (f x) = blk_que x" "\<And>x. blk_idx (f x) = blk_idx x" "\<And>x. blk_msg (f x) = blk_msg x"
  shows "txmm_ok (upd_blk b f s)"
  by (rule txmm_ok_cong [OF assms(1)]) (simp_all add: upd_blk_def assms)

lemma clb_held:
  assumes ok: "txmm_ok s" and b: "b < max_msgs s" "blk_que (blocks s b) = MTLK_TXMMB_NONE"
  shows "clb_outcome s b reason action (mtlk_txmm_call_usr_clb_locked s b reason action now)"
proof -
  obtain m where m: "blk_msg (blocks s b) = Some m" "msgs s m = Some b"
    using linked_block [of s b] ok b by (auto simp: txmm_ok_def)
  let ?c = "txmm_call (UserClb b reason) s"
  have c: "txmm_ok ?c" using ok by simp
  show ?thesis
  proof (cases action)
    case MTLK_TXMM_CLBA_FREE
    let ?f = "mtlk_txmm_free_buf ?c b False False"
    have e: "mtlk_txmm_call_usr_clb_locked s b reason action now = ?f\<lparr>msgs := (msgs ?f)(m := None)\<rparr>"
      using m MTLK_TXMM_CLBA_FREE by (simp add: mtlk_txmm_call_usr_clb_locked_def Let_def)
    have cb: "b < max_msgs ?c" "blk_que (blocks ?c b) = MTLK_TXMMB_NONE" "blk_msg (blocks ?c b) = Some m" using b m by simp_all
    note F = free_held [OF c cb, where p = False]
    have q: "blk_que (blocks ?f b) = MTLK_TXMMB_FREE"
      using b by (simp add: mtlk_txmm_free_buf_def)
    have ql: "qlist (?f\<lparr>msgs := (msgs ?f)(m := None)\<rparr>) u = qlist ?f u" for u by (rule qlist_cong) simp_all
    show ?thesis using F(1) F(2-7) ql q m MTLK_TXMM_CLBA_FREE unfolding e clb_outcome_def clb_target_def forgets_def by auto
  next
    case MTLK_TXMM_CLBA_SEND
    let ?t = "if blk_timeout (blocks ?c b) \<noteq> 0 then upd_blk b (\<lambda>x. x\<lparr>blk_send_time := now\<rparr>) ?c else ?c"
    have e: "mtlk_txmm_call_usr_clb_locked s b reason action now = mtlk_txmm_put_buf ?t MTLK_TXMMB_QUEUED b"
      using m MTLK_TXMM_CLBA_SEND by (simp add: mtlk_txmm_call_usr_clb_locked_def Let_def)
    have t: "txmm_ok ?t" "b < max_msgs ?t" "blk_que (blocks ?t b) = MTLK_TXMMB_NONE" using c b by (auto intro: txmm_ok_upd)
    note P = put_held [OF t, of MTLK_TXMMB_QUEUED]
    have o: "blocks (mtlk_txmm_put_buf ?t MTLK_TXMMB_QUEUED b) x = blocks s x" if "x \<noteq> b" for x
      using that by (simp add: mtlk_txmm_put_buf_def upd_que_def)
    have ql: "qlist ?t u = qlist s u" for u by simp
    show ?thesis using P o ql m MTLK_TXMM_CLBA_SEND unfolding e clb_outcome_def clb_target_def forgets_def by auto
  next
    case MTLK_TXMM_CLBA_KEEP
    then have e: "mtlk_txmm_call_usr_clb_locked s b reason action now = ?c"
      using m by (simp add: mtlk_txmm_call_usr_clb_locked_def Let_def)
    show ?thesis using c b m MTLK_TXMM_CLBA_KEEP unfolding e clb_outcome_def clb_target_def forgets_def by auto
  qed
qed

section \<open>Sending\<close>

lemma put_in_hand:
  assumes r: "rings_ok {b} {} s" and l: "linked s" and b: "b < max_msgs s" "blk_que (blocks s b) \<noteq> MTLK_TXMMB_FREE"
    and e: "e \<noteq> MTLK_TXMMB_NONE" "e \<noteq> MTLK_TXMMB_FREE"
  shows "txmm_ok (mtlk_txmm_put_buf s e b)"
proof -
  have "linked (mtlk_txmm_put_buf s e b)" by (rule linked_cong [OF l]) (use b e in auto)
  then show ?thesis using put_buf_rings(1) [of b "{}" s e] r b e by (simp add: txmm_ok_def)
qed

text \<open>A block in hand goes to the end of the sent queue with its slot noted.\<close>

definition sent_outcome :: "mtlk_txmm_base_t \<Rightarrow> nat \<Rightarrow> nat \<Rightarrow> mtlk_txmm_base_t \<Rightarrow> bool" where
  "sent_outcome s b p s1 \<longleftrightarrow> txmm_ok s1 \<and> qlist s1 MTLK_TXMMB_SENT = qlist s MTLK_TXMMB_SENT @ [b] \<and>
     (\<forall>u. u \<noteq> MTLK_TXMMB_SENT \<longrightarrow> qlist s1 u = qlist s u) \<and> max_msgs s1 = max_msgs s \<and> msgs s1 = msgs s \<and>
     txmm_log s1 = txmm_log s \<and> flag_active s1 = flag_active s \<and> (\<forall>x. x \<noteq> b \<longrightarrow> blocks s1 x = blocks s x) \<and>
     blk_slot (blocks s1 b) = Some p \<and> blk_que (blocks s1 b) = MTLK_TXMMB_SENT"

lemma send_block_prepare_in_hand:
  assumes r: "rings_ok {b} {} s" and l: "linked s" and b: "b < max_msgs s" "blk_que (blocks s b) \<noteq> MTLK_TXMMB_FREE"
  shows "sent_outcome s b p (mtlk_txmm_send_block_prepare s b p)"
proof -
  let ?f = "\<lambda>x. x\<lparr>blk_payload_size := (if blk_payload_size x = 0 \<or> blk_payload_size x > max_payload_size s
      then max_payload_size s else blk_payload_size x), blk_slot := Some p\<rparr>"
  let ?u = "upd_blk b ?f s" let ?t = "mtlk_txmm_put_buf ?u MTLK_TXMMB_SENT b"
  have e: "mtlk_txmm_send_block_prepare s b p = ?t\<lparr>nof_sent := inc32 (nof_sent ?t)\<rparr>"
    by (simp add: mtlk_txmm_send_block_prepare_def Let_def)
  have ru: "rings_ok {b} {} ?u" by (rule rings_ok_upd_loose [OF r]) simp
  have lu: "linked ?u" by (rule linked_cong [OF l]) (simp_all add: upd_blk_def)
  have t: "txmm_ok ?t" by (rule put_in_hand [OF ru lu]) (use b in simp_all)
  have t': "txmm_ok (?t\<lparr>nof_sent := inc32 (nof_sent ?t)\<rparr>)" by (rule txmm_ok_cong [OF t]) simp_all
  have q: "qlist (?t\<lparr>nof_sent := inc32 (nof_sent ?t)\<rparr>) u = qlist ?t u" for u by (rule qlist_cong) simp_all
  have ru': "rings_ok (insert b {}) {} ?u" using ru by simp
  note Q = put_buf_rings(2) [OF ru', of MTLK_TXMMB_SENT]
  have o: "blocks ?t x = blocks s x" if "x \<noteq> b" for x
    using that by (simp add: mtlk_txmm_put_buf_def upd_que_def)
  show ?thesis unfolding e sent_outcome_def using t' q Q o b by simp
qed

text \<open>
  \<open>send_step p s s1\<close>: the first queued block goes out with slot \<open>p\<close>; this is what a pump does.
\<close>

definition send_step :: "nat \<Rightarrow> mtlk_txmm_base_t \<Rightarrow> mtlk_txmm_base_t \<Rightarrow> bool" where
  "send_step p s s1 \<longleftrightarrow> (let b = hd (qlist s MTLK_TXMMB_QUEUED) in
     txmm_ok s1 \<and> qlist s1 MTLK_TXMMB_SENT = qlist s MTLK_TXMMB_SENT @ [b] \<and>
     qlist s1 MTLK_TXMMB_QUEUED = tl (qlist s MTLK_TXMMB_QUEUED) \<and> qlist s1 MTLK_TXMMB_FREE = qlist s MTLK_TXMMB_FREE \<and>
     qlist s1 MTLK_TXMMB_TIMED_OUT = qlist s MTLK_TXMMB_TIMED_OUT \<and> max_msgs s1 = max_msgs s \<and> msgs s1 = msgs s \<and>
     txmm_log s1 = MsgSend p b # txmm_log s \<and> flag_active s1 = flag_active s \<and> (\<forall>x. x \<noteq> b \<longrightarrow> blocks s1 x = blocks s x) \<and>
     blk_slot (blocks s1 b) = Some p)"

lemma txmm_pump_queued:
  assumes ok: "txmm_ok s" and ne: "qlist s MTLK_TXMMB_QUEUED \<noteq> []" and p: "(if pmsg = None then pool else pmsg) = Some p"
  shows "send_step p s (txmm_do_send (txmm_pump s pmsg pool))"
proof -
  let ?Q = "qlist s MTLK_TXMMB_QUEUED" let ?b = "hd ?Q" let ?d = "ring_drop MTLK_TXMMB_QUEUED s"
  have r: "rings_ok {} {} s" and l: "linked s" using ok by (simp_all add: txmm_ok_def)
  note G = get_buf_rings [OF r _ ne, simplified]
  have b: "?b \<in> set ?Q" using ne by simp
  note B = qlist_entry [OF r _ b]
  have ld: "linked ?d" by (rule linked_cong [OF l]) simp_all
  have S: "sent_outcome ?d ?b p (mtlk_txmm_send_block_prepare ?d ?b p)"
    by (rule send_block_prepare_in_hand [OF G(2) ld]) (use B in simp_all)
  have t: "q_total (ques s MTLK_TXMMB_QUEUED) \<noteq> 0" using ne by (auto simp: qlist_def)
  have e: "txmm_do_send (txmm_pump s pmsg pool) = txmm_call (MsgSend p ?b) (mtlk_txmm_send_block_prepare ?d ?b p)"
    using t p G(1) by (simp add: txmm_pump_def txmm_do_send_def)
  have lg: "txmm_log ?d = txmm_log s" "flag_active ?d = flag_active s" by (simp_all add: ring_drop_def upd_que_def)
  show ?thesis using S G(3) lg unfolding e send_step_def sent_outcome_def Let_def by simp
qed

text \<open>
  What a send promises: the block joins the end of the queue, and if a slot is available the first
  block of the queue goes out. The shortcut for an empty queue has the same effect.
\<close>

definition send_outcome :: "nat option \<Rightarrow> nat \<Rightarrow> mtlk_txmm_base_t \<Rightarrow> mtlk_txmm_base_t \<Rightarrow> bool" where
  "send_outcome pool b s s1 \<longleftrightarrow> (let Q = qlist s MTLK_TXMMB_QUEUED @ [b] in
     txmm_ok s1 \<and> qlist s1 MTLK_TXMMB_FREE = qlist s MTLK_TXMMB_FREE \<and>
     qlist s1 MTLK_TXMMB_TIMED_OUT = qlist s MTLK_TXMMB_TIMED_OUT \<and> max_msgs s1 = max_msgs s \<and> msgs s1 = msgs s \<and>
     flag_active s1 = flag_active s \<and>
     (case pool of
        None \<Rightarrow> qlist s1 MTLK_TXMMB_QUEUED = Q \<and> qlist s1 MTLK_TXMMB_SENT = qlist s MTLK_TXMMB_SENT \<and> txmm_log s1 = txmm_log s
      | Some p \<Rightarrow> qlist s1 MTLK_TXMMB_QUEUED = tl Q \<and> qlist s1 MTLK_TXMMB_SENT = qlist s MTLK_TXMMB_SENT @ [hd Q] \<and>
          txmm_log s1 = MsgSend p (hd Q) # txmm_log s \<and> blk_slot (blocks s1 (hd Q)) = Some p))"

lemma send_ex_held:
  assumes ok: "txmm_ok s" and b: "b < max_msgs s" "blk_que (blocks s b) = MTLK_TXMMB_NONE"
  shows "snd (mtlk_txmm_send_ex s b timeout_ms now pool) = MTLK_ERR_OK"
    and "send_outcome pool b s (fst (mtlk_txmm_send_ex s b timeout_ms now pool))"
proof -
  let ?f = "\<lambda>x. x\<lparr>blk_slot := None, blk_clb := True, blk_timeout := timeout_ms,
      blk_send_time := (if timeout_ms \<noteq> 0 then now else blk_send_time x)\<rparr>"
  let ?u = "upd_blk b ?f s" let ?q = "mtlk_txmm_put_buf ?u MTLK_TXMMB_QUEUED b"
  show "snd (mtlk_txmm_send_ex s b timeout_ms now pool) = MTLK_ERR_OK" by (simp add: mtlk_txmm_send_ex_def Let_def)
  have u: "txmm_ok ?u" by (rule txmm_ok_upd [OF ok]) simp_all
  have ub: "b < max_msgs ?u" "blk_que (blocks ?u b) = MTLK_TXMMB_NONE" using b by simp_all
  note P = put_held [OF u ub, of MTLK_TXMMB_QUEUED, simplified]
  show "send_outcome pool b s (fst (mtlk_txmm_send_ex s b timeout_ms now pool))"
  proof (cases pool)
    case None
    then have e: "fst (mtlk_txmm_send_ex s b timeout_ms now pool) = ?q" by (simp add: mtlk_txmm_send_ex_def Let_def)
    show ?thesis using None P unfolding e send_outcome_def Let_def by simp
  next
    case p: (Some p)
    show ?thesis
    proof (cases "qlist s MTLK_TXMMB_QUEUED = []")
      case True
      then have "q_total (ques s MTLK_TXMMB_QUEUED) = 0" by (simp add: qlist_def)
      then have e: "fst (mtlk_txmm_send_ex s b timeout_ms now pool) =
          txmm_call (MsgSend p b) (mtlk_txmm_send_block_prepare ?u b p)"
        using p by (simp add: mtlk_txmm_send_ex_def Let_def)
      have r: "rings_ok {b} {} ?u" using rings_ok_hold [of "{}" ?u b] u ub by (simp add: txmm_ok_def)
      have "sent_outcome ?u b p (mtlk_txmm_send_block_prepare ?u b p)"
        by (rule send_block_prepare_in_hand [OF r]) (use u ub in \<open>simp_all add: txmm_ok_def\<close>)
      then show ?thesis using True p unfolding e send_outcome_def sent_outcome_def Let_def by simp
    next
      case False
      then have "q_total (ques s MTLK_TXMMB_QUEUED) \<noteq> 0" by (auto simp: qlist_def)
      then have e: "fst (mtlk_txmm_send_ex s b timeout_ms now pool) = txmm_do_send (txmm_pump ?q (Some p) None)"
        using p by (simp add: mtlk_txmm_send_ex_def Let_def)
      have "send_step p ?q (txmm_do_send (txmm_pump ?q (Some p) None))"
        by (rule txmm_pump_queued [OF P(1)]) (use P(2) in simp_all)
      then show ?thesis using p P(2) unfolding e send_step_def send_outcome_def Let_def by simp
    qed
  qed
qed

text \<open>The pump: with nothing queued a slot passed in goes back to the pool.\<close>

lemma pump_idle:
  assumes "txmm_ok s" "qlist s MTLK_TXMMB_QUEUED = []"
  shows "mtlk_txmm_pump s pmsg pool = (case pmsg of Some p \<Rightarrow> txmm_call (MsgFreeToPool p) s | None \<Rightarrow> s)"
  using assms by (simp add: mtlk_txmm_pump_def txmm_pump_def txmm_do_send_def qlist_def split: option.split)

lemma pump_no_slot: "mtlk_txmm_pump s None None = s"
  by (simp add: mtlk_txmm_pump_def txmm_pump_def txmm_do_send_def)

section \<open>User messages\<close>

definition attach_outcome :: "nat \<Rightarrow> mtlk_txmm_base_t \<Rightarrow> mtlk_txmm_base_t \<Rightarrow> bool" where
  "attach_outcome m s s1 \<longleftrightarrow> txmm_ok s1 \<and>
     qlist s1 MTLK_TXMMB_FREE = tl (qlist s MTLK_TXMMB_FREE) \<and>
     (\<forall>u. u \<noteq> MTLK_TXMMB_FREE \<longrightarrow> qlist s1 u = qlist s u) \<and>
     max_msgs s1 = max_msgs s \<and> msgs s1 = (msgs s)(m := Some (hd (qlist s MTLK_TXMMB_FREE))) \<and>
     txmm_log s1 = txmm_log s \<and> flag_active s1 = flag_active s \<and>
     blk_que (blocks s1 (hd (qlist s MTLK_TXMMB_FREE))) = MTLK_TXMMB_NONE"

lemma usage_stats_sel [simp]:
  "max_msgs (mtlk_txmm_adjust_usage_stats s) = max_msgs s" "msgs (mtlk_txmm_adjust_usage_stats s) = msgs s"
  "ques (mtlk_txmm_adjust_usage_stats s) = ques s" "txmm_log (mtlk_txmm_adjust_usage_stats s) = txmm_log s"
  "flag_active (mtlk_txmm_adjust_usage_stats s) = flag_active s" "blocks (mtlk_txmm_adjust_usage_stats s) = blocks s"
  "qlist (mtlk_txmm_adjust_usage_stats s) u = qlist s u" "rings_ok L H (mtlk_txmm_adjust_usage_stats s) = rings_ok L H s"
  by (simp_all add: mtlk_txmm_adjust_usage_stats_def Let_def qlist_def ring_at_def ring_pos_def rings_ok_def que_ok_def)

lemma linked_attach:
  assumes l: "linked s" and m: "msgs s m = None" and b: "b < max_msgs s" "blk_que (blocks s b) = MTLK_TXMMB_FREE"
    and s': "max_msgs s' = max_msgs s" "msgs s' = (msgs s)(m := Some b)" "blk_que (blocks s' b) = MTLK_TXMMB_NONE"
      "blk_msg (blocks s' b) = Some m" "\<And>x. x \<noteq> b \<Longrightarrow> blocks s' x = blocks s x"
  shows "linked s'"
proof -
  have "msgs s' m' = Some b' \<longleftrightarrow>
      b' < max_msgs s' \<and> blk_que (blocks s' b') \<noteq> MTLK_TXMMB_FREE \<and> blk_msg (blocks s' b') = Some m'" for m' b'
  proof (cases "b' = b")
    case True
    then show ?thesis using linked_msg(2) [OF l, of m' b] b s' by auto
  next
    case False
    have "msgs s m' = Some b' \<longleftrightarrow>
        b' < max_msgs s \<and> blk_que (blocks s b') \<noteq> MTLK_TXMMB_FREE \<and> blk_msg (blocks s b') = Some m'"
      using l by (simp add: linked_def)
    then show ?thesis using False s' m by (cases "m' = m") auto
  qed
  moreover have "blk_msg (blocks s' b') \<noteq> None" if "b' < max_msgs s'" "blk_que (blocks s' b') \<noteq> MTLK_TXMMB_FREE" for b'
    using that s' l by (cases "b' = b") (auto simp: linked_def)
  ultimately show ?thesis by (simp add: linked_def)
qed

lemma attach_data_ok:
  assumes ok: "txmm_ok s" and m: "msgs s m = None" and act: "flag_active s" and ne: "qlist s MTLK_TXMMB_FREE \<noteq> []"
  shows "attach_outcome m s (mtlk_txmm_attach_data s m)"
proof -
  let ?F = "qlist s MTLK_TXMMB_FREE" let ?b = "hd ?F" let ?d = "ring_drop MTLK_TXMMB_FREE s"
  let ?f = "\<lambda>x. x\<lparr>blk_msg := Some m, blk_que := MTLK_TXMMB_NONE\<rparr>"
  let ?t = "upd_blk ?b ?f (mtlk_txmm_adjust_usage_stats ?d)" let ?s = "?t\<lparr>msgs := (msgs ?t)(m := Some ?b)\<rparr>"
  have r: "rings_ok {} {} s" and l: "linked s" using ok by (simp_all add: txmm_ok_def)
  note G = get_buf_rings [OF r _ ne, simplified]
  have b: "?b \<in> set ?F" using ne by simp
  note B = qlist_entry [OF r _ b, simplified]
  have e: "mtlk_txmm_attach_data s m = ?s" using act G(1) by (simp add: mtlk_txmm_attach_data_def Let_def)
  have "rings_ok {?b} {} ?t" by (rule rings_ok_upd_loose) (use G(2) in simp_all)
  then have rt: "rings_ok {} {} ?t" by (rule rings_ok_release) simp
  have "rings_ok {} {} ?s" using rt rings_ok_cong [of ?s ?t] by simp
  moreover have "linked ?s" by (rule linked_attach [OF l m, of ?b]) (use B in simp_all)
  moreover have "qlist ?s u = qlist ?t u" for u by (rule qlist_cong) simp_all
  moreover have "txmm_log ?d = txmm_log s" "flag_active ?d = flag_active s" by (simp_all add: ring_drop_def upd_que_def)
  ultimately show ?thesis unfolding e attach_outcome_def txmm_ok_def using G(3) by simp
qed

lemma attach_data_none:
  assumes "txmm_ok s" "msgs s m = None" "\<not> flag_active s \<or> qlist s MTLK_TXMMB_FREE = []"
  shows "mtlk_txmm_attach_data s m = s"
proof -
  have "(msgs s)(m := None) = msgs s" using assms(2) by auto
  then show ?thesis using assms get_buf_empty [of s MTLK_TXMMB_FREE] by (auto simp: mtlk_txmm_attach_data_def)
qed

text \<open>Cancelling frees the block wherever it is and forgets the message.\<close>

lemma free_buf_del:
  assumes "txmm_ok s" "e \<noteq> MTLK_TXMMB_NONE" "e \<noteq> MTLK_TXMMB_FREE" "b \<in> set (qlist s e)"
  shows "mtlk_txmm_free_buf s b True p = mtlk_txmm_free_buf (fst (mtlk_txmm_del_buf_from_que s e b p)) b False p"
  using del_fields(5) [OF assms, of p b] del_fields(10) [OF assms] assms(3) by (simp add: mtlk_txmm_free_buf_def)

definition cancel_outcome :: "nat \<Rightarrow> nat \<Rightarrow> mtlk_txmm_base_t \<Rightarrow> mtlk_txmm_base_t \<Rightarrow> bool" where
  "cancel_outcome m b s s1 \<longleftrightarrow> txmm_ok s1 \<and> qlist s1 MTLK_TXMMB_FREE = qlist s MTLK_TXMMB_FREE @ [b] \<and>
     qlist s1 MTLK_TXMMB_QUEUED = remove1 b (qlist s MTLK_TXMMB_QUEUED) \<and>
     mset (qlist s1 MTLK_TXMMB_SENT) = mset (qlist s MTLK_TXMMB_SENT) - {#b#} \<and>
     qlist s1 MTLK_TXMMB_TIMED_OUT = qlist s MTLK_TXMMB_TIMED_OUT \<and>
     max_msgs s1 = max_msgs s \<and> msgs s1 = (msgs s)(m := None) \<and> txmm_log s1 = txmm_log s \<and> flag_active s1 = flag_active s"

lemma qlist_not_member:
  assumes "rings_ok L {} s" "blk_que (blocks s b) \<noteq> e" "e \<noteq> MTLK_TXMMB_NONE"
  shows "b \<notin> set (qlist s e)"
  using qlist_entry(3) [OF assms(1,3)] assms(2) by blast

lemma cancel_ok:
  assumes inv: "txmm_inv s" and m: "msgs s m = Some b"
  shows "cancel_outcome m b s (mtlk_txmm_msg_cancel s m)"
proof -
  have ok: "txmm_ok s" and r: "rings_ok {} {} s" and l: "linked s" using inv by (auto simp: txmm_inv_def txmm_ok_def)
  note B = linked_msg [OF l m]
  have nt: "blk_que (blocks s b) \<noteq> MTLK_TXMMB_TIMED_OUT"
    using qlist_member [OF r B(1), of MTLK_TXMMB_TIMED_OUT] inv by (auto simp: txmm_inv_def)
  have nm: "b \<notin> set (qlist s e)" if "blk_que (blocks s b) \<noteq> e" "e \<noteq> MTLK_TXMMB_NONE" for e
    using qlist_not_member [OF r that] .
  show ?thesis
  proof (cases "blk_que (blocks s b) = MTLK_TXMMB_NONE")
    case True
    note F = free_held [OF ok B(1) True B(3), where p = False]
    let ?f = "mtlk_txmm_free_buf s b False False"
    have e: "mtlk_txmm_msg_cancel s m = ?f\<lparr>msgs := (msgs ?f)(m := None)\<rparr>"
      using m True by (simp add: mtlk_txmm_msg_cancel_def mtlk_txmm_free_def Let_def)
    have ql: "qlist (?f\<lparr>msgs := (msgs ?f)(m := None)\<rparr>) u = qlist ?f u" for u by (rule qlist_cong) simp_all
    show ?thesis using F(1-6) ql nm True unfolding e cancel_outcome_def by (simp add: remove1_idem)
  next
    case False
    define e where "e = blk_que (blocks s b)"
    define p where "p = (e = MTLK_TXMMB_QUEUED)"
    have e: "e = MTLK_TXMMB_QUEUED \<or> e = MTLK_TXMMB_SENT" using False nt B(2) by (cases e) (auto simp: e_def)
    then have e': "e \<noteq> MTLK_TXMMB_NONE" "e \<noteq> MTLK_TXMMB_FREE" by auto
    have mem: "b \<in> set (qlist s e)" using qlist_member [OF r B(1), of e] e' by (simp add: e_def)
    let ?d = "fst (mtlk_txmm_del_buf_from_que s e b p)" let ?f = "mtlk_txmm_free_buf ?d b False p"
    note D = del_ok [OF ok e' mem, where p = p] and DF = del_fields(1-8) [OF ok e' mem, where p = p]
    have db: "b < max_msgs ?d" "blk_que (blocks ?d b) = MTLK_TXMMB_NONE" "blk_msg (blocks ?d b) = Some m"
      using DF(1) DF(5) [of b] DF(6) [of b] B by simp_all
    note F = free_held [OF D(1) db, where p = p]
    have "mtlk_txmm_free s b = mtlk_txmm_free_buf s b True p"
      using e by (auto simp: mtlk_txmm_free_def e_def p_def)
    then have c: "mtlk_txmm_msg_cancel s m = ?f\<lparr>msgs := (msgs ?f)(m := None)\<rparr>"
      using m free_buf_del [OF ok e' mem, of p] by (simp add: mtlk_txmm_msg_cancel_def Let_def)
    have ql: "qlist (?f\<lparr>msgs := (msgs ?f)(m := None)\<rparr>) u = qlist ?f u" for u by (rule qlist_cong) simp_all
    have un: "mset (removed p b (qlist s e)) = mset (qlist s e) - {#b#}"
      by (rule mset_removed [OF qlist_distinct [OF r e'(1)] mem])
    have lists: "qlist ?f MTLK_TXMMB_FREE = qlist s MTLK_TXMMB_FREE @ [b]" "qlist ?f MTLK_TXMMB_TIMED_OUT = qlist s MTLK_TXMMB_TIMED_OUT"
      "qlist ?f e = removed p b (qlist s e)" "u \<noteq> e \<Longrightarrow> u \<noteq> MTLK_TXMMB_NONE \<Longrightarrow> u \<noteq> MTLK_TXMMB_FREE \<Longrightarrow> qlist ?f u = qlist s u" for u
      using F(2) D(2,3) e by auto
    have "qlist ?f MTLK_TXMMB_QUEUED = remove1 b (qlist s MTLK_TXMMB_QUEUED)"
      using e lists(3,4) nm [of MTLK_TXMMB_QUEUED] by (cases p) (auto simp: p_def removed_def remove1_idem e_def)
    moreover have "mset (qlist ?f MTLK_TXMMB_SENT) = mset (qlist s MTLK_TXMMB_SENT) - {#b#}"
      using e lists(3,4) un nm [of MTLK_TXMMB_SENT] by (cases p) (auto simp: p_def e_def diff_single_trivial)
    ultimately show ?thesis using F(1,3-6) DF(1-4) ql lists(1,2) unfolding c cancel_outcome_def by simp
  qed
qed

end
