(* ===== verification/Txmm_Timer.thy ===== *)
theory Txmm_Timer
  imports Txmm_Inv
begin

text \<open>
  The loops of \<^verbatim>\<open>txmm.c\<close> over a ring: the search for a confirmed block and the two passes of
  the timeout timer, each shown equal to a function on the list of the queue.
\<close>

section \<open>Confirmation\<close>

lemma ring_end:
  assumes "rings_ok L H s" "e \<noteq> MTLK_TXMMB_NONE" "k < q_total (ques s e)"
  shows "ring_pos s e (Suc k) = q_to (ques s e) \<longleftrightarrow> Suc k = q_total (ques s e)"
proof -
  have q: "q_to (ques s e) = ring_pos s e (q_total (ques s e))" "q_total (ques s e) \<le> max_msgs s"
    using rings_que [OF assms(1,2)] by (simp_all add: que_ok_def)
  have n: "ring_pos s e (max_msgs s) = ring_pos s e 0" by (simp add: ring_pos_def)
  show ?thesis
  proof (cases "q_total (ques s e) = max_msgs s")
    case True
    then have "q_to (ques s e) = ring_pos s e 0" using q n by simp
    then show ?thesis using True n assms(3) ring_pos_inj [of s e "Suc k" 0] by (cases "Suc k = max_msgs s") auto
  next
    case False
    then show ?thesis using q assms(3) ring_pos_inj [of s e "Suc k" "q_total (ques s e)"] by auto
  qed
qed

lemma txmm_find_slot_list:
  assumes r: "rings_ok {} {} s" and "k < q_total (ques s MTLK_TXMMB_SENT)" "q_total (ques s MTLK_TXMMB_SENT) \<le> k + fuel"
  shows "txmm_find_slot s p (ring_pos s MTLK_TXMMB_SENT k) fuel =
    List.find (\<lambda>b. blk_slot (blocks s b) = Some p) (drop k (qlist s MTLK_TXMMB_SENT))"
  using assms(2,3)
proof (induction fuel arbitrary: k)
  case 0
  then show ?case by simp
next
  case (Suc fuel)
  let ?Q = "qlist s MTLK_TXMMB_SENT" and ?t = "q_total (ques s MTLK_TXMMB_SENT)"
  have nth: "q_ptr (ques s MTLK_TXMMB_SENT) ! ring_pos s MTLK_TXMMB_SENT k = ?Q ! k"
    using Suc.prems(1) by (simp add: qlist_simps ring_at_def)
  have d: "drop k ?Q = ?Q ! k # drop (Suc k) ?Q" using Cons_nth_drop_Suc [of k ?Q] Suc.prems(1) by (simp add: qlist_simps(1))
  have nx: "INC_WRAP_IDX (ring_pos s MTLK_TXMMB_SENT k) (max_msgs s) = ring_pos s MTLK_TXMMB_SENT (Suc k)"
    by (rule ring_pos_Suc [OF r]) simp
  have last: "ring_pos s MTLK_TXMMB_SENT (Suc k) = q_to (ques s MTLK_TXMMB_SENT) \<longleftrightarrow> Suc k = ?t"
    by (rule ring_end [OF r _ Suc.prems(1)]) simp
  show ?case
  proof (cases "Suc k = ?t")
    case True
    then have "drop (Suc k) ?Q = []" by (simp add: qlist_simps)
    then show ?thesis using True last d nth nx by (simp add: Let_def)
  next
    case False
    then have "txmm_find_slot s p (ring_pos s MTLK_TXMMB_SENT (Suc k)) fuel =
        List.find (\<lambda>b. blk_slot (blocks s b) = Some p) (drop (Suc k) ?Q)"
      using Suc.prems by (intro Suc.IH) simp_all
    then show ?thesis using False last d nth nx by (simp add: Let_def)
  qed
qed

text \<open>The whole search: the first sent block with that slot.\<close>

lemma on_cfm_search:
  assumes r: "rings_ok {} {} s"
  shows "(if q_total (ques s MTLK_TXMMB_SENT) \<noteq> 0
      then txmm_find_slot s p (q_from (ques s MTLK_TXMMB_SENT)) (max_msgs s) else None) =
    List.find (\<lambda>b. blk_slot (blocks s b) = Some p) (qlist s MTLK_TXMMB_SENT)"
proof (cases "q_total (ques s MTLK_TXMMB_SENT) = 0")
  case True
  then show ?thesis by (simp add: qlist_def)
next
  case False
  have "q_total (ques s MTLK_TXMMB_SENT) \<le> max_msgs s" using rings_que [OF r, of MTLK_TXMMB_SENT] by (simp add: que_ok_def)
  then show ?thesis
    using False ring_from [OF r, of MTLK_TXMMB_SENT] txmm_find_slot_list [OF r, of 0 "max_msgs s" p] by simp
qed

definition txmm_call_if :: "txmm_call list \<Rightarrow> mtlk_txmm_base_t \<Rightarrow> mtlk_txmm_base_t" where
  "txmm_call_if c s = s\<lparr>txmm_log := c @ txmm_log s\<rparr>"

lemma txmm_call_if_sel [simp]:
  "max_msgs (txmm_call_if c s) = max_msgs s" "msgs (txmm_call_if c s) = msgs s" "ques (txmm_call_if c s) = ques s"
  "txmm_log (txmm_call_if c s) = c @ txmm_log s" "flag_active (txmm_call_if c s) = flag_active s"
  "blocks (txmm_call_if c s) = blocks s" "qlist (txmm_call_if c s) u = qlist s u" "txmm_ok (txmm_call_if c s) = txmm_ok s"
  "txmm_call_if [] s = s" "txmm_call_if [x] s = txmm_call x s"
  by (simp_all add: txmm_call_if_def txmm_call_def qlist_def ring_at_def ring_pos_def txmm_ok_def rings_ok_def que_ok_def linked_def)

definition cfm_outcome ::
  "nat \<Rightarrow> mtlk_txmm_clb_reason_e \<Rightarrow> mtlk_txmm_clb_action_e \<Rightarrow> mtlk_txmm_base_t \<Rightarrow> mtlk_txmm_base_t \<Rightarrow> bool" where
  "cfm_outcome b reason action s s1 \<longleftrightarrow> txmm_ok s1 \<and>
     mset (qlist s1 MTLK_TXMMB_SENT) = mset (qlist s MTLK_TXMMB_SENT) - {#b#} \<and>
     (\<forall>u. u \<noteq> MTLK_TXMMB_NONE \<longrightarrow> u \<noteq> MTLK_TXMMB_SENT \<longrightarrow>
        qlist s1 u = (if u = clb_target action then qlist s u @ [b] else qlist s u)) \<and>
     max_msgs s1 = max_msgs s \<and> txmm_log s1 = UserClb b reason # txmm_log s \<and> flag_active s1 = flag_active s \<and>
     forgets b action (msgs s) (msgs s1)"

lemma clb_target_cases: "clb_target a \<noteq> MTLK_TXMMB_SENT" "clb_target a \<noteq> MTLK_TXMMB_TIMED_OUT"
  by (cases a; simp add: clb_target_def)+

text \<open>Taking a block out of its queue and calling the user for it.\<close>

lemma del_clb:
  assumes ok: "txmm_ok s" and e: "e \<noteq> MTLK_TXMMB_NONE" "e \<noteq> MTLK_TXMMB_FREE" and b: "b \<in> set (qlist s e)"
    and s1: "s1 = mtlk_txmm_call_usr_clb_locked (txmm_call_if c (fst (mtlk_txmm_del_buf_from_que s e b p))) b reason action now"
  shows "txmm_ok s1"
    "u \<noteq> MTLK_TXMMB_NONE \<Longrightarrow>
       qlist s1 u = (if u = e then removed p b (qlist s e) else qlist s u) @ (if u = clb_target action then [b] else [])"
    "max_msgs s1 = max_msgs s" "txmm_log s1 = UserClb b reason # c @ txmm_log s" "flag_active s1 = flag_active s"
    "forgets b action (msgs s) (msgs s1)"
proof -
  let ?d = "txmm_call_if c (fst (mtlk_txmm_del_buf_from_que s e b p))"
  note D = del_ok [OF ok e b, where p = p] and F = del_fields(1-8) [OF ok e b, where p = p] and B = del_fields(9,10) [OF ok e b]
  have d: "txmm_ok ?d" "b < max_msgs ?d" "blk_que (blocks ?d b) = MTLK_TXMMB_NONE"
    using D(1) F(1) F(5) [of b] B by simp_all
  have C: "clb_outcome ?d b reason action s1" unfolding s1 by (rule clb_held [OF d])
  show "txmm_ok s1" using C by (simp add: clb_outcome_def)
  show "max_msgs s1 = max_msgs s" "txmm_log s1 = UserClb b reason # c @ txmm_log s" "flag_active s1 = flag_active s"
    using C F(1,3,4) by (simp_all add: clb_outcome_def)
  show "forgets b action (msgs s) (msgs s1)"
    using C F(2) by (simp add: clb_outcome_def)
  assume u: "u \<noteq> MTLK_TXMMB_NONE"
  have "qlist s1 u = (if u = clb_target action then qlist ?d u @ [b] else qlist ?d u)"
    using C u by (simp add: clb_outcome_def)
  moreover have "qlist ?d u = (if u = e then removed p b (qlist s e) else qlist s u)" using D(2,3) u by simp
  ultimately show "qlist s1 u = (if u = e then removed p b (qlist s e) else qlist s u) @ (if u = clb_target action then [b] else [])"
    by (cases "u = e"; cases "u = clb_target action") simp_all
qed

lemma txmm_on_cfm_outcome:
  assumes ok: "txmm_ok s"
  shows "case List.find (\<lambda>b. blk_slot (blocks s b) = Some p) (qlist s MTLK_TXMMB_SENT) of
      None \<Rightarrow> txmm_on_cfm s p action now = (s\<lparr>nof_cfmed := inc32 (nof_cfmed s)\<rparr>, MTLK_ERR_UNKNOWN)
    | Some b \<Rightarrow> snd (txmm_on_cfm s p action now) = MTLK_ERR_OK \<and>
        cfm_outcome b MTLK_TXMM_CLBR_CONFIRMED action s (fst (txmm_on_cfm s p action now))"
proof -
  let ?c = "s\<lparr>nof_cfmed := inc32 (nof_cfmed s)\<rparr>"
  have c: "txmm_ok ?c" by (rule txmm_ok_cong [OF ok]) simp_all
  have ql: "qlist ?c u = qlist s u" for u by (rule qlist_cong) simp_all
  have S: "(if q_total (ques ?c MTLK_TXMMB_SENT) \<noteq> 0
      then txmm_find_slot ?c p (q_from (ques ?c MTLK_TXMMB_SENT)) (max_msgs ?c) else None) =
    List.find (\<lambda>b. blk_slot (blocks s b) = Some p) (qlist s MTLK_TXMMB_SENT)"
    using on_cfm_search [of ?c p] c ql by (simp add: txmm_ok_def)
  show ?thesis
  proof (cases "List.find (\<lambda>b. blk_slot (blocks s b) = Some p) (qlist s MTLK_TXMMB_SENT)")
    case None
    then show ?thesis using S unfolding txmm_on_cfm_def Let_def by simp
  next
    case (Some b)
    then have mem: "b \<in> set (qlist ?c MTLK_TXMMB_SENT)" using ql by (auto simp: find_Some_iff in_set_conv_nth)
    have ns: "MTLK_TXMMB_SENT \<noteq> MTLK_TXMMB_NONE" "MTLK_TXMMB_SENT \<noteq> MTLK_TXMMB_FREE" by simp_all
    define s1 where "s1 = mtlk_txmm_call_usr_clb_locked
      (txmm_call_if [] (fst (mtlk_txmm_del_buf_from_que ?c MTLK_TXMMB_SENT b False))) b MTLK_TXMM_CLBR_CONFIRMED action now"
    note D = del_clb [OF c ns mem s1_def]
    have eq: "txmm_on_cfm s p action now = (s1, MTLK_ERR_OK)"
      using S Some unfolding txmm_on_cfm_def Let_def s1_def by simp
    have rm: "mset (removed False b (qlist s MTLK_TXMMB_SENT)) = mset (qlist s MTLK_TXMMB_SENT) - {#b#}"
      using mset_removed [OF _ mem] qlist_distinct [of "{}" ?c MTLK_TXMMB_SENT] c ql by (simp add: txmm_ok_def)
    have "cfm_outcome b MTLK_TXMM_CLBR_CONFIRMED action s s1"
      using D rm ql clb_target_cases(1) [of action, THEN not_sym] unfolding cfm_outcome_def by simp
    then show ?thesis using Some eq by simp
  qed
qed

section \<open>The first pass of the timer\<close>

lemma removed_parts:
  assumes d: "distinct xs" and k: "k < length xs"
  shows "drop k (removed p (xs ! k) xs) = drop (Suc k) xs" "mset (take k (removed p (xs ! k) xs)) = mset (take k xs)"
    "take k (removed True (xs ! k) xs) = take k xs" "length (removed p (xs ! k) xs) = length xs - 1"
proof -
  have t: "removed True (xs ! k) xs = take k xs @ drop (Suc k) xs"
    using remove1_nth [OF d k] by (simp add: removed_def)
  have h: "hd xs = xs ! k \<longleftrightarrow> k = 0" using nth_eq_iff_index_eq [OF d, of 0 k] k by (cases xs) auto
  have f: "removed False (xs ! k) xs = (if k = 0 then tl xs else tl (xs[k := hd xs]))"
    using map_swap_distinct [OF d k, of "hd xs"] h by (simp add: removed_def)
  have sh: "drop k (tl (xs[k := hd xs])) = drop (Suc k) xs \<and> mset (take k (tl (xs[k := hd xs]))) = mset (take k xs)" if k0: "0 < k"
  proof -
    obtain j where j: "k = Suc j" using k0 by (cases k) auto
    obtain h ys where xs: "xs = h # ys" using k by (cases xs) auto
    show ?thesis using k j xs by (simp add: drop_update_cancel take_update_swap take_Suc_conv_app_nth list_update_append)
  qed
  show "drop k (removed p (xs ! k) xs) = drop (Suc k) xs" "mset (take k (removed p (xs ! k) xs)) = mset (take k xs)"
    using t f sh k by (cases p; cases "k = 0"; simp add: drop_Suc)+
  show "take k (removed True (xs ! k) xs) = take k xs" using t k by simp
  show "length (removed p (xs ! k) xs) = length xs - 1" using t f k by (cases p) (auto simp: min_def)
qed

lemma shift_from: "q_from (ques (txmm_shift s e i fuel) e) = q_from (ques s e)"
  by (induction s e i fuel rule: txmm_shift.induct) (simp_all add: Let_def upd_que_def)

lemma gap_closed_from: "q_from (ques (gap_closed p e k s) e) = q_from (ques s e)"
  by (simp add: gap_closed_def shift_from)

text \<open>After a removal, the entry behind the removed one has its position.\<close>

lemma del_ring_pos:
  assumes r: "rings_ok {} {} s" and e: "e \<noteq> MTLK_TXMMB_NONE" and k: "k < q_total (ques s e)"
  shows "ring_pos (fst (mtlk_txmm_del_buf_from_que s e (ring_at s e k) p)) e j = ring_pos s e (Suc j)"
proof -
  let ?g = "gap_closed p e k s"
  have t: "0 < q_total (ques ?g e)" using gap_closed_rings(3) [OF r e k, of p] k by simp
  have mx: "max_msgs ?g = max_msgs s" using gap_closed_rings(5) [OF r e k, of p] by (simp add: same_blocks_def)
  have "ring_pos (ring_drop e ?g) e j = ring_pos ?g e (Suc j)"
    using ring_drop_pos(1) [OF gap_closed_rings(1) [OF r e k, of p] e t, of e j] by simp
  also have "\<dots> = ring_pos s e (Suc j)" by (simp add: ring_pos_def gap_closed_from mx)
  finally show ?thesis using del_buf_eq [OF r e k, of p] by (simp add: ring_pos_def)
qed

lemma put_ring_pos: "ring_pos (mtlk_txmm_put_buf s u b) e j = ring_pos s e j"
  by (simp add: mtlk_txmm_put_buf_def ring_pos_def upd_que_def upd_blk_def)

text \<open>What the scan leaves: expired blocks moved in order, the other blocks still queued.\<close>

definition scan_outcome ::
  "bool \<Rightarrow> mtlk_txmm_block_e \<Rightarrow> nat list \<Rightarrow> nat list \<Rightarrow> u32 \<Rightarrow> mtlk_txmm_base_t \<Rightarrow> mtlk_txmm_base_t \<Rightarrow> bool" where
  "scan_outcome p e kept todo now s s1 \<longleftrightarrow> txmm_ok s1 \<and>
     mset (qlist s1 e) = mset kept + mset (filter (\<lambda>b. \<not> txmm_expired now (blocks s b)) todo) \<and>
     (p \<longrightarrow> qlist s1 e = kept @ filter (\<lambda>b. \<not> txmm_expired now (blocks s b)) todo) \<and>
     qlist s1 MTLK_TXMMB_TIMED_OUT = qlist s MTLK_TXMMB_TIMED_OUT @ filter (\<lambda>b. txmm_expired now (blocks s b)) todo \<and>
     (\<forall>u. u \<noteq> e \<longrightarrow> u \<noteq> MTLK_TXMMB_TIMED_OUT \<longrightarrow> u \<noteq> MTLK_TXMMB_NONE \<longrightarrow> qlist s1 u = qlist s u) \<and>
     max_msgs s1 = max_msgs s \<and> msgs s1 = msgs s \<and> txmm_log s1 = txmm_log s \<and> flag_active s1 = flag_active s"

text \<open>One expired block: it leaves the queue and joins the timed out ones.\<close>

lemma expire_step:
  assumes ok: "txmm_ok s" and e: "e = MTLK_TXMMB_SENT \<or> e = MTLK_TXMMB_QUEUED" and k: "k < q_total (ques s e)"
    and s1: "s1 = mtlk_txmm_put_buf (fst (mtlk_txmm_del_buf_from_que s e (ring_at s e k) p)) MTLK_TXMMB_TIMED_OUT (ring_at s e k)"
  shows "txmm_ok s1" "qlist s1 e = removed p (qlist s e ! k) (qlist s e)"
    "qlist s1 MTLK_TXMMB_TIMED_OUT = qlist s MTLK_TXMMB_TIMED_OUT @ [ring_at s e k]"
    "\<And>u. u \<noteq> e \<Longrightarrow> u \<noteq> MTLK_TXMMB_TIMED_OUT \<Longrightarrow> u \<noteq> MTLK_TXMMB_NONE \<Longrightarrow> qlist s1 u = qlist s u"
    "max_msgs s1 = max_msgs s" "msgs s1 = msgs s" "txmm_log s1 = txmm_log s" "flag_active s1 = flag_active s"
    "\<And>x. txmm_expired now (blocks s1 x) = txmm_expired now (blocks s x)" "\<And>j. ring_pos s1 e j = ring_pos s e (Suc j)"
proof -
  let ?b = "ring_at s e k"
  have e': "e \<noteq> MTLK_TXMMB_NONE" "e \<noteq> MTLK_TXMMB_FREE" and r: "rings_ok {} {} s" using e ok by (auto simp: txmm_ok_def)
  have b: "?b \<in> set (qlist s e)" "qlist s e ! k = ?b" using k by (auto simp: qlist_simps qlist_def)
  let ?d = "fst (mtlk_txmm_del_buf_from_que s e ?b p)"
  note D = del_ok [OF ok e' b(1), where p = p] and F = del_fields(1-8) [OF ok e' b(1), where p = p]
    and B = del_fields(9,10) [OF ok e' b(1)]
  have d: "?b < max_msgs ?d" "blk_que (blocks ?d ?b) = MTLK_TXMMB_NONE" using F(1) F(5) [of ?b] B by simp_all
  note P = put_held [OF D(1) d, of MTLK_TXMMB_TIMED_OUT, simplified]
  show "txmm_ok s1" "qlist s1 e = removed p (qlist s e ! k) (qlist s e)"
    "qlist s1 MTLK_TXMMB_TIMED_OUT = qlist s MTLK_TXMMB_TIMED_OUT @ [?b]" using P D(2,3) b e by (auto simp: s1)
  show "\<And>u. u \<noteq> e \<Longrightarrow> u \<noteq> MTLK_TXMMB_TIMED_OUT \<Longrightarrow> u \<noteq> MTLK_TXMMB_NONE \<Longrightarrow> qlist s1 u = qlist s u"
    using P D(3) by (auto simp: s1)
  show "max_msgs s1 = max_msgs s" "msgs s1 = msgs s" "txmm_log s1 = txmm_log s" "flag_active s1 = flag_active s"
    "\<And>x. txmm_expired now (blocks s1 x) = txmm_expired now (blocks s x)"
    using F(1-4,8) by (simp_all add: s1)
  show "\<And>j. ring_pos s1 e j = ring_pos s e (Suc j)" using del_ring_pos [OF r e'(1) k] by (simp add: s1 put_ring_pos)
qed

lemma timer_scan_list:
  assumes "txmm_ok s" "e = MTLK_TXMMB_SENT \<or> e = MTLK_TXMMB_QUEUED" "k \<le> q_total (ques s e)"
    "q_total (ques s e) < max_msgs s" "q_total (ques s e) \<le> k + fuel"
  shows "scan_outcome p e (take k (qlist s e)) (drop k (qlist s e)) now s (txmm_timer_scan s now e p (ring_pos s e k) fuel)"
  using assms(1,3-5)
proof (induction fuel arbitrary: s k)
  case 0
  then have "drop k (qlist s e) = []" "take k (qlist s e) = qlist s e" by (simp_all add: qlist_simps)
  then show ?case using 0 by (simp add: scan_outcome_def)
next
  case (Suc fuel)
  let ?Q = "qlist s e" and ?t = "q_total (ques s e)"
  have e: "e \<noteq> MTLK_TXMMB_NONE" and r: "rings_ok {} {} s" using assms(2) Suc.prems(1) by (auto simp: txmm_ok_def)
  have at_end: "ring_pos s e k = q_to (ques s e) \<longleftrightarrow> k = ?t"
    using rings_que [OF r e] ring_pos_inj [of s e k ?t] Suc.prems(2,3) by (auto simp: que_ok_def)
  show ?case
  proof (cases "k = ?t")
    case True
    then have "drop k ?Q = []" "take k ?Q = ?Q" by (simp_all add: qlist_simps)
    then show ?thesis using at_end True Suc.prems(1) by (simp add: scan_outcome_def)
  next
    case False
    then have k: "k < ?t" and kl: "k < length ?Q" using Suc.prems(2) by (simp_all add: qlist_simps)
    let ?b = "ring_at s e k"
    have b: "q_ptr (ques s e) ! ring_pos s e k = ?b" "?Q ! k = ?b" using k by (simp_all add: ring_at_def qlist_simps)
    have dr: "drop k ?Q = ?b # drop (Suc k) ?Q" using Cons_nth_drop_Suc [OF kl] b(2) by simp
    have tk: "take (Suc k) ?Q = take k ?Q @ [?b]" using take_Suc_conv_app_nth [OF kl] b(2) by simp
    define s1 where "s1 = (if txmm_expired now (blocks s ?b)
      then mtlk_txmm_put_buf (fst (mtlk_txmm_del_buf_from_que s e ?b p)) MTLK_TXMMB_TIMED_OUT ?b else s)"
    have mx: "max_msgs s1 = max_msgs s" using expire_step(5) [OF Suc.prems(1) assms(2) k refl, of p] by (simp add: s1_def)
    have unfold: "txmm_timer_scan s now e p (ring_pos s e k) (Suc fuel) =
        txmm_timer_scan s1 now e p (ring_pos s e (Suc k)) fuel"
      using at_end False b(1) ring_pos_Suc [OF r e, of k] mx by (simp add: s1_def [symmetric])
    show ?thesis
    proof (cases "txmm_expired now (blocks s ?b)")
      case True
      then have s1: "s1 = mtlk_txmm_put_buf (fst (mtlk_txmm_del_buf_from_que s e ?b p)) MTLK_TXMMB_TIMED_OUT ?b"
        by (simp add: s1_def)
      note S = expire_step [OF Suc.prems(1) assms(2) k s1]
      note R = removed_parts(1,2,4) [OF qlist_distinct [OF r e] kl, of p] removed_parts(3) [OF qlist_distinct [OF r e] kl]
      have t1: "q_total (ques s1 e) = ?t - 1" using S(2) R(3) by (simp add: qlist_simps(1) [symmetric])
      have "scan_outcome p e (take k (qlist s1 e)) (drop k (qlist s1 e)) now s1 (txmm_timer_scan s1 now e p (ring_pos s1 e k) fuel)"
        by (rule Suc.IH [OF S(1)]) (use t1 k mx Suc.prems(3,4) in simp_all)
      then show ?thesis using S(2-10) R True dr unfolding unfold scan_outcome_def by (cases p) simp_all
    next
      case False
      then have s1: "s1 = s" by (simp add: s1_def)
      have "scan_outcome p e (take (Suc k) ?Q) (drop (Suc k) ?Q) now s (txmm_timer_scan s now e p (ring_pos s e (Suc k)) fuel)"
        by (rule Suc.IH [OF Suc.prems(1)]) (use k Suc.prems(3,4) in simp_all)
      then show ?thesis using False tk dr unfolding unfold scan_outcome_def s1 by simp
    qed
  qed
qed

text \<open>A full ring has \<^verbatim>\<open>from = to\<close> and is taken for an empty one.\<close>

lemma timer_scan_full:
  assumes "txmm_ok s" "e \<noteq> MTLK_TXMMB_NONE" "q_total (ques s e) = max_msgs s"
  shows "txmm_timer_scan s now e p (q_from (ques s e)) fuel = s"
proof -
  have "q_to (ques s e) = q_from (ques s e)"
    using assms rings_que [of "{}" "{}" s e] by (simp add: txmm_ok_def que_ok_def ring_pos_def)
  then show ?thesis by (cases fuel) simp_all
qed

section \<open>The second pass of the timer\<close>

definition timed_out_calls :: "mtlk_txmm_clb_reason_e \<Rightarrow> nat list \<Rightarrow> txmm_call list" where
  "timed_out_calls reason bs = concat (map (\<lambda>b. [MsgTimedOut b, UserClb b reason]) bs)"

lemma timer_notify_list:
  assumes "txmm_ok s" "length (qlist s MTLK_TXMMB_TIMED_OUT) \<le> fuel"
  defines "T \<equiv> qlist s MTLK_TXMMB_TIMED_OUT"
  shows "txmm_ok (txmm_timer_notify s reason act now fuel) \<and>
    qlist (txmm_timer_notify s reason act now fuel) MTLK_TXMMB_TIMED_OUT = [] \<and>
    (\<forall>u. u \<noteq> MTLK_TXMMB_NONE \<longrightarrow> u \<noteq> MTLK_TXMMB_TIMED_OUT \<longrightarrow>
      qlist (txmm_timer_notify s reason act now fuel) u = qlist s u @ filter (\<lambda>b. clb_target (act b) = u) T) \<and>
    max_msgs (txmm_timer_notify s reason act now fuel) = max_msgs s \<and>
    flag_active (txmm_timer_notify s reason act now fuel) = flag_active s \<and>
    txmm_log (txmm_timer_notify s reason act now fuel) = rev (timed_out_calls reason T) @ txmm_log s"
  using assms(1,2) unfolding T_def
proof (induction fuel arbitrary: s)
  case 0
  then show ?case by (simp add: timed_out_calls_def)
next
  case (Suc fuel)
  let ?T = "qlist s MTLK_TXMMB_TIMED_OUT"
  show ?case
  proof (cases "?T = []")
    case True
    then have "q_total (ques s MTLK_TXMMB_TIMED_OUT) = 0" by (simp add: qlist_def)
    then show ?thesis using True Suc.prems(1) by (simp add: timed_out_calls_def)
  next
    case False
    then have t: "0 < q_total (ques s MTLK_TXMMB_TIMED_OUT)" by (simp add: qlist_def)
    have r: "rings_ok {} {} s" using Suc.prems(1) by (simp add: txmm_ok_def)
    have ns: "MTLK_TXMMB_TIMED_OUT \<noteq> MTLK_TXMMB_NONE" "MTLK_TXMMB_TIMED_OUT \<noteq> MTLK_TXMMB_FREE" by simp_all
    let ?b = "hd ?T"
    have b: "q_ptr (ques s MTLK_TXMMB_TIMED_OUT) ! q_from (ques s MTLK_TXMMB_TIMED_OUT) = ?b"
      using False t ring_from [OF r ns(1)] by (simp add: hd_conv_nth qlist_simps ring_at_def)
    define s1 where "s1 = mtlk_txmm_call_usr_clb_locked
      (txmm_call_if [MsgTimedOut ?b] (fst (mtlk_txmm_del_buf_from_que s MTLK_TXMMB_TIMED_OUT ?b False))) ?b reason (act ?b) now"
    note D = del_clb [OF Suc.prems(1) ns hd_in_set [OF False] s1_def]
    have unfold: "txmm_timer_notify s reason act now (Suc fuel) = txmm_timer_notify s1 reason act now fuel"
      using t b by (simp add: Let_def s1_def)
    have tl: "qlist s1 MTLK_TXMMB_TIMED_OUT = tl ?T"
      using D(2) [OF ns(1)] clb_target_cases(2) [of "act ?b", THEN not_sym] by (simp add: removed_def)
    have T: "?T = ?b # tl ?T" using False by simp
    have o: "qlist s1 u = qlist s u @ (if clb_target (act ?b) = u then [?b] else [])"
      if "u \<noteq> MTLK_TXMMB_NONE" "u \<noteq> MTLK_TXMMB_TIMED_OUT" for u using D(2) [OF that(1)] that(2) by auto
    have c: "rev (timed_out_calls reason ?T) = rev (timed_out_calls reason (tl ?T)) @ [UserClb ?b reason, MsgTimedOut ?b]"
      by (subst T) (simp add: timed_out_calls_def)
    have f: "filter (\<lambda>b. clb_target (act b) = u) ?T =
        (if clb_target (act ?b) = u then [?b] else []) @ filter (\<lambda>b. clb_target (act b) = u) (tl ?T)" for u
      by (subst T) simp
    have "length (qlist s1 MTLK_TXMMB_TIMED_OUT) \<le> fuel" using tl Suc.prems(2) by simp
    from Suc.IH [OF D(1) this] show ?thesis unfolding unfold tl c using D(3-5) o f by simp
  qed
qed

section \<open>The whole timer step on one queue\<close>

definition timer_outcome ::
  "bool \<Rightarrow> mtlk_txmm_block_e \<Rightarrow> mtlk_txmm_clb_reason_e \<Rightarrow> (nat \<Rightarrow> mtlk_txmm_clb_action_e) \<Rightarrow> u32 \<Rightarrow>
   mtlk_txmm_base_t \<Rightarrow> mtlk_txmm_base_t \<Rightarrow> bool" where
  "timer_outcome p e reason act now s s1 \<longleftrightarrow>
     (let late = filter (\<lambda>b. txmm_expired now (blocks s b)) (qlist s e);
          rest = filter (\<lambda>b. \<not> txmm_expired now (blocks s b)) (qlist s e);
          back_to = (\<lambda>u. filter (\<lambda>b. clb_target (act b) = u) late) in
      txmm_inv s1 \<and> mset (qlist s1 e) = mset rest + mset (back_to e) \<and> (p \<longrightarrow> qlist s1 e = rest @ back_to e) \<and>
      (\<forall>u. u \<noteq> e \<longrightarrow> u \<noteq> MTLK_TXMMB_TIMED_OUT \<longrightarrow> u \<noteq> MTLK_TXMMB_NONE \<longrightarrow> qlist s1 u = qlist s u @ back_to u) \<and>
      max_msgs s1 = max_msgs s \<and> flag_active s1 = flag_active s \<and> txmm_log s1 = rev (timed_out_calls reason late) @ txmm_log s)"

lemma on_timer_que_outcome:
  assumes inv: "txmm_inv s" and e: "e = MTLK_TXMMB_SENT \<or> e = MTLK_TXMMB_QUEUED" and room: "q_total (ques s e) < max_msgs s"
  shows "timer_outcome p e reason act now s (mtlk_txmm_on_timer_que s now e reason p act)"
proof -
  define x where "x = txmm_timer_scan s now e p (q_from (ques s e)) (max_msgs s)"
  have ok: "txmm_ok s" and to: "qlist s MTLK_TXMMB_TIMED_OUT = []" and e': "e \<noteq> MTLK_TXMMB_NONE" "e \<noteq> MTLK_TXMMB_TIMED_OUT"
    using inv e by (auto simp: txmm_inv_def)
  have r: "rings_ok {} {} s" using ok by (simp add: txmm_ok_def)
  have S: "scan_outcome p e [] (qlist s e) now s x"
    using timer_scan_list [OF ok e _ room, of 0 "max_msgs s" p now] ring_from [OF r e'(1)] room by (simp add: x_def)
  have okx: "txmm_ok x" using S by (simp add: scan_outcome_def)
  have len: "q_total (ques x MTLK_TXMMB_TIMED_OUT) = length (qlist x MTLK_TXMMB_TIMED_OUT)" by (simp add: qlist_simps)
  define y where "y = txmm_timer_notify x reason act now (length (qlist x MTLK_TXMMB_TIMED_OUT))"
  have eq: "mtlk_txmm_on_timer_que s now e reason p act = y" by (simp add: mtlk_txmm_on_timer_que_def Let_def len x_def [symmetric] y_def)
  from timer_notify_list [OF okx le_refl, of reason act now]
  have N: "txmm_ok y" "qlist y MTLK_TXMMB_TIMED_OUT = []"
    "u \<noteq> MTLK_TXMMB_NONE \<Longrightarrow> u \<noteq> MTLK_TXMMB_TIMED_OUT \<Longrightarrow>
      qlist y u = qlist x u @ filter (\<lambda>b. clb_target (act b) = u) (qlist x MTLK_TXMMB_TIMED_OUT)"
    "max_msgs y = max_msgs x" "flag_active y = flag_active x"
    "txmm_log y = rev (timed_out_calls reason (qlist x MTLK_TXMMB_TIMED_OUT)) @ txmm_log x" for u by (simp_all add: y_def)
  show ?thesis
    unfolding eq timer_outcome_def Let_def using S N e' to by (cases p) (simp_all add: scan_outcome_def txmm_inv_def)
qed

lemma on_timer_que_full:
  assumes inv: "txmm_inv s" and e: "e \<noteq> MTLK_TXMMB_NONE" and full: "q_total (ques s e) = max_msgs s"
  shows "mtlk_txmm_on_timer_que s now e reason p act = s"
proof -
  have "q_total (ques s MTLK_TXMMB_TIMED_OUT) = 0" using inv by (simp add: txmm_inv_def qlist_def)
  then show ?thesis
    using timer_scan_full [of s e now p "max_msgs s"] assms by (simp add: mtlk_txmm_on_timer_que_def txmm_inv_def Let_def)
qed

lemma on_timer_que_inv:
  assumes "txmm_inv s" "e = MTLK_TXMMB_SENT \<or> e = MTLK_TXMMB_QUEUED"
  shows "txmm_inv (mtlk_txmm_on_timer_que s now e reason p act)"
proof (cases "q_total (ques s e) = max_msgs s")
  case True
  then show ?thesis using on_timer_que_full [of s e now reason p act] assms by auto
next
  case False
  have "q_total (ques s e) < max_msgs s"
    using False rings_que [of "{}" "{}" s e] assms by (auto simp: txmm_inv_def txmm_ok_def que_ok_def)
  from on_timer_que_outcome [OF assms this, of p reason act now] show ?thesis by (simp add: timer_outcome_def Let_def)
qed

end
