(* ===== verification/Txmm_Props.thy ===== *)
theory Txmm_Props
  imports Txmm_Timer
begin

text \<open>
  The properties of the transmit message manager: conservation of the blocks over whole runs, the
  send queue as a FIFO, what confirmation, timeout and cancellation do to the queues, and the
  states in which the timer and the recovery fail.
\<close>

section \<open>Runs\<close>

datatype txmm_event =
    TeStart | TeStop | TeHalt
  | TeGet nat
  | TeSend nat u32 u32 "nat option"
  | TeCancel nat
  | TePump "nat option" "nat option"
  | TeCfm "nat option" mtlk_txmm_clb_action_e u32
  | TeTimer u32 "nat \<Rightarrow> mtlk_txmm_clb_action_e"

fun txmm_step :: "mtlk_txmm_base_t \<Rightarrow> txmm_event \<Rightarrow> mtlk_txmm_base_t" where
  "txmm_step s TeStart = mtlk_txmm_start s"
| "txmm_step s TeStop = mtlk_txmm_stop s"
| "txmm_step s TeHalt = mtlk_txmm_halt s"
| "txmm_step s (TeGet m) = fst (mtlk_txmm_msg_get_empty_data s m)"
| "txmm_step s (TeSend m t now pool) = fst (mtlk_txmm_msg_send s m t now pool)"
| "txmm_step s (TeCancel m) = mtlk_txmm_msg_cancel s m"
| "txmm_step s (TePump p pool) = mtlk_txmm_pump s p pool"
| "txmm_step s (TeCfm p action now) = fst (mtlk_txmm_on_cfm s p action now)"
| "txmm_step s (TeTimer now act) = mtlk_txmm_on_timer s now act"

text \<open>The contract of a send: the message has data and is not already in transmission.\<close>

fun txmm_event_ok :: "mtlk_txmm_base_t \<Rightarrow> txmm_event \<Rightarrow> bool" where
  "txmm_event_ok s (TeSend m t now pool) =
     (case msgs s m of Some b \<Rightarrow> blk_que (blocks s b) = MTLK_TXMMB_NONE | None \<Rightarrow> False)"
| "txmm_event_ok s _ = True"

lemma txmm_inv_cong:
  assumes "txmm_inv s" "ques s' = ques s" "max_msgs s' = max_msgs s" "msgs s' = msgs s" "blocks s' = blocks s"
  shows "txmm_inv s'"
  using assms txmm_ok_cong [of s s'] qlist_cong [of s' s] by (simp add: txmm_inv_def)

lemma get_empty_data_inv:
  assumes "txmm_inv s"
  shows "txmm_inv (fst (mtlk_txmm_msg_get_empty_data s m))"
proof (cases "msgs s m = None \<and> flag_active s \<and> qlist s MTLK_TXMMB_FREE \<noteq> []")
  case True
  then have "attach_outcome m s (mtlk_txmm_attach_data s m)" using assms attach_data_ok by (simp add: txmm_inv_def)
  then show ?thesis using True assms by (simp add: mtlk_txmm_msg_get_empty_data_def Let_def attach_outcome_def txmm_inv_def)
next
  case False
  then show ?thesis using assms attach_data_none [of s m]
    by (cases "msgs s m") (auto simp: mtlk_txmm_msg_get_empty_data_def Let_def txmm_inv_def)
qed

lemma msg_send_eq:
  assumes "txmm_ok s" "msgs s m = Some b" "blk_que (blocks s b) = MTLK_TXMMB_NONE"
  shows "mtlk_txmm_msg_send s m t now pool = (fst (mtlk_txmm_send_ex s b t now pool), MTLK_ERR_OK)"
    and "send_outcome pool b s (fst (mtlk_txmm_send_ex s b t now pool))"
proof -
  have b: "b < max_msgs s" using assms linked_msg(1) by (auto simp: txmm_ok_def)
  show "send_outcome pool b s (fst (mtlk_txmm_send_ex s b t now pool))" by (rule send_ex_held(2) [OF assms(1) b assms(3)])
  have "snd (mtlk_txmm_send_ex s b t now pool) = MTLK_ERR_OK" by (rule send_ex_held(1) [OF assms(1) b assms(3)])
  then show "mtlk_txmm_msg_send s m t now pool = (fst (mtlk_txmm_send_ex s b t now pool), MTLK_ERR_OK)"
    using assms(2) by (simp add: mtlk_txmm_msg_send_def split_def)
qed

lemma pump_inv:
  assumes "txmm_inv s"
  shows "txmm_inv (mtlk_txmm_pump s pmsg pool)"
proof (cases "qlist s MTLK_TXMMB_QUEUED = []")
  case True
  then show ?thesis using assms pump_idle [of s pmsg pool] by (auto simp: txmm_inv_def split: option.splits)
next
  case False
  show ?thesis
  proof (cases "if pmsg = None then pool else pmsg")
    case None
    then show ?thesis using assms pump_no_slot by (auto split: if_splits)
  next
    case (Some p)
    then have "send_step p s (mtlk_txmm_pump s pmsg pool)"
      using txmm_pump_queued [of s pmsg pool p] False assms by (simp add: mtlk_txmm_pump_def txmm_inv_def)
    then show ?thesis using assms by (simp add: send_step_def Let_def txmm_inv_def)
  qed
qed

lemma on_cfm_inv:
  assumes "txmm_inv s"
  shows "txmm_inv (fst (mtlk_txmm_on_cfm s pmsg action now))"
proof (cases pmsg)
  case None
  then show ?thesis using assms by (simp add: mtlk_txmm_on_cfm_def)
next
  case (Some p)
  have ok: "txmm_ok s" using assms by (simp add: txmm_inv_def)
  note C = txmm_on_cfm_outcome [OF ok, of p action now]
  show ?thesis
  proof (cases "List.find (\<lambda>b. blk_slot (blocks s b) = Some p) (qlist s MTLK_TXMMB_SENT)")
    case None
    then show ?thesis using C Some assms txmm_inv_cong [of s] by (simp add: mtlk_txmm_on_cfm_def)
  next
    case (Some b)
    then have "cfm_outcome b MTLK_TXMM_CLBR_CONFIRMED action s (fst (txmm_on_cfm s p action now))" using C by simp
    then show ?thesis using \<open>pmsg = Some p\<close> assms clb_target_cases(2) [of action, THEN not_sym]
      by (simp add: mtlk_txmm_on_cfm_def cfm_outcome_def txmm_inv_def)
  qed
qed

interpretation txmm: step_system txmm_step txmm_event_ok txmm_inv
proof
  fix s e assume inv: "txmm_inv s" and e: "txmm_event_ok s e"
  show "txmm_inv (txmm_step s e)"
  proof (cases e)
    case (TeSend m t now pool)
    then obtain b where b: "msgs s m = Some b" "blk_que (blocks s b) = MTLK_TXMMB_NONE" using e by (auto split: option.splits)
    have "send_outcome pool b s (fst (mtlk_txmm_send_ex s b t now pool))" using msg_send_eq(2) [OF _ b] inv by (simp add: txmm_inv_def)
    then show ?thesis using TeSend msg_send_eq(1) [OF _ b, of t now pool] inv by (simp add: txmm_inv_def send_outcome_def Let_def)
  next
    case (TeCancel m)
    then show ?thesis using inv cancel_ok [OF inv, of m]
      by (cases "msgs s m") (simp_all add: mtlk_txmm_msg_cancel_def cancel_outcome_def txmm_inv_def)
  next
    case (TeTimer now act)
    then show ?thesis using inv by (simp add: mtlk_txmm_on_timer_def on_timer_que_inv)
  qed (use inv txmm_inv_cong [of s] in \<open>simp_all add: mtlk_txmm_start_def mtlk_txmm_stop_def mtlk_txmm_halt_def
      get_empty_data_inv pump_inv on_cfm_inv\<close>)
qed

lemma txmm_init_inv:
  assumes "0 < n" "n < 2 ^ 32"
  shows "txmm_inv (mtlk_txmm_init n payload)"
proof -
  have "rings_ok {} {} (mtlk_txmm_init n payload)"
    using assms by (auto simp: rings_ok_def que_ok_def ring_at_def ring_pos_def mtlk_txmm_init_def)
  moreover have "linked (mtlk_txmm_init n payload)" by (simp add: linked_def mtlk_txmm_init_def)
  ultimately show ?thesis by (simp add: txmm_inv_def txmm_ok_def qlist_def mtlk_txmm_init_def)
qed

section \<open>The number of blocks never changes\<close>

lemma shift_max [simp]: "max_msgs (txmm_shift s e i fuel) = max_msgs s"
  by (induction s e i fuel rule: txmm_shift.induct) (simp_all add: Let_def upd_que_def)

lemma del_max [simp]: "max_msgs (fst (mtlk_txmm_del_buf_from_que s e b p)) = max_msgs s"
  by (simp add: mtlk_txmm_del_buf_from_que_def Let_def upd_que_def)

lemma free_buf_max [simp]: "max_msgs (mtlk_txmm_free_buf s b d p) = max_msgs s"
  by (simp add: mtlk_txmm_free_buf_def Let_def mtlk_txmm_zero_block_def)

lemma clb_max [simp]: "max_msgs (mtlk_txmm_call_usr_clb_locked s b reason action now) = max_msgs s"
  by (simp add: mtlk_txmm_call_usr_clb_locked_def Let_def split: option.split mtlk_txmm_clb_action_e.split)

lemma prepare_max [simp]: "max_msgs (mtlk_txmm_send_block_prepare s b p) = max_msgs s"
  by (simp add: mtlk_txmm_send_block_prepare_def Let_def)

lemma get_max: "mtlk_txmm_get_buf s e = (r, s1) \<Longrightarrow> max_msgs s1 = max_msgs s"
  by (auto simp: mtlk_txmm_get_buf_def upd_que_def split: if_splits)

lemma pump_max [simp]: "max_msgs (txmm_do_send (txmm_pump s pmsg pool)) = max_msgs s"
  by (auto simp: txmm_pump_def txmm_do_send_def get_max split: option.splits prod.splits)

lemma send_max [simp]: "max_msgs (fst (mtlk_txmm_send_ex s b t now pool)) = max_msgs s"
  by (simp add: mtlk_txmm_send_ex_def Let_def split: option.split)

lemma cancel_max [simp]: "max_msgs (mtlk_txmm_msg_cancel s m) = max_msgs s"
  by (simp add: mtlk_txmm_msg_cancel_def mtlk_txmm_free_def Let_def split: option.split mtlk_txmm_block_e.split)

lemma attach_max [simp]: "max_msgs (mtlk_txmm_attach_data s m) = max_msgs s"
  by (auto simp: mtlk_txmm_attach_data_def Let_def get_max split: option.splits prod.splits)

lemma scan_max [simp]: "max_msgs (txmm_timer_scan s now e p i fuel) = max_msgs s"
  by (induction fuel arbitrary: s i) (simp_all add: Let_def)

lemma notify_max [simp]: "max_msgs (txmm_timer_notify s reason act now fuel) = max_msgs s"
  by (induction fuel arbitrary: s) (simp_all add: Let_def)

lemma on_cfm_max [simp]: "max_msgs (fst (mtlk_txmm_on_cfm s pmsg action now)) = max_msgs s"
  by (simp add: mtlk_txmm_on_cfm_def txmm_on_cfm_def Let_def split: option.split)

lemma step_max: "max_msgs (txmm_step s e) = max_msgs s"
  by (cases e)
     (simp_all add: mtlk_txmm_start_def mtlk_txmm_stop_def mtlk_txmm_halt_def mtlk_txmm_msg_get_empty_data_def Let_def
        mtlk_txmm_msg_send_def mtlk_txmm_pump_def mtlk_txmm_on_timer_def mtlk_txmm_on_timer_que_def split_def split: option.split)

lemma run_max: "max_msgs (foldl txmm_step s es) = max_msgs s"
  by (induction es arbitrary: s) (simp_all add: step_max)

section \<open>Conservation\<close>

lemma qlist_mset:
  assumes "rings_ok {} {} s" "e \<noteq> MTLK_TXMMB_NONE"
  shows "mset (qlist s e) = mset (filter (\<lambda>b. blk_que (blocks s b) = e) [0..<max_msgs s])"
proof -
  have "set (qlist s e) = set (filter (\<lambda>b. blk_que (blocks s b) = e) [0..<max_msgs s])"
    using qlist_entry(1,3) [OF assms] qlist_member [OF assms(1) _ _ _ assms(2)] by auto
  then show ?thesis using mset_set_set [OF qlist_distinct [OF assms]] by simp
qed

lemma blocks_partition:
  assumes "txmm_inv s"
  shows "mset (qlist s MTLK_TXMMB_FREE) + mset (qlist s MTLK_TXMMB_QUEUED) + mset (qlist s MTLK_TXMMB_SENT) +
    mset (filter (\<lambda>b. blk_que (blocks s b) = MTLK_TXMMB_NONE) [0..<max_msgs s]) = mset [0..<max_msgs s]"
proof (rule multiset_eqI)
  have r: "rings_ok {} {} s" and t: "qlist s MTLK_TXMMB_TIMED_OUT = []" using assms by (simp_all add: txmm_inv_def txmm_ok_def)
  have n: "b < max_msgs s \<Longrightarrow> blk_que (blocks s b) \<noteq> MTLK_TXMMB_TIMED_OUT" for b
    using qlist_member [OF r, of b MTLK_TXMMB_TIMED_OUT] t by auto
  fix b
  show "count (mset (qlist s MTLK_TXMMB_FREE) + mset (qlist s MTLK_TXMMB_QUEUED) + mset (qlist s MTLK_TXMMB_SENT) +
    mset (filter (\<lambda>b. blk_que (blocks s b) = MTLK_TXMMB_NONE) [0..<max_msgs s])) b = count (mset [0..<max_msgs s]) b"
    using n [of b] by (cases "blk_que (blocks s b)") (auto simp: qlist_mset [OF r] count_mset_set')
qed

definition txmm_demo :: "txmm_event list" where
  "txmm_demo = [TeStart, TeGet 7, TeGet 8, TeSend 7 100 0 (Some 50), TeSend 8 100 0 None, TePump None (Some 51),
     TeCfm (Some 50) MTLK_TXMM_CLBA_FREE 10, TeTimer 500 (\<lambda>_. MTLK_TXMM_CLBA_FREE)]"

text \<open>The definitions that evaluate a concrete run.\<close>

lemmas txmm_eval = mtlk_txmm_init_def mtlk_txmm_start_def mtlk_txmm_stop_def mtlk_txmm_halt_def mtlk_txmm_msg_get_empty_data_def
  mtlk_txmm_attach_data_def mtlk_txmm_get_buf_def mtlk_txmm_put_buf_def mtlk_txmm_adjust_usage_stats_def mtlk_txmm_msg_send_def
  mtlk_txmm_send_ex_def mtlk_txmm_send_block_prepare_def txmm_pump_def txmm_do_send_def mtlk_txmm_pump_def
  mtlk_txmm_msg_cancel_def mtlk_txmm_free_def mtlk_txmm_free_buf_def mtlk_txmm_del_buf_from_que_def mtlk_txmm_zero_block_def
  mtlk_txmm_on_cfm_def txmm_on_cfm_def mtlk_txmm_call_usr_clb_locked_def upd_blk_def upd_que_def txmm_call_def
  inc32_def dec32_def INC_WRAP_IDX_def Let_def upt_rec replicate_Suc numeral_3_eq_3

lemma txmm_demo_ok: "txmm.run_ok (mtlk_txmm_init 3 100) txmm_demo"
  by (simp add: txmm_demo_def txmm_eval)

lemma txmm_run_inv:
  assumes "0 < n" "n < 2 ^ 32" "txmm.run_ok (mtlk_txmm_init n payload) es"
  shows "txmm_inv (foldl txmm_step (mtlk_txmm_init n payload) es)" "max_msgs (foldl txmm_step (mtlk_txmm_init n payload) es) = n"
  using txmm.run_inv [OF txmm_init_inv assms(3)] assms by (simp_all add: run_max) (simp add: mtlk_txmm_init_def)

section \<open>Properties\<close>





text \<open>
  C11: Messages are sent in the order in which they are queued. A send appends the block to the
  queue and, if the pool gives a slot, the first block of the queue goes out with it; the direct
  path for an empty queue has exactly this effect. Everything else stays as it is.
\<close>

theorem txmm_send_is_fifo:
  assumes "txmm_inv s" "msgs s m = Some b" "blk_que (blocks s b) = MTLK_TXMMB_NONE"
    and "mtlk_txmm_msg_send s m timeout now pool = (s1, res)"
    and "Q = qlist s MTLK_TXMMB_QUEUED @ [b]"
  shows "res = MTLK_ERR_OK \<and> txmm_inv s1 \<and> msgs s1 = msgs s \<and> qlist s1 MTLK_TXMMB_FREE = qlist s MTLK_TXMMB_FREE \<and>
    (case pool of
       None \<Rightarrow> qlist s1 MTLK_TXMMB_QUEUED = Q \<and> qlist s1 MTLK_TXMMB_SENT = qlist s MTLK_TXMMB_SENT \<and> txmm_log s1 = txmm_log s
     | Some p \<Rightarrow> qlist s1 MTLK_TXMMB_QUEUED = tl Q \<and> qlist s1 MTLK_TXMMB_SENT = qlist s MTLK_TXMMB_SENT @ [hd Q] \<and>
         txmm_log s1 = MsgSend p (hd Q) # txmm_log s \<and> blk_slot (blocks s1 (hd Q)) = Some p)"
proof -
  have ok: "txmm_ok s" using assms(1) by (simp add: txmm_inv_def)
  show ?thesis
    using msg_send_eq(1) [OF ok assms(2,3), of timeout now pool] msg_send_eq(2) [OF ok assms(2,3), of pool timeout now] assms(1,4,5)
    by (cases pool) (simp_all add: send_outcome_def Let_def txmm_inv_def)
qed

text \<open>Two messages hold a block each; the pool is empty at first.\<close>

definition txmm_busy :: mtlk_txmm_base_t where
  "txmm_busy = foldl txmm_step (mtlk_txmm_init 4 100) [TeStart, TeGet 7, TeGet 8, TeSend 7 100 0 None]"

lemma txmm_busy_inv: "txmm_inv txmm_busy"
  unfolding txmm_busy_def
  by (rule txmm_run_inv(1)) (simp_all add: txmm_eval)

theorem txmm_send_is_fifo_witness:
  "qlist (fst (mtlk_txmm_msg_send txmm_busy 8 100 1 (Some 50))) MTLK_TXMMB_QUEUED = [1] \<and>
   txmm_log (fst (mtlk_txmm_msg_send txmm_busy 8 100 1 (Some 50))) = [MsgSend 50 0]"
proof -
  have e: "msgs txmm_busy 8 = Some 1" "blk_que (blocks txmm_busy 1) = MTLK_TXMMB_NONE" by (simp_all add: txmm_busy_def txmm_eval qlist_def ring_at_def ring_pos_def)
  have q: "qlist txmm_busy MTLK_TXMMB_QUEUED = [0]" "txmm_log txmm_busy = []" by (simp_all add: txmm_busy_def txmm_eval qlist_def ring_at_def ring_pos_def)
  show ?thesis
    using txmm_send_is_fifo [OF txmm_busy_inv e surjective_pairing refl, where timeout = 100 and now = 1 and pool = "Some 50"] q
    by simp
qed

lemma forgets_eq:
  assumes "linked s" "forgets b action (msgs s) M"
  shows "M = (if action = MTLK_TXMM_CLBA_FREE then (\<lambda>m. if msgs s m = Some b then None else msgs s m) else msgs s)"
proof -
  obtain m where m: "msgs s m = Some b" "M = (if action = MTLK_TXMM_CLBA_FREE then (msgs s)(m := None) else msgs s)"
    using assms(2) by (auto simp: forgets_def)
  have uniq: "m' = m" if "msgs s m' = Some b" for m' using linked_msg(3) [OF assms(1) that] linked_msg(3) [OF assms(1) m(1)] by simp
  have "(msgs s)(m := None) = (\<lambda>m. if msgs s m = Some b then None else msgs s m)"
    by (rule ext) (use m(1) in \<open>auto dest: uniq\<close>)
  then show ?thesis using m(2) by simp
qed


text \<open>Block 0 is out with slot 50, block 1 with slot 51, sent later.\<close>

definition txmm_out :: mtlk_txmm_base_t where
  "txmm_out = foldl txmm_step (mtlk_txmm_init 3 100)
     [TeStart, TeGet 7, TeGet 8, TeSend 7 100 0 (Some 50), TeSend 8 100 90 (Some 51)]"

lemma txmm_out_inv: "txmm_inv txmm_out"
  unfolding txmm_out_def
  by (rule txmm_run_inv(1)) (simp_all add: txmm_eval)

lemma txmm_out_rings:
  "ques txmm_out MTLK_TXMMB_SENT = \<lparr>q_ptr = [0, 1, 0], q_from = 0, q_to = 2, q_total = 2\<rparr>"
  "ques txmm_out MTLK_TXMMB_FREE = \<lparr>q_ptr = [0, 1, 2], q_from = 2, q_to = 0, q_total = 1\<rparr>" "max_msgs txmm_out = 3"
  by (simp_all add: txmm_out_def txmm_eval)

lemma txmm_out_blocks:
  "blk_slot (blocks txmm_out 0) = Some 50" "blk_slot (blocks txmm_out 1) = Some 51"
  "txmm_expired 120 (blocks txmm_out 0)" "\<not> txmm_expired 120 (blocks txmm_out 1)"
  by (simp_all add: txmm_out_def txmm_eval txmm_expired_def)

lemma txmm_out_state:
  "qlist txmm_out MTLK_TXMMB_SENT = [0, 1]" "qlist txmm_out MTLK_TXMMB_FREE = [2]"
  "q_total (ques txmm_out MTLK_TXMMB_SENT) = 2"
  by (simp_all add: txmm_out_rings qlist_def ring_at_def ring_pos_def upt_rec numeral_2_eq_2)

lemmas txmm_out_facts = txmm_out_state txmm_out_blocks txmm_out_rings(3)




text \<open>
  A cancelled message leaves no trace. Attaching a block to a message and cancelling it again
  gives the state of before in everything but the statistics and the order of the free blocks;
  cancelling a message that is queued or sent removes it there and frees its block.
\<close>

lemma txmm_get_cancel_roundtrip:
  assumes inv: "txmm_inv s" and m: "msgs s m = None" and act: "flag_active s" and free: "qlist s MTLK_TXMMB_FREE = b # bs"
    and s1: "mtlk_txmm_msg_get_empty_data s m = (s1, d)"
  shows "d = Some b \<and> qlist (mtlk_txmm_msg_cancel s1 m) MTLK_TXMMB_FREE = bs @ [b] \<and>
    qlist (mtlk_txmm_msg_cancel s1 m) MTLK_TXMMB_QUEUED = qlist s MTLK_TXMMB_QUEUED \<and>
    mset (qlist (mtlk_txmm_msg_cancel s1 m) MTLK_TXMMB_SENT) = mset (qlist s MTLK_TXMMB_SENT) \<and>
    msgs (mtlk_txmm_msg_cancel s1 m) = msgs s \<and> txmm_log (mtlk_txmm_msg_cancel s1 m) = txmm_log s \<and>
    txmm_inv (mtlk_txmm_msg_cancel s1 m)"
proof -
  have ok: "txmm_ok s" and r: "rings_ok {} {} s" using inv by (simp_all add: txmm_inv_def txmm_ok_def)
  have A: "attach_outcome m s (mtlk_txmm_attach_data s m)" by (rule attach_data_ok [OF ok m act]) (simp add: free)
  have e: "s1 = mtlk_txmm_attach_data s m" "d = Some b"
    using s1 m A free by (auto simp: mtlk_txmm_msg_get_empty_data_def Let_def attach_outcome_def)
  have i1: "txmm_inv s1" and mb: "msgs s1 m = Some b" using A inv free e by (simp_all add: attach_outcome_def txmm_inv_def)
  have C: "cancel_outcome m b s1 (mtlk_txmm_msg_cancel s1 m)" by (rule cancel_ok [OF i1 mb])
  have "b \<in> set (qlist s MTLK_TXMMB_FREE)" using free by simp
  then have "b \<notin> set (qlist s MTLK_TXMMB_QUEUED)" "b \<notin> set (qlist s MTLK_TXMMB_SENT)"
    using qlist_entry(3) [OF r, of MTLK_TXMMB_FREE b] qlist_not_member [OF r, of b] by auto
  moreover have "(msgs s)(m := None) = msgs s" using m by auto
  ultimately show ?thesis using A C free e i1
    by (simp add: attach_outcome_def cancel_outcome_def txmm_inv_def remove1_idem diff_single_trivial)
qed


section \<open>What fails\<close>

text \<open>
  The timer does not see a full queue. When all blocks are in one queue, \<^verbatim>\<open>from\<close> equals
  \<^verbatim>\<open>to\<close>, the loop of the timer is not entered and no block times out, however late it is: a
  firmware that stops answering when every message is in flight is never noticed.
\<close>

lemma txmm_timer_skips_full_queue:
  assumes "txmm_inv s" "e \<noteq> MTLK_TXMMB_NONE" "length (qlist s e) = max_msgs s"
  shows "mtlk_txmm_on_timer_que s now e reason preserve_order act = s"
  using on_timer_que_full [OF assms(1,2)] assms(3) by (simp add: qlist_simps)

text \<open>Recovery: what holds of the blocks not yet visited.\<close>

definition restoring :: "mtlk_txmm_base_t \<Rightarrow> nat \<Rightarrow> mtlk_txmm_base_t \<Rightarrow> bool" where
  "restoring s k s' \<longleftrightarrow> q_total (ques s' MTLK_TXMMB_SENT) = q_total (ques s MTLK_TXMMB_SENT) \<and>
     (\<forall>b\<ge>k. blocks s' b = blocks s b \<and> (\<forall>m. msgs s m = Some b \<longrightarrow> msgs s' m = Some b))"

lemma put_free_other: "q_total (ques (mtlk_txmm_put_buf s MTLK_TXMMB_FREE b) MTLK_TXMMB_SENT) = q_total (ques s MTLK_TXMMB_SENT)"
  "x \<noteq> b \<Longrightarrow> blocks (mtlk_txmm_put_buf s MTLK_TXMMB_FREE b) x = blocks s x"
  by (simp_all add: mtlk_txmm_put_buf_def upd_que_def)

lemma restoring_block:
  assumes inv: "txmm_inv s" and k: "k < max_msgs s" and R: "restoring s k s'"
  shows "restoring s (Suc k) (txmm_restore_block (\<lambda>_. MTLK_TXMM_CLBA_FREE) now s' k)"
proof -
  have l: "linked s" and r: "rings_ok {} {} s" using inv by (simp_all add: txmm_inv_def txmm_ok_def)
  have bk: "blocks s' k = blocks s k" using R by (simp add: restoring_def)
  define f where "f x = mtlk_txmm_put_buf (mtlk_txmm_zero_block k x) MTLK_TXMMB_FREE k" for x
  have fs: "q_total (ques (f x) MTLK_TXMMB_SENT) = q_total (ques x MTLK_TXMMB_SENT)" "msgs (f x) = msgs x"
    "b \<noteq> k \<Longrightarrow> blocks (f x) b = blocks x b" "blk_que (blocks (f x) k) = MTLK_TXMMB_FREE" for x b
    by (simp_all add: f_def put_free_other mtlk_txmm_zero_block_def)
  have keep: "restoring s (Suc k) s2" if "q_total (ques s2 MTLK_TXMMB_SENT) = q_total (ques s' MTLK_TXMMB_SENT)"
    "\<And>b. b \<noteq> k \<Longrightarrow> blocks s2 b = blocks s' b" "\<And>m. msgs s m \<noteq> Some k \<Longrightarrow> msgs s2 m = msgs s' m" for s2
    using R that by (auto simp: restoring_def)
  have nt: "blk_que (blocks s k) \<noteq> MTLK_TXMMB_TIMED_OUT"
    using qlist_member [OF r k, of MTLK_TXMMB_TIMED_OUT] inv by (auto simp: txmm_inv_def)
  show ?thesis
  proof (cases "blk_que (blocks s k) = MTLK_TXMMB_SENT \<or> blk_que (blocks s k) = MTLK_TXMMB_QUEUED")
    case True
    then have "blk_que (blocks s k) \<noteq> MTLK_TXMMB_FREE" by auto
    then obtain m where m: "blk_msg (blocks s k) = Some m" "msgs s m = Some k" by (rule linked_block [OF l k])
    then have m': "msgs s' m = Some k" using R by (simp add: restoring_def)
    let ?c = "f (txmm_call (UserClb k MTLK_TXMM_CLBR_RCVRY_DISCARD) s')"
    have "txmm_restore_block (\<lambda>_. MTLK_TXMM_CLBA_FREE) now s' k = ?c\<lparr>msgs := (msgs ?c)(m := None)\<rparr>"
      using True m m' bk fs(4) by (auto simp: txmm_restore_block_def mtlk_txmm_call_usr_clb_locked_def mtlk_txmm_free_buf_def f_def Let_def)
    then show ?thesis using m by (intro keep) (auto simp: fs)
  next
    case False
    then have "blk_que (blocks s k) = MTLK_TXMMB_FREE \<or> blk_que (blocks s k) = MTLK_TXMMB_NONE"
      using nt by (cases "blk_que (blocks s k)") auto
    then show ?thesis
    proof
      assume "blk_que (blocks s k) = MTLK_TXMMB_FREE"
      then have "txmm_restore_block (\<lambda>_. MTLK_TXMM_CLBA_FREE) now s' k = s'"
        using bk by (simp add: txmm_restore_block_def mtlk_txmm_free_buf_def)
      then show ?thesis by (intro keep) simp_all
    next
      assume "blk_que (blocks s k) = MTLK_TXMMB_NONE"
      then have "txmm_restore_block (\<lambda>_. MTLK_TXMM_CLBA_FREE) now s' k = f s'"
        using bk by (simp add: txmm_restore_block_def mtlk_txmm_free_buf_def mtlk_txmm_del_buf_from_que_def f_def)
      then show ?thesis by (intro keep) (simp_all add: fs)
    qed
  qed
qed

lemma restoring_blocks:
  assumes "txmm_inv s" "k \<le> max_msgs s"
  shows "restoring s k (foldl (txmm_restore_block (\<lambda>_. MTLK_TXMM_CLBA_FREE) now) s [0..<k])"
  using assms(2)
proof (induction k)
  case 0
  then show ?case by (simp add: restoring_def)
next
  case (Suc k)
  then show ?case using restoring_block [OF assms(1), of k] by simp
qed

text \<open>
  Recovery does not empty the sent queue. When a message is in flight and the user callback
  answers the discard with \<^verbatim>\<open>MTLK_TXMM_CLBA_FREE\<close>, the block is zeroed and put into the free
  queue while its entry in the sent ring stays: the sanity check at the end of
  \<^verbatim>\<open>mtlk_txmm_restore\<close> fails.
\<close>

lemma txmm_restore_leaves_sent_entries:
  assumes "txmm_inv s" "qlist s MTLK_TXMMB_SENT \<noteq> []"
  shows "\<not> txmm_restore_asserts (mtlk_txmm_restore s (\<lambda>_. MTLK_TXMM_CLBA_FREE) now)"
proof -
  have "restoring s (max_msgs s) (mtlk_txmm_restore s (\<lambda>_. MTLK_TXMM_CLBA_FREE) now)"
    using restoring_blocks [OF assms(1) le_refl] by (simp add: mtlk_txmm_restore_def)
  moreover have "q_total (ques s MTLK_TXMMB_SENT) \<noteq> 0" using assms(2) by (auto simp: qlist_def)
  ultimately show ?thesis by (simp add: txmm_restore_asserts_def restoring_def)
qed


end
