(* ===== verification/Replay.thy ===== *)
theory Replay
  imports Wave_Prelude
begin

text \<open>
  Replay detection on received frames (\<^verbatim>\<open>wireless/driver/linux/core.c\<close>, functions
  \<^verbatim>\<open>get_cipher\<close>, \<^verbatim>\<open>parse_and_get_replay_counter\<close>, \<^verbatim>\<open>_detect_replay\<close> and
  \<^verbatim>\<open>mtlk_detect_replay_or_sendup\<close>): the six byte counter of a TKIP or CCMP frame is compared
  byte by byte with the last accepted one, and raised by the number of fragments.

  A frame carries what the code reads of it: the \<^verbatim>\<open>DIRECTED\<close> flag, the cipher of the source
  station if the station is known, the eight bytes of the security header, the notification byte
  of the firmware and whether the Ethernet source is a group address. \<open>rx_core\<close> holds the group
  cipher, the replay counters and what happened to the frames.
\<close>

section \<open>Data\<close>

definition IW_ENCODE_ALG_TKIP :: u8 where "IW_ENCODE_ALG_TKIP = 2"
definition IW_ENCODE_ALG_CCMP :: u8 where "IW_ENCODE_ALG_CCMP = 3"
definition UMI_NOTIFICATION_MIC_FAILURE :: u8 where "UMI_NOTIFICATION_MIC_FAILURE = 1"

record rx_nbuf =
  nb_id :: nat
  nb_directed :: bool
  nb_src_sta :: "u8 option"
  nb_rsc_buf :: "u8 list"
  nb_rsn_bits :: u8
  nb_source_is_group :: bool

datatype mic_fail_type = MIC_FAIL_PAIRWISE | MIC_FAIL_GROUP

record rx_core =
  group_cipher :: u8
  cnt_multicast_replayed :: nat
  cnt_unicast_replayed :: nat
  mic_failures :: "mic_fail_type list"
  up :: "rx_nbuf list"
  discarded :: "rx_nbuf list"

section \<open>Library functions\<close>

text \<open>\<^verbatim>\<open>memcmp\<close> on buffers of the same length; only the sign of its result is specified.\<close>

fun memcmp :: "u8 list \<Rightarrow> u8 list \<Rightarrow> int" where
  "memcmp (a # as) (b # bs) = (if a < b then -1 else if b < a then 1 else memcmp as bs)"
| "memcmp _ _ = 0"

text \<open>The value of a big endian buffer, and the eight bytes of a 64 bit value.\<close>

definition be64_to_cpu :: "u8 list \<Rightarrow> 64 word" where
  "be64_to_cpu bs = foldl (\<lambda>a b. push_bit 8 a + ucast b) 0 bs"

definition cpu_to_be64 :: "64 word \<Rightarrow> u8 list" where
  "cpu_to_be64 w = map (\<lambda>i. ucast (drop_bit (8 * i) w)) [7, 6, 5, 4, 3, 2, 1, 0]"

section \<open>Replay detection\<close>

definition get_cipher :: "rx_core \<Rightarrow> rx_nbuf \<Rightarrow> u8" where
  "get_cipher core nbuf = (if nb_directed nbuf then the (nb_src_sta nbuf) else group_cipher core)"

definition parse_and_get_replay_counter :: "rx_nbuf \<Rightarrow> u8 \<Rightarrow> u8 list option" where
  "parse_and_get_replay_counter nbuf cipher =
     (if cipher \<noteq> IW_ENCODE_ALG_TKIP \<and> cipher \<noteq> IW_ENCODE_ALG_CCMP then None
      else let b = (\<lambda>i. nb_rsc_buf nbuf ! i) in
        Some ([b 7, b 6, b 5, b 4] @ (if cipher = IW_ENCODE_ALG_TKIP then [b 0, b 2] else [b 1, b 0])))"

definition rc_add_frags :: "u8 list \<Rightarrow> u8 \<Rightarrow> u8 list" where
  "rc_add_frags rc nfrags =
     (if nfrags \<noteq> 0 then drop 2 (cpu_to_be64 (be64_to_cpu ([0, 0] @ rc) + ucast nfrags)) else rc)"

text \<open>The result is 0 (accepted), 1 (replay) or 2 (MIC failure), with the new counter.\<close>

definition detect_replay :: "rx_core \<Rightarrow> rx_nbuf \<Rightarrow> u8 list \<Rightarrow> rx_core \<times> u8 list \<times> nat" where
  "detect_replay core nbuf last_rc =
     (let cipher = get_cipher core nbuf in
      case parse_and_get_replay_counter nbuf cipher of
        None \<Rightarrow> (core, last_rc, 0)
      | Some rc \<Rightarrow>
          if memcmp rc last_rc \<le> 0 then
            (if nb_source_is_group nbuf then core\<lparr>cnt_multicast_replayed := cnt_multicast_replayed core + 1\<rparr>
             else core\<lparr>cnt_unicast_replayed := cnt_unicast_replayed core + 1\<rparr>, last_rc, 1)
          else if and (nb_rsn_bits nbuf) UMI_NOTIFICATION_MIC_FAILURE \<noteq> 0 then
            (if cipher = IW_ENCODE_ALG_TKIP
             then core\<lparr>mic_failures := (if nb_directed nbuf then MIC_FAIL_PAIRWISE else MIC_FAIL_GROUP) # mic_failures core\<rparr>
             else core, last_rc, 2)
          else (core, rc_add_frags rc (drop_bit 4 (and (nb_rsn_bits nbuf) 0xF0)), 0))"

text \<open>A frame from an unknown station is not checked.\<close>

definition mtlk_detect_replay_or_sendup :: "rx_core \<Rightarrow> rx_nbuf \<Rightarrow> u8 list \<Rightarrow> rx_core \<times> u8 list \<times> nat" where
  "mtlk_detect_replay_or_sendup core nbuf rsn =
     (let (core1, rsn1, res) = (if nb_src_sta nbuf \<noteq> None then detect_replay core nbuf rsn else (core, rsn, 0))
      in if res \<noteq> 0 then (core1\<lparr>discarded := discarded core1 @ [nbuf]\<rparr>, rsn1, res)
         else (core1\<lparr>up := up core1 @ [nbuf]\<rparr>, rsn1, res))"

section \<open>Counters as numbers\<close>

definition rc_val :: "u8 list \<Rightarrow> nat" where
  "rc_val rc = foldl (\<lambda>a b. 256 * a + unat b) 0 rc"

lemma unat_u8: "unat (b :: u8) < 256"
proof -
  have "unat b < 2 ^ 8" using unsigned_less [of b] by (simp only: len_num1 len_num0 len_bit0 mult_1_right) simp
  then show ?thesis by simp
qed

lemma unat_u8_64: "unat (ucast (b :: u8) :: 64 word) = unat b"
  using unat_u8 [of b] by (simp add: unsigned_ucast_eq take_bit_nat_eq_self)

lemma foldl_be: "foldl (\<lambda>a b. 256 * a + unat b) x bs = 256 ^ length bs * x + foldl (\<lambda>a b. 256 * a + unat (b :: u8)) 0 bs"
proof (induction bs arbitrary: x)
  case (Cons b bs)
  show ?case using Cons [of "256 * x + unat b"] Cons [of "unat b"] by (simp add: algebra_simps)
qed simp

lemma rc_val_Cons: "rc_val (b # bs) = 256 ^ length bs * unat b + rc_val bs"
  unfolding rc_val_def using foldl_be [of "unat b" bs] by simp

lemma rc_val_Nil [simp]: "rc_val [] = 0"
  by (simp add: rc_val_def)

lemma rc_val_less: "rc_val bs < 256 ^ length bs"
proof (induction bs)
  case (Cons b bs)
  have "256 ^ length bs * unat b \<le> 256 ^ length bs * 255" using unat_u8 [of b] by (intro mult_le_mono2) simp
  then show ?case using Cons unfolding rc_val_Cons length_Cons power_Suc by linarith
qed simp

text \<open>Comparing byte by byte is comparing the numbers.\<close>

lemma memcmp_val:
  assumes "length as = length bs"
  shows "memcmp as bs \<le> 0 \<longleftrightarrow> rc_val as \<le> rc_val bs" "memcmp as bs = 0 \<longleftrightarrow> rc_val as = rc_val bs"
proof -
  have "(memcmp as bs \<le> 0 \<longleftrightarrow> rc_val as \<le> rc_val bs) \<and> (memcmp as bs = 0 \<longleftrightarrow> rc_val as = rc_val bs)"
    using assms
  proof (induction as bs rule: list_induct2)
    case (Cons a as b bs)
    let ?n = "256 ^ length bs :: nat"
    have l: "rc_val as < ?n" "rc_val bs < ?n" using rc_val_less [of as] rc_val_less [of bs] Cons.hyps by simp_all
    have less: "?n * x + u < ?n * y + v" if "x < y" "u < ?n" for x y u v :: nat
    proof -
      have "?n * x + ?n \<le> ?n * y" using that(1) by (metis Suc_leI mult_Suc_right add.commute mult_le_mono2)
      then show ?thesis using that(2) by simp
    qed
    consider "a < b" | "b < a" | "a = b" by fastforce
    then show ?case
    proof cases
      case 1
      then have "unat a < unat b" by (simp add: word_less_nat_alt)
      then show ?thesis using 1 less [of "unat a" "unat b" "rc_val as" "rc_val bs"] l Cons.hyps by (simp add: rc_val_Cons)
    next
      case 2
      then have "unat b < unat a" by (simp add: word_less_nat_alt)
      then show ?thesis using 2 less [of "unat b" "unat a" "rc_val bs" "rc_val as"] l Cons.hyps by (auto simp: rc_val_Cons)
    next
      case 3
      then show ?thesis using Cons by (simp add: rc_val_Cons)
    qed
  qed simp
  then show "memcmp as bs \<le> 0 \<longleftrightarrow> rc_val as \<le> rc_val bs" "memcmp as bs = 0 \<longleftrightarrow> rc_val as = rc_val bs" by simp_all
qed

section \<open>Byte order\<close>

lemma rc_val_snoc: "rc_val (bs @ [b]) = 256 * rc_val bs + unat b"
  by (simp add: rc_val_def)

lemma unat_shift_byte:
  assumes "256 * unat (a :: 64 word) + unat (b :: u8) < 2 ^ 64"
  shows "unat (push_bit 8 a + ucast b) = 256 * unat a + unat b"
proof -
  have "unat (push_bit 8 a) = 256 * unat a"
    unfolding unsigned_push_bit_eq by (subst take_bit_nat_eq_self) (use assms in \<open>simp_all add: push_bit_eq_mult\<close>)
  moreover have "unat (ucast b :: 64 word) = unat b" by (rule unat_u8_64)
  ultimately show ?thesis using assms by (subst unat_add_lem [THEN iffD1]) simp_all
qed

lemma be64_val: "length bs \<le> 8 \<Longrightarrow> unat (be64_to_cpu bs) = rc_val bs"
proof (induction bs rule: rev_induct)
  case Nil
  then show ?case by (simp add: be64_to_cpu_def)
next
  case (snoc b bs)
  have "rc_val (bs @ [b]) < 256 ^ length (bs @ [b])" by (rule rc_val_less)
  also have "\<dots> \<le> 256 ^ 8" by (rule power_increasing) (use snoc.prems in simp_all)
  finally have lt: "256 * rc_val bs + unat b < 2 ^ 64" by (simp add: rc_val_snoc)
  have IH: "unat (be64_to_cpu bs) = rc_val bs" using snoc by simp
  have "be64_to_cpu (bs @ [b]) = push_bit 8 (be64_to_cpu bs) + ucast b" by (simp add: be64_to_cpu_def)
  then show ?case using unat_shift_byte [of "be64_to_cpu bs" b] lt IH by (simp add: rc_val_snoc)
qed

lemma unat_byte: "unat (ucast (drop_bit (8 * i) (w :: 64 word)) :: u8) = unat w div 256 ^ i mod 256"
proof -
  have "unat (drop_bit (8 * i) w) = unat w div 256 ^ i" unfolding unat_drop_bit_eq by (simp add: drop_bit_eq_div power_mult)
  then show ?thesis unfolding unsigned_ucast_eq by (simp add: take_bit_eq_mod)
qed

lemma byte_split: "(n :: nat) mod 256 ^ Suc k = 256 ^ k * (n div 256 ^ k mod 256) + n mod 256 ^ k"
  using mod_mult2_eq [of n "256 ^ k" 256] by (simp add: mult.commute)

lemma rc_val_bytes: "rc_val (map (\<lambda>i. ucast (drop_bit (8 * i) (w :: 64 word))) (rev [0..<k])) = unat w mod 256 ^ k"
proof (induction k)
  case (Suc k)
  then show ?case using byte_split [of "unat w" k] by (simp add: rc_val_Cons unat_byte)
qed simp

lemma rc_val_low_bytes: "rc_val (drop 2 (cpu_to_be64 w)) = unat w mod 2 ^ 48"
proof -
  have "drop 2 (cpu_to_be64 w) = map (\<lambda>i. ucast (drop_bit (8 * i) w)) (rev [0..<6])"
    by (simp add: cpu_to_be64_def upt_rec)
  then show ?thesis using rc_val_bytes [of w 6] by simp
qed

text \<open>Adding the fragments is addition modulo \<open>2 ^ 48\<close>.\<close>

lemma rc_add_frags_val:
  assumes "length rc = 6"
  shows "length (rc_add_frags rc n) = 6 \<and> rc_val (rc_add_frags rc n) = (rc_val rc + unat n) mod 2 ^ 48"
proof -
  have v: "rc_val rc < 2 ^ 48" using rc_val_less [of rc] assms by simp
  have b: "unat (be64_to_cpu ([0, 0] @ rc)) = rc_val rc" using be64_val [of "[0, 0] @ rc"] assms by (simp add: rc_val_Cons)
  have n: "unat (ucast n :: 64 word) = unat n" by (rule unat_u8_64)
  have "unat n < 256" by (rule unat_u8)
  then have "unat (be64_to_cpu ([0, 0] @ rc) + ucast n) = rc_val rc + unat n"
    using b n v by (subst unat_add_lem [THEN iffD1]) simp_all
  then show ?thesis using assms v rc_val_low_bytes by (simp add: rc_add_frags_def) (simp add: cpu_to_be64_def)
qed

section \<open>Sequences of frames\<close>

definition rx_step :: "rx_core \<times> u8 list \<Rightarrow> rx_nbuf \<Rightarrow> rx_core \<times> u8 list" where
  "rx_step st f = (let (core, rsn, _) = mtlk_detect_replay_or_sendup (fst st) f (snd st) in (core, rsn))"

text \<open>
  A protected frame of a known station; its counter and its number of fragments. Nothing in the
  code changes the group cipher, so the counter of a frame does not depend on the point in time.
\<close>

definition protected :: "u8 \<Rightarrow> rx_nbuf \<Rightarrow> bool" where
  "protected g f \<longleftrightarrow> (\<exists>c. nb_src_sta f = Some c \<and>
     (if nb_directed f then c else g) \<in> {IW_ENCODE_ALG_TKIP, IW_ENCODE_ALG_CCMP})"

definition pn :: "u8 \<Rightarrow> rx_nbuf \<Rightarrow> nat" where
  "pn g f = rc_val (the (parse_and_get_replay_counter f (if nb_directed f then the (nb_src_sta f) else g)))"

definition nfrags :: "rx_nbuf \<Rightarrow> nat" where
  "nfrags f = unat (drop_bit 4 (and (nb_rsn_bits f) 0xF0))"

definition mic_ok :: "rx_nbuf \<Rightarrow> bool" where
  "mic_ok f \<longleftrightarrow> and (nb_rsn_bits f) UMI_NOTIFICATION_MIC_FAILURE = 0"

lemma nfrags_le: "nfrags f \<le> 15"
proof -
  have "nfrags f = unat (and (nb_rsn_bits f) 0xF0) div 16"
    unfolding nfrags_def unat_drop_bit_eq by (simp add: drop_bit_eq_div)
  then show ?thesis using unat_u8 [of "and (nb_rsn_bits f) 0xF0"] by simp
qed

lemma protected_rc:
  assumes "protected (group_cipher core) f"
  obtains rc where "parse_and_get_replay_counter f (get_cipher core f) = Some rc" "length rc = 6"
    "pn (group_cipher core) f = rc_val rc" "nb_src_sta f \<noteq> None"
proof -
  let ?c = "get_cipher core f"
  have c: "?c = IW_ENCODE_ALG_TKIP \<or> ?c = IW_ENCODE_ALG_CCMP" and s: "nb_src_sta f \<noteq> None"
    using assms by (auto simp: protected_def get_cipher_def)
  have p: "pn (group_cipher core) f = rc_val (the (parse_and_get_replay_counter f ?c))" by (simp add: pn_def get_cipher_def)
  from c have "\<exists>rc. parse_and_get_replay_counter f ?c = Some rc \<and> length rc = 6"
    by (auto simp: parse_and_get_replay_counter_def Let_def)
  then show thesis using that p s by auto
qed

text \<open>One protected frame, in terms of numbers.\<close>

lemma sendup_protected:
  assumes p: "protected (group_cipher core) f" and l: "length rsn = 6"
    and r: "mtlk_detect_replay_or_sendup core f rsn = (core', rsn', res)"
  shows "length rsn' = 6 \<and> group_cipher core' = group_cipher core \<and>
    (if pn (group_cipher core) f \<le> rc_val rsn then res = 1 \<and> rsn' = rsn \<and> up core' = up core \<and> discarded core' = discarded core @ [f]
     else if \<not> mic_ok f then res = 2 \<and> rsn' = rsn \<and> up core' = up core \<and> discarded core' = discarded core @ [f]
     else res = 0 \<and> rc_val rsn' = (pn (group_cipher core) f + nfrags f) mod 2 ^ 48 \<and> up core' = up core @ [f] \<and>
       discarded core' = discarded core)"
proof -
  obtain rc where rc: "parse_and_get_replay_counter f (get_cipher core f) = Some rc" "length rc = 6"
    "pn (group_cipher core) f = rc_val rc" "nb_src_sta f \<noteq> None" by (rule protected_rc [OF p])
  have c: "memcmp rc rsn \<le> 0 \<longleftrightarrow> rc_val rc \<le> rc_val rsn" using memcmp_val(1) [of rc rsn] rc(2) l by simp
  note A = rc_add_frags_val [OF rc(2), of "drop_bit 4 (and (nb_rsn_bits f) 0xF0)"]
  show ?thesis
    using r l rc c A unfolding mtlk_detect_replay_or_sendup_def detect_replay_def nfrags_def [symmetric] mic_ok_def
    by (auto simp: Let_def split: if_splits)
qed

lemma rx_step_protected:
  assumes "protected (group_cipher core) f" "length rsn = 6" "rx_step (core, rsn) f = (core', rsn')"
    "pn (group_cipher core) f + 15 < 2 ^ 48"
  shows "length rsn' = 6 \<and> group_cipher core' = group_cipher core \<and>
    (if pn (group_cipher core) f \<le> rc_val rsn \<or> \<not> mic_ok f then rsn' = rsn \<and> up core' = up core
     else rc_val rsn' = pn (group_cipher core) f + nfrags f \<and> up core' = up core @ [f])"
proof -
  obtain res where r: "mtlk_detect_replay_or_sendup core f rsn = (core', rsn', res)"
    using assms(3) by (auto simp: rx_step_def split: prod.splits)
  have "(pn (group_cipher core) f + nfrags f) mod 2 ^ 48 = pn (group_cipher core) f + nfrags f"
    using assms(4) nfrags_le [of f] by simp
  then show ?thesis using sendup_protected [OF assms(1,2) r] by (auto split: if_splits)
qed

lemma rx_run_increasing:
  assumes "\<forall>f\<in>set fs. protected (group_cipher core) f \<and> pn (group_cipher core) f + 15 < 2 ^ 48" "length rsn = 6"
    "foldl rx_step (core, rsn) fs = (core', rsn')"
  shows "\<exists>new. up core' = up core @ new \<and> sorted_wrt (<) (map (pn (group_cipher core)) new) \<and>
    (\<forall>f\<in>set new. f \<in> set fs \<and> rc_val rsn < pn (group_cipher core) f)"
  using assms
proof (induction fs arbitrary: core rsn)
  case Nil
  then show ?case by simp
next
  case (Cons f fs)
  let ?g = "group_cipher core"
  obtain c1 r1 where s: "rx_step (core, rsn) f = (c1, r1)" by fastforce
  have S: "length r1 = 6 \<and> group_cipher c1 = ?g \<and>
      (if pn ?g f \<le> rc_val rsn \<or> \<not> mic_ok f then r1 = rsn \<and> up c1 = up core
       else rc_val r1 = pn ?g f + nfrags f \<and> up c1 = up core @ [f])"
    using rx_step_protected [OF _ Cons.prems(2) s] Cons.prems(1) by simp
  have run: "foldl rx_step (c1, r1) fs = (core', rsn')" using Cons.prems(3) s by simp
  have pre: "\<forall>f\<in>set fs. protected (group_cipher c1) f \<and> pn (group_cipher c1) f + 15 < 2 ^ 48" using Cons.prems(1) S by simp
  from Cons.IH [OF pre _ run] S obtain new where new: "up core' = up c1 @ new" "sorted_wrt (<) (map (pn ?g) new)"
    "\<forall>h\<in>set new. h \<in> set fs \<and> rc_val r1 < pn ?g h" by auto
  show ?case
  proof (cases "pn ?g f \<le> rc_val rsn \<or> \<not> mic_ok f")
    case True
    then show ?thesis using S new by (intro exI [of _ new]) auto
  next
    case False
    then have "rc_val r1 = pn ?g f + nfrags f" "up c1 = up core @ [f]" using S by simp_all
    then show ?thesis using False new by (intro exI [of _ "f # new"]) fastforce
  qed
qed

section \<open>Properties\<close>

text \<open>
  C18: No replayed frame is accepted. For any sequence of protected frames checked against one
  counter, the packet numbers of the frames handed up are strictly increasing and above the
  initial counter, so no packet number is accepted twice. Packet numbers are assumed to stay 15
  below the end of their range, where keys have to be renewed.
\<close>

theorem replay_accepts_each_pn_once:
  assumes "\<forall>f\<in>set fs. protected (group_cipher core) f \<and> pn (group_cipher core) f + 15 < 2 ^ 48" "length rsn = 6"
    and "foldl rx_step (core, rsn) fs = (core', rsn')" "up core = []"
  shows "sorted_wrt (<) (map (pn (group_cipher core)) (up core')) \<and> distinct (map (pn (group_cipher core)) (up core')) \<and>
    (\<forall>f\<in>set (up core'). f \<in> set fs \<and> rc_val rsn < pn (group_cipher core) f)"
  using rx_run_increasing [OF assms(1-3)] assms(4) by (auto simp: strict_sorted_iff)

definition demo_rx :: "nat \<Rightarrow> u8 \<Rightarrow> u8 \<Rightarrow> rx_nbuf" where
  "demo_rx i n rsn = \<lparr>nb_id = i, nb_directed = True, nb_src_sta = Some IW_ENCODE_ALG_CCMP,
     nb_rsc_buf = [n, 0, 0, 0x20, 0, 0, 0, 0], nb_rsn_bits = rsn, nb_source_is_group = False\<rparr>"

definition demo_core :: rx_core where
  "demo_core = \<lparr>group_cipher = 3, cnt_multicast_replayed = 0, cnt_unicast_replayed = 0, mic_failures = [], up = [], discarded = []\<rparr>"

lemma demo_rx_simps:
  "protected g (demo_rx i n r)" "pn g (demo_rx i n r) = unat n" "mic_ok (demo_rx i n r) \<longleftrightarrow> and r 1 = 0"
  "nfrags (demo_rx i n r) = unat (drop_bit 4 (and r 0xF0))"
  by (simp_all add: protected_def pn_def demo_rx_def parse_and_get_replay_counter_def IW_ENCODE_ALG_CCMP_def
      IW_ENCODE_ALG_TKIP_def rc_val_def mic_ok_def UMI_NOTIFICATION_MIC_FAILURE_def nfrags_def)

theorem replay_accepts_each_pn_once_witness:
  "\<exists>c r. foldl rx_step (demo_core, replicate 6 0) [demo_rx 1 5 0, demo_rx 2 4 0, demo_rx 3 5 0, demo_rx 4 9 0] = (c, r) \<and>
    sorted_wrt (<) (map (pn 3) (up c))"
proof -
  let ?fs = "[demo_rx 1 5 0, demo_rx 2 4 0, demo_rx 3 5 0, demo_rx 4 9 0]"
  obtain c r where e: "foldl rx_step (demo_core, replicate 6 0) ?fs = (c, r)" by fastforce
  have "sorted_wrt (<) (map (pn (group_cipher demo_core)) (up c))"
    using replay_accepts_each_pn_once [OF _ _ e] by (simp add: demo_rx_simps) (simp add: demo_core_def)
  then show ?thesis using e by (auto simp: demo_core_def)
qed

text \<open>
  What one frame does. The byte-wise comparison decides as the comparison of the packet
  numbers: a number not above the last one is a replay, a fresh one with a MIC failure is
  discarded without touching the counter, any other frame is handed up and the counter becomes
  its packet number plus the fragment field, modulo \<open>2 ^ 48\<close>.
\<close>

lemma replay_decision:
  assumes "protected (group_cipher core) f" "length rsn = 6"
    and "mtlk_detect_replay_or_sendup core f rsn = (core', rsn', res)"
  shows "if pn (group_cipher core) f \<le> rc_val rsn
      then res = 1 \<and> rsn' = rsn \<and> up core' = up core \<and> discarded core' = discarded core @ [f]
      else if \<not> mic_ok f then res = 2 \<and> rsn' = rsn \<and> up core' = up core \<and> discarded core' = discarded core @ [f]
      else res = 0 \<and> rc_val rsn' = (pn (group_cipher core) f + nfrags f) mod 2 ^ 48 \<and>
        up core' = up core @ [f] \<and> discarded core' = discarded core"
  using sendup_protected [OF assms] by simp

lemma rc_val_zero: "rc_val (replicate n 0) = 0"
  by (induction n) (simp_all add: rc_val_Cons)


text \<open>Fresh frames in order are all handed up; the client of the reordering relies on this.\<close>

lemma rx_run_passes:
  assumes "\<forall>f\<in>set fs. protected (group_cipher core) f \<and> mic_ok f \<and> pn (group_cipher core) f + 15 < 2 ^ 48 \<and>
      rc_val rsn < pn (group_cipher core) f"
    and "sorted_wrt (\<lambda>f h. pn (group_cipher core) f + nfrags f < pn (group_cipher core) h) fs" "length rsn = 6"
  shows "up (fst (foldl rx_step (core, rsn) fs)) = up core @ fs"
  using assms
proof (induction fs arbitrary: core rsn)
  case (Cons f fs)
  let ?g = "group_cipher core"
  obtain c1 r1 where s: "rx_step (core, rsn) f = (c1, r1)" by fastforce
  have f: "protected ?g f" "mic_ok f" "pn ?g f + 15 < 2 ^ 48" "\<not> pn ?g f \<le> rc_val rsn" using Cons.prems(1) by auto
  from rx_step_protected [OF f(1) Cons.prems(3) s f(3)] f
  have S: "length r1 = 6" "group_cipher c1 = ?g" "rc_val r1 = pn ?g f + nfrags f" "up c1 = up core @ [f]" by simp_all
  have "up (fst (foldl rx_step (c1, r1) fs)) = up c1 @ fs"
    by (rule Cons.IH) (use Cons.prems S in auto)
  then show ?case using s S by simp
qed simp

end
