(* ===== verification/Flctrl.thy ===== *)
theory Flctrl
  imports Wave_Prelude
begin

text \<open>
  Flow control (\<^verbatim>\<open>wireless/driver/shared/mtlkflctrl.c\<close>): up to 32 clients register for a bit of a
  mask and stop or start the data flow with it. The calls of the two functions of the API are
  recorded in \<open>fc_calls\<close>, newest first. The 32 bits are a \<open>u32\<close>; \<open>bits\<close> reads it as a set.
\<close>

section \<open>Model\<close>

datatype fc_call = StartData | StopData

record mtlk_flctrl_t =
  stop_requests_mask :: u32
  available_bits :: u32
  fc_calls :: "fc_call list"

definition mtlk_flctrl_init :: mtlk_flctrl_t where
  "mtlk_flctrl_init = \<lparr>stop_requests_mask = 0, available_bits = 0xFFFFFFFF, fc_calls = []\<rparr>"

text \<open>The loop of \<^verbatim>\<open>mtlk_flctrl_register\<close>; the last argument counts the remaining turns.\<close>

fun flctrl_find :: "mtlk_flctrl_t \<Rightarrow> u32 \<Rightarrow> nat \<Rightarrow> (mtlk_flctrl_t \<times> u32) option" where
  "flctrl_find s msk 0 = None"
| "flctrl_find s msk (Suc n) =
     (if and (available_bits s) msk \<noteq> 0
      then Some (s\<lparr>available_bits := and (available_bits s) (not msk)\<rparr>, msk)
      else flctrl_find s (push_bit 1 msk) n)"

definition mtlk_flctrl_register :: "mtlk_flctrl_t \<Rightarrow> mtlk_flctrl_t \<times> u32 \<times> mtlk_error_t" where
  "mtlk_flctrl_register s =
     (case flctrl_find s 1 32 of
        Some (s', i) \<Rightarrow> (s', i, MTLK_ERR_OK)
      | None \<Rightarrow> (s, 0, MTLK_ERR_UNKNOWN))"

definition mtlk_flctrl_stop_data :: "mtlk_flctrl_t \<Rightarrow> u32 \<Rightarrow> mtlk_flctrl_t" where
  "mtlk_flctrl_stop_data s i =
     (let s1 = (if stop_requests_mask s = 0 then s\<lparr>fc_calls := StopData # fc_calls s\<rparr> else s)
      in s1\<lparr>stop_requests_mask := or (stop_requests_mask s1) i\<rparr>)"

definition mtlk_flctrl_start_data :: "mtlk_flctrl_t \<Rightarrow> u32 \<Rightarrow> mtlk_flctrl_t" where
  "mtlk_flctrl_start_data s i =
     (let s1 = s\<lparr>stop_requests_mask := and (stop_requests_mask s) (not i)\<rparr>
      in if stop_requests_mask s1 = 0 then s1\<lparr>fc_calls := StartData # fc_calls s1\<rparr> else s1)"

definition mtlk_flctrl_unregister :: "mtlk_flctrl_t \<Rightarrow> u32 \<Rightarrow> mtlk_flctrl_t" where
  "mtlk_flctrl_unregister s i = s\<lparr>available_bits := or (available_bits s) i\<rparr>"

definition mtlk_flctrl_is_data_flowing :: "mtlk_flctrl_t \<Rightarrow> bool" where
  "mtlk_flctrl_is_data_flowing s \<longleftrightarrow> stop_requests_mask s = 0"

section \<open>Masks as sets\<close>

definition bits :: "u32 \<Rightarrow> nat set" where
  "bits w = {i. bit w i}"

lemma bits_less: "i \<in> bits w \<Longrightarrow> i < 32"
  using bit_imp_le_length [of w i] by (simp add: bits_def)

lemma bits_eq_iff: "bits v = bits w \<longleftrightarrow> v = w"
proof
  assume "bits v = bits w"
  then have "bit v i = bit w i" for i by (auto simp: bits_def set_eq_iff)
  then show "v = w" by (intro bit_eqI) simp
qed simp

lemma bits_simps:
  "bits 0 = {}" "bits 0xFFFFFFFF = {..<32}" "bits (or v w) = bits v \<union> bits w" "bits (and v (not w)) = bits v - bits w"
  "bits w = {} \<longleftrightarrow> w = 0"
proof -
  show z: "bits 0 = {}" by (simp add: bits_def)
  have "(0xFFFFFFFF :: u32) = mask 32" by (simp add: mask_eq_exp_minus_1)
  then have "bits 0xFFFFFFFF = {i. bit (mask 32 :: u32) i}" by (simp add: bits_def)
  then show "bits 0xFFFFFFFF = {..<32}" by (auto simp: bit_mask_iff)
  show "bits (or v w) = bits v \<union> bits w" by (auto simp: bits_def bit_or_iff)
  show "bits (and v (not w)) = bits v - bits w" by (auto simp: bits_def bit_and_iff bit_not_iff dest: bit_imp_le_length)
  show "bits w = {} \<longleftrightarrow> w = 0" using bits_eq_iff [of w 0] z by simp
qed

lemma bits_exp: "i < 32 \<Longrightarrow> bits (2 ^ i) = {i}"
  by (auto simp: bits_def bit_exp_iff)

lemma and_exp_eq_0: "i < 32 \<Longrightarrow> and w (2 ^ i) = 0 \<longleftrightarrow> i \<notin> bits (w :: u32)"
  by (metis and_exp_eq_0_iff_not_bit bits_def mem_Collect_eq)

text \<open>Registration gives the lowest free bit.\<close>

lemma flctrl_find_least:
  assumes "k + n = 32" "\<forall>j<k. j \<notin> bits (available_bits s)"
  shows "flctrl_find s (2 ^ k) n =
    (if bits (available_bits s) = {} then None
     else let i = Min (bits (available_bits s)) in
       Some (s\<lparr>available_bits := and (available_bits s) (not (2 ^ i))\<rparr>, 2 ^ i))"
  using assms
proof (induction n arbitrary: k)
  case 0
  then have "bits (available_bits s) = {}" using bits_less by fastforce
  then show ?case by simp
next
  case (Suc n)
  then have k: "k < 32" by simp
  have fin: "finite (bits (available_bits s))" by (rule finite_subset [of _ "{..<32}"]) (auto dest: bits_less)
  show ?case
  proof (cases "k \<in> bits (available_bits s)")
    case True
    then have "Min (bits (available_bits s)) = k"
      using Suc.prems(2) fin by (intro Min_eqI) (auto simp: not_less [symmetric])
    then show ?thesis using True and_exp_eq_0 [OF k, of "available_bits s"] by (auto simp: Let_def)
  next
    case False
    then have "\<forall>j<Suc k. j \<notin> bits (available_bits s)" using Suc.prems(2) by (auto simp: less_Suc_eq)
    moreover have "push_bit 1 (2 ^ k) = (2 ^ Suc k :: u32)" by (simp add: push_bit_eq_mult mult.commute)
    ultimately show ?thesis using Suc.IH [of "Suc k"] Suc.prems(1) False and_exp_eq_0 [OF k, of "available_bits s"] by (simp add: mult.commute)
  qed
qed

section \<open>Runs\<close>

datatype fc_event = FcRegister | FcStop u32 | FcStart u32 | FcUnregister u32

fun fc_step :: "mtlk_flctrl_t \<Rightarrow> fc_event \<Rightarrow> mtlk_flctrl_t" where
  "fc_step s FcRegister = fst (mtlk_flctrl_register s)"
| "fc_step s (FcStop i) = mtlk_flctrl_stop_data s i"
| "fc_step s (FcStart i) = mtlk_flctrl_start_data s i"
| "fc_step s (FcUnregister i) = mtlk_flctrl_unregister s i"

text \<open>A client stops with the bit it was given, never with an empty mask.\<close>

fun fc_event_ok :: "fc_event \<Rightarrow> bool" where
  "fc_event_ok (FcStop i) = (i \<noteq> 0)"
| "fc_event_ok _ = True"

text \<open>The clients that have asked for a stop, by the events alone.\<close>

fun fc_stops :: "nat set \<Rightarrow> fc_event \<Rightarrow> nat set" where
  "fc_stops S (FcStop i) = S \<union> bits i"
| "fc_stops S (FcStart i) = S - bits i"
| "fc_stops S _ = S"

text \<open>What the data path was told last, and that it is never told to stop twice in a row.\<close>

definition told_to_stop :: "fc_call list \<Rightarrow> bool" where
  "told_to_stop cs \<longleftrightarrow> (case cs of StopData # _ \<Rightarrow> True | _ \<Rightarrow> False)"

fun no_double_stop :: "fc_call list \<Rightarrow> bool" where
  "no_double_stop (StopData # cs) = (\<not> told_to_stop cs \<and> no_double_stop cs)"
| "no_double_stop (StartData # cs) = no_double_stop cs"
| "no_double_stop [] = True"

definition fc_inv :: "mtlk_flctrl_t \<Rightarrow> bool" where
  "fc_inv s \<longleftrightarrow> (told_to_stop (fc_calls s) \<longleftrightarrow> stop_requests_mask s \<noteq> 0) \<and> no_double_stop (fc_calls s)"

lemma register_keeps:
  "stop_requests_mask (fst (mtlk_flctrl_register s)) = stop_requests_mask s" "fc_calls (fst (mtlk_flctrl_register s)) = fc_calls s"
proof -
  have "stop_requests_mask s' = stop_requests_mask s \<and> fc_calls s' = fc_calls s" if "flctrl_find s m n = Some (s', i)" for m n s' i
    using that by (induction n arbitrary: m) (auto split: if_splits)
  then show "stop_requests_mask (fst (mtlk_flctrl_register s)) = stop_requests_mask s"
    "fc_calls (fst (mtlk_flctrl_register s)) = fc_calls s"
    by (auto simp: mtlk_flctrl_register_def split: option.split)
qed

lemma or_eq_0: "or (a :: u32) b = 0 \<longleftrightarrow> a = 0 \<and> b = 0"
  using bits_simps(3) [of a b] by (simp flip: bits_simps(5))

interpretation flctrl: step_system fc_step "\<lambda>_. fc_event_ok" fc_inv
proof
  fix s e assume "fc_inv s" "fc_event_ok e"
  then show "fc_inv (fc_step s e)"
    by (cases e) (auto simp: fc_inv_def told_to_stop_def register_keeps mtlk_flctrl_stop_data_def mtlk_flctrl_start_data_def
        mtlk_flctrl_unregister_def Let_def or_eq_0 and.commute)
qed

lemma start_mask: "stop_requests_mask (mtlk_flctrl_start_data s i) = and (stop_requests_mask s) (not i)"
  by (simp add: mtlk_flctrl_start_data_def Let_def)

lemma fc_stops_step: "bits (stop_requests_mask (fc_step s e)) = fc_stops (bits (stop_requests_mask s)) e"
  by (cases e) (simp_all add: register_keeps start_mask mtlk_flctrl_stop_data_def mtlk_flctrl_unregister_def Let_def bits_simps)

lemma fc_stops_run: "bits (stop_requests_mask (foldl fc_step s es)) = foldl fc_stops (bits (stop_requests_mask s)) es"
  by (induction es arbitrary: s) (simp_all add: fc_stops_step)

lemma fc_init_inv: "fc_inv mtlk_flctrl_init"
  by (simp add: fc_inv_def mtlk_flctrl_init_def told_to_stop_def)

section \<open>Properties\<close>

text \<open>
  C30: Data flows exactly while no client holds a stop request. After any sequence of calls the
  mask is the set of clients that stopped and did not start again, the data path was told last to
  stop exactly if that set is not empty, and it is never told to stop twice in a row.
\<close>

theorem flctrl_flow_refines_stop_set:
  assumes "flctrl.run_ok mtlk_flctrl_init es" "s = foldl fc_step mtlk_flctrl_init es"
  shows "bits (stop_requests_mask s) = foldl fc_stops {} es \<and>
    (mtlk_flctrl_is_data_flowing s \<longleftrightarrow> foldl fc_stops {} es = {}) \<and>
    (told_to_stop (fc_calls s) \<longleftrightarrow> \<not> mtlk_flctrl_is_data_flowing s) \<and> no_double_stop (fc_calls s)"
proof -
  have "fc_inv s" using flctrl.run_inv [OF fc_init_inv assms(1)] assms(2) by simp
  moreover have b: "bits (stop_requests_mask s) = foldl fc_stops {} es"
    using fc_stops_run [of mtlk_flctrl_init es] assms(2) by (simp add: mtlk_flctrl_init_def bits_simps)
  ultimately show ?thesis by (simp add: fc_inv_def mtlk_flctrl_is_data_flowing_def b [symmetric] bits_simps)
qed

theorem flctrl_flow_refines_stop_set_witness:
  "\<exists>s. s = foldl fc_step mtlk_flctrl_init [FcRegister, FcRegister, FcStop 1, FcStop 2, FcStart 1] \<and>
    told_to_stop (fc_calls s) = (\<not> mtlk_flctrl_is_data_flowing s)"
  using flctrl_flow_refines_stop_set [of "[FcRegister, FcRegister, FcStop 1, FcStop 2, FcStart 1]"] by simp

text \<open>
  Registration hands out the lowest free bit, as a mask with just this bit, and takes it away;
  with all 32 bits given out it fails and changes nothing; unregistering gives the bit back.
\<close>

lemma flctrl_register_lowest_free:
  assumes "mtlk_flctrl_register s = (s1, i, res)" "B = bits (available_bits s)"
  shows "if B = {} then res = MTLK_ERR_UNKNOWN \<and> i = 0 \<and> s1 = s
    else res = MTLK_ERR_OK \<and> i = 2 ^ Min B \<and> bits i = {Min B} \<and> bits (available_bits s1) = B - {Min B} \<and>
      mtlk_flctrl_unregister s1 i = s"
proof -
  have f: "flctrl_find s 1 32 = (if B = {} then None
      else Some (s\<lparr>available_bits := and (available_bits s) (not (2 ^ Min B))\<rparr>, 2 ^ Min B))"
    using flctrl_find_least [of 0 32 s] assms(2) by (simp add: Let_def)
  show ?thesis
  proof (cases "B = {}")
    case True
    then show ?thesis using assms f by (simp add: mtlk_flctrl_register_def)
  next
    case False
    have fin: "finite B" unfolding assms(2) by (rule finite_subset [of _ "{..<32}"]) (auto dest: bits_less)
    have m: "Min B \<in> B" using Min_in [OF fin False] .
    then have lt: "Min B < 32" using bits_less assms(2) by simp
    have e: "s1 = s\<lparr>available_bits := and (available_bits s) (not (2 ^ Min B))\<rparr>" "i = 2 ^ Min B" "res = MTLK_ERR_OK"
      using assms(1) f False by (auto simp: mtlk_flctrl_register_def)
    have b: "bits (available_bits s1) = B - {Min B}" using e bits_exp [OF lt] assms(2) by (simp add: bits_simps)
    have "bits (or (available_bits s1) i) = bits (available_bits s)"
      using b e bits_exp [OF lt] m assms(2) by (auto simp: bits_simps)
    then have "or (available_bits s1) i = available_bits s" by (simp add: bits_eq_iff)
    then have "mtlk_flctrl_unregister s1 i = s" using e by (simp add: mtlk_flctrl_unregister_def)
    then show ?thesis using False e b bits_exp [OF lt] by simp
  qed
qed

text \<open>
  Unregistering does not withdraw a stop request: the data stays stopped, whatever the other
  clients do, until some client starts with the freed bit.
\<close>

lemma unregister_keeps_stop:
  assumes "i \<in> bits (stop_requests_mask s)" "\<forall>e\<in>set es. \<forall>w. e = FcStart w \<longrightarrow> i \<notin> bits w"
  shows "\<not> mtlk_flctrl_is_data_flowing (foldl fc_step (mtlk_flctrl_unregister s (2 ^ i)) es)"
proof -
  have "i \<in> foldl fc_stops S es" if "i \<in> S" for S
    using that assms(2)
  proof (induction es arbitrary: S)
    case (Cons e es)
    then have "i \<in> fc_stops S e" by (cases e) auto
    then show ?case using Cons by simp
  qed simp
  then have "i \<in> bits (stop_requests_mask (foldl fc_step (mtlk_flctrl_unregister s (2 ^ i)) es))"
    using assms(1) fc_stops_run [of "mtlk_flctrl_unregister s (2 ^ i)" es] by (simp add: mtlk_flctrl_unregister_def)
  then show ?thesis by (auto simp: mtlk_flctrl_is_data_flowing_def bits_simps)
qed

end
