(* ===== verification/Sq.thy ===== *)
theory Sq
  imports Wave_Prelude
begin

text \<open>
  The QoS traffic shaper (\<^verbatim>\<open>wireless/driver/shared/mtlk_sq.c\<close>, \<^verbatim>\<open>mtlk_sq.h\<close> and
  \<^verbatim>\<open>wireless/driver/linux/mtlk_sq_osdep.c\<close>): per access category a list of peers, per peer and
  category a list of packets, limits on the number of queued packets and on the packets a peer
  may have in the hardware.

  \<^item> Access categories are the numbers below \<open>NTS_PRIORITIES\<close>, peers are handles. \<open>sq_lists\<close> is the
    list of peers of a category, \<open>buflist\<close> the packets of a peer.
  \<^item> Clones of a multicast packet share an extra record with a reference count; \<open>sq_extra\<close> is the
    store of these records, \<open>pk_extra\<close> the pointer in a packet.
  \<^item> The atomic counters are natural numbers with their 32-bit wrap-around written out.
  \<^item> What the hardware returns for the \<open>n\<close>-th packet offered is \<open>hw n\<close>; packets sent and packets
    freed are recorded in \<open>sq_log\<close>, oldest first.
\<close>

section \<open>Data\<close>

definition NTS_PRIORITIES :: nat where "NTS_PRIORITIES = 4"
definition AC_BK :: nat where "AC_BK = 1"
definition AC_BE :: nat where "AC_BE = 0"
definition AC_VI :: nat where "AC_VI = 2"
definition AC_VO :: nat where "AC_VO = 3"
definition AC_HIGHEST :: nat where "AC_HIGHEST = AC_VO"
definition MTLK_PACKETS_IN_MAC_DURING_PM :: nat where "MTLK_PACKETS_IN_MAC_DURING_PM = 3"

record sq_pkt =
  pk_id :: nat
  pk_urgent :: bool
  pk_vap :: nat
  pk_extra :: "nat option"

record mtlk_nbuf_priv_extra_t =
  ref_cnt :: nat
  ex_ac :: nat
  ex_front :: bool

record mtlk_sq_peer_ctx_t =
  buflist :: "nat \<Rightarrow> sq_pkt list"
  limit_cfg :: nat
  limit :: nat
  used_cnt :: nat
  ps_mode_enabled :: bool
  limit_per_ac :: "nat \<Rightarrow> nat"
  used_per_ac :: "nat \<Rightarrow> nat"
  peer_dropped :: "nat \<Rightarrow> nat"

datatype sq_out = SqSent nat nat sq_pkt | SqFreed nat nat sq_pkt

record mtlk_sq_t =
  sq_lists :: "nat \<Rightarrow> nat list"
  sq_size :: "nat \<Rightarrow> nat"
  sq_peers :: "nat \<Rightarrow> mtlk_sq_peer_ctx_t"
  sq_extra :: "nat \<Rightarrow> mtlk_nbuf_priv_extra_t option"
  global_queue_limit :: "nat \<Rightarrow> u16"
  peer_queue_limit :: "nat \<Rightarrow> u16"
  hw_tx_prohibited :: bool
  flush_in_progress :: bool
  flush_count :: nat
  pkts_limit_dropped :: "nat \<Rightarrow> nat"
  hw_calls :: nat
  sq_log :: "sq_out list"

definition upd_peer :: "nat \<Rightarrow> (mtlk_sq_peer_ctx_t \<Rightarrow> mtlk_sq_peer_ctx_t) \<Rightarrow> mtlk_sq_t \<Rightarrow> mtlk_sq_t" where
  "upd_peer p f s = s\<lparr>sq_peers := (sq_peers s)(p := f (sq_peers s p))\<rparr>"

definition set_buf :: "nat \<Rightarrow> nat \<Rightarrow> sq_pkt list \<Rightarrow> mtlk_sq_t \<Rightarrow> mtlk_sq_t" where
  "set_buf p ac ks = upd_peer p (\<lambda>x. x\<lparr>buflist := (buflist x)(ac := ks)\<rparr>)"

definition sq_buf :: "mtlk_sq_t \<Rightarrow> nat \<Rightarrow> nat \<Rightarrow> sq_pkt list" where
  "sq_buf s p ac = buflist (sq_peers s p) ac"

definition inc_size :: "nat \<Rightarrow> mtlk_sq_t \<Rightarrow> mtlk_sq_t" where
  "inc_size ac s = s\<lparr>sq_size := (sq_size s)(ac := inc32 (sq_size s ac))\<rparr>"

definition dec_size :: "nat \<Rightarrow> mtlk_sq_t \<Rightarrow> mtlk_sq_t" where
  "dec_size ac s = s\<lparr>sq_size := (sq_size s)(ac := dec32 (sq_size s ac))\<rparr>"

definition sq_out :: "sq_out \<Rightarrow> mtlk_sq_t \<Rightarrow> mtlk_sq_t" where
  "sq_out c s = s\<lparr>sq_log := sq_log s @ [c]\<rparr>"

section \<open>Shared records of clones\<close>

definition mtlk_nbuf_priv_extra_attach :: "nat \<Rightarrow> mtlk_sq_t \<Rightarrow> mtlk_sq_t" where
  "mtlk_nbuf_priv_extra_attach x s =
     s\<lparr>sq_extra := (sq_extra s)(x := map_option (\<lambda>e. e\<lparr>ref_cnt := inc32 (ref_cnt e)\<rparr>) (sq_extra s x))\<rparr>"

text \<open>The result tells whether this was the last reference; then the record is freed.\<close>

definition mtlk_nbuf_priv_extra_detach :: "nat \<Rightarrow> mtlk_sq_t \<Rightarrow> mtlk_sq_t \<times> bool" where
  "mtlk_nbuf_priv_extra_detach x s =
     (case sq_extra s x of
        None \<Rightarrow> (s, False)
      | Some e \<Rightarrow>
          if dec32 (ref_cnt e) = 0 then (s\<lparr>sq_extra := (sq_extra s)(x := None)\<rparr>, True)
          else (s\<lparr>sq_extra := (sq_extra s)(x := Some (e\<lparr>ref_cnt := dec32 (ref_cnt e)\<rparr>))\<rparr>, False))"

definition mtlk_sq_enqueue_clone_end :: "mtlk_sq_t \<Rightarrow> nat \<Rightarrow> mtlk_sq_t" where
  "mtlk_sq_enqueue_clone_end s x =
     (case sq_extra s x of
        None \<Rightarrow> s
      | Some e \<Rightarrow>
          let (s1, last_ref) = mtlk_nbuf_priv_extra_detach x s
          in if last_ref then dec_size (ex_ac e) s1 else s1)"

definition mtlk_sq_release_packet :: "mtlk_sq_t \<Rightarrow> nat \<Rightarrow> sq_pkt \<Rightarrow> mtlk_sq_t" where
  "mtlk_sq_release_packet s ac k =
     (case pk_extra k of Some x \<Rightarrow> mtlk_sq_enqueue_clone_end s x | None \<Rightarrow> dec_size ac s)"

section \<open>Peers\<close>

text \<open>\<^verbatim>\<open>mtlk_sq_init\<close> followed by the default limits of \<^verbatim>\<open>sq_init\<close>.\<close>

definition mtlk_sq_init :: mtlk_sq_t where
  "mtlk_sq_init =
     \<lparr>sq_lists = (\<lambda>_. []), sq_size = (\<lambda>_. 0),
      sq_peers = (\<lambda>_. \<lparr>buflist = (\<lambda>_. []), limit_cfg = 0, limit = 0, used_cnt = 0, ps_mode_enabled = False,
        limit_per_ac = (\<lambda>_. 0), used_per_ac = (\<lambda>_. 0), peer_dropped = (\<lambda>_. 0)\<rparr>),
      sq_extra = (\<lambda>_. None), global_queue_limit = (\<lambda>_. 0), peer_queue_limit = (\<lambda>_. 0), hw_tx_prohibited = False,
      flush_in_progress = False, flush_count = 0, pkts_limit_dropped = (\<lambda>_. 0), hw_calls = 0, sq_log = []\<rparr>"

definition sq_init :: mtlk_sq_t where
  "sq_init = mtlk_sq_init\<lparr>global_queue_limit := (\<lambda>_. 0)(0 := 800, 1 := 50, 2 := 1100, 3 := 100),
     peer_queue_limit := (\<lambda>_. 0)(0 := 600, 1 := 38, 2 := 825, 3 := 75)\<rparr>"

definition mtlk_sq_peer_ctx_init :: "mtlk_sq_t \<Rightarrow> nat \<Rightarrow> nat \<Rightarrow> mtlk_sq_t" where
  "mtlk_sq_peer_ctx_init s p lim =
     (upd_peer p (\<lambda>_. \<lparr>buflist = (\<lambda>_. []), limit_cfg = lim, limit = lim, used_cnt = 0, ps_mode_enabled = False,
        limit_per_ac = (\<lambda>_. 0), used_per_ac = (\<lambda>_. 0), peer_dropped = (\<lambda>_. 0)\<rparr>) s)
      \<lparr>sq_lists := (\<lambda>ac. if ac < NTS_PRIORITIES then p # sq_lists s ac else sq_lists s ac)\<rparr>"

text \<open>Emptying a packet list from the front.\<close>

fun sq_drain :: "mtlk_sq_t \<Rightarrow> nat \<Rightarrow> nat \<Rightarrow> sq_pkt list \<Rightarrow> mtlk_sq_t" where
  "sq_drain s p ac [] = s"
| "sq_drain s p ac (k # ks) =
     sq_drain (sq_out (SqFreed p ac k) (mtlk_sq_release_packet (set_buf p ac ks s) ac k)) p ac ks"

definition mtlk_sq_peer_ctx_cancel_all_packets :: "mtlk_sq_t \<Rightarrow> nat \<Rightarrow> mtlk_sq_t" where
  "mtlk_sq_peer_ctx_cancel_all_packets s p = foldl (\<lambda>s ac. sq_drain s p ac (sq_buf s p ac)) s [0..<NTS_PRIORITIES]"

definition mtlk_sq_peer_ctx_cleanup :: "mtlk_sq_t \<Rightarrow> nat \<Rightarrow> mtlk_sq_t" where
  "mtlk_sq_peer_ctx_cleanup s p =
     foldl (\<lambda>s ac. sq_drain (s\<lparr>sq_lists := (sq_lists s)(ac := remove1 p (sq_lists s ac))\<rparr>) p ac (sq_buf s p ac))
       s [0..<NTS_PRIORITIES]"

text \<open>The list walk of \<^verbatim>\<open>cancel_all_packets_for_vap\<close>: \<open>kept\<close> are the entries passed by, in order.\<close>

fun sq_cancel_vap :: "mtlk_sq_t \<Rightarrow> nat \<Rightarrow> nat \<Rightarrow> nat \<Rightarrow> sq_pkt list \<Rightarrow> sq_pkt list \<Rightarrow> mtlk_sq_t" where
  "sq_cancel_vap s p ac vap kept [] = s"
| "sq_cancel_vap s p ac vap kept (k # ks) =
     (if pk_vap k = vap
      then sq_cancel_vap (sq_out (SqFreed p ac k) (mtlk_sq_release_packet (set_buf p ac (kept @ ks) s) ac k)) p ac vap kept ks
      else sq_cancel_vap s p ac vap (kept @ [k]) ks)"

definition mtlk_sq_peer_ctx_cancel_all_packets_for_vap :: "mtlk_sq_t \<Rightarrow> nat \<Rightarrow> nat \<Rightarrow> mtlk_sq_t" where
  "mtlk_sq_peer_ctx_cancel_all_packets_for_vap s p vap =
     foldl (\<lambda>s ac. sq_cancel_vap s p ac vap [] (sq_buf s p ac)) s [0..<NTS_PRIORITIES]"

definition mtlk_sq_peer_ctx_on_rcvry_restore :: "mtlk_sq_t \<Rightarrow> nat \<Rightarrow> nat \<Rightarrow> mtlk_sq_t" where
  "mtlk_sq_peer_ctx_on_rcvry_restore s p lim =
     upd_peer p (\<lambda>x. x\<lparr>limit := lim, used_cnt := 0, limit_cfg := lim, limit_per_ac := (\<lambda>_. 0), used_per_ac := (\<lambda>_. 0),
       ps_mode_enabled := False\<rparr>) s"

definition mtlk_sq_set_pm_enabled :: "mtlk_sq_t \<Rightarrow> nat \<Rightarrow> bool \<Rightarrow> mtlk_sq_t" where
  "mtlk_sq_set_pm_enabled s p enabled =
     upd_peer p (\<lambda>x. x\<lparr>limit := (if enabled then min MTLK_PACKETS_IN_MAC_DURING_PM (limit_cfg x) else limit_cfg x),
       ps_mode_enabled := enabled\<rparr>) s"

definition mtlk_sq_on_tx_cfm :: "mtlk_sq_t \<Rightarrow> nat \<Rightarrow> nat \<Rightarrow> mtlk_sq_t" where
  "mtlk_sq_on_tx_cfm s p ac =
     upd_peer p (\<lambda>x. x\<lparr>used_cnt := dec32 (used_cnt x), used_per_ac := (used_per_ac x)(ac := dec32 (used_per_ac x ac))\<rparr>) s"

definition mtlk_sq_is_empty :: "mtlk_sq_t \<Rightarrow> nat \<Rightarrow> bool" where
  "mtlk_sq_is_empty s p \<longleftrightarrow> used_cnt (sq_peers s p) = 0"

section \<open>Enqueueing\<close>

definition mtlk_sq_enqueue_pkt :: "mtlk_sq_t \<Rightarrow> nat \<Rightarrow> sq_pkt \<Rightarrow> nat \<Rightarrow> bool \<Rightarrow> mtlk_sq_t \<times> mtlk_error_t" where
  "mtlk_sq_enqueue_pkt s p k ac front =
     (if \<not> front \<and> (sq_size s ac \<ge> unat (global_queue_limit s ac) \<or> length (sq_buf s p ac) \<ge> unat (peer_queue_limit s ac)) then
        (upd_peer p (\<lambda>x. x\<lparr>peer_dropped := (peer_dropped x)(ac := peer_dropped x ac + 1)\<rparr>)
           (s\<lparr>pkts_limit_dropped := (pkts_limit_dropped s)(ac := pkts_limit_dropped s ac + 1)\<rparr>), MTLK_ERR_NO_RESOURCES)
      else (set_buf p ac (if front then k # sq_buf s p ac else sq_buf s p ac @ [k]) s, MTLK_ERR_OK))"

definition mtlk_sq_switch_if_urgent :: "sq_pkt \<Rightarrow> nat \<Rightarrow> bool \<Rightarrow> nat \<times> bool" where
  "mtlk_sq_switch_if_urgent k ac front = (if pk_urgent k then (AC_HIGHEST, True) else (ac, front))"

text \<open>\<open>p\<close> is the context of the destination station, or the broadcast context without one.\<close>

definition mtlk_sq_enqueue :: "mtlk_sq_t \<Rightarrow> nat \<Rightarrow> bool \<Rightarrow> nat \<Rightarrow> sq_pkt \<Rightarrow> mtlk_sq_t \<times> mtlk_error_t" where
  "mtlk_sq_enqueue s ac front p k =
     (let (ac1, front1) = mtlk_sq_switch_if_urgent k ac front;
          (s1, res) = mtlk_sq_enqueue_pkt (inc_size ac1 s) p k ac1 front1
      in (if res \<noteq> MTLK_ERR_OK then dec_size ac1 s1 else s1, res))"

text \<open>Multicast: \<open>x\<close> is the address the allocator returns for the shared record, if any.\<close>

definition mtlk_sq_enqueue_clone_begin :: "mtlk_sq_t \<Rightarrow> nat \<Rightarrow> bool \<Rightarrow> sq_pkt \<Rightarrow> nat option \<Rightarrow> mtlk_sq_t \<times> mtlk_error_t" where
  "mtlk_sq_enqueue_clone_begin s ac front k x =
     (let (ac1, front1) = mtlk_sq_switch_if_urgent k ac front in
      case x of
        None \<Rightarrow> (s, MTLK_ERR_NO_MEM)
      | Some a \<Rightarrow>
          (inc_size ac1 (s\<lparr>sq_extra := (sq_extra s)(a := Some \<lparr>ref_cnt = 1, ex_ac = ac1, ex_front = front1\<rparr>)\<rparr>), MTLK_ERR_OK))"

definition mtlk_sq_enqueue_clone :: "mtlk_sq_t \<Rightarrow> sq_pkt \<Rightarrow> nat \<Rightarrow> bool \<Rightarrow> nat \<Rightarrow> mtlk_sq_t \<times> mtlk_error_t" where
  "mtlk_sq_enqueue_clone s k x clone_ok p =
     (if \<not> clone_ok then (s, MTLK_ERR_NO_MEM)
      else case sq_extra s x of
        None \<Rightarrow> (s, MTLK_ERR_UNKNOWN)
      | Some e \<Rightarrow>
          let c = k\<lparr>pk_urgent := False, pk_extra := Some x\<rparr>;
              (s2, res) = mtlk_sq_enqueue_pkt (mtlk_nbuf_priv_extra_attach x s) p c (ex_ac e) (ex_front e)
          in (if res \<noteq> MTLK_ERR_OK then sq_out (SqFreed p (ex_ac e) c) (fst (mtlk_nbuf_priv_extra_detach x s2)) else s2, res))"

text \<open>The transmission to a multicast group in \<^verbatim>\<open>mtlk_mc_transmit\<close>, destinations with the outcome of cloning.\<close>

definition mc_transmit_group :: "mtlk_sq_t \<Rightarrow> nat \<Rightarrow> sq_pkt \<Rightarrow> nat option \<Rightarrow> (nat \<times> bool) list \<Rightarrow> mtlk_sq_t" where
  "mc_transmit_group s ac k x dsts =
     (case mtlk_sq_enqueue_clone_begin s ac False k x of
        (s1, res) \<Rightarrow>
          if res \<noteq> MTLK_ERR_OK then s1
          else let a = the x in
            mtlk_sq_enqueue_clone_end (foldl (\<lambda>s (p, ok). fst (mtlk_sq_enqueue_clone s k a ok p)) s1 dsts) a)"

section \<open>Sending\<close>

definition sq_blocked :: "mtlk_sq_t \<Rightarrow> nat \<Rightarrow> nat \<Rightarrow> bool" where
  "sq_blocked s p ac =
     (let x = sq_peers s p in
      if ps_mode_enabled x \<and> limit_per_ac x ac \<noteq> 0 then used_per_ac x ac \<ge> limit_per_ac x ac else used_cnt x \<ge> limit x)"

text \<open>One turn for one peer: \<open>None\<close> goes on to the next peer, the flag says whether a packet was taken.\<close>

definition sq_serve :: "(nat \<Rightarrow> mtlk_error_t) \<Rightarrow> mtlk_sq_t \<Rightarrow> nat \<Rightarrow> nat \<Rightarrow> mtlk_sq_t \<times> bool \<times> mtlk_error_t option" where
  "sq_serve hw s ac p =
     (case sq_buf s p ac of
        [] \<Rightarrow> (s, False, None)
      | k # ks \<Rightarrow>
          if sq_blocked s p ac then (s, False, None)
          else
            let s1 = set_buf p ac ks s;
                res = (if hw_tx_prohibited s1 then MTLK_ERR_PROHIB else hw (hw_calls s1));
                s2 = (if hw_tx_prohibited s1 then s1 else s1\<lparr>hw_calls := Suc (hw_calls s1)\<rparr>)
            in if res = MTLK_ERR_OK then
                 (sq_out (SqSent p ac k) (upd_peer p (\<lambda>x. x\<lparr>used_cnt := inc32 (used_cnt x),
                    used_per_ac := (used_per_ac x)(ac := inc32 (used_per_ac x ac))\<rparr>) (mtlk_sq_release_packet s2 ac k)), True, None)
               else if res = MTLK_ERR_PROHIB \<or> res = MTLK_ERR_NO_RESOURCES then
                 (set_buf p ac (k # sq_buf s2 p ac) s2, False, Some MTLK_ERR_PROHIB)
               else if res = MTLK_ERR_PKT_DROPPED then
                 (sq_out (SqFreed p ac k) (mtlk_sq_release_packet s2 ac k), True, None)
               else (sq_out (SqFreed p ac k) (mtlk_sq_release_packet s2 ac k), False, Some MTLK_ERR_UNKNOWN))"

text \<open>One pass over the peers, with the number of packets taken.\<close>

fun sq_pass :: "(nat \<Rightarrow> mtlk_error_t) \<Rightarrow> mtlk_sq_t \<Rightarrow> nat \<Rightarrow> nat list \<Rightarrow> nat \<Rightarrow> mtlk_sq_t \<times> nat \<times> mtlk_error_t option" where
  "sq_pass hw s ac [] n = (s, n, None)"
| "sq_pass hw s ac (p # ps) n =
     (case sq_serve hw s ac p of
        (s1, _, Some e) \<Rightarrow> (s1, n, Some e)
      | (s1, taken, None) \<Rightarrow> sq_pass hw s1 ac ps (if taken then Suc n else n))"

definition sq_shift :: "nat \<Rightarrow> mtlk_sq_t \<Rightarrow> mtlk_sq_t" where
  "sq_shift ac s =
     (case sq_lists s ac of
        p # q # ps \<Rightarrow> s\<lparr>sq_lists := (sq_lists s)(ac := (q # ps) @ [p])\<rparr>
      | _ \<Rightarrow> s)"

definition sq_backlog :: "mtlk_sq_t \<Rightarrow> nat \<Rightarrow> nat list \<Rightarrow> nat" where
  "sq_backlog s ac ps = sum_list (map (\<lambda>p. length (sq_buf s p ac)) ps)"

text \<open>A packet taken shortens the backlog, so the passes over the peers end.\<close>

lemma sq_upd_sel [simp]:
  "sq_lists (upd_peer p f s) = sq_lists s" "sq_size (upd_peer p f s) = sq_size s" "sq_extra (upd_peer p f s) = sq_extra s"
  "sq_log (upd_peer p f s) = sq_log s" "sq_lists (set_buf p ac ks s) = sq_lists s" "sq_size (set_buf p ac ks s) = sq_size s"
  "sq_extra (set_buf p ac ks s) = sq_extra s" "sq_log (set_buf p ac ks s) = sq_log s" "sq_lists (inc_size a s) = sq_lists s"
  "sq_lists (dec_size a s) = sq_lists s" "sq_extra (inc_size a s) = sq_extra s" "sq_extra (dec_size a s) = sq_extra s"
  "sq_log (inc_size a s) = sq_log s" "sq_log (dec_size a s) = sq_log s" "sq_peers (inc_size a s) = sq_peers s"
  "sq_peers (dec_size a s) = sq_peers s" "sq_lists (sq_out c s) = sq_lists s" "sq_size (sq_out c s) = sq_size s"
  "sq_extra (sq_out c s) = sq_extra s" "sq_peers (sq_out c s) = sq_peers s" "sq_log (sq_out c s) = sq_log s @ [c]"
  by (simp_all add: upd_peer_def set_buf_def inc_size_def dec_size_def sq_out_def)

lemma sq_buf_simps [simp]:
  "sq_buf (set_buf p ac ks s) q a = (if q = p \<and> a = ac then ks else sq_buf s q a)" "sq_buf (inc_size i s) q a = sq_buf s q a"
  "sq_buf (dec_size i s) q a = sq_buf s q a" "sq_buf (sq_out c s) q a = sq_buf s q a"
  "sq_buf (s\<lparr>hw_calls := n\<rparr>) q a = sq_buf s q a" "sq_buf (s\<lparr>sq_extra := ex\<rparr>) q a = sq_buf s q a"
  "sq_buf (s\<lparr>sq_lists := l\<rparr>) q a = sq_buf s q a" "sq_buf (s\<lparr>pkts_limit_dropped := d\<rparr>) q a = sq_buf s q a"
  by (simp_all add: sq_buf_def set_buf_def upd_peer_def inc_size_def dec_size_def sq_out_def)

lemma sq_buf_upd_peer: "(\<And>x. buflist (f x) = buflist x) \<Longrightarrow> sq_buf (upd_peer p f s) q a = sq_buf s q a"
  by (simp add: sq_buf_def upd_peer_def)

lemma detach_sel [simp]:
  "sq_lists (fst (mtlk_nbuf_priv_extra_detach x s)) = sq_lists s" "sq_peers (fst (mtlk_nbuf_priv_extra_detach x s)) = sq_peers s"
  "sq_size (fst (mtlk_nbuf_priv_extra_detach x s)) = sq_size s" "sq_log (fst (mtlk_nbuf_priv_extra_detach x s)) = sq_log s"
  by (simp_all add: mtlk_nbuf_priv_extra_detach_def split: option.split)

lemma release_sel [simp]:
  "sq_lists (mtlk_sq_release_packet s ac k) = sq_lists s" "sq_peers (mtlk_sq_release_packet s ac k) = sq_peers s"
  "sq_log (mtlk_sq_release_packet s ac k) = sq_log s" "sq_buf (mtlk_sq_release_packet s ac k) q a = sq_buf s q a"
proof -
  have "sq_lists (mtlk_sq_release_packet s ac k) = sq_lists s \<and> sq_peers (mtlk_sq_release_packet s ac k) = sq_peers s \<and>
      sq_log (mtlk_sq_release_packet s ac k) = sq_log s"
    using detach_sel [of _ s]
    by (simp add: mtlk_sq_release_packet_def mtlk_sq_enqueue_clone_end_def split_def Let_def split: option.split)
  then show "sq_lists (mtlk_sq_release_packet s ac k) = sq_lists s" "sq_peers (mtlk_sq_release_packet s ac k) = sq_peers s"
    "sq_log (mtlk_sq_release_packet s ac k) = sq_log s" "sq_buf (mtlk_sq_release_packet s ac k) q a = sq_buf s q a"
    by (simp_all add: sq_buf_def)
qed

text \<open>The state after a packet has been offered, before anything is done with it.\<close>

definition sq_offered :: "mtlk_sq_t \<Rightarrow> nat \<Rightarrow> nat \<Rightarrow> mtlk_sq_t" where
  "sq_offered s p ac = (let s1 = set_buf p ac (tl (sq_buf s p ac)) s in
     if hw_tx_prohibited s then s1 else s1\<lparr>hw_calls := Suc (hw_calls s1)\<rparr>)"

definition sq_answer :: "(nat \<Rightarrow> mtlk_error_t) \<Rightarrow> mtlk_sq_t \<Rightarrow> mtlk_error_t" where
  "sq_answer hw s = (if hw_tx_prohibited s then MTLK_ERR_PROHIB else hw (hw_calls s))"

lemma sq_offered_sel [simp]:
  "sq_lists (sq_offered s p ac) = sq_lists s" "sq_size (sq_offered s p ac) = sq_size s" "sq_extra (sq_offered s p ac) = sq_extra s"
  "sq_log (sq_offered s p ac) = sq_log s"
  "sq_buf (sq_offered s p ac) q a = (if q = p \<and> a = ac then tl (sq_buf s p ac) else sq_buf s q a)"
  by (simp_all add: sq_offered_def Let_def)

definition sq_sent :: "mtlk_sq_t \<Rightarrow> nat \<Rightarrow> nat \<Rightarrow> sq_pkt \<Rightarrow> mtlk_sq_t" where
  "sq_sent s p ac k = sq_out (SqSent p ac k) (upd_peer p (\<lambda>x. x\<lparr>used_cnt := inc32 (used_cnt x),
     used_per_ac := (used_per_ac x)(ac := inc32 (used_per_ac x ac))\<rparr>) (mtlk_sq_release_packet (sq_offered s p ac) ac k))"

definition sq_lost :: "mtlk_sq_t \<Rightarrow> nat \<Rightarrow> nat \<Rightarrow> sq_pkt \<Rightarrow> mtlk_sq_t" where
  "sq_lost s p ac k = sq_out (SqFreed p ac k) (mtlk_sq_release_packet (sq_offered s p ac) ac k)"

lemma sq_serve_cases:
  "sq_serve hw s ac p =
     (if sq_buf s p ac = [] \<or> sq_blocked s p ac then (s, False, None)
      else let k = hd (sq_buf s p ac); res = sq_answer hw s in
        if res = MTLK_ERR_OK then (sq_sent s p ac k, True, None)
        else if res = MTLK_ERR_PROHIB \<or> res = MTLK_ERR_NO_RESOURCES
          then (set_buf p ac (k # tl (sq_buf s p ac)) (sq_offered s p ac), False, Some MTLK_ERR_PROHIB)
        else if res = MTLK_ERR_PKT_DROPPED then (sq_lost s p ac k, True, None)
        else (sq_lost s p ac k, False, Some MTLK_ERR_UNKNOWN))"
proof (cases "sq_buf s p ac")
  case Nil
  then show ?thesis by (simp add: sq_serve_def)
next
  case (Cons k ks)
  have h: "hw_tx_prohibited (set_buf p ac ks s) = hw_tx_prohibited s" "hw_calls (set_buf p ac ks s) = hw_calls s"
    by (simp_all add: set_buf_def upd_peer_def)
  show ?thesis
    by (simp only: sq_serve_def Cons list.case list.distinct list.sel Let_def h sq_sent_def sq_lost_def sq_offered_def sq_answer_def)
       (simp add: Cons)
qed

lemma sq_serve_idle:
  assumes "sq_serve hw s ac p = (s1, False, None)"
  shows "s1 = s \<and> (sq_buf s p ac = [] \<or> sq_blocked s p ac)"
  using assms by (simp add: sq_serve_cases Let_def split: if_splits)

lemma sq_sent_sel [simp]:
  "sq_lists (sq_sent s p ac k) = sq_lists s" "sq_log (sq_sent s p ac k) = sq_log s @ [SqSent p ac k]"
  "sq_buf (sq_sent s p ac k) q a = (if q = p \<and> a = ac then tl (sq_buf s p ac) else sq_buf s q a)"
  by (simp_all add: sq_sent_def sq_buf_upd_peer)

lemma sq_lost_sel [simp]:
  "sq_lists (sq_lost s p ac k) = sq_lists s" "sq_log (sq_lost s p ac k) = sq_log s @ [SqFreed p ac k]"
  "sq_buf (sq_lost s p ac k) q a = (if q = p \<and> a = ac then tl (sq_buf s p ac) else sq_buf s q a)"
  by (simp_all add: sq_lost_def)

lemma sq_serve_taken:
  assumes "sq_serve hw s ac p = (s1, True, None)"
  obtains k where "sq_buf s p ac = k # sq_buf s1 p ac" "\<And>q a. (q, a) \<noteq> (p, ac) \<Longrightarrow> sq_buf s1 q a = sq_buf s q a"
    "sq_lists s1 = sq_lists s" "sq_log s1 = sq_log s @ [SqSent p ac k] \<or> sq_log s1 = sq_log s @ [SqFreed p ac k]"
proof -
  let ?k = "hd (sq_buf s p ac)"
  have "sq_buf s p ac \<noteq> []" "s1 = sq_sent s p ac ?k \<or> s1 = sq_lost s p ac ?k"
    using assms by (simp_all add: sq_serve_cases Let_def split: if_splits)
  then show thesis by (intro that [of ?k]) auto
qed

lemma sq_serve_lists: "sq_lists (fst (sq_serve hw s ac p)) = sq_lists s"
  by (simp add: sq_serve_cases Let_def)

lemma sq_backlog_mono:
  assumes "\<And>q. length (sq_buf s1 q ac) \<le> length (sq_buf s q ac)"
  shows "sq_backlog s1 ac ps \<le> sq_backlog s ac ps"
proof (induction ps)
  case (Cons p ps)
  then show ?case using assms [of p] by (simp add: sq_backlog_def)
qed (simp add: sq_backlog_def)

lemma sq_backlog_taken:
  assumes "sq_serve hw s ac p = (s1, True, None)" "p \<in> set ps"
  shows "Suc (sq_backlog s1 ac ps) \<le> sq_backlog s ac ps"
proof -
  obtain k where k: "sq_buf s p ac = k # sq_buf s1 p ac" "\<And>q a. (q, a) \<noteq> (p, ac) \<Longrightarrow> sq_buf s1 q a = sq_buf s q a"
    by (rule sq_serve_taken [OF assms(1)]) (rule that, assumption, simp)
  have le: "length (sq_buf s1 q ac) \<le> length (sq_buf s q ac)" for q using k by (cases "q = p") auto
  show ?thesis using assms(2)
  proof (induction ps)
    case (Cons q ps)
    have "sq_backlog s1 ac ps \<le> sq_backlog s ac ps" by (rule sq_backlog_mono [OF le])
    moreover have "q = p \<Longrightarrow> Suc (length (sq_buf s1 q ac)) = length (sq_buf s q ac)" using k(1) by simp
    moreover have "q \<noteq> p \<Longrightarrow> Suc (sq_backlog s1 ac ps) \<le> sq_backlog s ac ps" using Cons by simp
    ultimately show ?case using le [of q] by (cases "q = p") (simp_all add: sq_backlog_def)
  qed simp
qed

lemma sq_pass_backlog:
  assumes "sq_pass hw s ac ps n = (s1, n1, None)" "set ps \<subseteq> set L"
  shows "n \<le> n1 \<and> sq_lists s1 = sq_lists s \<and> sq_backlog s1 ac L + (n1 - n) \<le> sq_backlog s ac L"
  using assms
proof (induction ps arbitrary: s n)
  case (Cons p ps)
  obtain s2 t e where sv: "sq_serve hw s ac p = (s2, t, e)" by (cases "sq_serve hw s ac p") auto
  then have e: "e = None" using Cons.prems(1) by (cases e) auto
  have run: "sq_pass hw s2 ac ps (if t then Suc n else n) = (s1, n1, None)" using Cons.prems(1) sv e by simp
  have L: "sq_lists s2 = sq_lists s" using sq_serve_lists [of hw s ac p] sv by simp
  from Cons.IH [OF run] Cons.prems(2) have IH: "(if t then Suc n else n) \<le> n1" "sq_lists s1 = sq_lists s2"
    "sq_backlog s1 ac L + (n1 - (if t then Suc n else n)) \<le> sq_backlog s2 ac L" by auto
  show ?case
  proof (cases t)
    case True
    then have "Suc (sq_backlog s2 ac L) \<le> sq_backlog s ac L" using sq_backlog_taken sv e Cons.prems(2) by simp
    then show ?thesis using IH True L by simp
  next
    case False
    then show ?thesis using IH L sq_serve_idle [of hw s ac p s2] sv e by simp
  qed
qed simp

function process_packets_by_ac :: "(nat \<Rightarrow> mtlk_error_t) \<Rightarrow> mtlk_sq_t \<Rightarrow> nat \<Rightarrow> mtlk_sq_t \<times> mtlk_error_t" where
  "process_packets_by_ac hw s ac =
     (case sq_pass hw s ac (sq_lists s ac) 0 of
        (s1, _, Some e) \<Rightarrow> (s1, e)
      | (s1, n, None) \<Rightarrow> if n = 0 then (sq_shift ac s1, MTLK_ERR_OK) else process_packets_by_ac hw s1 ac)"
  by pat_completeness auto

termination
proof (relation "measure (\<lambda>(hw, s, ac). sq_backlog s ac (sq_lists s ac))", goal_cases)
  case 1
  show ?case by simp
next
  case (2 hw s ac s1 y n)
  then show ?case using sq_pass_backlog [of hw s ac "sq_lists s ac" 0 s1 n "sq_lists s ac"] by auto
qed

declare process_packets_by_ac.simps [simp del]

definition mtlk_get_ac_by_number :: "nat \<Rightarrow> nat" where
  "mtlk_get_ac_by_number n = [AC_BK, AC_BE, AC_VI, AC_VO] ! (n mod 4)"

text \<open>One turn of the flush loop: the categories from the highest priority down, until one is refused.\<close>

fun sq_flush_acs :: "(nat \<Rightarrow> mtlk_error_t) \<Rightarrow> mtlk_sq_t \<Rightarrow> nat list \<Rightarrow> mtlk_sq_t" where
  "sq_flush_acs hw s [] = s"
| "sq_flush_acs hw s (ac # acs) =
     (case process_packets_by_ac hw s ac of
        (s1, res) \<Rightarrow> if res \<noteq> MTLK_ERR_OK then s1 else sq_flush_acs hw s1 acs)"

definition sq_flush_turn :: "(nat \<Rightarrow> mtlk_error_t) \<Rightarrow> mtlk_sq_t \<Rightarrow> mtlk_sq_t" where
  "sq_flush_turn hw s = sq_flush_acs hw s (map mtlk_get_ac_by_number (rev [0..<NTS_PRIORITIES]))"

text \<open>
  \<open>reqs\<close> says how many flush requests of other threads arrive during each turn; the loop repeats
  while there were any. With the list used up there are none.
\<close>

fun sq_flush_loop :: "(nat \<Rightarrow> mtlk_error_t) \<Rightarrow> mtlk_sq_t \<Rightarrow> nat list \<Rightarrow> mtlk_sq_t" where
  "sq_flush_loop hw s [] = (sq_flush_turn hw (s\<lparr>flush_in_progress := True\<rparr>))\<lparr>flush_in_progress := False\<rparr>"
| "sq_flush_loop hw s (r # rs) =
     (let s1 = sq_flush_turn hw (s\<lparr>flush_in_progress := True\<rparr>);
          s2 = s1\<lparr>flush_count := (flush_count s1 + r) mod 2 ^ 32, flush_in_progress := False\<rparr>
      in if flush_count s2 \<noteq> flush_count s then sq_flush_loop hw s2 rs else s2)"

definition mtlk_sq_flush :: "(nat \<Rightarrow> mtlk_error_t) \<Rightarrow> mtlk_sq_t \<Rightarrow> nat list \<Rightarrow> mtlk_sq_t" where
  "mtlk_sq_flush hw s reqs =
     (if flush_in_progress s then s\<lparr>flush_count := inc32 (flush_count s)\<rparr> else sq_flush_loop hw s reqs)"

section \<open>Configuration\<close>

definition mtlk_sq_tx_enable :: "mtlk_sq_t \<Rightarrow> mtlk_sq_t" where
  "mtlk_sq_tx_enable s = s\<lparr>hw_tx_prohibited := False\<rparr>"

definition mtlk_sq_tx_disable :: "mtlk_sq_t \<Rightarrow> mtlk_sq_t" where
  "mtlk_sq_tx_disable s = s\<lparr>hw_tx_prohibited := True\<rparr>"

definition mtlk_sq_is_tx_enabled :: "mtlk_sq_t \<Rightarrow> bool" where
  "mtlk_sq_is_tx_enabled s = hw_tx_prohibited s"

definition mtlk_sq_get_limit :: "mtlk_sq_t \<Rightarrow> nat \<Rightarrow> u16" where
  "mtlk_sq_get_limit s ac = global_queue_limit s ac"

definition mtlk_sq_get_qsize :: "mtlk_sq_t \<Rightarrow> nat \<Rightarrow> u16" where
  "mtlk_sq_get_qsize s ac = of_nat (sq_size s ac)"

text \<open>Integer division of non-negative \<^verbatim>\<open>int\<close>s; \<open>None\<close> stands for a division by zero.\<close>

definition sq_ratio :: "mtlk_sq_t \<Rightarrow> nat \<Rightarrow> nat option" where
  "sq_ratio s i = (if global_queue_limit s i = 0 then None
     else Some (100 * unat (peer_queue_limit s i) div unat (global_queue_limit s i)))"

definition sq_get_peer_limits :: "mtlk_sq_t \<Rightarrow> nat \<Rightarrow> nat list option" where
  "sq_get_peer_limits s num_to_write = those (map (sq_ratio s) [0..<num_to_write])"

fun sq_put_limits :: "mtlk_sq_t \<Rightarrow> (nat \<times> nat) list \<Rightarrow> mtlk_sq_t option" where
  "sq_put_limits s [] = Some s"
| "sq_put_limits s ((i, lim) # ls) =
     (case sq_ratio s i of
        None \<Rightarrow> None
      | Some ratio \<Rightarrow>
          sq_put_limits (s\<lparr>global_queue_limit := (global_queue_limit s)(i := of_nat lim),
                           peer_queue_limit := (peer_queue_limit s)(i := of_nat (ratio * lim div 100))\<rparr>) ls)"

text \<open>
  The limits are positive \<^verbatim>\<open>int32\<close> values. The product \<^verbatim>\<open>ratio*limit\<close> is an \<^verbatim>\<open>int\<close>; the model
  takes it exact, which is what the code computes for limits up to \<open>2 ^ 31 div 100\<close>.
\<close>

definition sq_set_limits :: "mtlk_sq_t \<Rightarrow> int list \<Rightarrow> (mtlk_sq_t \<times> mtlk_error_t) option" where
  "sq_set_limits s lims =
     (if length lims \<noteq> NTS_PRIORITIES \<or> (\<exists>l\<in>set lims. l \<le> 0) then Some (s, MTLK_ERR_PARAMS)
      else map_option (\<lambda>s1. (s1, MTLK_ERR_OK)) (sq_put_limits s (zip [0..<NTS_PRIORITIES] (map nat lims))))"

definition sq_set_peer_limits :: "mtlk_sq_t \<Rightarrow> int list \<Rightarrow> mtlk_sq_t \<times> mtlk_error_t" where
  "sq_set_peer_limits s ratios =
     (if length ratios \<noteq> NTS_PRIORITIES \<or> (\<exists>r\<in>set ratios. r < 5 \<or> r > 100) then (s, MTLK_ERR_PARAMS)
      else (s\<lparr>peer_queue_limit := (\<lambda>i. if i < NTS_PRIORITIES
              then of_nat (max 1 (nat (ratios ! i) * unat (global_queue_limit s i) div 100)) else peer_queue_limit s i)\<rparr>, MTLK_ERR_OK))"

end
