(* ===== verification/Sq_Inv.thy ===== *)
theory Sq_Inv
  imports Sq
begin

text \<open>
  The accounting invariant of the traffic shaper: the size counter of a category counts its
  queued packets, with all clones of a multicast packet counted once, and the reference count of
  a shared record counts the queued clones. One lemma, \<open>release_inv\<close>, covers every way a packet
  leaves a list.
\<close>

section \<open>Counting\<close>

definition pk_cnt :: "(sq_pkt \<Rightarrow> bool) \<Rightarrow> mtlk_sq_t \<Rightarrow> nat \<Rightarrow> nat" where
  "pk_cnt P s ac = sum_list (map (\<lambda>p. length (filter P (sq_buf s p ac))) (sq_lists s ac))"

abbreviation plain :: "sq_pkt \<Rightarrow> bool" where
  "plain k \<equiv> pk_extra k = None"

abbreviation clone_of :: "nat \<Rightarrow> sq_pkt \<Rightarrow> bool" where
  "clone_of x k \<equiv> pk_extra k = Some x"

definition live :: "mtlk_sq_t \<Rightarrow> nat \<Rightarrow> nat set" where
  "live s ac = {x. \<exists>e. sq_extra s x = Some e \<and> ex_ac e = ac}"

text \<open>\<open>h\<close> is the shared record the original packet of a running multicast holds.\<close>

definition held :: "nat option \<Rightarrow> nat \<Rightarrow> nat" where
  "held h x = (if h = Some x then 1 else 0)"

definition extra_ok :: "nat option \<Rightarrow> mtlk_sq_t \<Rightarrow> nat \<Rightarrow> bool" where
  "extra_ok h s x \<longleftrightarrow>
     (case sq_extra s x of
        None \<Rightarrow> held h x = 0 \<and> (\<forall>ac<NTS_PRIORITIES. pk_cnt (clone_of x) s ac = 0)
      | Some e \<Rightarrow> ex_ac e < NTS_PRIORITIES \<and> 0 < ref_cnt e \<and> ref_cnt e < 2 ^ 32 \<and>
          ref_cnt e = pk_cnt (clone_of x) s (ex_ac e) + held h x \<and>
          (\<forall>ac<NTS_PRIORITIES. ac \<noteq> ex_ac e \<longrightarrow> pk_cnt (clone_of x) s ac = 0))"

definition sq_inv :: "nat option \<Rightarrow> mtlk_sq_t \<Rightarrow> bool" where
  "sq_inv h s \<longleftrightarrow> (\<forall>ac<NTS_PRIORITIES. distinct (sq_lists s ac) \<and> finite (live s ac) \<and>
     sq_size s ac = (pk_cnt plain s ac + card (live s ac)) mod 2 ^ 32) \<and> (\<forall>x. extra_ok h s x)"

definition registered :: "mtlk_sq_t \<Rightarrow> nat \<Rightarrow> bool" where
  "registered s p \<longleftrightarrow> (\<forall>ac<NTS_PRIORITIES. p \<in> set (sq_lists s ac))"

lemma pk_cnt_cong: "sq_lists s' = sq_lists s \<Longrightarrow> (\<And>p a. sq_buf s' p a = sq_buf s p a) \<Longrightarrow> pk_cnt P s' ac = pk_cnt P s ac"
  by (simp add: pk_cnt_def)

lemma extra_ok_cong:
  assumes "sq_extra s' x = sq_extra s x" "\<And>a. a < NTS_PRIORITIES \<Longrightarrow> pk_cnt (clone_of x) s' a = pk_cnt (clone_of x) s a"
  shows "extra_ok h s' x = extra_ok h s x"
  using assms by (cases "sq_extra s x") (auto simp: extra_ok_def)

lemma live_cong: "sq_extra s' = sq_extra s \<Longrightarrow> live s' = live s"
  by (simp add: live_def fun_eq_iff)

lemma sq_inv_cong:
  assumes "sq_inv h s" "sq_lists s' = sq_lists s" "\<And>p a. sq_buf s' p a = sq_buf s p a" "sq_size s' = sq_size s" "sq_extra s' = sq_extra s"
  shows "sq_inv h s'"
proof -
  have c: "pk_cnt P s' a = pk_cnt P s a" for P a by (rule pk_cnt_cong [OF assms(2,3)])
  then have "extra_ok h s' x = extra_ok h s x" for x using assms(5) by (intro extra_ok_cong) simp_all
  then show ?thesis using assms(1,2,4) c live_cong [OF assms(5)] by (simp add: sq_inv_def)
qed

lemma sum_list_update:
  fixes f g :: "nat \<Rightarrow> nat"
  assumes "distinct ps" "p \<in> set ps" "\<And>q. q \<noteq> p \<Longrightarrow> f q = g q"
  shows "sum_list (map f ps) + g p = sum_list (map g ps) + f p"
  using assms(1,2)
proof (induction ps)
  case (Cons q ps)
  show ?case
  proof (cases "q = p")
    case True
    have "f x = g x" if "x \<in> set ps" for x using that True Cons.prems(1) by (intro assms(3)) auto
    then have "map f ps = map g ps" by simp
    from arg_cong [OF this, of sum_list] show ?thesis using True by (simp del: map_eq_conv)
  next
    case False
    then show ?thesis using Cons assms(3) [of q] by simp
  qed
qed simp

lemma pk_cnt_set_buf:
  assumes "distinct (sq_lists s ac)" "p \<in> set (sq_lists s ac)"
  shows "pk_cnt P (set_buf p ac ks s) ac + length (filter P (sq_buf s p ac)) = pk_cnt P s ac + length (filter P ks)"
  unfolding pk_cnt_def
  using sum_list_update [OF assms, of "\<lambda>q. length (filter P (sq_buf (set_buf p ac ks s) q ac))" "\<lambda>q. length (filter P (sq_buf s q ac))"]
  by simp

lemma pk_cnt_set_buf_other: "a \<noteq> ac \<Longrightarrow> pk_cnt P (set_buf p ac ks s) a = pk_cnt P s a"
  by (simp add: pk_cnt_def)

text \<open>One packet more or less in a list.\<close>

lemma pk_cnt_remove:
  assumes "distinct (sq_lists s ac)" "p \<in> set (sq_lists s ac)" "sq_buf s p ac = xs @ k # ys"
  shows "pk_cnt P s a = pk_cnt P (set_buf p ac (xs @ ys) s) a + (if a = ac \<and> P k then 1 else 0)"
  using pk_cnt_set_buf [OF assms(1,2), of P "xs @ ys"] assms(3) pk_cnt_set_buf_other [of a ac P p "xs @ ys" s]
  by (cases "a = ac") auto

lemma size_dec: "n = Suc m \<Longrightarrow> dec32 (n mod 2 ^ 32) = m mod 2 ^ 32"
proof -
  assume n: "n = Suc m"
  have "dec32 (n mod 2 ^ 32) = ((m + 1) mod 2 ^ 32 + (2 ^ 32 - 1)) mod 2 ^ 32" by (simp add: dec32_def n)
  also have "\<dots> = ((m + 1) + (2 ^ 32 - 1)) mod 2 ^ 32" by (simp only: mod_add_left_eq)
  also have "(m + 1) + (2 ^ 32 - 1) = m + 2 ^ 32" by simp
  finally show ?thesis by simp
qed

lemma size_inc: "inc32 (n mod 2 ^ 32) = Suc n mod 2 ^ 32"
  by (simp add: inc32_def mod_Suc_eq)

section \<open>A packet leaves a list\<close>

lemma release_inv:
  assumes inv: "sq_inv h s" and ac: "ac < NTS_PRIORITIES" and p: "p \<in> set (sq_lists s ac)" and b: "sq_buf s p ac = xs @ k # ys"
  shows "sq_inv h (mtlk_sq_release_packet (set_buf p ac (xs @ ys) s) ac k)"
proof -
  let ?s = "set_buf p ac (xs @ ys) s"
  have d: "distinct (sq_lists s ac)" using inv ac by (simp add: sq_inv_def)
  have C: "pk_cnt P s a = pk_cnt P ?s a + (if a = ac \<and> P k then 1 else 0)" for P a by (rule pk_cnt_remove [OF d p b])
  have X: "extra_ok h s x" for x using inv by (simp add: sq_inv_def)
  show ?thesis
  proof (cases "pk_extra k")
    case None
    let ?r = "dec_size ac ?s"
    have cr: "pk_cnt P ?r a = pk_cnt P ?s a" for P a by (rule pk_cnt_cong) simp_all
    have lv: "live ?r a = live s a" for a by (simp add: live_def)
    have "extra_ok h ?r x" for x 
      using X [of x] C [of "clone_of x"] None extra_ok_cong [of ?r x s h] by (simp add: cr)
    moreover have "sq_size ?r a = (pk_cnt plain ?r a + card (live ?r a)) mod 2 ^ 32" if "a < NTS_PRIORITIES" for a
    proof (cases "a = ac")
      case True
      have "sq_size s ac = (pk_cnt plain s ac + card (live s ac)) mod 2 ^ 32" using inv ac by (simp add: sq_inv_def)
      then have "sq_size ?r ac = (pk_cnt plain ?s ac + card (live s ac)) mod 2 ^ 32"
        using size_dec [of "pk_cnt plain s ac + card (live s ac)" "pk_cnt plain ?s ac + card (live s ac)"] C [of plain ac] None
        by (simp add: dec_size_def set_buf_def upd_peer_def)
      then show ?thesis using True cr lv by simp
    next
      case False
      then show ?thesis using inv that cr lv C [of plain a] by (simp add: sq_inv_def dec_size_def set_buf_def upd_peer_def)
    qed
    ultimately show ?thesis using None inv lv by (simp add: mtlk_sq_release_packet_def sq_inv_def)
  next
    case (Some x)
    have pos: "0 < pk_cnt (clone_of x) s ac" using C [of "clone_of x" ac] Some by simp
    obtain e where e: "sq_extra s x = Some e" using X [of x] pos ac by (fastforce simp: extra_ok_def split: option.splits)
    have ea: "ex_ac e = ac" "0 < ref_cnt e" "ref_cnt e < 2 ^ 32"
      "ref_cnt e = pk_cnt (clone_of x) s ac + held h x"
      using X [of x] e pos ac by (auto simp: extra_ok_def)
    have dr: "dec32 (ref_cnt e) = ref_cnt e - 1" using ea by (simp add: dec32_eq)
    have other: "extra_ok h r y" if "y \<noteq> x" "sq_extra r y = sq_extra s y" "\<And>P a. pk_cnt P r a = pk_cnt P ?s a" for r y
      using X [of y] that C [of "clone_of y"] Some extra_ok_cong [of r y s h] by simp
    have pl: "pk_cnt plain s a = pk_cnt plain ?s a" for a using C [of plain a] Some by simp
    show ?thesis
    proof (cases "ref_cnt e = 1")
      case True
      let ?r = "dec_size ac (?s\<lparr>sq_extra := (sq_extra s)(x := None)\<rparr>)"
      have eq: "mtlk_sq_release_packet ?s ac k = ?r"
        using Some e ea dr True
        by (simp add: mtlk_sq_release_packet_def mtlk_sq_enqueue_clone_end_def mtlk_nbuf_priv_extra_detach_def)
      have cr: "pk_cnt P ?r a = pk_cnt P ?s a" for P a by (rule pk_cnt_cong) simp_all
      have xr: "sq_extra ?r = (sq_extra s)(x := None)" by simp
      have hx: "held h x = 0" "pk_cnt (clone_of x) ?s ac = 0" using ea True pos C [of "clone_of x" ac] Some by (auto split: if_splits)
      have "pk_cnt (clone_of x) ?s a = 0" if "a < NTS_PRIORITIES" for a
        using X [of x] e ea that hx(2) C [of "clone_of x" a] by (cases "a = ac") (auto simp: extra_ok_def)
      then have "extra_ok h ?r x" using hx xr cr by (simp add: extra_ok_def)
      then have exs: "extra_ok h ?r y" for y using other [of y ?r] cr xr by (cases "y = x") simp_all
      have lv: "live ?r a = (if a = ac then live s a - {x} else live s a)" for a using e ea xr by (auto simp: live_def)
      have lx: "x \<in> live s ac" using e ea by (simp add: live_def)
      have "sq_size ?r a = (pk_cnt plain ?r a + card (live ?r a)) mod 2 ^ 32 \<and> finite (live ?r a)" if "a < NTS_PRIORITIES" for a
      proof (cases "a = ac")
        case True
        have f: "finite (live s ac)" "sq_size s ac = (pk_cnt plain s ac + card (live s ac)) mod 2 ^ 32"
          using inv ac by (simp_all add: sq_inv_def)
        have "pk_cnt plain s ac + card (live s ac) = Suc (pk_cnt plain ?s ac + card (live s ac - {x}))"
          using pl card_Suc_Diff1 [OF f(1) lx] by simp
        from size_dec [OF this] f(2) show ?thesis using True cr lv f(1) by (simp add: dec_size_def set_buf_def upd_peer_def)
      next
        case False
        then show ?thesis using inv that cr lv pl [of a] by (simp add: sq_inv_def dec_size_def set_buf_def upd_peer_def)
      qed
      then show ?thesis unfolding eq using exs inv by (simp add: sq_inv_def)
    next
      case False
      let ?r = "?s\<lparr>sq_extra := (sq_extra s)(x := Some (e\<lparr>ref_cnt := ref_cnt e - 1\<rparr>))\<rparr>"
      have nz: "ref_cnt e - 1 \<noteq> 0" using ea(2) False by simp
      have eq: "mtlk_sq_release_packet ?s ac k = ?r"
        using Some e ea(1) dr nz
        by (simp add: mtlk_sq_release_packet_def mtlk_sq_enqueue_clone_end_def mtlk_nbuf_priv_extra_detach_def)
      have cr: "pk_cnt P ?r a = pk_cnt P ?s a" for P a by (rule pk_cnt_cong) simp_all
      have xr: "sq_extra ?r = (sq_extra s)(x := Some (e\<lparr>ref_cnt := ref_cnt e - 1\<rparr>))" by simp
      have "extra_ok h ?r x"
        using X [of x] e ea False xr cr C [of "clone_of x"] Some by (auto simp: extra_ok_def)
      then have exs: "extra_ok h ?r y" for y using other [of y ?r] cr xr by (cases "y = x") simp_all
      have lv: "live ?r a = live s a" for a using e xr by (auto simp: live_def)
      show ?thesis unfolding eq using exs inv lv cr pl by (simp add: sq_inv_def)
    qed
  qed
qed

section \<open>Emptying a list\<close>

lemma sq_out_inv: "sq_inv h s \<Longrightarrow> sq_inv h (sq_out c s)"
  by (erule sq_inv_cong) simp_all

lemma drain_inv:
  assumes "sq_inv h s" "ac < NTS_PRIORITIES" "p \<in> set (sq_lists s ac)" "sq_buf s p ac = ks"
  shows "sq_inv h (sq_drain s p ac ks)"
  using assms
proof (induction ks arbitrary: s)
  case (Cons k ks)
  have "sq_inv h (mtlk_sq_release_packet (set_buf p ac ks s) ac k)"
    using release_inv [OF Cons.prems(1-3), of "[]" k ks] Cons.prems(4) by simp
  then show ?case using Cons.prems(2,3) by (simp, intro Cons.IH) (simp_all add: sq_out_inv)
qed simp

lemma drain_sel [simp]:
  "sq_lists (sq_drain s p ac ks) = sq_lists s"
  "sq_buf s p ac = ks \<Longrightarrow> sq_buf (sq_drain s p ac ks) q a = (if q = p \<and> a = ac then [] else sq_buf s q a)"
  by (induction ks arbitrary: s) simp_all

lemma cancel_vap_inv:
  assumes "sq_inv h s" "ac < NTS_PRIORITIES" "p \<in> set (sq_lists s ac)" "sq_buf s p ac = kept @ ks"
  shows "sq_inv h (sq_cancel_vap s p ac vap kept ks)"
  using assms
proof (induction ks arbitrary: s kept)
  case (Cons k ks)
  have "sq_inv h (mtlk_sq_release_packet (set_buf p ac (kept @ ks) s) ac k)" by (rule release_inv [OF Cons.prems])
  then show ?case using Cons by (simp add: sq_out_inv)
qed simp

lemma cancel_vap_lists: "sq_lists (sq_cancel_vap s p ac vap kept ks) = sq_lists s"
  by (induction ks arbitrary: s kept) simp_all

lemma foldl_inv: "P s \<Longrightarrow> (\<And>s x. P s \<Longrightarrow> x \<in> set xs \<Longrightarrow> P (f s x)) \<Longrightarrow> P (foldl f s xs)"
  by (induction xs arbitrary: s) simp_all

lemma cancel_inv:
  assumes "sq_inv h s" "registered s p"
  shows "sq_inv h (mtlk_sq_peer_ctx_cancel_all_packets s p)" "sq_inv h (mtlk_sq_peer_ctx_cancel_all_packets_for_vap s p vap)"
proof -
  let ?P = "\<lambda>s. sq_inv h s \<and> registered s p"
  have "?P (mtlk_sq_peer_ctx_cancel_all_packets s p)"
    unfolding mtlk_sq_peer_ctx_cancel_all_packets_def
    by (rule foldl_inv) (use assms in \<open>auto simp: registered_def intro!: drain_inv\<close>)
  moreover have "?P (mtlk_sq_peer_ctx_cancel_all_packets_for_vap s p vap)"
    unfolding mtlk_sq_peer_ctx_cancel_all_packets_for_vap_def
    by (rule foldl_inv) (use assms in \<open>auto simp: registered_def cancel_vap_lists intro!: cancel_vap_inv\<close>)
  ultimately show "sq_inv h (mtlk_sq_peer_ctx_cancel_all_packets s p)"
    "sq_inv h (mtlk_sq_peer_ctx_cancel_all_packets_for_vap s p vap)" by simp_all
qed

text \<open>
  Cleaning up takes the peer off the list of the category first. This commutes with releasing
  its packets.
\<close>

lemma release_lists: "mtlk_sq_release_packet (s\<lparr>sq_lists := l\<rparr>) ac k = (mtlk_sq_release_packet s ac k)\<lparr>sq_lists := l\<rparr>"
  by (simp add: mtlk_sq_release_packet_def mtlk_sq_enqueue_clone_end_def mtlk_nbuf_priv_extra_detach_def dec_size_def split: option.split)

lemma drain_lists: "sq_drain (s\<lparr>sq_lists := l\<rparr>) p ac ks = (sq_drain s p ac ks)\<lparr>sq_lists := l\<rparr>"
proof (induction ks arbitrary: s)
  case (Cons k ks)
  have "set_buf p ac ks (s\<lparr>sq_lists := l\<rparr>) = (set_buf p ac ks s)\<lparr>sq_lists := l\<rparr>"
    by (simp add: set_buf_def upd_peer_def)
  moreover have "sq_out c (r\<lparr>sq_lists := l\<rparr>) = (sq_out c r)\<lparr>sq_lists := l\<rparr>" for c r by (simp add: sq_out_def)
  ultimately show ?case using Cons by (simp add: release_lists)
qed simp

lemma pk_cnt_unlink:
  assumes "sq_buf s p ac = []"
  shows "pk_cnt P (s\<lparr>sq_lists := (sq_lists s)(ac := remove1 p (sq_lists s ac))\<rparr>) a = pk_cnt P s a"
proof -
  have "sum_list (map f (remove1 p ps)) = sum_list (map f ps)" if "f p = (0::nat)" for f ps
    using that by (induction ps) auto
  then show ?thesis using assms by (simp add: pk_cnt_def)
qed

lemma unlink_inv:
  assumes "sq_inv h s" "sq_buf s p ac = []"
  shows "sq_inv h (s\<lparr>sq_lists := (sq_lists s)(ac := remove1 p (sq_lists s ac))\<rparr>)" (is "sq_inv h ?s")
proof -
  have c: "pk_cnt P ?s a = pk_cnt P s a" for P a by (rule pk_cnt_unlink [OF assms(2)])
  have "extra_ok h ?s x = extra_ok h s x" for x by (rule extra_ok_cong) (simp_all add: c)
  then show ?thesis using assms(1) c live_cong [of ?s s] by (simp add: sq_inv_def distinct_remove1)
qed

lemma cleanup_inv:
  assumes "sq_inv h s" "registered s p"
  shows "sq_inv h (mtlk_sq_peer_ctx_cleanup s p)"
proof -
  have "sq_inv h (foldl (\<lambda>s ac. sq_drain (s\<lparr>sq_lists := (sq_lists s)(ac := remove1 p (sq_lists s ac))\<rparr>) p ac (sq_buf s p ac)) s acs)"
    if "sq_inv h s" "\<forall>ac\<in>set acs. ac < NTS_PRIORITIES \<and> p \<in> set (sq_lists s ac)" "distinct acs" for acs s
    using that
  proof (induction acs arbitrary: s)
    case (Cons ac acs)
    let ?d = "sq_drain s p ac (sq_buf s p ac)"
    have i: "sq_inv h ?d" using Cons.prems by (intro drain_inv) simp_all
    have "sq_inv h (?d\<lparr>sq_lists := (sq_lists ?d)(ac := remove1 p (sq_lists ?d ac))\<rparr>)" by (rule unlink_inv [OF i]) simp
    moreover have f: "sq_drain (s\<lparr>sq_lists := (sq_lists s)(ac := remove1 p (sq_lists s ac))\<rparr>) p ac (sq_buf s p ac) =
        ?d\<lparr>sq_lists := (sq_lists ?d)(ac := remove1 p (sq_lists ?d ac))\<rparr>"
      by (simp add: drain_lists)
    ultimately show ?case using Cons.prems unfolding foldl_Cons f by (intro Cons.IH) auto
  qed simp
  from this [OF assms(1), of "[0..<NTS_PRIORITIES]"] assms(2) show ?thesis
    by (simp add: mtlk_sq_peer_ctx_cleanup_def registered_def)
qed

section \<open>A packet enters a list\<close>

lemma sq_inv_size: "sq_inv h s \<Longrightarrow> ac < NTS_PRIORITIES \<Longrightarrow> sq_size s ac < 2 ^ 32"
  by (simp add: sq_inv_def)

definition push :: "bool \<Rightarrow> sq_pkt \<Rightarrow> sq_pkt list \<Rightarrow> sq_pkt list" where
  "push front k ks = (if front then k # ks else ks @ [k])"

lemma pk_cnt_push:
  assumes "sq_inv h s" "ac < NTS_PRIORITIES" "p \<in> set (sq_lists s ac)"
  shows "pk_cnt P (set_buf p ac (push front k (sq_buf s p ac)) s) a = pk_cnt P s a + (if a = ac \<and> P k then 1 else 0)"
  using pk_cnt_set_buf [of s ac p P "push front k (sq_buf s p ac)"] assms pk_cnt_set_buf_other [of a ac P p _ s]
  by (cases "a = ac") (auto simp: sq_inv_def push_def)

lemma push_plain_inv:
  assumes inv: "sq_inv h s" and ac: "ac < NTS_PRIORITIES" and p: "p \<in> set (sq_lists s ac)" and k: "plain k"
  shows "sq_inv h (set_buf p ac (push front k (sq_buf s p ac)) (inc_size ac s))" (is "sq_inv h ?r")
proof -
  have c: "pk_cnt P ?r a = pk_cnt P s a + (if a = ac \<and> P k then 1 else 0)" for P a
    using pk_cnt_push [OF assms(1-3), where P = P and a = a and front = front and k = k] pk_cnt_cong [of ?r "set_buf p ac (push front k (sq_buf s p ac)) s" P a] by simp
  have "extra_ok h ?r x" for x using inv extra_ok_cong [of ?r x s h] c k by (simp add: sq_inv_def)
  moreover have lv: "live ?r = live s" by (rule live_cong) simp
  moreover have "sq_size ?r a = (pk_cnt plain ?r a + card (live s a)) mod 2 ^ 32" if "a < NTS_PRIORITIES" for a
  proof (cases "a = ac")
    case True
    have "sq_size s ac = (pk_cnt plain s ac + card (live s ac)) mod 2 ^ 32" using inv ac by (simp add: sq_inv_def)
    then have "sq_size ?r ac = Suc (pk_cnt plain s ac + card (live s ac)) mod 2 ^ 32" 
      using size_inc [of "pk_cnt plain s ac + card (live s ac)"] by (simp add: inc_size_def set_buf_def upd_peer_def)
    then show ?thesis using True c k by simp
  next
    case False
    then show ?thesis using inv that c by (simp add: sq_inv_def inc_size_def)
  qed
  ultimately show ?thesis using inv by (simp add: sq_inv_def)
qed

lemma enqueue_pkt_cases:
  obtains s1 where "mtlk_sq_enqueue_pkt s p k ac front = (s1, MTLK_ERR_NO_RESOURCES)"
    "sq_lists s1 = sq_lists s" "\<And>q a. sq_buf s1 q a = sq_buf s q a" "sq_size s1 = sq_size s" "sq_extra s1 = sq_extra s"
    "\<not> front" "sq_size s ac \<ge> unat (global_queue_limit s ac) \<or> length (sq_buf s p ac) \<ge> unat (peer_queue_limit s ac)"
  | "mtlk_sq_enqueue_pkt s p k ac front = (set_buf p ac (push front k (sq_buf s p ac)) s, MTLK_ERR_OK)"
    "front \<or> sq_size s ac < unat (global_queue_limit s ac) \<and> length (sq_buf s p ac) < unat (peer_queue_limit s ac)"
proof (cases "\<not> front \<and> (sq_size s ac \<ge> unat (global_queue_limit s ac) \<or> length (sq_buf s p ac) \<ge> unat (peer_queue_limit s ac))")
  case True
  then have "mtlk_sq_enqueue_pkt s p k ac front = (fst (mtlk_sq_enqueue_pkt s p k ac front), MTLK_ERR_NO_RESOURCES)"
    unfolding mtlk_sq_enqueue_pkt_def by simp
  then show thesis by (rule that(1)) (use True in \<open>auto simp: mtlk_sq_enqueue_pkt_def sq_buf_upd_peer\<close>)
next
  case False
  then show thesis by (intro that(2)) (auto simp: mtlk_sq_enqueue_pkt_def push_def)
qed

lemma switch_urgent_less: "ac < NTS_PRIORITIES \<Longrightarrow> fst (mtlk_sq_switch_if_urgent k ac front) < NTS_PRIORITIES"
  by (simp add: mtlk_sq_switch_if_urgent_def AC_HIGHEST_def AC_VO_def NTS_PRIORITIES_def)

lemma enqueue_inv:
  assumes inv: "sq_inv h s" and ac: "ac < NTS_PRIORITIES" and p: "registered s p" and k: "plain k"
  shows "sq_inv h (fst (mtlk_sq_enqueue s ac front p k))"
proof -
  obtain ac1 front1 where sw: "mtlk_sq_switch_if_urgent k ac front = (ac1, front1)" by fastforce
  have ac1: "ac1 < NTS_PRIORITIES" using switch_urgent_less [OF ac, of k front] sw by simp
  then have p1: "p \<in> set (sq_lists s ac1)" using p by (simp add: registered_def)
  let ?s = "inc_size ac1 s"
  show ?thesis
  proof (rule enqueue_pkt_cases [of ?s p k ac1 front1])
    fix s1 assume e: "mtlk_sq_enqueue_pkt ?s p k ac1 front1 = (s1, MTLK_ERR_NO_RESOURCES)"
      and f: "sq_lists s1 = sq_lists ?s" "\<And>q a. sq_buf s1 q a = sq_buf ?s q a" "sq_size s1 = sq_size ?s" "sq_extra s1 = sq_extra ?s"
    have "fst (mtlk_sq_enqueue s ac front p k) = dec_size ac1 s1" using e sw by (simp add: mtlk_sq_enqueue_def)
    moreover have "sq_size (dec_size ac1 s1) = sq_size s"
      using f(3) sq_inv_size [OF inv ac1] by (simp add: dec_size_def inc_size_def dec32_inc32 fun_eq_iff)
    then have "sq_inv h (dec_size ac1 s1)" using f by (intro sq_inv_cong [OF inv]) simp_all
    ultimately show ?thesis by simp
  next
    assume "mtlk_sq_enqueue_pkt ?s p k ac1 front1 = (set_buf p ac1 (push front1 k (sq_buf ?s p ac1)) ?s, MTLK_ERR_OK)"
    then show ?thesis using sw push_plain_inv [OF inv ac1 p1 k] by (simp add: mtlk_sq_enqueue_def)
  qed
qed

section \<open>Multicast\<close>

lemma extra_ok_held: "y \<noteq> x \<Longrightarrow> extra_ok (Some x) s y = extra_ok None s y"
  by (cases "sq_extra s y") (simp_all add: extra_ok_def held_def)

lemma clone_begin_inv:
  assumes inv: "sq_inv None s" and ac: "ac < NTS_PRIORITIES" and x: "sq_extra s x = None"
  shows "sq_inv (Some x) (inc_size ac (s\<lparr>sq_extra := (sq_extra s)(x := Some \<lparr>ref_cnt = Suc 0, ex_ac = ac, ex_front = fr\<rparr>)\<rparr>))"
    (is "sq_inv _ ?r")
proof -
  have c: "pk_cnt P ?r a = pk_cnt P s a" for P a by (rule pk_cnt_cong) simp_all
  have "extra_ok None s x" using inv by (simp add: sq_inv_def)
  then have "extra_ok (Some x) ?r x" using x c ac by (simp add: extra_ok_def held_def)
  moreover have "extra_ok (Some x) ?r y" if "y \<noteq> x" for y
  proof -
    have "extra_ok None ?r y" using inv extra_ok_cong [of ?r y s None] c that by (simp add: sq_inv_def)
    then show ?thesis using that by (simp add: extra_ok_held)
  qed
  ultimately have ex: "extra_ok (Some x) ?r y" for y by (cases "y = x") simp_all
  have lv: "live ?r a = (if a = ac then insert x (live s a) else live s a)" "x \<notin> live s a" for a using x by (auto simp: live_def)
  have "sq_size ?r a = (pk_cnt plain ?r a + card (live ?r a)) mod 2 ^ 32 \<and> finite (live ?r a)" if "a < NTS_PRIORITIES" for a
  proof -
    have s: "finite (live s a)" "sq_size s a = (pk_cnt plain s a + card (live s a)) mod 2 ^ 32"
      using inv that by (simp_all add: sq_inv_def)
    have "sq_size ?r a = (if a = ac then inc32 (sq_size s a) else sq_size s a)" by (simp add: inc_size_def)
    then show ?thesis using s size_inc [of "pk_cnt plain s a + card (live s a)"] lv(2) [of a] by (cases "a = ac") (simp_all add: c lv(1))
  qed
  then show ?thesis using ex inv by (simp add: sq_inv_def)
qed

lemma clone_end_inv:
  assumes inv: "sq_inv (Some x) s"
  shows "sq_inv None (mtlk_sq_enqueue_clone_end s x)"
proof -
  have X: "extra_ok (Some x) s y" for y using inv by (simp add: sq_inv_def)
  obtain e where e: "sq_extra s x = Some e" using X [of x] by (cases "sq_extra s x") (simp_all add: extra_ok_def held_def)
  have ea: "ex_ac e < NTS_PRIORITIES" "ref_cnt e < 2 ^ 32" "ref_cnt e = Suc (pk_cnt (clone_of x) s (ex_ac e))"
    "\<forall>ac<NTS_PRIORITIES. ac \<noteq> ex_ac e \<longrightarrow> pk_cnt (clone_of x) s ac = 0"
    using X [of x] e by (simp_all add: extra_ok_def held_def)
  have dr: "dec32 (ref_cnt e) = pk_cnt (clone_of x) s (ex_ac e)" using ea(2,3) by (simp add: dec32_eq)
  have other: "extra_ok None r y" if "y \<noteq> x" "sq_extra r y = sq_extra s y" "\<And>P a. pk_cnt P r a = pk_cnt P s a" for r y
  proof -
    have "extra_ok (Some x) r y" using X [of y] that extra_ok_cong [of r y s "Some x"] by simp
    then show ?thesis using that(1) by (simp add: extra_ok_held)
  qed
  show ?thesis
  proof (cases "pk_cnt (clone_of x) s (ex_ac e) = 0")
    case True
    let ?r = "dec_size (ex_ac e) (s\<lparr>sq_extra := (sq_extra s)(x := None)\<rparr>)"
    have eq: "mtlk_sq_enqueue_clone_end s x = ?r"
      using e dr True by (simp add: mtlk_sq_enqueue_clone_end_def mtlk_nbuf_priv_extra_detach_def)
    have c: "pk_cnt P ?r a = pk_cnt P s a" for P a by (rule pk_cnt_cong) simp_all
    have "extra_ok None ?r x" using ea(4) True c by (auto simp: extra_ok_def held_def)
    then have ex: "extra_ok None ?r y" for y using other [of y ?r] c by (cases "y = x") simp_all
    have lv: "live ?r a = live s a - (if a = ex_ac e then {x} else {})" for a using e by (auto simp: live_def)
    have lx: "x \<in> live s (ex_ac e)" using e by (simp add: live_def)
    have "sq_size ?r a = (pk_cnt plain ?r a + card (live ?r a)) mod 2 ^ 32 \<and> finite (live ?r a)" if "a < NTS_PRIORITIES" for a
    proof -
      have s: "finite (live s a)" "sq_size s a = (pk_cnt plain s a + card (live s a)) mod 2 ^ 32"
        using inv that by (simp_all add: sq_inv_def)
      show ?thesis
      proof (cases "a = ex_ac e")
        case True
        have "pk_cnt plain s a + card (live s a) = Suc (pk_cnt plain s a + card (live s a - {x}))"
          using card_Suc_Diff1 [OF s(1), of x] lx True by simp
        from size_dec [OF this] s show ?thesis using True c lv by (simp add: dec_size_def)
      next
        case False
        then show ?thesis using s c lv by (simp add: dec_size_def)
      qed
    qed
    then show ?thesis unfolding eq using ex inv by (simp add: sq_inv_def)
  next
    case False
    let ?r = "s\<lparr>sq_extra := (sq_extra s)(x := Some (e\<lparr>ref_cnt := pk_cnt (clone_of x) s (ex_ac e)\<rparr>))\<rparr>"
    have eq: "mtlk_sq_enqueue_clone_end s x = ?r"
      using e dr False by (simp add: mtlk_sq_enqueue_clone_end_def mtlk_nbuf_priv_extra_detach_def)
    have c: "pk_cnt P ?r a = pk_cnt P s a" for P a by (rule pk_cnt_cong) simp_all
    have "extra_ok None ?r x" using ea False c by (simp add: extra_ok_def held_def)
    then have ex: "extra_ok None ?r y" for y using other [of y ?r] c by (cases "y = x") simp_all
    have lv: "live ?r a = live s a" for a using e by (auto simp: live_def)
    show ?thesis unfolding eq using ex inv lv c by (simp add: sq_inv_def)
  qed
qed

lemma push_clone_inv:
  assumes inv: "sq_inv h s" and e: "sq_extra s x = Some e" and p: "p \<in> set (sq_lists s (ex_ac e))"
    and k: "clone_of x k" and b: "ref_cnt e + 1 < 2 ^ 32"
  shows "sq_inv h (set_buf p (ex_ac e) (push fr k (sq_buf s p (ex_ac e))) (mtlk_nbuf_priv_extra_attach x s))" (is "sq_inv h ?r")
proof -
  have X: "extra_ok h s y" for y using inv by (simp add: sq_inv_def)
  have ac: "ex_ac e < NTS_PRIORITIES" using X [of x] e by (simp add: extra_ok_def)
  have xr: "sq_extra ?r = (sq_extra s)(x := Some (e\<lparr>ref_cnt := ref_cnt e + 1\<rparr>))"
    using e b by (simp add: mtlk_nbuf_priv_extra_attach_def inc32_eq)
  have rl: "sq_lists ?r = sq_lists s" "sq_size ?r = sq_size s" by (simp_all add: mtlk_nbuf_priv_extra_attach_def)
  have c: "pk_cnt P ?r a = pk_cnt P s a + (if a = ex_ac e \<and> P k then 1 else 0)" for P a
    using pk_cnt_push [OF inv ac p, where P = P and a = a and front = fr and k = k]
      pk_cnt_cong [of ?r "set_buf p (ex_ac e) (push fr k (sq_buf s p (ex_ac e))) s" P a]
    by (simp add: mtlk_nbuf_priv_extra_attach_def)
  have "extra_ok h ?r x" using X [of x] e xr c k b ac by (simp add: extra_ok_def)
  moreover have "extra_ok h ?r y" if "y \<noteq> x" for y using X [of y] extra_ok_cong [of ?r y s h] c k xr that by simp
  ultimately have "extra_ok h ?r y" for y by (cases "y = x") simp_all
  moreover have "live ?r a = live s a" for a using e xr by (auto simp: live_def)
  moreover have "pk_cnt plain ?r a = pk_cnt plain s a" for a using c k by simp
  ultimately show ?thesis using inv rl by (simp add: sq_inv_def)
qed

lemma enqueue_clone_inv:
  assumes inv: "sq_inv h s" and e: "sq_extra s x = Some e" and p: "registered s p" and b: "ref_cnt e + 1 < 2 ^ 32"
    and r: "r = fst (mtlk_sq_enqueue_clone s k x clone_ok p)"
  shows "sq_inv h r \<and> sq_lists r = sq_lists s \<and> (\<exists>e'. sq_extra r x = Some e' \<and> ref_cnt e' \<le> ref_cnt e + 1)"
proof (cases clone_ok)
  case False
  then show ?thesis using inv e r by (simp add: mtlk_sq_enqueue_clone_def)
next
  case True
  let ?c = "k\<lparr>pk_urgent := False, pk_extra := Some x\<rparr>"
  let ?a = "mtlk_nbuf_priv_extra_attach x s"
  have "extra_ok h s x" using inv by (simp add: sq_inv_def)
  then have ac: "0 < ref_cnt e" "p \<in> set (sq_lists s (ex_ac e))" 
    using p unfolding extra_ok_def e option.case registered_def by blast+
  have A: "?a = s\<lparr>sq_extra := (sq_extra s)(x := Some (e\<lparr>ref_cnt := ref_cnt e + 1\<rparr>))\<rparr>"
    using e b by (simp add: mtlk_nbuf_priv_extra_attach_def inc32_eq)
  show ?thesis
  proof (rule enqueue_pkt_cases [of ?a p ?c "ex_ac e" "ex_front e"])
    fix s1 assume q: "mtlk_sq_enqueue_pkt ?a p ?c (ex_ac e) (ex_front e) = (s1, MTLK_ERR_NO_RESOURCES)"
      and f: "sq_lists s1 = sq_lists ?a" "\<And>q a. sq_buf s1 q a = sq_buf ?a q a" "sq_size s1 = sq_size ?a" "sq_extra s1 = sq_extra ?a"
    have x1: "sq_extra s1 x = Some (e\<lparr>ref_cnt := ref_cnt e + 1\<rparr>)" using f(4) A by simp
    have d: "dec32 (ref_cnt e + 1) = ref_cnt e" using b by (simp add: dec32_eq)
    have "fst (mtlk_nbuf_priv_extra_detach x s1) = s1\<lparr>sq_extra := (sq_extra s1)(x := Some (e\<lparr>ref_cnt := ref_cnt e\<rparr>))\<rparr>"
      using x1 d ac(1) by (simp add: mtlk_nbuf_priv_extra_detach_def)
    moreover have "(sq_extra s1)(x := Some (e\<lparr>ref_cnt := ref_cnt e\<rparr>)) = sq_extra s" using f(4) A e by (simp add: fun_eq_iff)
    ultimately have R: "r = sq_out (SqFreed p (ex_ac e) ?c) (s1\<lparr>sq_extra := sq_extra s\<rparr>)"
      using r True e q by (simp add: mtlk_sq_enqueue_clone_def)
    have "sq_inv h r" unfolding R using f A by (intro sq_inv_cong [OF inv]) simp_all
    then show ?thesis using R e f A by simp
  next
    assume q: "mtlk_sq_enqueue_pkt ?a p ?c (ex_ac e) (ex_front e) =
      (set_buf p (ex_ac e) (push (ex_front e) ?c (sq_buf ?a p (ex_ac e))) ?a, MTLK_ERR_OK)"
    have "sq_buf ?a p (ex_ac e) = sq_buf s p (ex_ac e)" using A by simp
    then have R: "r = set_buf p (ex_ac e) (push (ex_front e) ?c (sq_buf s p (ex_ac e))) ?a"
      using r True e q by (simp add: mtlk_sq_enqueue_clone_def)
    have "sq_inv h r" unfolding R by (rule push_clone_inv [OF inv e ac(2) _ b]) simp
    then show ?thesis using R A by simp
  qed
qed

lemma mc_transmit_inv:
  assumes inv: "sq_inv None s" and ac: "ac < NTS_PRIORITIES" and x: "\<forall>a. x = Some a \<longrightarrow> sq_extra s a = None"
    and d: "\<forall>(p, ok)\<in>set dsts. registered s p" and n: "length dsts + 2 < 2 ^ 32"
  shows "sq_inv None (mc_transmit_group s ac k x dsts)"
proof (cases x)
  case None
  then show ?thesis using inv by (simp add: mc_transmit_group_def mtlk_sq_enqueue_clone_begin_def split_def)
next
  case (Some a)
  obtain ac1 fr where sw: "mtlk_sq_switch_if_urgent k ac False = (ac1, fr)" by fastforce
  have ac1: "ac1 < NTS_PRIORITIES" using switch_urgent_less [OF ac, of k False] sw by simp
  define s1 where "s1 = inc_size ac1 (s\<lparr>sq_extra := (sq_extra s)(a := Some \<lparr>ref_cnt = Suc 0, ex_ac = ac1, ex_front = fr\<rparr>)\<rparr>)"
  let ?f = "\<lambda>s (p, ok). fst (mtlk_sq_enqueue_clone s k a ok p)"
  have eq: "mc_transmit_group s ac k x dsts = mtlk_sq_enqueue_clone_end (foldl ?f s1 dsts) a"
    using Some sw by (simp add: mc_transmit_group_def mtlk_sq_enqueue_clone_begin_def s1_def)
  have i1: "sq_inv (Some a) s1" unfolding s1_def using clone_begin_inv [OF inv ac1] x Some by simp
  have "sq_inv (Some a) (foldl ?f t ds)"
    if "sq_inv (Some a) t" "sq_lists t = sq_lists s" "sq_extra t a = Some e" "ref_cnt e + length ds + 1 < 2 ^ 32"
      "set ds \<subseteq> set dsts" for t ds e
    using that
  proof (induction ds arbitrary: t e)
    case (Cons q ds)
    obtain p ok where q: "q = (p, ok)" by (cases q)
    have "registered t p" using d Cons.prems(2,5) q by (auto simp: registered_def)
    then have st: "sq_inv (Some a) (?f t q) \<and> sq_lists (?f t q) = sq_lists t \<and>
        (\<exists>e'. sq_extra (?f t q) a = Some e' \<and> ref_cnt e' \<le> ref_cnt e + 1)"
      using enqueue_clone_inv [OF Cons.prems(1,3), of p "?f t q" k ok] Cons.prems(4) q by simp
    then obtain e' where e': "sq_extra (?f t q) a = Some e'" "ref_cnt e' \<le> ref_cnt e + 1" by (elim conjE exE)
    have "ref_cnt e' + length ds + 1 < 2 ^ 32" using e'(2) Cons.prems(4) by simp
    then show ?case using Cons.IH [of "?f t q" e'] st e'(1) Cons.prems(2,5) by simp
  qed simp
  from this [OF i1, of "\<lparr>ref_cnt = Suc 0, ex_ac = ac1, ex_front = fr\<rparr>" dsts] n
  have "sq_inv (Some a) (foldl ?f s1 dsts)" by (simp add: s1_def)
  then show ?thesis unfolding eq by (rule clone_end_inv)
qed

section \<open>Peers and transmission\<close>

lemma peer_init_inv:
  assumes inv: "sq_inv h s" and p: "\<forall>ac<NTS_PRIORITIES. p \<notin> set (sq_lists s ac)"
  shows "sq_inv h (mtlk_sq_peer_ctx_init s p lim)" (is "sq_inv h ?r")
proof -
  have sel: "sq_lists ?r a = (if a < NTS_PRIORITIES then p # sq_lists s a else sq_lists s a)"
    "sq_buf ?r q a = (if q = p then [] else sq_buf s q a)" for q a
    by (simp_all add: mtlk_sq_peer_ctx_init_def sq_buf_def upd_peer_def)
  have c: "pk_cnt P ?r a = pk_cnt P s a" if "a < NTS_PRIORITIES" for P a
  proof -
    have "length (filter P (sq_buf ?r q a)) = length (filter P (sq_buf s q a))" if "q \<in> set (sq_lists s a)" for q
      using that p \<open>a < NTS_PRIORITIES\<close> sel by auto
    then have "map (\<lambda>q. length (filter P (sq_buf ?r q a))) (sq_lists s a) = map (\<lambda>q. length (filter P (sq_buf s q a))) (sq_lists s a)"
      by simp
    then show ?thesis using that sel by (simp add: pk_cnt_def del: map_eq_conv)
  qed
  have x: "sq_extra ?r = sq_extra s" "sq_size ?r = sq_size s" by (simp_all add: mtlk_sq_peer_ctx_init_def upd_peer_def)
  have "extra_ok h ?r y" for y using inv extra_ok_cong [of ?r y s h] c x by (simp add: sq_inv_def)
  then show ?thesis using inv p sel c x live_cong [OF x(1)] by (simp add: sq_inv_def)
qed

lemma upd_peer_inv: "sq_inv h s \<Longrightarrow> (\<And>x. buflist (f x) = buflist x) \<Longrightarrow> sq_inv h (upd_peer p f s)"
  by (erule sq_inv_cong) (simp_all add: sq_buf_upd_peer)

lemma release_calls: "mtlk_sq_release_packet (s\<lparr>hw_calls := n\<rparr>) ac k = (mtlk_sq_release_packet s ac k)\<lparr>hw_calls := n\<rparr>"
  by (simp add: mtlk_sq_release_packet_def mtlk_sq_enqueue_clone_end_def mtlk_nbuf_priv_extra_detach_def dec_size_def split: option.split)

lemma serve_inv:
  assumes inv: "sq_inv h s" and ac: "ac < NTS_PRIORITIES" and p: "p \<in> set (sq_lists s ac)"
  shows "sq_inv h (fst (sq_serve hw s ac p))"
proof (cases "sq_buf s p ac")
  case Nil
  then show ?thesis using inv by (simp add: sq_serve_cases)
next
  case (Cons k ks)
  let ?o = "sq_offered s p ac"
  have "?o = (set_buf p ac ks s)\<lparr>hw_calls := hw_calls ?o\<rparr>" using Cons by (simp add: sq_offered_def Let_def)
  then have o: "mtlk_sq_release_packet ?o ac k = (mtlk_sq_release_packet (set_buf p ac ks s) ac k)\<lparr>hw_calls := hw_calls ?o\<rparr>"
    by (metis release_calls)
  have "sq_inv h (mtlk_sq_release_packet (set_buf p ac ks s) ac k)" using release_inv [OF assms, of "[]" k ks] Cons by simp
  then have r: "sq_inv h (mtlk_sq_release_packet ?o ac k)" unfolding o by (rule sq_inv_cong) simp_all
  then have "sq_inv h (sq_sent s p ac k)" "sq_inv h (sq_lost s p ac k)"
    by (simp_all add: sq_sent_def sq_lost_def sq_out_inv upd_peer_inv)
  moreover have "sq_inv h (set_buf p ac (k # ks) ?o)" by (rule sq_inv_cong [OF inv]) (simp_all add: Cons)
  ultimately show ?thesis using inv Cons by (simp add: sq_serve_cases Let_def)
qed

lemma pass_inv:
  assumes "sq_inv h s" "ac < NTS_PRIORITIES" "set ps \<subseteq> set (sq_lists s ac)"
  shows "sq_inv h (fst (sq_pass hw s ac ps n)) \<and> sq_lists (fst (sq_pass hw s ac ps n)) = sq_lists s"
  using assms
proof (induction ps arbitrary: s n)
  case (Cons p ps)
  obtain s1 t e where sv: "sq_serve hw s ac p = (s1, t, e)" by (cases "sq_serve hw s ac p") auto
  have "sq_inv h s1" "sq_lists s1 = sq_lists s"
    using serve_inv [of h s ac p hw] sq_serve_lists [of hw s ac p] Cons.prems sv by simp_all
  then show ?case using Cons sv by (cases e) simp_all
qed simp

lemma shift_inv: "sq_inv h s \<Longrightarrow> sq_inv h (sq_shift ac s)"
proof -
  assume inv: "sq_inv h s"
  have m: "mset (sq_lists (sq_shift ac s) a) = mset (sq_lists s a)" for a
    by (auto simp: sq_shift_def split: list.split)
  have o: "sq_extra (sq_shift ac s) = sq_extra s" "sq_size (sq_shift ac s) = sq_size s" "sq_buf (sq_shift ac s) q a = sq_buf s q a" for q a
    by (auto simp: sq_shift_def split: list.split)
  have c: "pk_cnt P (sq_shift ac s) a = pk_cnt P s a" for P a
    unfolding pk_cnt_def o sum_mset_sum_list [symmetric] mset_map m ..
  have "extra_ok h (sq_shift ac s) x = extra_ok h s x" for x by (rule extra_ok_cong) (simp_all add: c o)
  moreover have "distinct (sq_lists (sq_shift ac s) a) = distinct (sq_lists s a)" for a using mset_eq_imp_distinct_iff [OF m] .
  ultimately show ?thesis using inv c o live_cong [OF o(1)] by (simp add: sq_inv_def)
qed

lemma process_inv: "sq_inv h s \<Longrightarrow> ac < NTS_PRIORITIES \<Longrightarrow> sq_inv h (fst (process_packets_by_ac hw s ac))"
proof (induction hw s ac rule: process_packets_by_ac.induct)
  case (1 hw s ac)
  obtain s1 n e where ps: "sq_pass hw s ac (sq_lists s ac) 0 = (s1, n, e)" by (cases "sq_pass hw s ac (sq_lists s ac) 0") auto
  have i: "sq_inv h s1" using pass_inv [OF 1(2,3) order.refl, of hw 0] ps by simp
  show ?case
  proof (cases e)
    case None
    then show ?thesis using 1 i ps shift_inv [OF i] by (subst process_packets_by_ac.simps) simp
  next
    case (Some x)
    then show ?thesis using i ps by (subst process_packets_by_ac.simps) simp
  qed
qed

lemma flush_acs_inv: "sq_inv h s \<Longrightarrow> \<forall>ac\<in>set acs. ac < NTS_PRIORITIES \<Longrightarrow> sq_inv h (sq_flush_acs hw s acs)"
proof (induction acs arbitrary: s)
  case (Cons ac acs)
  have "sq_inv h (fst (process_packets_by_ac hw s ac))" using Cons.prems by (intro process_inv) simp_all
  then show ?case using Cons by (cases "process_packets_by_ac hw s ac") simp
qed simp

lemma flush_order: "map mtlk_get_ac_by_number (rev [0..<NTS_PRIORITIES]) = [AC_VO, AC_VI, AC_BE, AC_BK]"
  by (simp add: NTS_PRIORITIES_def mtlk_get_ac_by_number_def upt_rec)

lemma flush_turn_inv: "sq_inv h s \<Longrightarrow> sq_inv h (sq_flush_turn hw s)"
  unfolding sq_flush_turn_def flush_order
  by (rule flush_acs_inv) (simp_all add: AC_VO_def AC_VI_def AC_BE_def AC_BK_def NTS_PRIORITIES_def)

lemma flag_inv:
  "sq_inv h s \<Longrightarrow> sq_inv h (s\<lparr>flush_in_progress := b\<rparr>)" "sq_inv h s \<Longrightarrow> sq_inv h (s\<lparr>flush_count := n\<rparr>)"
  "sq_inv h s \<Longrightarrow> sq_inv h (s\<lparr>hw_tx_prohibited := b\<rparr>)" "sq_inv h s \<Longrightarrow> sq_inv h (s\<lparr>global_queue_limit := g\<rparr>)"
  "sq_inv h s \<Longrightarrow> sq_inv h (s\<lparr>peer_queue_limit := g\<rparr>)"
  by (erule sq_inv_cong; simp add: sq_buf_def)+

lemma flush_inv: "sq_inv h s \<Longrightarrow> sq_inv h (mtlk_sq_flush hw s reqs)"
proof -
  have "sq_inv h (sq_flush_loop hw s reqs)" if "sq_inv h s" for s
    using that by (induction reqs arbitrary: s) (simp_all add: flag_inv flush_turn_inv Let_def)
  then show "sq_inv h s \<Longrightarrow> sq_inv h (mtlk_sq_flush hw s reqs)" by (simp add: mtlk_sq_flush_def flag_inv)
qed

end
