(* ===== verification/Sq_Props.thy ===== *)
theory Sq_Props
  imports Sq_Inv
begin

text \<open>
  The properties of the traffic shaper: accounting over every run, order and conservation of the
  packets, that the send loop ends only when there is nothing it may send, the limit of packets in
  the hardware, admission, and the change of the limits.
\<close>

section \<open>Runs\<close>

datatype sq_event =
    SqEnqueue nat bool nat sq_pkt
  | SqMulticast nat sq_pkt "nat option" "(nat \<times> bool) list"
  | SqPeerInit nat nat
  | SqPeerCleanup nat
  | SqCancel nat
  | SqCancelVap nat nat
  | SqFlush "nat \<Rightarrow> mtlk_error_t" "nat list"
  | SqTxCfm nat nat
  | SqPm nat bool
  | SqRestore nat nat
  | SqTxEnable bool
  | SqSetLimits "int list"
  | SqSetPeerLimits "int list"

fun sq_step :: "mtlk_sq_t \<Rightarrow> sq_event \<Rightarrow> mtlk_sq_t" where
  "sq_step s (SqEnqueue ac front p k) = fst (mtlk_sq_enqueue s ac front p k)"
| "sq_step s (SqMulticast ac k x dsts) = mc_transmit_group s ac k x dsts"
| "sq_step s (SqPeerInit p lim) = mtlk_sq_peer_ctx_init s p lim"
| "sq_step s (SqPeerCleanup p) = mtlk_sq_peer_ctx_cleanup s p"
| "sq_step s (SqCancel p) = mtlk_sq_peer_ctx_cancel_all_packets s p"
| "sq_step s (SqCancelVap p vap) = mtlk_sq_peer_ctx_cancel_all_packets_for_vap s p vap"
| "sq_step s (SqFlush hw reqs) = mtlk_sq_flush hw s reqs"
| "sq_step s (SqTxCfm p ac) = mtlk_sq_on_tx_cfm s p ac"
| "sq_step s (SqPm p b) = mtlk_sq_set_pm_enabled s p b"
| "sq_step s (SqRestore p lim) = mtlk_sq_peer_ctx_on_rcvry_restore s p lim"
| "sq_step s (SqTxEnable b) = (if b then mtlk_sq_tx_enable s else mtlk_sq_tx_disable s)"
| "sq_step s (SqSetLimits lims) = (case sq_set_limits s lims of Some (s1, _) \<Rightarrow> s1 | None \<Rightarrow> s)"
| "sq_step s (SqSetPeerLimits rs) = fst (sq_set_peer_limits s rs)"

text \<open>
  What the callers respect: contexts are used between their initialisation and their cleanup, a
  packet handed in carries no shared record yet, and the allocator returns unused memory.
\<close>

fun sq_event_ok :: "mtlk_sq_t \<Rightarrow> sq_event \<Rightarrow> bool" where
  "sq_event_ok s (SqEnqueue ac front p k) = (ac < NTS_PRIORITIES \<and> registered s p \<and> plain k)"
| "sq_event_ok s (SqMulticast ac k x dsts) =
     (ac < NTS_PRIORITIES \<and> (\<forall>a. x = Some a \<longrightarrow> sq_extra s a = None) \<and> (\<forall>(p, ok)\<in>set dsts. registered s p) \<and>
      length dsts + 2 < 2 ^ 32)"
| "sq_event_ok s (SqPeerInit p lim) = (\<forall>ac<NTS_PRIORITIES. p \<notin> set (sq_lists s ac))"
| "sq_event_ok s (SqPeerCleanup p) = registered s p"
| "sq_event_ok s (SqCancel p) = registered s p"
| "sq_event_ok s (SqCancelVap p vap) = registered s p"
| "sq_event_ok s (SqSetLimits lims) = (sq_set_limits s lims \<noteq> None)"
| "sq_event_ok s _ = True"

lemma put_limits_inv: "sq_inv h s \<Longrightarrow> sq_put_limits s ls = Some s1 \<Longrightarrow> sq_inv h s1"
  by (induction s ls rule: sq_put_limits.induct) (auto split: option.splits intro: flag_inv)

lemma set_limits_inv: "sq_inv h s \<Longrightarrow> sq_set_limits s lims = Some (s1, e) \<Longrightarrow> sq_inv h s1"
  by (auto simp: sq_set_limits_def split: if_splits intro: put_limits_inv)

interpretation sq: step_system sq_step sq_event_ok "sq_inv None"
proof
  fix s e assume i: "sq_inv None s" and ok: "sq_event_ok s e"
  show "sq_inv None (sq_step s e)"
  proof (cases e)
    case (SqMulticast ac k x dsts)
    then show ?thesis using mc_transmit_inv [OF i, of ac x dsts k] ok by simp
  next
    case (SqSetLimits lims)
    then show ?thesis using i set_limits_inv [OF i] by (auto split: option.split)
  qed (use i ok in \<open>simp_all add: enqueue_inv peer_init_inv cleanup_inv cancel_inv flush_inv upd_peer_inv flag_inv
         mtlk_sq_on_tx_cfm_def mtlk_sq_set_pm_enabled_def mtlk_sq_peer_ctx_on_rcvry_restore_def mtlk_sq_tx_enable_def
         mtlk_sq_tx_disable_def sq_set_peer_limits_def\<close>)
qed

lemma sq_init_inv: "sq_inv None sq_init"
  by (simp add: sq_inv_def extra_ok_def held_def pk_cnt_def live_def sq_init_def mtlk_sq_init_def)

text \<open>What the invariant says of the packets themselves.\<close>

lemma pk_cnt_0: "pk_cnt P s ac = 0 \<longleftrightarrow> (\<forall>p\<in>set (sq_lists s ac). \<forall>k\<in>set (sq_buf s p ac). \<not> P k)"
  by (auto simp: pk_cnt_def filter_empty_conv)

lemma sq_inv_no_dangling:
  assumes "sq_inv None s" "ac < NTS_PRIORITIES" "p \<in> set (sq_lists s ac)" "k \<in> set (sq_buf s p ac)" "pk_extra k = Some x"
  shows "\<exists>e. sq_extra s x = Some e \<and> ex_ac e = ac"
proof -
  have "pk_cnt (clone_of x) s ac \<noteq> 0" unfolding pk_cnt_0 using assms(3-5) by blast
  moreover have "extra_ok None s x" using assms(1) by (simp add: sq_inv_def)
  ultimately show ?thesis using assms(2) by (cases "sq_extra s x") (auto simp: extra_ok_def)
qed

lemma sq_inv_extra:
  assumes "sq_inv None s" "sq_extra s x = Some e"
  shows "ex_ac e < NTS_PRIORITIES" "0 < ref_cnt e" "ref_cnt e = pk_cnt (clone_of x) s (ex_ac e)"
proof -
  have "extra_ok None s x" using assms(1) by (simp add: sq_inv_def)
  then show "ex_ac e < NTS_PRIORITIES" "0 < ref_cnt e" "ref_cnt e = pk_cnt (clone_of x) s (ex_ac e)"
    using assms(2) unfolding extra_ok_def by (auto simp: held_def)
qed

lemma sq_inv_empty:
  assumes "sq_inv None s" "\<forall>ac<NTS_PRIORITIES. \<forall>p\<in>set (sq_lists s ac). sq_buf s p ac = []"
  shows "(\<forall>x. sq_extra s x = None) \<and> (\<forall>ac<NTS_PRIORITIES. sq_size s ac = 0)"
proof -
  have c: "pk_cnt P s ac = 0" if "ac < NTS_PRIORITIES" for P ac unfolding pk_cnt_0 using assms(2) that by simp
  have x: "sq_extra s x = None" for x
    using sq_inv_extra [OF assms(1), of x] c by (cases "sq_extra s x") auto
  then have "live s ac = {}" for ac by (simp add: live_def)
  then show ?thesis using assms(1) x c by (simp add: sq_inv_def)
qed

section \<open>Order\<close>

text \<open>The packets of one peer and category in a piece of the log.\<close>

fun out_pkts :: "nat \<Rightarrow> nat \<Rightarrow> sq_out list \<Rightarrow> sq_pkt list" where
  "out_pkts p ac [] = []"
| "out_pkts p ac (SqSent q a k # l) = (if q = p \<and> a = ac then k # out_pkts p ac l else out_pkts p ac l)"
| "out_pkts p ac (SqFreed q a k # l) = (if q = p \<and> a = ac then k # out_pkts p ac l else out_pkts p ac l)"

lemma out_pkts_append: "out_pkts p ac (l @ m) = out_pkts p ac l @ out_pkts p ac m"
  by (induction p ac l rule: out_pkts.induct) simp_all

definition fifo :: "mtlk_sq_t \<Rightarrow> mtlk_sq_t \<Rightarrow> bool" where
  "fifo s s' \<longleftrightarrow> (\<exists>l. sq_log s' = sq_log s @ l \<and> (\<forall>p a. sq_buf s p a = out_pkts p a l @ sq_buf s' p a))"

lemma fifo_refl: "sq_log s' = sq_log s \<Longrightarrow> (\<And>p a. sq_buf s' p a = sq_buf s p a) \<Longrightarrow> fifo s s'"
  unfolding fifo_def by (rule exI [of _ "[]"]) simp

lemma fifo_trans: "fifo s t \<Longrightarrow> fifo t u \<Longrightarrow> fifo s u"
  unfolding fifo_def by (elim exE conjE) (rule_tac x = "l @ la" in exI, simp add: out_pkts_append)

lemma serve_fifo: "fifo s (fst (sq_serve hw s ac p))"
proof (cases "sq_buf s p ac")
  case Nil
  then show ?thesis by (simp add: sq_serve_cases fifo_refl)
next
  case (Cons k ks)
  have "fifo s (sq_sent s p ac k)" unfolding fifo_def by (rule exI [of _ "[SqSent p ac k]"]) (simp add: Cons)
  moreover have "fifo s (sq_lost s p ac k)" unfolding fifo_def by (rule exI [of _ "[SqFreed p ac k]"]) (simp add: Cons)
  moreover have "fifo s (set_buf p ac (k # ks) (sq_offered s p ac))" by (rule fifo_refl) (simp_all add: Cons)
  ultimately show ?thesis using Cons by (simp add: sq_serve_cases Let_def fifo_refl)
qed

lemma pass_fifo: "fifo s (fst (sq_pass hw s ac ps n))"
proof (induction ps arbitrary: s n)
  case (Cons p ps)
  obtain s1 t e where sv: "sq_serve hw s ac p = (s1, t, e)" by (cases "sq_serve hw s ac p") auto
  then have "fifo s s1" using serve_fifo [of s hw ac p] by simp
  then show ?case using Cons [of s1] sv fifo_trans by (cases e) simp_all
qed (simp add: fifo_refl)

lemma process_fifo: "fifo s (fst (process_packets_by_ac hw s ac))"
proof (induction hw s ac rule: process_packets_by_ac.induct)
  case (1 hw s ac)
  obtain s1 n e where ps: "sq_pass hw s ac (sq_lists s ac) 0 = (s1, n, e)" by (cases "sq_pass hw s ac (sq_lists s ac) 0") auto
  have f: "fifo s s1" using pass_fifo [of s hw ac "sq_lists s ac" 0] ps by simp
  have "fifo s1 (sq_shift ac s1)" by (rule fifo_refl) (simp_all add: sq_shift_def split: list.split)
  then have "fifo s (sq_shift ac s1)" by (rule fifo_trans [OF f])
  moreover have "fifo s (fst (process_packets_by_ac hw s1 ac))" if "e = None" "n \<noteq> 0"
    using 1 ps that by (intro fifo_trans [OF f]) simp
  ultimately show ?case using ps f by (subst process_packets_by_ac.simps) (cases e; simp)
qed

lemma flush_acs_fifo: "fifo s (sq_flush_acs hw s acs)"
proof (induction acs arbitrary: s)
  case (Cons ac acs)
  obtain s1 e where p: "process_packets_by_ac hw s ac = (s1, e)" by fastforce
  then have "fifo s s1" using process_fifo [of s hw ac] by simp
  then show ?case using Cons [of s1] p fifo_trans by simp
qed (simp add: fifo_refl)

lemma fifo_flags:
  "fifo (s\<lparr>flush_in_progress := b\<rparr>) t = fifo s t" "fifo s (t\<lparr>flush_in_progress := b\<rparr>) = fifo s t" "fifo s (t\<lparr>flush_count := n\<rparr>) = fifo s t"
  by (simp_all add: fifo_def sq_buf_def)

lemma flush_turn_fifo: "fifo s (sq_flush_turn hw (s\<lparr>flush_in_progress := True\<rparr>))"
  using flush_acs_fifo [of "s\<lparr>flush_in_progress := True\<rparr>" hw] by (simp add: sq_flush_turn_def fifo_flags)

lemma flush_loop_fifo: "fifo s (sq_flush_loop hw s reqs)"
proof (induction reqs arbitrary: s)
  case Nil
  show ?case using flush_turn_fifo [of s hw] by (simp add: fifo_flags)
next
  case (Cons r rs)
  let ?t = "sq_flush_turn hw (s\<lparr>flush_in_progress := True\<rparr>)"
  let ?u = "?t\<lparr>flush_count := (flush_count ?t + r) mod 2 ^ 32, flush_in_progress := False\<rparr>"
  have "fifo s ?u" using flush_turn_fifo [of s hw] by (simp add: fifo_flags)
  then have "fifo s (sq_flush_loop hw ?u rs)" using fifo_trans Cons by blast
  then show ?case using flush_turn_fifo [of s hw] by (simp add: Let_def fifo_flags)
qed

section \<open>The limit of packets in the hardware\<close>

text \<open>What sending does to the counters of a peer; the configuration of the peer stays.\<close>

definition capped :: "nat \<Rightarrow> mtlk_sq_peer_ctx_t \<Rightarrow> mtlk_sq_peer_ctx_t \<Rightarrow> bool" where
  "capped ac x y \<longleftrightarrow> limit y = limit x \<and> limit_per_ac y = limit_per_ac x \<and> ps_mode_enabled y = ps_mode_enabled x \<and>
     (if ps_mode_enabled x \<and> limit_per_ac x ac \<noteq> 0 then used_per_ac y ac \<le> max (used_per_ac x ac) (limit_per_ac x ac)
      else used_cnt y \<le> max (used_cnt x) (limit x))"

lemma capped_refl: "capped ac x x"
  by (simp add: capped_def)

lemma capped_trans: "capped ac x y \<Longrightarrow> capped ac y z \<Longrightarrow> capped ac x z"
  by (auto simp: capped_def split: if_splits)

lemma set_buf_capped: "capped ac (sq_peers s q) (sq_peers (set_buf p a ks s) q)"
  by (simp add: capped_def set_buf_def upd_peer_def)

lemma inc32_le: "inc32 n \<le> Suc n"
  by (simp add: inc32_def)

lemma serve_capped: "capped ac (sq_peers s q) (sq_peers (fst (sq_serve hw s ac p)) q)"
proof (cases "sq_buf s p ac = [] \<or> sq_blocked s p ac")
  case True
  then show ?thesis by (simp add: sq_serve_cases capped_refl)
next
  case False
  let ?k = "hd (sq_buf s p ac)"
  have o: "sq_peers (sq_offered s p ac) = sq_peers (set_buf p ac (tl (sq_buf s p ac)) s)"
    by (simp add: sq_offered_def Let_def)
  then have lost: "capped ac (sq_peers s q) (sq_peers (sq_lost s p ac ?k) q)" by (simp add: sq_lost_def set_buf_capped)
  have put: "capped ac (sq_peers s q) (sq_peers (set_buf p ac ks (sq_offered s p ac)) q)" for ks
    by (rule capped_trans [OF _ set_buf_capped]) (simp add: o set_buf_capped)
  have "capped ac (sq_peers s q) (sq_peers (sq_sent s p ac ?k) q)"
    using False inc32_le [of "used_cnt (sq_peers s q)"] inc32_le [of "used_per_ac (sq_peers s q) ac"]
    by (auto simp: sq_sent_def upd_peer_def o set_buf_def capped_def sq_blocked_def Let_def split: if_splits)
  then show ?thesis using lost put by (simp add: sq_serve_cases Let_def False)
qed

lemma pass_capped: "capped ac (sq_peers s q) (sq_peers (fst (sq_pass hw s ac ps n)) q)"
proof (induction ps arbitrary: s n)
  case (Cons p ps)
  obtain s1 t e where sv: "sq_serve hw s ac p = (s1, t, e)" by (cases "sq_serve hw s ac p") auto
  then have "capped ac (sq_peers s q) (sq_peers s1 q)" using serve_capped [of ac s q hw p] by simp
  then show ?case using capped_trans [OF _ Cons [of s1]] sv by (cases e) simp_all
qed (simp add: capped_refl)

lemma shift_peers: "sq_peers (sq_shift ac s) = sq_peers s"
  by (simp add: sq_shift_def split: list.split)

lemma process_capped: "capped ac (sq_peers s q) (sq_peers (fst (process_packets_by_ac hw s ac)) q)"
proof (induction hw s ac rule: process_packets_by_ac.induct)
  case (1 hw s ac)
  obtain s1 n e where ps: "sq_pass hw s ac (sq_lists s ac) 0 = (s1, n, e)" by (cases "sq_pass hw s ac (sq_lists s ac) 0") auto
  have f: "capped ac (sq_peers s q) (sq_peers s1 q)" using pass_capped [of ac s q hw "sq_lists s ac" 0] ps by simp
  moreover have "capped ac (sq_peers s q) (sq_peers (fst (process_packets_by_ac hw s1 ac)) q)" if "e = None" "n \<noteq> 0"
    using 1 ps that by (intro capped_trans [OF f]) simp
  ultimately show ?case using ps f by (subst process_packets_by_ac.simps) (cases e; simp add: shift_peers)
qed

section \<open>The send loop stops for a reason\<close>

definition refused :: "(nat \<Rightarrow> mtlk_error_t) \<Rightarrow> mtlk_sq_t \<Rightarrow> mtlk_sq_t \<Rightarrow> bool" where
  "refused hw s s' \<longleftrightarrow> hw_tx_prohibited s \<or>
     (\<exists>n. hw_calls s \<le> n \<and> n < hw_calls s' \<and> hw n \<noteq> MTLK_ERR_OK \<and> hw n \<noteq> MTLK_ERR_PKT_DROPPED)"

lemma refused_mono:
  assumes "refused hw t s'" "hw_calls s \<le> hw_calls t" "hw_tx_prohibited t = hw_tx_prohibited s"
  shows "refused hw s s'"
proof (cases "hw_tx_prohibited s")
  case False
  then obtain n where "hw_calls t \<le> n" "n < hw_calls s'" "hw n \<noteq> MTLK_ERR_OK" "hw n \<noteq> MTLK_ERR_PKT_DROPPED"
    using assms(1,3) by (auto simp: refused_def)
  then show ?thesis using assms(2) unfolding refused_def by (intro disjI2 exI [of _ n]) simp
qed (simp add: refused_def)

lemma release_hw [simp]:
  "hw_calls (mtlk_sq_release_packet s ac k) = hw_calls s" "hw_tx_prohibited (mtlk_sq_release_packet s ac k) = hw_tx_prohibited s"
  by (simp_all add: mtlk_sq_release_packet_def mtlk_sq_enqueue_clone_end_def mtlk_nbuf_priv_extra_detach_def dec_size_def
      split: option.split)

lemma offered_hw [simp]:
  "hw_calls (sq_offered s p ac) = (if hw_tx_prohibited s then hw_calls s else Suc (hw_calls s))"
  "hw_tx_prohibited (sq_offered s p ac) = hw_tx_prohibited s"
  by (simp_all add: sq_offered_def set_buf_def upd_peer_def Let_def)

lemma set_buf_hw [simp]:
  "hw_calls (set_buf p ac ks s) = hw_calls s" "hw_tx_prohibited (set_buf p ac ks s) = hw_tx_prohibited s"
  by (simp_all add: set_buf_def upd_peer_def)

lemma sent_hw [simp]:
  "hw_calls (sq_sent s p ac k) = hw_calls (sq_offered s p ac)" "hw_tx_prohibited (sq_sent s p ac k) = hw_tx_prohibited s"
  "hw_calls (sq_lost s p ac k) = hw_calls (sq_offered s p ac)" "hw_tx_prohibited (sq_lost s p ac k) = hw_tx_prohibited s"
  by (simp_all add: sq_sent_def sq_lost_def sq_out_def upd_peer_def)

lemma serve_hw:
  assumes "sq_serve hw s ac p = (s1, t, e)"
  shows "hw_calls s \<le> hw_calls s1 \<and> hw_tx_prohibited s1 = hw_tx_prohibited s \<and>
    (\<forall>x. e = Some x \<longrightarrow> x \<in> {MTLK_ERR_PROHIB, MTLK_ERR_UNKNOWN} \<and> refused hw s s1)"
  using assms
  by (auto simp: sq_serve_cases Let_def refused_def sq_answer_def split: if_splits)

lemma pass_hw:
  assumes "sq_pass hw s ac ps n = (s1, m, e)"
  shows "hw_calls s \<le> hw_calls s1 \<and> hw_tx_prohibited s1 = hw_tx_prohibited s \<and>
    (\<forall>x. e = Some x \<longrightarrow> x \<in> {MTLK_ERR_PROHIB, MTLK_ERR_UNKNOWN} \<and> refused hw s s1)"
  using assms
proof (induction ps arbitrary: s n)
  case (Cons p ps)
  obtain s2 t e2 where sv: "sq_serve hw s ac p = (s2, t, e2)" by (cases "sq_serve hw s ac p") auto
  note h = serve_hw [OF sv]
  show ?case
  proof (cases e2)
    case None
    then have "sq_pass hw s2 ac ps (if t then Suc n else n) = (s1, m, e)" using Cons.prems sv by simp
    from Cons.IH [OF this] h show ?thesis using refused_mono [of hw s2 s1 s] by auto
  next
    case (Some x)
    then show ?thesis using h sv Cons.prems by auto
  qed
qed simp

text \<open>A pass that takes nothing changes nothing and finds every peer empty or blocked.\<close>

lemma pass_idle:
  assumes "sq_pass hw s ac ps n = (s1, n, None)"
  shows "s1 = s \<and> (\<forall>p\<in>set ps. sq_buf s p ac = [] \<or> sq_blocked s p ac)"
  using assms
proof (induction ps arbitrary: s)
  case (Cons p ps)
  obtain s2 t e where sv: "sq_serve hw s ac p = (s2, t, e)" by (cases "sq_serve hw s ac p") auto
  have e: "e = None" using Cons.prems sv by (cases e) auto
  have t: "\<not> t"
  proof
    assume t
    then have "sq_pass hw s2 ac ps (Suc n) = (s1, n, None)" using Cons.prems sv e by simp
    from sq_pass_backlog [OF this order.refl] show False by simp
  qed
  then show ?case using Cons sq_serve_idle [of hw s ac p s2] sv e by simp
qed simp

lemma pass_lists: "sq_lists (fst (sq_pass hw s ac ps n)) = sq_lists s"
proof (induction ps arbitrary: s n)
  case (Cons p ps)
  obtain s2 t e where sv: "sq_serve hw s ac p = (s2, t, e)" by (cases "sq_serve hw s ac p") auto
  then show ?case using Cons [of s2] sq_serve_lists [of hw s ac p] by (cases e) simp_all
qed simp

lemma shift_sel:
  "set (sq_lists (sq_shift ac s) a) = set (sq_lists s a)" "sq_buf (sq_shift ac s) q a = sq_buf s q a"
  "sq_blocked (sq_shift ac s) q a = sq_blocked s q a" "hw_calls (sq_shift ac s) = hw_calls s"
  by (auto simp: sq_shift_def sq_blocked_def split: list.split)

lemma process_stops:
  "process_packets_by_ac hw s ac = (s', res) \<Longrightarrow>
    hw_calls s \<le> hw_calls s' \<and> set (sq_lists s' ac) = set (sq_lists s ac) \<and>
    (if res = MTLK_ERR_OK then \<forall>p\<in>set (sq_lists s ac). sq_buf s' p ac = [] \<or> sq_blocked s' p ac
     else res \<in> {MTLK_ERR_PROHIB, MTLK_ERR_UNKNOWN} \<and> refused hw s s')"
proof (induction hw s ac arbitrary: s' res rule: process_packets_by_ac.induct)
  case (1 hw s ac)
  obtain s1 n e where ps: "sq_pass hw s ac (sq_lists s ac) 0 = (s1, n, e)" by (cases "sq_pass hw s ac (sq_lists s ac) 0") auto
  note h = pass_hw [OF ps]
  have L: "sq_lists s1 = sq_lists s" using pass_lists [of hw s ac "sq_lists s ac" 0] ps by simp
  consider x where "e = Some x" | "e = None" "n = 0" | "e = None" "n \<noteq> 0" by (cases e) auto
  then show ?case
  proof cases
    case 1
    then show ?thesis using "1.prems" ps h L by (subst (asm) process_packets_by_ac.simps) auto
  next
    case 2
    have "s1 = s" "\<forall>p\<in>set (sq_lists s ac). sq_buf s p ac = [] \<or> sq_blocked s p ac"
      using pass_idle [of hw s ac "sq_lists s ac" 0 s1] ps 2 by simp_all
    moreover have "s' = sq_shift ac s1" "res = MTLK_ERR_OK"
      using "1.prems" ps 2 by (subst (asm) process_packets_by_ac.simps, simp)+
    ultimately show ?thesis by (simp add: shift_sel)
  next
    case 3
    have run: "process_packets_by_ac hw s1 ac = (s', res)" using "1.prems" ps 3 by (subst (asm) process_packets_by_ac.simps) simp
    from "1.IH" [OF ps [symmetric] refl 3(1,2) run] show ?thesis using h L refused_mono [of hw s1 s' s] by (auto split: if_splits)
  qed
qed

section \<open>Properties\<close>

text \<open>
  C24: In every run of the traffic shaper from its initialisation the size of a category is the
  number of its queued packets, the clones of one multicast packet counting once; the reference
  count of a shared record is the number of its queued clones; no queued packet refers to a freed
  record; and with empty packet lists all sizes are zero and no shared record is left.
\<close>

theorem sq_accounting:
  assumes "sq.run_ok sq_init es" "s = foldl sq_step sq_init es"
  shows "(\<forall>ac<NTS_PRIORITIES. sq_size s ac = (pk_cnt plain s ac + card (live s ac)) mod 2 ^ 32) \<and>
    (\<forall>x e. sq_extra s x = Some e \<longrightarrow> 0 < ref_cnt e \<and> ref_cnt e = pk_cnt (clone_of x) s (ex_ac e)) \<and>
    (\<forall>ac<NTS_PRIORITIES. \<forall>p\<in>set (sq_lists s ac). \<forall>k\<in>set (sq_buf s p ac). \<forall>x. pk_extra k = Some x \<longrightarrow>
       (\<exists>e. sq_extra s x = Some e \<and> ex_ac e = ac)) \<and>
    ((\<forall>ac<NTS_PRIORITIES. \<forall>p\<in>set (sq_lists s ac). sq_buf s p ac = []) \<longrightarrow>
       (\<forall>x. sq_extra s x = None) \<and> (\<forall>ac<NTS_PRIORITIES. sq_size s ac = 0))"
proof -
  have i: "sq_inv None s" using sq.run_inv [OF sq_init_inv assms(1)] assms(2) by simp
  then have "\<forall>ac<NTS_PRIORITIES. sq_size s ac = (pk_cnt plain s ac + card (live s ac)) mod 2 ^ 32" by (simp add: sq_inv_def)
  then show ?thesis using sq_inv_extra [OF i] sq_inv_no_dangling [OF i] sq_inv_empty [OF i] by blast
qed

definition demo_pkt :: "nat \<Rightarrow> sq_pkt" where
  "demo_pkt n = \<lparr>pk_id = n, pk_urgent = False, pk_vap = 0, pk_extra = None\<rparr>"

definition demo_events :: "sq_event list" where
  "demo_events = [SqPeerInit 1 2, SqPeerInit 2 2, SqMulticast 0 (demo_pkt 6) (Some 9) [(1, True), (2, True)]]"

lemma priorities_all: "(\<forall>ac<NTS_PRIORITIES. P ac) \<longleftrightarrow> P 0 \<and> P 1 \<and> P 2 \<and> P 3"
  by (auto simp: NTS_PRIORITIES_def less_Suc_eq numeral_eq_Suc)

lemma priorities_less: "0 < NTS_PRIORITIES" "Suc 0 < NTS_PRIORITIES" "1 < NTS_PRIORITIES" "2 < NTS_PRIORITIES" "3 < NTS_PRIORITIES"
  by (simp_all add: NTS_PRIORITIES_def)

lemmas demo_defs = demo_pkt_def demo_events_def sq_init_def mtlk_sq_init_def mtlk_sq_peer_ctx_init_def registered_def priorities_all
  mtlk_sq_enqueue_def mtlk_sq_switch_if_urgent_def mtlk_sq_enqueue_pkt_def mc_transmit_group_def mtlk_sq_enqueue_clone_begin_def
  mtlk_sq_enqueue_clone_def mtlk_sq_enqueue_clone_end_def mtlk_nbuf_priv_extra_attach_def mtlk_nbuf_priv_extra_detach_def
  upd_peer_def set_buf_def sq_buf_def inc_size_def dec_size_def sq_out_def inc32_def dec32_def priorities_less

theorem sq_accounting_witness:
  "\<exists>s e. s = foldl sq_step sq_init demo_events \<and> sq_extra s 9 = Some e \<and> ref_cnt e = 2 \<and> pk_cnt (clone_of 9) s (ex_ac e) = 2"
proof -
  let ?s = "foldl sq_step sq_init demo_events"
  have ok: "sq.run_ok sq_init demo_events" by (simp add: demo_defs)
  have e: "sq_extra ?s 9 = Some \<lparr>ref_cnt = 2, ex_ac = 0, ex_front = False\<rparr>" by (simp add: demo_defs)
  have "\<forall>x e. sq_extra ?s x = Some e \<longrightarrow> 0 < ref_cnt e \<and> ref_cnt e = pk_cnt (clone_of x) ?s (ex_ac e)"
    using sq_accounting [OF ok refl] by (elim conjE)
  from this [rule_format, OF e] have "pk_cnt (clone_of 9) ?s 0 = 2" by simp
  then show ?thesis using e by (intro exI [of _ ?s] exI [of _ "\<lparr>ref_cnt = 2, ex_ac = 0, ex_front = False\<rparr>"]) simp
qed

text \<open>
  C26: Flushing keeps the order of every packet list and loses no packet: what a list held before
  is what left it, sent or freed, in the order of the log, followed by what it holds now.
\<close>

theorem sq_flush_fifo:
  "\<exists>l. sq_log (mtlk_sq_flush hw s reqs) = sq_log s @ l \<and>
     (\<forall>p ac. sq_buf s p ac = out_pkts p ac l @ sq_buf (mtlk_sq_flush hw s reqs) p ac)"
proof -
  have "fifo s (mtlk_sq_flush hw s reqs)"
    by (simp add: mtlk_sq_flush_def flush_loop_fifo fifo_flags fifo_refl)
  then show ?thesis by (simp add: fifo_def)
qed

text \<open>
  C28: The send loop of a category ends, and when it reports success no peer of the category has a
  packet it could send: each is out of packets or at its limit. Any other result means that
  sending is prohibited or that the hardware refused a packet during this call.
\<close>

theorem sq_process_work_conserving:
  assumes "process_packets_by_ac hw s ac = (s', res)"
  shows "if res = MTLK_ERR_OK then \<forall>p\<in>set (sq_lists s ac). sq_buf s' p ac = [] \<or> sq_blocked s' p ac
    else res \<in> {MTLK_ERR_PROHIB, MTLK_ERR_UNKNOWN} \<and>
      (hw_tx_prohibited s \<or>
       (\<exists>n. hw_calls s \<le> n \<and> n < hw_calls s' \<and> hw n \<noteq> MTLK_ERR_OK \<and> hw n \<noteq> MTLK_ERR_PKT_DROPPED))"
  using process_stops [OF assms] by (simp only: refused_def) blast

theorem sq_process_work_conserving_witness:
  "\<exists>s' res. process_packets_by_ac (\<lambda>_. MTLK_ERR_OK) (foldl sq_step sq_init demo_events) 0 = (s', res) \<and> res = MTLK_ERR_OK \<and>
     (\<forall>p\<in>{1, 2}. sq_buf s' p 0 = [] \<or> sq_blocked s' p 0)"
proof -
  let ?s = "foldl sq_step sq_init demo_events"
  obtain s' res where r: "process_packets_by_ac (\<lambda>_. MTLK_ERR_OK) ?s 0 = (s', res)" by fastforce
  have "\<not> hw_tx_prohibited ?s" "sq_lists ?s 0 = [2, 1]" by (simp_all add: demo_defs)
  then show ?thesis using sq_process_work_conserving [OF r] r by (auto split: if_splits)
qed

text \<open>
  C29: Sending never takes a peer over its limit: unless it was over it before, a peer has at most
  as many packets in the hardware as its limit, per category where power save limits are set, and
  the limits are not changed.
\<close>

theorem sq_process_respects_limit:
  assumes "process_packets_by_ac hw s ac = (s', res)" "x = sq_peers s p" "y = sq_peers s' p"
  shows "limit y = limit x \<and> limit_per_ac y = limit_per_ac x \<and>
    (if ps_mode_enabled x \<and> limit_per_ac x ac \<noteq> 0 then used_per_ac y ac \<le> max (used_per_ac x ac) (limit_per_ac x ac)
     else used_cnt y \<le> max (used_cnt x) (limit x))"
  using process_capped [of ac s p hw] assms by (simp add: capped_def)

theorem sq_process_respects_limit_witness:
  "used_cnt (sq_peers (fst (process_packets_by_ac (\<lambda>_. MTLK_ERR_OK) (foldl sq_step sq_init demo_events) 0)) 1) \<le> 2"
proof -
  let ?s = "foldl sq_step sq_init demo_events"
  obtain s' res where r: "process_packets_by_ac (\<lambda>_. MTLK_ERR_OK) ?s 0 = (s', res)" by fastforce
  have "limit (sq_peers ?s 1) = 2" "used_cnt (sq_peers ?s 1) = 0" "\<not> ps_mode_enabled (sq_peers ?s 1)" by (simp_all add: demo_defs)
  then show ?thesis using sq_process_respects_limit [OF r refl refl, of 1] r by simp
qed

text \<open>
  Admission. Without the front flag and for a packet that is not urgent, a packet is queued at
  the end of its list if, with the packet counted, the category stays below the global limit and
  the list is below the limit per peer; otherwise sizes, lists and records stay as they are and
  the packet is counted as dropped. A front or urgent packet is always queued, at the front, an
  urgent one in the highest category. A global limit of \<open>n\<close> so admits \<open>n - 1\<close> packets, and a limit
  of 0 admits none.
\<close>

lemma sq_enqueue_admission:
  assumes "sq_size s ac + 1 < 2 ^ 32" "sq_size s AC_HIGHEST + 1 < 2 ^ 32" "mtlk_sq_enqueue s ac front p k = (s', res)"
  shows "if front \<or> pk_urgent k then
      (let a = (if pk_urgent k then AC_HIGHEST else ac)
       in res = MTLK_ERR_OK \<and> sq_buf s' p a = k # sq_buf s p a \<and> sq_size s' a = sq_size s a + 1)
    else if sq_size s ac + 1 < unat (global_queue_limit s ac) \<and> length (sq_buf s p ac) < unat (peer_queue_limit s ac) then
      res = MTLK_ERR_OK \<and> sq_buf s' p ac = sq_buf s p ac @ [k] \<and> sq_size s' ac = sq_size s ac + 1
    else res = MTLK_ERR_NO_RESOURCES \<and> (\<forall>q a. sq_buf s' q a = sq_buf s q a) \<and> sq_size s' = sq_size s \<and>
      sq_lists s' = sq_lists s \<and> sq_extra s' = sq_extra s \<and> pkts_limit_dropped s' ac = pkts_limit_dropped s ac + 1"
proof (cases "front \<or> pk_urgent k")
  case True
  define a where "a = (if pk_urgent k then AC_HIGHEST else ac)"
  have "s' = set_buf p a (k # sq_buf s p a) (inc_size a s)" "res = MTLK_ERR_OK"
    using assms(3) True by (auto simp: a_def mtlk_sq_enqueue_def mtlk_sq_switch_if_urgent_def mtlk_sq_enqueue_pkt_def split: if_splits)
  moreover have "sq_size (inc_size a s) a = sq_size s a + 1" using assms(1,2) by (simp add: a_def inc_size_def inc32_eq)
  ultimately show ?thesis using True by (simp add: a_def Let_def)
next
  case False
  have i: "sq_size (inc_size ac s) ac = sq_size s ac + 1" using assms(1) by (simp add: inc_size_def inc32_eq)
  have l: "global_queue_limit (inc_size ac s) = global_queue_limit s" "peer_queue_limit (inc_size ac s) = peer_queue_limit s"
    "pkts_limit_dropped (inc_size ac s) = pkts_limit_dropped s" by (simp_all add: inc_size_def)
  have d: "dec_size ac (upd_peer p f ((inc_size ac s)\<lparr>pkts_limit_dropped := n\<rparr>)) = upd_peer p f (s\<lparr>pkts_limit_dropped := n\<rparr>)" for f n
    using assms(1) by (simp add: dec_size_def upd_peer_def inc_size_def dec32_inc32)
  show ?thesis
  proof (cases "sq_size s ac + 1 < unat (global_queue_limit s ac) \<and> length (sq_buf s p ac) < unat (peer_queue_limit s ac)")
    case True
    then have "s' = set_buf p ac (sq_buf s p ac @ [k]) (inc_size ac s)" "res = MTLK_ERR_OK"
      using assms(3) False by (auto simp: mtlk_sq_enqueue_def mtlk_sq_switch_if_urgent_def mtlk_sq_enqueue_pkt_def i l)
    then show ?thesis using False True i by simp
  next
    case full: False
    then have "s' = upd_peer p (\<lambda>x. x\<lparr>peer_dropped := (peer_dropped x)(ac := peer_dropped x ac + 1)\<rparr>)
        (s\<lparr>pkts_limit_dropped := (pkts_limit_dropped s)(ac := pkts_limit_dropped s ac + 1)\<rparr>)" "res = MTLK_ERR_NO_RESOURCES"
      using assms(3) False
      by (auto simp: mtlk_sq_enqueue_def mtlk_sq_switch_if_urgent_def mtlk_sq_enqueue_pkt_def i l d split: if_splits)
    then show ?thesis using False full by (simp add: sq_buf_upd_peer) (simp add: upd_peer_def)
  qed
qed


lemma put_limits_sel:
  "sq_put_limits s ls = Some s1 \<Longrightarrow> i \<notin> set (map fst ls) \<Longrightarrow> global_queue_limit s1 i = global_queue_limit s i"
proof (induction s ls rule: sq_put_limits.induct)
  case (2 s j l ls)
  then show ?case by (auto split: option.splits)
qed simp

lemma put_limits_stored:
  "sq_put_limits s ls = Some s1 \<Longrightarrow> distinct (map fst ls) \<Longrightarrow> (i, l) \<in> set ls \<Longrightarrow> global_queue_limit s1 i = of_nat l"
proof (induction s ls rule: sq_put_limits.induct)
  case (2 s j m ls)
  show ?case
  proof (cases "(i, l) = (j, m)")
    case True
    then show ?thesis using 2 put_limits_sel by (auto split: option.splits)
  next
    case False
    then have "(i, l) \<in> set ls" using "2.prems"(3) by auto
    then show ?thesis using 2 by (auto split: option.splits)
  qed
qed simp

lemma those_None: "those xs = None \<longleftrightarrow> None \<in> set xs"
  by (induction xs) (auto split: option.split)

lemma put_limits_zero: "global_queue_limit s i = 0 \<Longrightarrow> i \<in> set (map fst ls) \<Longrightarrow> distinct (map fst ls) \<Longrightarrow> sq_put_limits s ls = None"
proof (induction s ls rule: sq_put_limits.induct)
  case (2 s j l ls)
  then show ?case by (cases "i = j") (auto simp: sq_ratio_def split: option.splits)
qed simp

text \<open>
  The limits are \<^verbatim>\<open>int32\<close> in the interface and \<^verbatim>\<open>uint16\<close> in the object. A multiple of 65536
  passes the check for positive values and is stored as 0; from then on reading the limits per
  peer and setting the limits again divide by zero.
\<close>

lemma sq_limits_truncate:
  assumes "sq_set_limits s lims = Some (s', MTLK_ERR_OK)" "i < NTS_PRIORITIES" "lims ! i = 65536 * m"
  shows "0 < m \<and> global_queue_limit s' i = 0 \<and> sq_get_peer_limits s' NTS_PRIORITIES = None \<and>
    (length ls = NTS_PRIORITIES \<and> (\<forall>l\<in>set ls. 0 < l) \<longrightarrow> sq_set_limits s' ls = None)"
proof -
  have l: "length lims = NTS_PRIORITIES" "\<forall>l\<in>set lims. 0 < l"
    and put: "sq_put_limits s (zip [0..<NTS_PRIORITIES] (map nat lims)) = Some s'"
    using assms(1) by (auto simp: sq_set_limits_def not_le split: if_splits)
  have m: "0 < m" using l assms(2,3) nth_mem [of i lims] by fastforce
  have "(i, nat (65536 * m)) \<in> set (zip [0..<NTS_PRIORITIES] (map nat lims))"
    using l(1) assms(2,3) by (force simp: set_zip)
  from put_limits_stored [OF put _ this] l(1) have g: "global_queue_limit s' i = of_nat (nat (65536 * m))" by simp
  have "nat (65536 * m) = 65536 * nat m" by (simp add: nat_mult_distrib)
  moreover have "(65536 :: u16) = 0" by simp
  ultimately have g0: "global_queue_limit s' i = 0" using g by (simp only: of_nat_mult of_nat_numeral mult_zero_left)
  have "None \<in> set (map (sq_ratio s') [0..<NTS_PRIORITIES])" using assms(2) g0 by (force simp: sq_ratio_def)
  then have "sq_get_peer_limits s' NTS_PRIORITIES = None" unfolding sq_get_peer_limits_def those_None .
  moreover have "sq_set_limits s' ls = None" if "length ls = NTS_PRIORITIES" "\<forall>l\<in>set ls. 0 < l"
    using put_limits_zero [OF g0, of "zip [0..<NTS_PRIORITIES] (map nat ls)"] that assms(2) by (auto simp: sq_set_limits_def not_le)
  ultimately show ?thesis using m g0 by simp
qed


end
