(* ===== verification/Fw_Recovery.thy ===== *)
theory Fw_Recovery
  imports Wave_Prelude
begin

text \<open>
  Firmware recovery (\<^verbatim>\<open>wireless/driver/shared/fw_recovery.c\<close>): after a crash of the firmware the
  driver isolates all VAPs, restores the hardware and configures the VAPs again. The type of the
  recovery escalates from fast over full to complete or none.

  \<^item> \<open>vap_info\<close> is the array allocated for a recovery, \<open>None\<close> while it is not allocated. A task that
    uses the array without an allocation is the fault \<open>None\<close> of an operation.
  \<^item> The functions of the other modules that can fail are in \<open>rcvry_env\<close>; what the recovery asks of
    them, and the tasks it schedules, is recorded in \<open>rc_log\<close>, oldest first.
  \<^item> The master VAP is always found; the code asserts this. The mutexes between the tasks of the
    VAPs are the subject of \<open>Fw_Recovery_Sync\<close>.
\<close>

section \<open>Data\<close>

datatype rcvry_type_e = RCVRY_TYPE_NONE | RCVRY_TYPE_FAST | RCVRY_TYPE_FULL | RCVRY_TYPE_COMPLETE | RCVRY_TYPE_UNDEF

datatype rcvry_cnt_id_e =
    RCVRY_NOF_FAST_RCVRY_PROCESSED | RCVRY_NOF_FULL_RCVRY_PROCESSED | RCVRY_NOF_FAST_RCVRY_FAILED | RCVRY_NOF_FULL_RCVRY_FAILED

record rcvry_cfg_t =
  fast_rcvry_num :: u8
  full_rcvry_num :: u8
  complete_rcvry :: u8
  fail_time_interval :: u32
  fw_dump :: u8

record vap_info_t =
  vap_num :: nat
  was_connected :: bool
  vap_is_master :: bool

datatype rcvry_task = MasterRecovery | SlaveRecovery | FwDumpRecovery | CompleteRecovery | FinishRecovery

datatype rcvry_act =
    Schedule rcvry_task
  | ScheduleFor rcvry_task vap_info_t
  | Determined rcvry_type_e
  | DisInterrupts
  | StartNotify
  | IrbdUnregister vap_info_t
  | HwIsolate
  | TaIsolate
  | CoreIsolate vap_info_t rcvry_type_e
  | DfIsolate vap_info_t
  | DumpNotify
  | HwRestore
  | TaRestore
  | DfRestore vap_info_t
  | CoreRestore vap_info_t
  | CoreConfigure vap_info_t bool rcvry_type_e
  | TimerSet u32
  | CoreError vap_info_t

record rcvry_t =
  cfg :: rcvry_cfg_t
  fast_rcvry_cnt :: u8
  full_rcvry_cnt :: u8
  forced_rcvry_type :: rcvry_type_e
  current_rcvry_type :: rcvry_type_e
  vap_info :: "vap_info_t list option"
  fail_timer :: bool
  error_on_rcvry :: bool
  dump_in_progress :: bool
  is_scheduled :: bool
  rcvry_cnt :: "rcvry_cnt_id_e \<Rightarrow> nat"
  rc_log :: "rcvry_act list"

record rcvry_env =
  is_ap :: bool
  vaps :: "vap_info_t list"
  alloc_array :: bool
  alloc_info :: "nat \<Rightarrow> bool"
  reg_start_dump :: bool
  reg_stop_dump :: bool
  dump_notified :: bool
  hw_mmb_restore :: mtlk_error_t
  core_restore :: "vap_info_t \<Rightarrow> mtlk_error_t"
  core_configure :: "vap_info_t \<Rightarrow> mtlk_error_t"

definition rc_out :: "rcvry_act list \<Rightarrow> rcvry_t \<Rightarrow> rcvry_t" where
  "rc_out as s = s\<lparr>rc_log := rc_log s @ as\<rparr>"

definition rcvry_inc_cnt :: "rcvry_cnt_id_e \<Rightarrow> rcvry_t \<Rightarrow> rcvry_t" where
  "rcvry_inc_cnt c s = s\<lparr>rcvry_cnt := (rcvry_cnt s)(c := rcvry_cnt s c + 1)\<rparr>"

section \<open>Configuration\<close>

definition rcvry_init :: rcvry_t where
  "rcvry_init =
     \<lparr>cfg = \<lparr>fast_rcvry_num = 3, full_rcvry_num = 1, complete_rcvry = 0, fail_time_interval = 60 * 1000, fw_dump = 1\<rparr>,
      fast_rcvry_cnt = 0, full_rcvry_cnt = 0, forced_rcvry_type = RCVRY_TYPE_UNDEF, current_rcvry_type = RCVRY_TYPE_UNDEF,
      vap_info = None, fail_timer = False, error_on_rcvry = False, dump_in_progress = False, is_scheduled = False,
      rcvry_cnt = (\<lambda>_. 0), rc_log = []\<rparr>"

text \<open>The interval is in seconds outside and in milliseconds inside; the product wraps.\<close>

definition mtlk_rcvry_set_cfg :: "rcvry_t \<Rightarrow> rcvry_cfg_t \<Rightarrow> rcvry_t \<times> mtlk_error_t" where
  "mtlk_rcvry_set_cfg s c =
     (s\<lparr>cfg := c\<lparr>fail_time_interval := fail_time_interval c * 1000\<rparr>, fast_rcvry_cnt := 0, full_rcvry_cnt := 0\<rparr>, MTLK_ERR_OK)"

definition mtlk_rcvry_get_cfg :: "rcvry_t \<Rightarrow> rcvry_cfg_t" where
  "mtlk_rcvry_get_cfg s = (cfg s)\<lparr>fail_time_interval := fail_time_interval (cfg s) div 1000\<rparr>"

definition rcvry_set_forced_type :: "rcvry_t \<Rightarrow> rcvry_type_e \<Rightarrow> rcvry_t" where
  "rcvry_set_forced_type s t = s\<lparr>forced_rcvry_type := t\<rparr>"

definition rcvry_fail_timer_handler :: "rcvry_t \<Rightarrow> rcvry_t" where
  "rcvry_fail_timer_handler s = s\<lparr>fast_rcvry_cnt := 0, full_rcvry_cnt := 0, fail_timer := False\<rparr>"

definition rcvry_is_dump_in_progress :: "rcvry_t \<Rightarrow> bool" where
  "rcvry_is_dump_in_progress s = dump_in_progress s"

definition rcvry_is_in_progress :: "rcvry_t \<Rightarrow> bool" where
  "rcvry_is_in_progress s \<longleftrightarrow> current_rcvry_type s \<noteq> RCVRY_TYPE_UNDEF"

definition rcvry_is_scheduled :: "rcvry_t \<Rightarrow> bool" where
  "rcvry_is_scheduled s = is_scheduled s"

section \<open>Initiation\<close>

definition rcvry_determine_type :: "rcvry_env \<Rightarrow> rcvry_t \<Rightarrow> rcvry_t" where
  "rcvry_determine_type env s =
     (if \<not> is_ap env then
        s\<lparr>current_rcvry_type := (if complete_rcvry (cfg s) \<noteq> 0 then RCVRY_TYPE_COMPLETE else RCVRY_TYPE_NONE)\<rparr>
      else if forced_rcvry_type s \<noteq> RCVRY_TYPE_UNDEF then
        s\<lparr>current_rcvry_type := forced_rcvry_type s, forced_rcvry_type := RCVRY_TYPE_UNDEF\<rparr>
      else if fast_rcvry_cnt s < fast_rcvry_num (cfg s) then
        s\<lparr>fast_rcvry_cnt := fast_rcvry_cnt s + 1, current_rcvry_type := RCVRY_TYPE_FAST\<rparr>
      else if full_rcvry_cnt s < full_rcvry_num (cfg s) then
        s\<lparr>full_rcvry_cnt := full_rcvry_cnt s + 1, current_rcvry_type := RCVRY_TYPE_FULL\<rparr>
      else if complete_rcvry (cfg s) \<noteq> 0 then s\<lparr>current_rcvry_type := RCVRY_TYPE_COMPLETE\<rparr>
      else s\<lparr>current_rcvry_type := RCVRY_TYPE_NONE\<rparr>)"

definition rcvry_vap_info_cleanup :: "rcvry_t \<Rightarrow> rcvry_t option" where
  "rcvry_vap_info_cleanup s = (case vap_info s of None \<Rightarrow> None | Some _ \<Rightarrow> Some (s\<lparr>vap_info := None\<rparr>))"

text \<open>An allocation that fails half way gives back what it has.\<close>

definition rcvry_vap_info_create :: "rcvry_env \<Rightarrow> rcvry_t \<Rightarrow> rcvry_t \<times> mtlk_error_t" where
  "rcvry_vap_info_create env s =
     (if alloc_array env \<and> (\<forall>i<length (vaps env). alloc_info env i)
      then (s\<lparr>vap_info := Some (vaps env)\<rparr>, MTLK_ERR_OK)
      else (s\<lparr>vap_info := None\<rparr>, MTLK_ERR_NO_MEM))"

text \<open>The second half of the scheduling branch, with the array in place.\<close>

definition rcvry_schedule :: "rcvry_t \<Rightarrow> rcvry_t option" where
  "rcvry_schedule s =
     (case vap_info s of
        None \<Rightarrow> None
      | Some vs \<Rightarrow>
          Some ((rc_out (map (\<lambda>v. ScheduleFor (if vap_is_master v then MasterRecovery else SlaveRecovery) v) vs) s)
                 \<lparr>is_scheduled := True, error_on_rcvry := False\<rparr>))"

definition rcvry_initiate :: "rcvry_env \<Rightarrow> rcvry_t \<Rightarrow> rcvry_t option" where
  "rcvry_initiate env s =
     (let s0 = s\<lparr>fail_timer := False\<rparr> in
      if current_rcvry_type s0 \<noteq> RCVRY_TYPE_UNDEF then Some s0
      else
        let s1 = rcvry_determine_type env s0; s1 = rc_out [Determined (current_rcvry_type s1)] s1 in
        if current_rcvry_type s1 = RCVRY_TYPE_NONE \<or> current_rcvry_type s1 = RCVRY_TYPE_COMPLETE then
          let s2 = (if fw_dump (cfg s1) \<noteq> 0 then rc_out [Schedule FwDumpRecovery] s1 else s1);
              s3 = rc_out [Schedule (if current_rcvry_type s2 = RCVRY_TYPE_COMPLETE then CompleteRecovery else FinishRecovery)] s2
          in (case (if error_on_rcvry s3 then rcvry_vap_info_cleanup s3 else Some s3) of
                None \<Rightarrow> None | Some s4 \<Rightarrow> Some (s4\<lparr>error_on_rcvry := False\<rparr>))
        else
          let s2 = rc_out [DisInterrupts] s1 in
          if \<not> error_on_rcvry s2 then
            (case rcvry_vap_info_create env s2 of
               (s3, res) \<Rightarrow> if res \<noteq> MTLK_ERR_OK then Some (s3\<lparr>error_on_rcvry := False\<rparr>) else rcvry_schedule s3)
          else rcvry_schedule s2)"

section \<open>The recovery task of the master\<close>

definition rcvry_isolate :: "rcvry_type_e \<Rightarrow> vap_info_t list \<Rightarrow> rcvry_t \<Rightarrow> rcvry_t" where
  "rcvry_isolate ty vs s =
     rc_out (map IrbdUnregister vs @ [HwIsolate, TaIsolate] @ concat (map (\<lambda>v. [CoreIsolate v ty, DfIsolate v]) vs)) s"

text \<open>Whatever comes of waiting for the application, the dump succeeds once both handlers are registered.\<close>

definition rcvry_fw_dump :: "rcvry_env \<Rightarrow> rcvry_t \<Rightarrow> rcvry_t \<times> mtlk_error_t" where
  "rcvry_fw_dump env s =
     (let s1 = s\<lparr>dump_in_progress := True\<rparr>;
          ok = (reg_start_dump env \<and> reg_stop_dump env);
          s2 = (if ok \<and> dump_notified env then rc_out [DumpNotify] s1 else s1)
      in (s2\<lparr>dump_in_progress := False\<rparr>, if ok then MTLK_ERR_OK else MTLK_ERR_NO_RESOURCES))"

fun rcvry_restore_vaps :: "rcvry_env \<Rightarrow> vap_info_t list \<Rightarrow> rcvry_t \<Rightarrow> rcvry_t \<times> mtlk_error_t" where
  "rcvry_restore_vaps env [] s = (s, MTLK_ERR_OK)"
| "rcvry_restore_vaps env (v # vs) s =
     (let s1 = rc_out [DfRestore v, CoreRestore v] s in
      if core_restore env v \<noteq> MTLK_ERR_OK then (s1, core_restore env v) else rcvry_restore_vaps env vs s1)"

definition rcvry_restore :: "rcvry_env \<Rightarrow> vap_info_t list \<Rightarrow> rcvry_t \<Rightarrow> rcvry_t \<times> mtlk_error_t" where
  "rcvry_restore env vs s =
     (let s1 = rc_out [HwRestore] s in
      if hw_mmb_restore env \<noteq> MTLK_ERR_OK then (s1, hw_mmb_restore env)
      else rcvry_restore_vaps env vs (rc_out [TaRestore] s1))"

fun rcvry_configure_vaps :: "rcvry_env \<Rightarrow> rcvry_type_e \<Rightarrow> bool \<Rightarrow> vap_info_t list \<Rightarrow> rcvry_t \<Rightarrow> rcvry_t \<times> mtlk_error_t" where
  "rcvry_configure_vaps env ty preactivate [] s = (s, MTLK_ERR_OK)"
| "rcvry_configure_vaps env ty preactivate (v # vs) s =
     (let s1 = rc_out [CoreConfigure v preactivate ty] s in
      if core_configure env v \<noteq> MTLK_ERR_OK then (s1, core_configure env v) else rcvry_configure_vaps env ty False vs s1)"

definition rcvry_configure :: "rcvry_env \<Rightarrow> rcvry_type_e \<Rightarrow> vap_info_t list \<Rightarrow> rcvry_t \<Rightarrow> rcvry_t \<times> mtlk_error_t" where
  "rcvry_configure env ty vs s = rcvry_configure_vaps env ty (\<exists>v\<in>set vs. was_connected v) vs s"

definition rcvry_finalize :: "rcvry_t \<Rightarrow> rcvry_t" where
  "rcvry_finalize s =
     (let s1 = (if fail_time_interval (cfg s) \<noteq> 0 then rc_out [TimerSet (fail_time_interval (cfg s))] (s\<lparr>fail_timer := True\<rparr>) else s);
          s2 = rc_out [Schedule FinishRecovery] s1
      in case current_rcvry_type s of
           RCVRY_TYPE_FAST \<Rightarrow> rcvry_inc_cnt RCVRY_NOF_FAST_RCVRY_PROCESSED s2
         | RCVRY_TYPE_FULL \<Rightarrow> rcvry_inc_cnt RCVRY_NOF_FULL_RCVRY_PROCESSED s2
         | _ \<Rightarrow> s2)"

text \<open>The steps in order; each one runs only if the one before succeeded.\<close>

definition rcvry_stages :: "rcvry_env \<Rightarrow> rcvry_type_e \<Rightarrow> vap_info_t list \<Rightarrow> rcvry_t \<Rightarrow> rcvry_t \<times> mtlk_error_t" where
  "rcvry_stages env ty vs s =
     (case (if fw_dump (cfg s) \<noteq> 0 then rcvry_fw_dump env (rcvry_isolate ty vs s) else (rcvry_isolate ty vs s, MTLK_ERR_OK)) of
        (s1, res) \<Rightarrow> if res \<noteq> MTLK_ERR_OK then (s1, res) else
          (case rcvry_restore env vs s1 of
             (s2, res) \<Rightarrow> if res \<noteq> MTLK_ERR_OK then (s2, res) else
               (case rcvry_configure env ty vs s2 of
                  (s3, res) \<Rightarrow> if res \<noteq> MTLK_ERR_OK then (s3, res) else (rcvry_finalize s3, MTLK_ERR_OK))))"

text \<open>\<^verbatim>\<open>master_recovery\<close> up to the handling of an error; the isolation reads the first entry of the array.\<close>

definition master_recovery :: "rcvry_env \<Rightarrow> rcvry_t \<Rightarrow> (rcvry_t \<times> mtlk_error_t) option" where
  "master_recovery env s =
     (case vap_info s of
        Some (v # vs) \<Rightarrow>
          let s1 = (rc_out [StartNotify] s)\<lparr>is_scheduled := False\<rparr>;
              (s2, res) = rcvry_stages env (current_rcvry_type s1) (v # vs) s1
          in (case (if res = MTLK_ERR_OK then rcvry_vap_info_cleanup s2 else Some (s2\<lparr>error_on_rcvry := True\<rparr>)) of
                None \<Rightarrow> None
              | Some s3 \<Rightarrow> Some (s3\<lparr>current_rcvry_type := RCVRY_TYPE_UNDEF\<rparr>, res))
      | _ \<Rightarrow> None)"

definition rcvry_on_error :: "rcvry_env \<Rightarrow> rcvry_type_e \<Rightarrow> rcvry_t \<Rightarrow> rcvry_t option" where
  "rcvry_on_error env ty s =
     map_option
       (\<lambda>s1. case ty of
          RCVRY_TYPE_FAST \<Rightarrow> rcvry_inc_cnt RCVRY_NOF_FAST_RCVRY_FAILED s1
        | RCVRY_TYPE_FULL \<Rightarrow> rcvry_inc_cnt RCVRY_NOF_FULL_RCVRY_FAILED s1
        | _ \<Rightarrow> s1)
       (rcvry_initiate env (rc_out (map CoreError (rev (vaps env))) s))"

end
