(* ===== verification/Fw_Recovery_Props.thy ===== *)
theory Fw_Recovery_Props
  imports Fw_Recovery
begin

text \<open>
  Runs of the firmware recovery: the array of VAPs is in place whenever a task reads it and is not
  leaked, the types of recovery follow the configured escalation, and a recovery that was chosen
  but not scheduled is never replaced by another.
\<close>

section \<open>Runs\<close>

text \<open>
  Between the end of the master task and its error handler another thread may run, so they are
  two events; the second component of the state are the error handlers still to run.
\<close>

datatype rcvry_event =
    RInitiate rcvry_env | RMaster rcvry_env | RError rcvry_env | RDump rcvry_env | RTimer | RSetCfg rcvry_cfg_t | RForce rcvry_type_e

type_synonym rcvry_run = "(rcvry_t \<times> rcvry_type_e list) option"

fun rcvry_exec :: "rcvry_t \<Rightarrow> rcvry_type_e list \<Rightarrow> rcvry_event \<Rightarrow> rcvry_run" where
  "rcvry_exec s es (RInitiate env) = map_option (\<lambda>s1. (s1, es)) (rcvry_initiate env s)"
| "rcvry_exec s es (RMaster env) =
     (case master_recovery env s of
        None \<Rightarrow> None
      | Some (s1, res) \<Rightarrow> Some (s1, if res = MTLK_ERR_OK then es else es @ [current_rcvry_type s]))"
| "rcvry_exec s es (RError env) =
     (case es of [] \<Rightarrow> Some (s, []) | t # ts \<Rightarrow> map_option (\<lambda>s1. (s1, ts)) (rcvry_on_error env t s))"
| "rcvry_exec s es (RDump env) = Some (fst (rcvry_fw_dump env s), es)"
| "rcvry_exec s es RTimer = Some (rcvry_fail_timer_handler s, es)"
| "rcvry_exec s es (RSetCfg c) = Some (fst (mtlk_rcvry_set_cfg s c), es)"
| "rcvry_exec s es (RForce t) = Some (rcvry_set_forced_type s t, es)"

definition rcvry_step :: "rcvry_run \<Rightarrow> rcvry_event \<Rightarrow> rcvry_run" where
  "rcvry_step r e = (case r of None \<Rightarrow> None | Some (s, es) \<Rightarrow> rcvry_exec s es e)"

lemma rcvry_step_Some [simp]: "rcvry_step (Some (s, es)) e = rcvry_exec s es e"
  by (simp add: rcvry_step_def)

text \<open>The master task runs once it is scheduled; there is at least the master VAP.\<close>

fun rcvry_event_ok :: "rcvry_run \<Rightarrow> rcvry_event \<Rightarrow> bool" where
  "rcvry_event_ok (Some (s, es)) (RMaster env) = is_scheduled s"
| "rcvry_event_ok r (RInitiate env) = (vaps env \<noteq> [])"
| "rcvry_event_ok r (RError env) = (vaps env \<noteq> [])"
| "rcvry_event_ok r e = True"

section \<open>The array of VAPs\<close>

definition rcvry_inv :: "rcvry_t \<Rightarrow> bool" where
  "rcvry_inv s \<longleftrightarrow>
     (is_scheduled s \<longrightarrow> current_rcvry_type s \<in> {RCVRY_TYPE_FAST, RCVRY_TYPE_FULL}) \<and>
     (error_on_rcvry s \<longrightarrow> current_rcvry_type s = RCVRY_TYPE_UNDEF) \<and>
     (vap_info s \<noteq> None \<longleftrightarrow> is_scheduled s \<or> error_on_rcvry s) \<and> vap_info s \<noteq> Some []"

lemma rc_out_sel [simp]:
  "cfg (rc_out as s) = cfg s" "fast_rcvry_cnt (rc_out as s) = fast_rcvry_cnt s" "full_rcvry_cnt (rc_out as s) = full_rcvry_cnt s"
  "forced_rcvry_type (rc_out as s) = forced_rcvry_type s" "current_rcvry_type (rc_out as s) = current_rcvry_type s"
  "vap_info (rc_out as s) = vap_info s" "error_on_rcvry (rc_out as s) = error_on_rcvry s" "is_scheduled (rc_out as s) = is_scheduled s"
  "rc_log (rc_out as s) = rc_log s @ as" "fail_timer (rc_out as s) = fail_timer s"
  by (simp_all add: rc_out_def)

lemma inc_cnt_sel [simp]:
  "cfg (rcvry_inc_cnt c s) = cfg s" "fast_rcvry_cnt (rcvry_inc_cnt c s) = fast_rcvry_cnt s"
  "full_rcvry_cnt (rcvry_inc_cnt c s) = full_rcvry_cnt s" "forced_rcvry_type (rcvry_inc_cnt c s) = forced_rcvry_type s"
  "current_rcvry_type (rcvry_inc_cnt c s) = current_rcvry_type s" "vap_info (rcvry_inc_cnt c s) = vap_info s"
  "error_on_rcvry (rcvry_inc_cnt c s) = error_on_rcvry s" "is_scheduled (rcvry_inc_cnt c s) = is_scheduled s"
  "rc_log (rcvry_inc_cnt c s) = rc_log s"
  by (simp_all add: rcvry_inc_cnt_def)

text \<open>The types chosen so far.\<close>

fun chosen :: "rcvry_act list \<Rightarrow> rcvry_type_e list" where
  "chosen [] = []"
| "chosen (Determined t # as) = t # chosen as"
| "chosen (a # as) = chosen as"

lemma chosen_append [simp]: "chosen (as @ bs) = chosen as @ chosen bs"
  by (induction as rule: chosen.induct) simp_all

lemma chosen_concat: "\<forall>l\<in>set ls. chosen l = [] \<Longrightarrow> chosen (concat ls) = []"
  by (induction ls) simp_all

lemma chosen_map: "\<forall>x\<in>set xs. chosen [f x] = [] \<Longrightarrow> chosen (map f xs) = []"
proof (induction xs)
  case (Cons x xs)
  then show ?case using chosen_append [of "[f x]" "map f xs"] by simp
qed simp

text \<open>The choice of the type.\<close>

lemma determine_sel [simp]:
  "cfg (rcvry_determine_type env s) = cfg s" "vap_info (rcvry_determine_type env s) = vap_info s"
  "error_on_rcvry (rcvry_determine_type env s) = error_on_rcvry s" "is_scheduled (rcvry_determine_type env s) = is_scheduled s"
  "rc_log (rcvry_determine_type env s) = rc_log s" "current_rcvry_type (rcvry_determine_type env s) \<noteq> RCVRY_TYPE_UNDEF"
  by (simp_all add: rcvry_determine_type_def)

text \<open>What an initiation can lead to, from an idle state.\<close>

lemma initiate_cases:
  assumes u: "current_rcvry_type s = RCVRY_TYPE_UNDEF" and e: "error_on_rcvry s \<longrightarrow> vap_info s \<noteq> None"
    and t: "t = current_rcvry_type (rcvry_determine_type env (s\<lparr>fail_timer := False\<rparr>))"
  obtains s' where "rcvry_initiate env s = Some s'" "current_rcvry_type s' = t" "\<not> error_on_rcvry s'"
    "forced_rcvry_type s' = forced_rcvry_type (rcvry_determine_type env (s\<lparr>fail_timer := False\<rparr>))"
    "fast_rcvry_cnt s' = fast_rcvry_cnt (rcvry_determine_type env (s\<lparr>fail_timer := False\<rparr>))"
    "full_rcvry_cnt s' = full_rcvry_cnt (rcvry_determine_type env (s\<lparr>fail_timer := False\<rparr>))" "cfg s' = cfg s"
    "vap_info s' = (if t \<in> {RCVRY_TYPE_NONE, RCVRY_TYPE_COMPLETE} then (if error_on_rcvry s then None else vap_info s)
       else if error_on_rcvry s then vap_info s
       else if alloc_array env \<and> (\<forall>i<length (vaps env). alloc_info env i) then Some (vaps env) else None)"
    "is_scheduled s' \<longleftrightarrow> is_scheduled s \<or> t \<notin> {RCVRY_TYPE_NONE, RCVRY_TYPE_COMPLETE} \<and> vap_info s' \<noteq> None"
    "chosen (rc_log s') = chosen (rc_log s) @ [t]"
proof -
  let ?d = "rcvry_determine_type env (s\<lparr>fail_timer := False\<rparr>)"
  let ?m = "\<lambda>vs. map (\<lambda>v. ScheduleFor (if vap_is_master v then MasterRecovery else SlaveRecovery) v) vs"
  show thesis
  proof (cases "t \<in> {RCVRY_TYPE_NONE, RCVRY_TYPE_COMPLETE}")
    case True
    define as where "as = (if fw_dump (cfg s) \<noteq> 0 then [Schedule FwDumpRecovery] else []) @
      [Schedule (if t = RCVRY_TYPE_COMPLETE then CompleteRecovery else FinishRecovery)]"
    define s' where "s' = (rc_out as (rc_out [Determined t] ?d))
      \<lparr>vap_info := (if error_on_rcvry s then None else vap_info s), error_on_rcvry := False\<rparr>"
    have "rcvry_initiate env s = Some s'"
      using u e True t
      by (auto simp: rcvry_initiate_def Let_def s'_def as_def rcvry_vap_info_cleanup_def rc_out_def)
    moreover have "chosen as = []" by (simp add: as_def)
    ultimately show thesis using True t by (intro that [of s']) (auto simp: s'_def)
  next
    case False
    define s2 where "s2 = rc_out [DisInterrupts] (rc_out [Determined t] ?d)"
    have i: "rcvry_initiate env s = (if \<not> error_on_rcvry s2 then
            (case rcvry_vap_info_create env s2 of
               (s3, res) \<Rightarrow> if res \<noteq> MTLK_ERR_OK then Some (s3\<lparr>error_on_rcvry := False\<rparr>) else rcvry_schedule s3)
          else rcvry_schedule s2)"
      using u False t by (simp add: rcvry_initiate_def Let_def s2_def)
    define vs where "vs = (if error_on_rcvry s then vap_info s
      else if alloc_array env \<and> (\<forall>i<length (vaps env). alloc_info env i) then Some (vaps env) else None)"
    define s' where "s' = (case vs of None \<Rightarrow> s2\<lparr>vap_info := None, error_on_rcvry := False\<rparr>
      | Some l \<Rightarrow> (rc_out (?m l) s2)\<lparr>vap_info := Some l, is_scheduled := True, error_on_rcvry := False\<rparr>)"
    have "rcvry_initiate env s = Some s'"
      unfolding i using e
      by (auto simp: s'_def vs_def s2_def rcvry_vap_info_create_def rcvry_schedule_def rc_out_def split: option.split)
    then show thesis using False t
      by (intro that [of s']) (auto simp: s'_def s2_def vs_def [symmetric] chosen_map split: option.split)
  qed
qed

lemma initiate_busy: "current_rcvry_type s \<noteq> RCVRY_TYPE_UNDEF \<Longrightarrow> rcvry_initiate env s = Some (s\<lparr>fail_timer := False\<rparr>)"
  by (simp add: rcvry_initiate_def)

text \<open>The stages leave the control state alone and choose no type.\<close>

definition rc_frame :: "rcvry_t \<Rightarrow> rcvry_t \<Rightarrow> bool" where
  "rc_frame s s' \<longleftrightarrow> cfg s' = cfg s \<and> fast_rcvry_cnt s' = fast_rcvry_cnt s \<and> full_rcvry_cnt s' = full_rcvry_cnt s \<and>
     forced_rcvry_type s' = forced_rcvry_type s \<and> current_rcvry_type s' = current_rcvry_type s \<and> vap_info s' = vap_info s \<and>
     error_on_rcvry s' = error_on_rcvry s \<and> is_scheduled s' = is_scheduled s \<and>
     chosen (rc_log s') = chosen (rc_log s)"

lemma rc_frame_trans: "rc_frame s t \<Longrightarrow> rc_frame t u \<Longrightarrow> rc_frame s u"
  by (auto simp: rc_frame_def)

lemma rc_frame_out: "chosen as = [] \<Longrightarrow> rc_frame s (rc_out as s)"
  by (auto simp: rc_frame_def)

lemma rc_frame_refl: "rc_frame s s"
  by (auto simp: rc_frame_def)

lemma dump_frame: "rc_frame s (fst (rcvry_fw_dump env s))"
  by (auto simp: rc_frame_def rcvry_fw_dump_def Let_def)

lemma restore_vaps_frame: "rc_frame s (fst (rcvry_restore_vaps env vs s))"
proof (induction vs arbitrary: s)
  case (Cons v vs)
  have "rc_frame s (rc_out [DfRestore v, CoreRestore v] s)" by (rule rc_frame_out) simp
  then show ?case using rc_frame_trans Cons by (auto simp: Let_def)
qed (simp add: rc_frame_refl)

lemma configure_vaps_frame: "rc_frame s (fst (rcvry_configure_vaps env ty pre vs s))"
proof (induction vs arbitrary: s pre)
  case (Cons v vs)
  have "rc_frame s (rc_out [CoreConfigure v pre ty] s)" by (rule rc_frame_out) simp
  then show ?case using rc_frame_trans Cons by (auto simp: Let_def)
qed (simp add: rc_frame_refl)

lemma finalize_frame: "rc_frame s (rcvry_finalize s)"
  by (auto simp: rc_frame_def rcvry_finalize_def Let_def split: rcvry_type_e.split)

lemma isolate_frame: "rc_frame s (rcvry_isolate ty vs s)"
  unfolding rcvry_isolate_def by (rule rc_frame_out) (simp add: chosen_map chosen_concat)

lemma restore_frame: "rc_frame s (fst (rcvry_restore env vs s))"
proof -
  have a: "rc_frame s (rc_out [HwRestore] s)" and b: "rc_frame (rc_out [HwRestore] s) (rc_out [TaRestore] (rc_out [HwRestore] s))"
    by (rule rc_frame_out, simp)+
  show ?thesis using a rc_frame_trans [OF rc_frame_trans [OF a b] restore_vaps_frame [where env = env and vs = vs]]
    by (simp add: rcvry_restore_def Let_def)
qed

lemma stages_frame: "rc_frame s (fst (rcvry_stages env ty vs s))"
proof -
  define p where "p = (if fw_dump (cfg s) \<noteq> 0 then rcvry_fw_dump env (rcvry_isolate ty vs s) else (rcvry_isolate ty vs s, MTLK_ERR_OK))"
  have p: "rc_frame s (fst p)" using rc_frame_trans [OF isolate_frame dump_frame] isolate_frame by (simp add: p_def)
  have r: "rc_frame s (fst (rcvry_restore env vs (fst p)))" by (rule rc_frame_trans [OF p restore_frame])
  have c: "rc_frame s (fst (rcvry_configure env ty vs (fst (rcvry_restore env vs (fst p)))))"
    unfolding rcvry_configure_def by (rule rc_frame_trans [OF r configure_vaps_frame])
  have f: "rc_frame s (rcvry_finalize (fst (rcvry_configure env ty vs (fst (rcvry_restore env vs (fst p))))))"
    by (rule rc_frame_trans [OF c finalize_frame])
  show ?thesis using p r c f by (simp add: rcvry_stages_def p_def [symmetric] split_def)
qed

lemma master_cases:
  assumes "vap_info s = Some (v # vs)"
  obtains s' res where "master_recovery env s = Some (s', res)" "current_rcvry_type s' = RCVRY_TYPE_UNDEF" "\<not> is_scheduled s'"
    "cfg s' = cfg s" "fast_rcvry_cnt s' = fast_rcvry_cnt s" "full_rcvry_cnt s' = full_rcvry_cnt s"
    "forced_rcvry_type s' = forced_rcvry_type s" "vap_info s' = (if res = MTLK_ERR_OK then None else Some (v # vs))"
    "error_on_rcvry s' = (error_on_rcvry s \<or> res \<noteq> MTLK_ERR_OK)"
    "chosen (rc_log s') = chosen (rc_log s)"
proof -
  define s1 where "s1 = (rc_out [StartNotify] s)\<lparr>is_scheduled := False\<rparr>"
  obtain s2 res where st: "rcvry_stages env (current_rcvry_type s1) (v # vs) s1 = (s2, res)" by fastforce
  have f: "rc_frame s1 s2" using stages_frame [of s1 env "current_rcvry_type s1" "v # vs"] st by simp
  define s3 where "s3 = (if res = MTLK_ERR_OK then s2\<lparr>vap_info := None\<rparr> else s2\<lparr>error_on_rcvry := True\<rparr>)\<lparr>current_rcvry_type := RCVRY_TYPE_UNDEF\<rparr>"
  have v2: "vap_info s2 = Some (v # vs)" using f assms by (simp add: rc_frame_def s1_def)
  have "master_recovery env s = Some (s3, res)"
    using assms st v2 by (simp add: master_recovery_def s1_def [symmetric] rcvry_vap_info_cleanup_def s3_def)
  then show thesis
    by (rule that [of s3 res]) (use f assms in \<open>auto simp: rc_frame_def s3_def s1_def\<close>)
qed

lemma initiate_inv:
  assumes "rcvry_inv s" "vaps env \<noteq> []"
  shows "\<exists>s'. rcvry_initiate env s = Some s' \<and> rcvry_inv s'"
proof (cases "current_rcvry_type s = RCVRY_TYPE_UNDEF")
  case False
  then show ?thesis using assms(1) by (simp add: initiate_busy rcvry_inv_def)
next
  case True
  have e: "error_on_rcvry s \<longrightarrow> vap_info s \<noteq> None" "\<not> is_scheduled s" "vap_info s \<noteq> Some []" "\<not> error_on_rcvry s \<longrightarrow> vap_info s = None"
    using assms(1) True by (auto simp: rcvry_inv_def)
  let ?t = "current_rcvry_type (rcvry_determine_type env (s\<lparr>fail_timer := False\<rparr>))"
  have t: "?t \<noteq> RCVRY_TYPE_UNDEF" by simp
  show ?thesis
  proof (rule initiate_cases [OF True e(1) refl, of env])
    fix s' assume s': "rcvry_initiate env s = Some s'" "current_rcvry_type s' = ?t" "\<not> error_on_rcvry s'"
      "vap_info s' = (if ?t \<in> {RCVRY_TYPE_NONE, RCVRY_TYPE_COMPLETE} then (if error_on_rcvry s then None else vap_info s)
         else if error_on_rcvry s then vap_info s
         else if alloc_array env \<and> (\<forall>i<length (vaps env). alloc_info env i) then Some (vaps env) else None)"
      "is_scheduled s' \<longleftrightarrow> is_scheduled s \<or> ?t \<notin> {RCVRY_TYPE_NONE, RCVRY_TYPE_COMPLETE} \<and> vap_info s' \<noteq> None"
    have "?t \<in> {RCVRY_TYPE_FAST, RCVRY_TYPE_FULL}" if "?t \<notin> {RCVRY_TYPE_NONE, RCVRY_TYPE_COMPLETE}"
      using that t by (cases ?t) simp_all
    then have "rcvry_inv s'" using s' e assms(2) t by (auto simp: rcvry_inv_def)
    then show ?thesis using s'(1) by blast
  qed
qed

definition rcvry_sound :: "rcvry_run \<Rightarrow> bool" where
  "rcvry_sound r \<longleftrightarrow> (\<exists>s es. r = Some (s, es) \<and> rcvry_inv s)"

lemma rcvry_inv_cong:
  assumes "rcvry_inv s" "is_scheduled s' = is_scheduled s" "error_on_rcvry s' = error_on_rcvry s" "vap_info s' = vap_info s"
    "current_rcvry_type s' = current_rcvry_type s"
  shows "rcvry_inv s'"
  using assms by (simp add: rcvry_inv_def)

lemma rcvry_exec_sound:
  assumes i: "rcvry_inv s" and ok: "rcvry_event_ok (Some (s, es)) e"
  shows "rcvry_sound (rcvry_exec s es e)"
proof (cases e)
  case (RInitiate env)
  then show ?thesis using initiate_inv [OF i, of env] ok by (auto simp: rcvry_sound_def)
next
  case (RMaster env)
  then have sch: "is_scheduled s" using ok by simp
  then obtain v vs where v: "vap_info s = Some (v # vs)" "\<not> error_on_rcvry s" using i by (auto simp: rcvry_inv_def neq_Nil_conv)
  show ?thesis
    by (rule master_cases [OF v(1), of env]) (use RMaster v in \<open>auto simp: rcvry_sound_def rcvry_inv_def\<close>)
next
  case (RError env)
  show ?thesis
  proof (cases es)
    case Nil
    then show ?thesis using RError i by (simp add: rcvry_sound_def)
  next
    case (Cons t ts)
    let ?s = "rc_out (map CoreError (rev (vaps env))) s"
    have "rcvry_inv ?s" by (rule rcvry_inv_cong [OF i]) simp_all
    then obtain s' where s': "rcvry_initiate env ?s = Some s'" "rcvry_inv s'" using initiate_inv [of ?s env] ok RError by auto
    have "rcvry_inv (rcvry_inc_cnt c s')" for c by (rule rcvry_inv_cong [OF s'(2)]) simp_all
    then show ?thesis using RError Cons s' by (auto simp: rcvry_sound_def rcvry_on_error_def split: rcvry_type_e.split)
  qed
next
  case (RDump env)
  have "rcvry_inv (fst (rcvry_fw_dump env s))" by (rule rcvry_inv_cong [OF i]) (use dump_frame [of s env] in \<open>simp_all add: rc_frame_def\<close>)
  then show ?thesis using RDump by (simp add: rcvry_sound_def)
qed (use i in \<open>simp_all add: rcvry_sound_def rcvry_inv_def rcvry_fail_timer_handler_def mtlk_rcvry_set_cfg_def rcvry_set_forced_type_def\<close>)

interpretation rcvry: step_system rcvry_step rcvry_event_ok rcvry_sound
proof
  fix r e assume "rcvry_sound r" "rcvry_event_ok r e"
  then show "rcvry_sound (rcvry_step r e)" using rcvry_exec_sound by (auto simp: rcvry_sound_def rcvry_step_def)
qed

lemma rcvry_init_inv: "rcvry_sound (Some (rcvry_init, []))"
  by (simp add: rcvry_sound_def rcvry_inv_def rcvry_init_def)

section \<open>The order of escalation\<close>

definition last_resort :: "rcvry_cfg_t \<Rightarrow> rcvry_type_e" where
  "last_resort c = (if complete_rcvry c \<noteq> 0 then RCVRY_TYPE_COMPLETE else RCVRY_TYPE_NONE)"

definition rcvry_policy :: "rcvry_cfg_t \<Rightarrow> rcvry_type_e list" where
  "rcvry_policy c = replicate (unat (fast_rcvry_num c)) RCVRY_TYPE_FAST @ replicate (unat (full_rcvry_num c)) RCVRY_TYPE_FULL @ [last_resort c]"

abbreviation final_type :: "rcvry_type_e \<Rightarrow> bool" where
  "final_type t \<equiv> t = RCVRY_TYPE_NONE \<or> t = RCVRY_TYPE_COMPLETE"

definition on_track :: "rcvry_cfg_t \<Rightarrow> rcvry_t \<Rightarrow> bool" where
  "on_track c s \<longleftrightarrow> cfg s = c \<and> forced_rcvry_type s = RCVRY_TYPE_UNDEF \<and>
     fast_rcvry_cnt s \<le> fast_rcvry_num c \<and> full_rcvry_cnt s \<le> full_rcvry_num c \<and>
     (full_rcvry_cnt s \<noteq> 0 \<longrightarrow> fast_rcvry_cnt s = fast_rcvry_num c) \<and>
     (final_type (current_rcvry_type s) \<longrightarrow> fast_rcvry_cnt s = fast_rcvry_num c \<and> full_rcvry_cnt s = full_rcvry_num c) \<and>
     chosen (rc_log s) = replicate (unat (fast_rcvry_cnt s)) RCVRY_TYPE_FAST @ replicate (unat (full_rcvry_cnt s)) RCVRY_TYPE_FULL @
       (if final_type (current_rcvry_type s) then [last_resort c] else [])"

text \<open>Recovery left to itself in access point mode: no timer, no new configuration, no forced type.\<close>

fun unattended :: "rcvry_event \<Rightarrow> bool" where
  "unattended (RInitiate env) = is_ap env"
| "unattended (RError env) = is_ap env"
| "unattended (RMaster env) = True"
| "unattended (RDump env) = True"
| "unattended _ = False"

lemma unat_inc_u8: "(a :: u8) < b \<Longrightarrow> unat (a + 1) = Suc (unat a) \<and> a + 1 \<le> b"
proof -
  assume l: "a < b"
  then have "unat a < unat b" by (simp add: word_less_nat_alt)
  moreover have "unat b < 2 ^ 8" using unsigned_less [of b] by (simp only: len_num1 len_num0 len_bit0 mult_1_right) simp
  ultimately have "unat (a + 1) = Suc (unat a)" by (subst unat_add_lem [THEN iffD1]) simp_all
  then show ?thesis using l by (simp add: word_le_nat_alt word_less_nat_alt)
qed

lemma on_track_initiate:
  assumes t: "on_track c s" and i: "rcvry_inv s" and ap: "is_ap env" and r: "rcvry_initiate env s = Some s'"
  shows "on_track c s'"
proof (cases "current_rcvry_type s = RCVRY_TYPE_UNDEF")
  case False
  then show ?thesis using t r by (auto simp: initiate_busy on_track_def)
next
  case True
  let ?d = "rcvry_determine_type env (s\<lparr>fail_timer := False\<rparr>)"
  have e: "error_on_rcvry s \<longrightarrow> vap_info s \<noteq> None" using i by (auto simp: rcvry_inv_def)
  have s': "current_rcvry_type s' = current_rcvry_type ?d" "forced_rcvry_type s' = forced_rcvry_type ?d"
    "fast_rcvry_cnt s' = fast_rcvry_cnt ?d" "full_rcvry_cnt s' = full_rcvry_cnt ?d" "cfg s' = cfg s"
    "chosen (rc_log s') = chosen (rc_log s) @ [current_rcvry_type ?d]"
    by (rule initiate_cases [OF True e refl, of env], use r in simp)+
  have S: "cfg s = c" "forced_rcvry_type s = RCVRY_TYPE_UNDEF" "fast_rcvry_cnt s \<le> fast_rcvry_num c" "full_rcvry_cnt s \<le> full_rcvry_num c"
    "full_rcvry_cnt s \<noteq> 0 \<longrightarrow> fast_rcvry_cnt s = fast_rcvry_num c"
    "chosen (rc_log s) = replicate (unat (fast_rcvry_cnt s)) RCVRY_TYPE_FAST @ replicate (unat (full_rcvry_cnt s)) RCVRY_TYPE_FULL"
    using t True by (simp_all add: on_track_def)
  consider "fast_rcvry_cnt s < fast_rcvry_num c" | "\<not> fast_rcvry_cnt s < fast_rcvry_num c" "full_rcvry_cnt s < full_rcvry_num c"
    | "\<not> fast_rcvry_cnt s < fast_rcvry_num c" "\<not> full_rcvry_cnt s < full_rcvry_num c" by blast
  then show ?thesis
  proof cases
    case 1
    then have "full_rcvry_cnt s = 0" using S(5) by auto
    then show ?thesis using 1 s' S unat_inc_u8 [OF 1] ap
      by (simp add: on_track_def rcvry_determine_type_def replicate_append_same)
  next
    case 2
    then have "fast_rcvry_cnt s = fast_rcvry_num c" using S(3) by simp
    then show ?thesis using 2 s' S unat_inc_u8 [OF 2(2)] ap
      by (simp add: on_track_def rcvry_determine_type_def replicate_append_same)
  next
    case 3
    then have "fast_rcvry_cnt s = fast_rcvry_num c" "full_rcvry_cnt s = full_rcvry_num c" using S(3,4) by simp_all
    then show ?thesis using s' S ap by (simp add: on_track_def rcvry_determine_type_def last_resort_def)
  qed
qed

lemma on_track_cong:
  assumes "on_track c s" "cfg s' = cfg s" "forced_rcvry_type s' = forced_rcvry_type s" "fast_rcvry_cnt s' = fast_rcvry_cnt s"
    "full_rcvry_cnt s' = full_rcvry_cnt s" "chosen (rc_log s') = chosen (rc_log s)" "final_type (current_rcvry_type s') = final_type (current_rcvry_type s)"
  shows "on_track c s'"
  using assms unfolding on_track_def by simp

lemma on_track_exec:
  assumes t: "on_track c s" and i: "rcvry_inv s" and ok: "rcvry_event_ok (Some (s, es)) e" "unattended e"
    and r: "rcvry_exec s es e = Some (s', es')"
  shows "on_track c s'"
proof (cases e)
  case (RInitiate env)
  then show ?thesis using on_track_initiate [OF t i, of env] ok r by auto
next
  case (RMaster env)
  then have sch: "is_scheduled s" using ok by simp
  then obtain v vs where v: "vap_info s = Some (v # vs)" "\<not> final_type (current_rcvry_type s)"
    using i by (auto simp: rcvry_inv_def neq_Nil_conv)
  show ?thesis
    by (rule master_cases [OF v(1), of env]) (use RMaster v r in \<open>auto intro!: on_track_cong [OF t]\<close>)
next
  case (RError env)
  show ?thesis
  proof (cases es)
    case Nil
    then show ?thesis using RError t r by simp
  next
    case (Cons y ys)
    let ?s = "rc_out (map CoreError (rev (vaps env))) s"
    have o: "on_track c ?s" "rcvry_inv ?s" by (rule on_track_cong [OF t], simp_all add: chosen_map) (rule rcvry_inv_cong [OF i], simp_all)
    obtain s1 where s1: "rcvry_initiate env ?s = Some s1" using r RError Cons by (auto simp: rcvry_on_error_def)
    have "on_track c s1" using on_track_initiate [OF o _ s1] ok RError by simp
    then have "on_track c (rcvry_inc_cnt k s1)" "on_track c s1" for k by (auto intro: on_track_cong)
    moreover have "s' = s1 \<or> (\<exists>k. s' = rcvry_inc_cnt k s1)"
      using r RError Cons s1 by (auto simp: rcvry_on_error_def split: rcvry_type_e.splits)
    ultimately show ?thesis by auto
  qed
next
  case (RDump env)
  then show ?thesis using r dump_frame [of s env] by (auto simp: rc_frame_def intro!: on_track_cong [OF t])
qed (use ok in simp_all)

lemma on_track_prefix: "on_track c s \<Longrightarrow> \<exists>n. chosen (rc_log s) = take n (rcvry_policy c)"
proof -
  assume t: "on_track c s"
  let ?f = "unat (fast_rcvry_cnt s)" and ?l = "unat (full_rcvry_cnt s)"
  have b: "?f \<le> unat (fast_rcvry_num c)" "?l \<le> unat (full_rcvry_num c)" "?l \<noteq> 0 \<longrightarrow> ?f = unat (fast_rcvry_num c)"
    using t by (auto simp: on_track_def word_le_nat_alt unat_eq_0)
  show ?thesis
  proof (cases "final_type (current_rcvry_type s)")
    case True
    then have "chosen (rc_log s) = take (length (rcvry_policy c)) (rcvry_policy c)" using t by (simp add: on_track_def rcvry_policy_def)
    then show ?thesis by blast
  next
    case False
    have "chosen (rc_log s) = take (?f + ?l) (rcvry_policy c)"
    proof (cases "?l = 0")
      case True
      then show ?thesis using t False b by (simp add: on_track_def rcvry_policy_def min_absorb1)
    next
      case nz: False
      then show ?thesis using t False b by (simp add: on_track_def rcvry_policy_def min_absorb1)
    qed
    then show ?thesis by blast
  qed
qed

interpretation rcvry_auto: step_system rcvry_step "\<lambda>r e. rcvry_event_ok r e \<and> unattended e"
  "\<lambda>r. \<exists>s es. r = Some (s, es) \<and> rcvry_inv s \<and> on_track c s" for c
proof
  fix r e assume "\<exists>s es. r = Some (s, es) \<and> rcvry_inv s \<and> on_track c s" "rcvry_event_ok r e \<and> unattended e"
  then obtain s es where r: "r = Some (s, es)" "rcvry_inv s" "on_track c s" "rcvry_event_ok (Some (s, es)) e" "unattended e" by auto
  then obtain s1 es1 where s1: "rcvry_exec s es e = Some (s1, es1)" "rcvry_inv s1" using rcvry_exec_sound [of s es e] by (auto simp: rcvry_sound_def)
  then show "\<exists>s es. rcvry_step r e = Some (s, es) \<and> rcvry_inv s \<and> on_track c s"
    using on_track_exec [OF r(3,2,4,5) s1(1)] r(1) by (auto simp: rcvry_step_def)
qed

section \<open>Stuck recoveries\<close>

text \<open>A type chosen with no task scheduled is final.\<close>

lemma stuck_exec:
  assumes "current_rcvry_type s \<noteq> RCVRY_TYPE_UNDEF" "\<not> is_scheduled s" "rcvry_event_ok (Some (s, es)) e"
  shows "\<exists>s' es'. rcvry_exec s es e = Some (s', es') \<and> current_rcvry_type s' = current_rcvry_type s \<and> \<not> is_scheduled s' \<and>
    chosen (rc_log s') = chosen (rc_log s)"
proof (cases e)
  case (RError env)
  show ?thesis
  proof (cases es)
    case (Cons y ys)
    then show ?thesis using RError assms by (simp add: rcvry_on_error_def initiate_busy chosen_map split: rcvry_type_e.split)
  qed (use RError assms in simp)
next
  case (RDump env)
  then show ?thesis using assms dump_frame [of s env] by (simp add: rc_frame_def)
qed (use assms in \<open>simp_all add: initiate_busy rcvry_fail_timer_handler_def mtlk_rcvry_set_cfg_def rcvry_set_forced_type_def\<close>)

lemma stuck_run:
  assumes "current_rcvry_type s \<noteq> RCVRY_TYPE_UNDEF" "\<not> is_scheduled s" "rcvry.run_ok (Some (s, ps)) es"
  shows "\<exists>s' ps'. foldl rcvry_step (Some (s, ps)) es = Some (s', ps') \<and> current_rcvry_type s' = current_rcvry_type s \<and>
    \<not> is_scheduled s' \<and> chosen (rc_log s') = chosen (rc_log s)"
  using assms
proof (induction es arbitrary: s ps)
  case (Cons e es)
  obtain s1 ps1 where s1: "rcvry_exec s ps e = Some (s1, ps1)" "current_rcvry_type s1 = current_rcvry_type s" "\<not> is_scheduled s1"
    "chosen (rc_log s1) = chosen (rc_log s)" using stuck_exec [of s ps e] Cons.prems by auto
  then show ?case using Cons.IH [of s1 ps1] Cons.prems by simp
qed simp

section \<open>Properties\<close>


definition demo_env :: "mtlk_error_t \<Rightarrow> rcvry_env" where
  "demo_env hw = \<lparr>is_ap = True, vaps = [\<lparr>vap_num = 0, was_connected = True, vap_is_master = True\<rparr>], alloc_array = True,
     alloc_info = (\<lambda>_. True), reg_start_dump = True, reg_stop_dump = True, dump_notified = False, hw_mmb_restore = hw,
     core_restore = (\<lambda>_. MTLK_ERR_OK), core_configure = (\<lambda>_. MTLK_ERR_OK)\<rparr>"

lemmas rcvry_eval = demo_env_def rcvry_initiate_def rcvry_determine_type_def rcvry_init_def rcvry_vap_info_create_def
  rcvry_schedule_def rcvry_vap_info_cleanup_def rc_out_def Let_def mtlk_rcvry_set_cfg_def

lemmas rcvry_eval_master = master_recovery_def rcvry_stages_def rcvry_isolate_def rcvry_fw_dump_def rcvry_restore_def rcvry_on_error_def
  rcvry_inc_cnt_def


text \<open>
  C35: Left to itself, in access point mode and without the timer, the recovery follows the
  configured escalation: the types chosen are a prefix of the configured number of fast ones, then
  the configured number of full ones, then complete or none. So it ends after at most
  \<open>fast_rcvry_num + full_rcvry_num + 1\<close> choices, however often the firmware crashes.
\<close>

theorem rcvry_follows_policy:
  assumes "rcvry_auto.run_ok (Some (s0, [])) es" "s0 = fst (mtlk_rcvry_set_cfg rcvry_init c)"
  shows "\<exists>s ps n. foldl rcvry_step (Some (s0, [])) es = Some (s, ps) \<and> chosen (rc_log s) = take n (rcvry_policy c) \<and>
    length (chosen (rc_log s)) \<le> unat (fast_rcvry_num c) + unat (full_rcvry_num c) + 1"
proof -
  let ?c = "c\<lparr>fail_time_interval := fail_time_interval c * 1000\<rparr>"
  have p: "rcvry_policy ?c = rcvry_policy c" by (simp add: rcvry_policy_def last_resort_def)
  have "\<exists>s es. Some (s0, []) = Some (s, es) \<and> rcvry_inv s \<and> on_track ?c s"
    using assms(2) by (simp add: mtlk_rcvry_set_cfg_def rcvry_init_def rcvry_inv_def on_track_def)
  from rcvry_auto.run_inv [OF this assms(1)] obtain s ps
    where s: "foldl rcvry_step (Some (s0, [])) es = Some (s, ps)" "on_track ?c s" by blast
  then obtain n where n: "chosen (rc_log s) = take n (rcvry_policy c)" using on_track_prefix [OF s(2)] p by auto
  moreover have "length (take n (rcvry_policy c)) \<le> length (rcvry_policy c)" by simp
  then have "length (take n (rcvry_policy c)) \<le> unat (fast_rcvry_num c) + unat (full_rcvry_num c) + 1" by (simp add: rcvry_policy_def)
  ultimately show ?thesis using s(1) by auto
qed

theorem rcvry_follows_policy_witness:
  "\<exists>s ps n. foldl rcvry_step (Some (fst (mtlk_rcvry_set_cfg rcvry_init (cfg rcvry_init)), []))
      [RInitiate (demo_env MTLK_ERR_OK), RMaster (demo_env MTLK_ERR_HW)] = Some (s, ps) \<and>
    chosen (rc_log s) = take n (rcvry_policy (cfg rcvry_init))"
proof -
  have ok: "rcvry_auto.run_ok (Some (fst (mtlk_rcvry_set_cfg rcvry_init (cfg rcvry_init)), []))
      [RInitiate (demo_env MTLK_ERR_OK), RMaster (demo_env MTLK_ERR_HW)]" by (simp add: rcvry_eval)
  show ?thesis using rcvry_follows_policy [OF ok refl] by blast
qed

text \<open>
  Running out of memory is final. When the array cannot be allocated the type of the recovery
  stays set although nothing was scheduled; whatever happens afterwards, the recovery counts as in
  progress, no other is ever chosen or scheduled, and the firmware stays down.
\<close>

lemma rcvry_no_memory_is_final:
  assumes "rcvry_inv s" "\<not> rcvry_is_in_progress s" "\<not> error_on_rcvry s" "\<not> alloc_array env"
    and "t = current_rcvry_type (rcvry_determine_type env (s\<lparr>fail_timer := False\<rparr>))" "t \<in> {RCVRY_TYPE_FAST, RCVRY_TYPE_FULL}"
    and "rcvry_initiate env s = Some s1" "rcvry.run_ok (Some (s1, ps)) es"
  shows "\<exists>s' ps'. foldl rcvry_step (Some (s1, ps)) es = Some (s', ps') \<and> rcvry_is_in_progress s' \<and> \<not> rcvry_is_scheduled s' \<and>
    vap_info s' = None \<and> chosen (rc_log s') = chosen (rc_log s) @ [t]"
proof -
  have u: "current_rcvry_type s = RCVRY_TYPE_UNDEF" using assms(2) by (simp add: rcvry_is_in_progress_def)
  have e: "error_on_rcvry s \<longrightarrow> vap_info s \<noteq> None" "\<not> is_scheduled s" using assms(1,3) u by (auto simp: rcvry_inv_def)
  have s1: "current_rcvry_type s1 = t" "\<not> is_scheduled s1" "\<not> error_on_rcvry s1" "chosen (rc_log s1) = chosen (rc_log s) @ [t]" "vap_info s1 = None"
    by (rule initiate_cases [OF u e(1) assms(5)], use assms e in auto)+
  have i1: "rcvry_sound (Some (s1, ps))" using s1 by (simp add: rcvry_sound_def rcvry_inv_def)
  obtain s' ps' where s': "foldl rcvry_step (Some (s1, ps)) es = Some (s', ps')" "current_rcvry_type s' = t" "\<not> is_scheduled s'"
    "chosen (rc_log s') = chosen (rc_log s) @ [t]"
    using stuck_run [of s1 ps es] s1 assms(6,8) by auto
  have "rcvry_inv s'" using rcvry.run_inv [OF i1 assms(8)] s'(1) by (simp add: rcvry_sound_def)
  then show ?thesis using s' assms(6) by (auto simp: rcvry_inv_def rcvry_is_in_progress_def rcvry_is_scheduled_def)
qed


end
