(* ===== verification/Fw_Recovery_Sync.thy ===== *)
theory Fw_Recovery_Sync
  imports Wave_Prelude
begin

text \<open>
  The meeting of the recovery tasks (\<^verbatim>\<open>wireless/driver/shared/fw_recovery.c\<close>). Every VAP has its own
  serializer; \<^verbatim>\<open>rcvry_initiate\<close> puts a task into each, and the two mutexes, which are counting
  semaphores with initial value 1, make the task of the master wait until the tasks of the slaves
  have stopped and the slaves wait until the master is done. Any interleaving of the single
  semaphore operations is a run.

  \<open>calm\<close> restricts the initiation to the time when the slaves have left their old tasks. The code
  does not: it only waits for the master.
\<close>

section \<open>Model\<close>

datatype master_pc = MIdle | MWait nat | MBody | MRelease nat

text \<open>A slave: recovery tasks in its serializer, and whether it waits in \<^verbatim>\<open>slave_recovery\<close>.\<close>

record slave_st =
  tasks :: nat
  waiting :: bool

record sync_st =
  slave_sync_mutex :: nat
  slave_rlse_mutex :: nat
  master :: master_pc
  slaves :: "slave_st list"

definition sync_init :: "nat \<Rightarrow> sync_st" where
  "sync_init n = \<lparr>slave_sync_mutex = 1, slave_rlse_mutex = 1, master = MIdle, slaves = replicate n \<lparr>tasks = 0, waiting = False\<rparr>\<rparr>"

definition at_rest :: "sync_st \<Rightarrow> bool" where
  "at_rest s \<longleftrightarrow> (\<forall>x\<in>set (slaves s). tasks x = 0 \<and> \<not> waiting x)"

datatype sync_act = AInitiate | AAcquireSync | AEnter | AFinish | ARelease | ALeave | ASlaveStart nat | ASlaveEnd nat

text \<open>One operation, \<open>None\<close> if it has to wait. There are as many entries in the array as slaves, and the master.\<close>

fun sync_exec :: "bool \<Rightarrow> sync_st \<Rightarrow> sync_act \<Rightarrow> sync_st option" where
  "sync_exec calm s AInitiate =
     (if master s = MIdle \<and> 0 < slave_rlse_mutex s \<and> (calm \<longrightarrow> at_rest s)
      then Some (s\<lparr>slave_rlse_mutex := slave_rlse_mutex s - 1, master := MWait (length (slaves s) + 1),
                   slaves := map (\<lambda>x. x\<lparr>tasks := tasks x + 1\<rparr>) (slaves s)\<rparr>)
      else None)"
| "sync_exec calm s AAcquireSync =
     (case master s of
        MWait (Suc k) \<Rightarrow> if 0 < slave_sync_mutex s then Some (s\<lparr>slave_sync_mutex := slave_sync_mutex s - 1, master := MWait k\<rparr>) else None
      | _ \<Rightarrow> None)"
| "sync_exec calm s AEnter =
     (if master s = MWait 0 then Some (s\<lparr>slave_sync_mutex := slave_sync_mutex s + 1, master := MBody\<rparr>) else None)"
| "sync_exec calm s AFinish = (if master s = MBody then Some (s\<lparr>master := MRelease (length (slaves s) + 1)\<rparr>) else None)"
| "sync_exec calm s ARelease =
     (case master s of
        MRelease (Suc k) \<Rightarrow> Some (s\<lparr>slave_rlse_mutex := slave_rlse_mutex s + 1, master := MRelease k\<rparr>)
      | _ \<Rightarrow> None)"
| "sync_exec calm s ALeave = (if master s = MRelease 0 then Some (s\<lparr>master := MIdle\<rparr>) else None)"
| "sync_exec calm s (ASlaveStart i) =
     (if i < length (slaves s) \<and> 0 < tasks (slaves s ! i) \<and> \<not> waiting (slaves s ! i)
      then Some (s\<lparr>slave_sync_mutex := slave_sync_mutex s + 1,
                   slaves := (slaves s)[i := \<lparr>tasks = tasks (slaves s ! i) - 1, waiting = True\<rparr>]\<rparr>)
      else None)"
| "sync_exec calm s (ASlaveEnd i) =
     (if i < length (slaves s) \<and> waiting (slaves s ! i) \<and> 0 < slave_rlse_mutex s
      then Some (s\<lparr>slave_rlse_mutex := slave_rlse_mutex s - 1, slaves := (slaves s)[i := (slaves s ! i)\<lparr>waiting := False\<rparr>]\<rparr>)
      else None)"

inductive sync_reach :: "bool \<Rightarrow> nat \<Rightarrow> sync_st \<Rightarrow> bool" for calm n where
  start: "sync_reach calm n (sync_init n)"
| step: "sync_reach calm n s \<Longrightarrow> sync_exec calm s a = Some s' \<Longrightarrow> sync_reach calm n s'"

definition sync_step :: "sync_st \<Rightarrow> sync_st \<Rightarrow> bool" where
  "sync_step s s' \<longleftrightarrow> (\<exists>a. a \<noteq> AInitiate \<and> sync_exec True s a = Some s')"

section \<open>Counting\<close>

definition n_waiting :: "sync_st \<Rightarrow> nat" where
  "n_waiting s = length (filter waiting (slaves s))"

definition n_tasks :: "sync_st \<Rightarrow> nat" where
  "n_tasks s = sum_list (map tasks (slaves s))"

lemma filter_update:
  assumes "i < length xs"
  shows "length (filter P (xs[i := y])) + (if P (xs ! i) then 1 else 0) = length (filter P xs) + (if P y then 1 else 0)"
  using assms
proof (induction xs arbitrary: i)
  case (Cons x xs)
  then show ?case by (cases i) auto
qed simp

lemma sum_update:
  fixes f :: "'a \<Rightarrow> nat"
  assumes "i < length xs"
  shows "sum_list (map f (xs[i := y])) + f (xs ! i) = sum_list (map f xs) + f y"
  using assms
proof (induction xs arbitrary: i)
  case (Cons x xs)
  then show ?case by (cases i) (auto simp: algebra_simps)
qed simp

lemma waiting_le: "n_waiting s \<le> length (slaves s)"
  by (simp add: n_waiting_def)

lemma waiting_all: "n_waiting s = length (slaves s) \<longleftrightarrow> (\<forall>x\<in>set (slaves s). waiting x)"
  unfolding n_waiting_def
proof (induction "slaves s" arbitrary: s)
  case (Cons x xs)
  have "length (filter waiting xs) \<noteq> Suc (length xs)" using length_filter_le [of waiting xs] by linarith
  moreover have "(length (filter waiting xs) = length xs) = (\<forall>x\<in>set xs. waiting x)" using Cons(1) [of "s\<lparr>slaves := xs\<rparr>"] by simp
  ultimately show ?case using Cons(2) [symmetric] by auto
qed simp

lemma rest_iff: "at_rest s \<longleftrightarrow> n_tasks s = 0 \<and> n_waiting s = 0"
  by (auto simp: at_rest_def n_tasks_def n_waiting_def filter_empty_conv)

text \<open>The values of the semaphores in every phase of a calm run.\<close>

definition sync_inv :: "nat \<Rightarrow> sync_st \<Rightarrow> bool" where
  "sync_inv n s \<longleftrightarrow> length (slaves s) = n \<and>
     (case master s of
        MIdle \<Rightarrow> n_tasks s = 0 \<and> slave_sync_mutex s = 1 \<and> slave_rlse_mutex s = n_waiting s + 1
      | MWait k \<Rightarrow> (\<forall>x\<in>set (slaves s). tasks x + of_bool (waiting x) = 1) \<and> slave_rlse_mutex s = 0 \<and> slave_sync_mutex s + n = k + n_waiting s
      | MBody \<Rightarrow> n_tasks s = 0 \<and> n_waiting s = n \<and> slave_rlse_mutex s = 0 \<and> slave_sync_mutex s = 1
      | MRelease k \<Rightarrow> n_tasks s = 0 \<and> slave_sync_mutex s = 1 \<and> slave_rlse_mutex s + k = n_waiting s + 1)"

lemma slave_start_counts:
  assumes "i < length (slaves s)" "0 < tasks (slaves s ! i)" "\<not> waiting (slaves s ! i)"
    "slaves s' = (slaves s)[i := \<lparr>tasks = tasks (slaves s ! i) - 1, waiting = True\<rparr>]"
  shows "n_waiting s' = n_waiting s + 1" "n_tasks s = n_tasks s' + 1"
  using assms(2,3) filter_update [OF assms(1), of waiting "\<lparr>tasks = tasks (slaves s ! i) - 1, waiting = True\<rparr>"]
    sum_update [OF assms(1), of tasks "\<lparr>tasks = tasks (slaves s ! i) - 1, waiting = True\<rparr>"]
  by (simp_all add: n_waiting_def n_tasks_def assms(4))

lemma slave_end_counts:
  assumes "i < length (slaves s)" "waiting (slaves s ! i)" "slaves s' = (slaves s)[i := (slaves s ! i)\<lparr>waiting := False\<rparr>]"
  shows "n_waiting s = n_waiting s' + 1" "n_tasks s' = n_tasks s"
  using assms(2) filter_update [OF assms(1), of waiting "(slaves s ! i)\<lparr>waiting := False\<rparr>"]
    sum_update [OF assms(1), of tasks "(slaves s ! i)\<lparr>waiting := False\<rparr>"]
  by (simp_all add: n_waiting_def n_tasks_def assms(3))

lemma counts_cong: "slaves s' = slaves s \<Longrightarrow> n_waiting s' = n_waiting s \<and> n_tasks s' = n_tasks s"
  by (simp add: n_waiting_def n_tasks_def)

text \<open>What the two operations of a slave change.\<close>

lemma slave_start_elim:
  assumes "sync_exec calm s (ASlaveStart i) = Some s'"
  obtains "i < length (slaves s)" "0 < tasks (slaves s ! i)" "\<not> waiting (slaves s ! i)"
    "slaves s' = (slaves s)[i := \<lparr>tasks = tasks (slaves s ! i) - 1, waiting = True\<rparr>]" "master s' = master s"
    "slave_sync_mutex s' = slave_sync_mutex s + 1" "slave_rlse_mutex s' = slave_rlse_mutex s"
  using assms by (intro that) (auto split: if_splits)

lemma slave_end_elim:
  assumes "sync_exec calm s (ASlaveEnd i) = Some s'"
  obtains "i < length (slaves s)" "waiting (slaves s ! i)" "slaves s' = (slaves s)[i := (slaves s ! i)\<lparr>waiting := False\<rparr>]"
    "master s' = master s" "slave_sync_mutex s' = slave_sync_mutex s" "slave_rlse_mutex s = slave_rlse_mutex s' + 1"
  using assms by (intro that) (auto split: if_splits)

lemma initiate_counts:
  assumes "at_rest s" "slaves s' = map (\<lambda>x. x\<lparr>tasks := tasks x + 1\<rparr>) (slaves s)"
  shows "n_waiting s' = 0" "\<forall>x\<in>set (slaves s'). tasks x + of_bool (waiting x) = 1"
proof -
  have r: "\<forall>x\<in>set (slaves s). tasks x = 0 \<and> \<not> waiting x" using assms(1) by (simp add: at_rest_def)
  then show "\<forall>x\<in>set (slaves s'). tasks x + of_bool (waiting x) = 1" unfolding assms(2) by simp
  show "n_waiting s' = 0" unfolding n_waiting_def assms(2) length_0_conv filter_empty_conv using r by simp
qed

lemma one_each_all: "\<forall>x\<in>set xs. tasks x + of_bool (waiting x) = 1 \<Longrightarrow> sum_list (map tasks xs) + length (filter waiting xs) = length xs"
  by (induction xs) (auto split: if_splits)

lemma sync_inv_step:
  assumes i: "sync_inv n s" and e: "sync_exec True s a = Some s'"
  shows "sync_inv n s'"
proof (cases a)
  case AInitiate
  then have m: "master s = MIdle" "at_rest s" and s': "slaves s' = map (\<lambda>x. x\<lparr>tasks := tasks x + 1\<rparr>) (slaves s)"
    "master s' = MWait (length (slaves s) + 1)" "slave_sync_mutex s' = slave_sync_mutex s" "slave_rlse_mutex s' = slave_rlse_mutex s - 1"
    using e by (auto split: if_splits)
  have "n_waiting s = 0" using m(2) by (simp add: rest_iff)
  then show ?thesis using i m(1) initiate_counts [OF m(2) s'(1)] s'(2-4) arg_cong [OF s'(1), of length] by (simp add: sync_inv_def)
next
  case (ASlaveStart j)
  show ?thesis
  proof (rule slave_start_elim [OF e [unfolded ASlaveStart]])
    assume j: "j < length (slaves s)" "0 < tasks (slaves s ! j)" "\<not> waiting (slaves s ! j)"
      and s': "slaves s' = (slaves s)[j := \<lparr>tasks = tasks (slaves s ! j) - 1, waiting = True\<rparr>]"
      and o: "master s' = master s" "slave_sync_mutex s' = slave_sync_mutex s + 1" "slave_rlse_mutex s' = slave_rlse_mutex s"
    note c = slave_start_counts [OF j s']
    have l: "length (slaves s') = length (slaves s)" by (simp add: s')
    have "\<forall>x\<in>set (slaves s'). tasks x + of_bool (waiting x) = 1" if "\<forall>x\<in>set (slaves s). tasks x + of_bool (waiting x) = 1"
      using that j nth_mem [OF j(1)] set_update_subset_insert [of "slaves s" j] s' by fastforce
    then show ?thesis using i c o l by (cases "master s") (simp_all add: sync_inv_def)
  qed
next
  case (ASlaveEnd j)
  show ?thesis
  proof (rule slave_end_elim [OF e [unfolded ASlaveEnd]])
    assume j: "j < length (slaves s)" "waiting (slaves s ! j)" and s': "slaves s' = (slaves s)[j := (slaves s ! j)\<lparr>waiting := False\<rparr>]"
      and o: "master s' = master s" "slave_sync_mutex s' = slave_sync_mutex s" "slave_rlse_mutex s = slave_rlse_mutex s' + 1"
    have l: "length (slaves s') = length (slaves s)" by (simp add: s')
    show ?thesis using i slave_end_counts [OF j s'] o l by (cases "master s") (simp_all add: sync_inv_def)
  qed
next
  case AAcquireSync
  then obtain k where m: "master s = MWait (Suc k)" and s': "s' = s\<lparr>slave_sync_mutex := slave_sync_mutex s - 1, master := MWait k\<rparr>"
    "0 < slave_sync_mutex s" using e by (auto split: if_splits master_pc.splits nat.splits)
  then show ?thesis using i counts_cong [of s' s] by (simp add: sync_inv_def)
next
  case AEnter
  then have m: "master s = MWait 0" and s': "slaves s' = slaves s" "slave_sync_mutex s' = slave_sync_mutex s + 1" "master s' = MBody"
    "slave_rlse_mutex s' = slave_rlse_mutex s" using e by (auto split: if_splits)
  have "n_tasks s + n_waiting s = n" using i m one_each_all [of "slaves s"] by (simp add: sync_inv_def n_tasks_def n_waiting_def)
  then show ?thesis using i m s' counts_cong [OF s'(1)] waiting_le [of s] by (simp add: sync_inv_def)
qed (use i e in \<open>auto simp: sync_inv_def n_waiting_def n_tasks_def split: if_splits master_pc.splits nat.splits\<close>)

lemma sync_reach_inv: "sync_reach True n s \<Longrightarrow> sync_inv n s"
proof (induction rule: sync_reach.induct)
  case start
  have "sum_list (map tasks (replicate n \<lparr>tasks = 0, waiting = False\<rparr>)) = 0" by (induction n) simp_all
  moreover have "filter waiting (replicate n \<lparr>tasks = 0, waiting = False\<rparr>) = []" by (simp add: filter_empty_conv)
  ultimately show ?case by (simp add: sync_inv_def sync_init_def n_waiting_def n_tasks_def)
qed (rule sync_inv_step)

section \<open>Progress\<close>

definition sync_rank :: "sync_st \<Rightarrow> nat" where
  "sync_rank s = 2 * n_tasks s + n_waiting s +
     (case master s of MIdle \<Rightarrow> 0 | MRelease k \<Rightarrow> k + 1 | MBody \<Rightarrow> length (slaves s) + 3 | MWait k \<Rightarrow> length (slaves s) + 4 + k)"

text \<open>Every operation but an initiation brings the end of the round nearer.\<close>

lemma sync_rank_decreases:
  assumes e: "sync_exec calm s a = Some s'" "a \<noteq> AInitiate"
  shows "sync_rank s' < sync_rank s"
proof (cases a)
  case (ASlaveStart j)
  show ?thesis
  proof (rule slave_start_elim [OF e(1) [unfolded ASlaveStart]])
    assume j: "j < length (slaves s)" "0 < tasks (slaves s ! j)" "\<not> waiting (slaves s ! j)"
      and s': "slaves s' = (slaves s)[j := \<lparr>tasks = tasks (slaves s ! j) - 1, waiting = True\<rparr>]" and o: "master s' = master s"
    have l: "length (slaves s') = length (slaves s)" by (simp add: s')
    show ?thesis using slave_start_counts [OF j s'] o l by (cases "master s") (simp_all add: sync_rank_def)
  qed
next
  case (ASlaveEnd j)
  show ?thesis
  proof (rule slave_end_elim [OF e(1) [unfolded ASlaveEnd]])
    assume j: "j < length (slaves s)" "waiting (slaves s ! j)" and s': "slaves s' = (slaves s)[j := (slaves s ! j)\<lparr>waiting := False\<rparr>]"
      and o: "master s' = master s"
    have l: "length (slaves s') = length (slaves s)" by (simp add: s')
    show ?thesis using slave_end_counts [OF j s'] o l by (cases "master s") (simp_all add: sync_rank_def)
  qed
qed (use assms in \<open>auto simp: sync_rank_def n_waiting_def n_tasks_def split: if_splits master_pc.splits nat.splits\<close>)

text \<open>And as long as the round is not over, some operation is possible.\<close>

lemma sync_not_stuck:
  assumes i: "sync_inv n s" and g: "master s \<noteq> MIdle \<or> \<not> at_rest s"
  shows "\<exists>s'. sync_step s s'"
proof -
  have slave_end: "\<exists>s'. sync_step s s'" if "0 < n_waiting s" "0 < slave_rlse_mutex s"
  proof -
    have "filter waiting (slaves s) \<noteq> []" using that(1) by (simp add: n_waiting_def)
    then obtain j where j: "j < length (slaves s)" "waiting (slaves s ! j)" by (auto simp: filter_empty_conv in_set_conv_nth)
    then have "sync_exec True s (ASlaveEnd j) \<noteq> None" using that(2) by simp
    then show ?thesis unfolding sync_step_def by blast
  qed
  show ?thesis
  proof (cases "master s")
    case MIdle
    then have "0 < n_waiting s" "0 < slave_rlse_mutex s" using i g by (auto simp: sync_inv_def rest_iff)
    then show ?thesis by (rule slave_end)
  next
    case MBody
    then have "sync_exec True s AFinish \<noteq> None" by simp
    then show ?thesis unfolding sync_step_def by blast
  next
    case (MRelease k)
    then have "sync_exec True s ALeave \<noteq> None \<or> sync_exec True s ARelease \<noteq> None" by (cases k) simp_all
    then show ?thesis unfolding sync_step_def by blast
  next
    case (MWait k)
    show ?thesis
    proof (cases k)
      case 0
      then have "sync_exec True s AEnter \<noteq> None" using MWait by simp
      then show ?thesis unfolding sync_step_def by blast
    next
      case (Suc l)
      show ?thesis
      proof (cases "slave_sync_mutex s")
        case 0
        then have "n_waiting s < n" using i MWait Suc by (simp add: sync_inv_def)
        then obtain x where "x \<in> set (slaves s)" "\<not> waiting x" using waiting_all [of s] i by (auto simp: sync_inv_def)
        moreover from this have "0 < tasks x" using i MWait by (fastforce simp: sync_inv_def)
        ultimately obtain j where j: "j < length (slaves s)" "\<not> waiting (slaves s ! j)" "0 < tasks (slaves s ! j)" by (auto simp: in_set_conv_nth)
        then have "sync_exec True s (ASlaveStart j) \<noteq> None" by simp
        then show ?thesis unfolding sync_step_def by blast
      next
        case (Suc m)
        then have "sync_exec True s AAcquireSync \<noteq> None" using MWait \<open>k = Suc l\<close> by simp
        then show ?thesis unfolding sync_step_def by blast
      qed
    qed
  qed
qed

lemma sync_step_reach: "sync_reach True n s \<Longrightarrow> sync_step s s' \<Longrightarrow> sync_reach True n s' \<and> sync_rank s' < sync_rank s"
  unfolding sync_step_def using sync_reach.step sync_rank_decreases by blast

lemma sync_round_ends: "sync_reach True n s \<Longrightarrow> \<exists>s'. sync_step\<^sup>*\<^sup>* s s' \<and> master s' = MIdle \<and> at_rest s'"
proof (induction "sync_rank s" arbitrary: s rule: less_induct)
  case less
  show ?case
  proof (cases "master s = MIdle \<and> at_rest s")
    case False
    then obtain t where t: "sync_step s t" using sync_not_stuck [OF sync_reach_inv [OF less.prems]] by blast
    then have "sync_reach True n t" "sync_rank t < sync_rank s" using sync_step_reach [OF less.prems] by simp_all
    then obtain s' where "sync_step\<^sup>*\<^sup>* t s'" "master s' = MIdle" "at_rest s'" using less.hyps by blast
    then show ?thesis using t by (meson converse_rtranclp_into_rtranclp)
  qed blast
qed

lemma sync_steps_bound: "(sync_step ^^ m) s s' \<Longrightarrow> m + sync_rank s' \<le> sync_rank s"
proof (induction m arbitrary: s')
  case (Suc m)
  then obtain t where "(sync_step ^^ m) s t" "sync_step t s'" by auto
  moreover from this(2) have "sync_rank s' < sync_rank t" using sync_rank_decreases by (auto simp: sync_step_def)
  ultimately show ?case using Suc.IH [of t] by simp
qed simp

section \<open>Properties\<close>

text \<open>
  C36: When recoveries are initiated only after the slaves have left the one before, the master
  recovers only while every slave waits in its task, and none can leave it; the semaphore that
  \<^verbatim>\<open>rcvry_initiate\<close> takes under a spin lock is then free; a round cannot block, takes at most
  \<open>sync_rank\<close> operations whatever their order, and its end restores both semaphores.
\<close>

theorem rcvry_slaves_meet:
  assumes "sync_reach True n s"
  shows "(master s = MBody \<longrightarrow> (\<forall>x\<in>set (slaves s). waiting x) \<and> slave_rlse_mutex s = 0) \<and>
    (master s = MIdle \<longrightarrow> 0 < slave_rlse_mutex s) \<and>
    (master s = MIdle \<and> at_rest s \<longrightarrow> slave_sync_mutex s = 1 \<and> slave_rlse_mutex s = 1) \<and>
    (\<exists>s'. sync_step\<^sup>*\<^sup>* s s' \<and> master s' = MIdle \<and> at_rest s') \<and>
    (\<forall>m s'. (sync_step ^^ m) s s' \<longrightarrow> m \<le> sync_rank s)"
proof -
  have i: "sync_inv n s" by (rule sync_reach_inv [OF assms])
  have "master s = MBody \<longrightarrow> (\<forall>x\<in>set (slaves s). waiting x) \<and> slave_rlse_mutex s = 0"
    using i waiting_all [of s] by (auto simp: sync_inv_def)
  moreover have "master s = MIdle \<longrightarrow> 0 < slave_rlse_mutex s" using i by (auto simp: sync_inv_def)
  moreover have "master s = MIdle \<and> at_rest s \<longrightarrow> slave_sync_mutex s = 1 \<and> slave_rlse_mutex s = 1"
    using i by (auto simp: sync_inv_def rest_iff)
  moreover have "\<forall>m s'. (sync_step ^^ m) s s' \<longrightarrow> m \<le> sync_rank s" using sync_steps_bound by fastforce
  ultimately show ?thesis using sync_round_ends [OF assms] by blast
qed

text \<open>A sequence of operations, for concrete runs.\<close>

fun sync_run :: "bool \<Rightarrow> sync_st \<Rightarrow> sync_act list \<Rightarrow> sync_st option" where
  "sync_run calm s [] = Some s"
| "sync_run calm s (a # as) = (case sync_exec calm s a of None \<Rightarrow> None | Some s1 \<Rightarrow> sync_run calm s1 as)"

lemma sync_run_reach: "sync_reach calm n s \<Longrightarrow> sync_run calm s as = Some s' \<Longrightarrow> sync_reach calm n s'"
  by (induction calm s as rule: sync_run.induct) (auto split: option.splits intro: sync_reach.step)

theorem rcvry_slaves_meet_witness:
  "\<exists>s. sync_reach True 1 s \<and> master s = MBody \<and> (\<forall>x\<in>set (slaves s). waiting x)"
proof -
  have "\<exists>s. sync_run True (sync_init 1) [AInitiate, ASlaveStart 0, AAcquireSync, AAcquireSync, AEnter] = Some s \<and> master s = MBody"
    by (simp add: sync_init_def at_rest_def)
  then obtain s where s: "sync_reach True 1 s" "master s = MBody" using sync_run_reach [OF sync_reach.start] by blast
  then show ?thesis using rcvry_slaves_meet [OF s(1)] by blast
qed

text \<open>
  Without that restriction, which the code does not enforce, the tasks can block for ever: a
  second initiation may come while one of two slaves has not yet taken its release. The other
  slave then takes both, and the master waits for the first slave, which waits for the master.
\<close>

lemma rcvry_second_round_deadlocks:
  "\<exists>s. sync_reach False 2 s \<and> (\<forall>a. sync_exec False s a = None)"
proof -
  let ?r = "[AInitiate, ASlaveStart 0, ASlaveStart 1, AAcquireSync, AAcquireSync, AAcquireSync, AEnter, AFinish, ARelease, ARelease, ARelease, ALeave,
    AInitiate, ASlaveEnd 0, ASlaveStart 0, ASlaveEnd 0, AAcquireSync, AAcquireSync]"
  let ?s = "\<lparr>slave_sync_mutex = 0, slave_rlse_mutex = 0, master = MWait 1,
    slaves = [\<lparr>tasks = 0, waiting = False\<rparr>, \<lparr>tasks = 1, waiting = True\<rparr>]\<rparr>"
  have "sync_run False (sync_init 2) ?r = Some ?s" by (simp add: sync_init_def numeral_2_eq_2)
  then have "sync_reach False 2 ?s" using sync_run_reach [OF sync_reach.start] by blast
  moreover have "sync_exec False ?s a = None" for a by (cases a) (auto simp: nth_Cons split: nat.splits)
  ultimately show ?thesis by blast
qed

end
