(* ===== verification/Serializer.thy ===== *)
theory Serializer
  imports Wave_Prelude
begin

text \<open>
  The command serializer (\<^verbatim>\<open>wireless/driver/shared/mtlk_serializer.c\<close>, \<^verbatim>\<open>mtlk_serializer.h\<close>, the
  remove lock of \<^verbatim>\<open>mtlkrmlock.h\<close>, the thread of \<^verbatim>\<open>linux/mtlk_serializer_osdep.c\<close>) and its only
  client, \<^verbatim>\<open>_mtlk_core_execute_async_ex\<close> of \<^verbatim>\<open>linux/core.c\<close>.

  \<^item> The unit of interleaving is one critical section, one wait or one callback. The worker thread,
    the thread that stops the serializer and threads in \<^verbatim>\<open>mtlk_serializer_execute_blocked\<close> have
    a program counter each (\<open>szr_worker\<close>, \<open>szr_stopper\<close>, \<open>szr_waiter\<close>).
  \<^item> Commands are addresses; \<open>cmd_mem\<close> holds the command structures that are allocated. A command
    is word aligned, so addresses are numbers below \<open>2 ^ 30\<close>. Using memory that is not allocated
    or failing an assertion is the outcome \<open>Fault\<close>, a thread that has to wait is \<open>Blocked\<close>.
  \<^item> \<open>szr_log\<close> records what happens to commands: acceptance, start, execution, cancellation,
    completion and the return to a blocked caller.
\<close>

section \<open>Data\<close>

datatype 'a outcome = Blocked | Fault | Next 'a

datatype serializer_result_t = MTLK_CMD_EXECUTED | MTLK_CMD_CANCELED

text \<open>
  The completion callback with its context: \<^verbatim>\<open>_mtlk_core_async_compl_clb\<close> with the structure that
  contains the command, or \<^verbatim>\<open>_szr_execute_blocked_cmpl_clb\<close> with the context of a waiting thread.
\<close>

datatype szr_compl = AsyncCompl nat | BlockedCompl nat

record mtlk_command_t =
  cmd_callback :: nat
  post_exec_callback :: szr_compl
  is_in_queue :: bool
  cmd_priority :: nat
  issuer_slid :: nat

datatype szr_worker = WWait | WCheckStop | WReset | WScan nat | WInvoke | WComplete | WClear | WExit
datatype szr_stopper = SNone | SRelease | SWait | SStopFlag | SNotify | SJoin | SDone
datatype szr_waiter = BIdle | BWait nat | BCancel nat | BWaitInf nat

datatype szr_out =
    SzrAccept nat szr_compl nat
  | SzrStart nat
  | SzrRun nat
  | SzrCancel nat
  | SzrDone serializer_result_t nat
  | SzrReturn nat nat mtlk_error_t

record mtlk_serializer_t =
  commands :: "nat \<Rightarrow> nat list"
  num_priorities :: nat
  tasks_pending :: nat
  pending_evt :: bool
  is_running :: bool
  current_command :: "nat option"
  new_event :: bool
  osdep_stop :: bool
  cmd_mem :: "nat \<Rightarrow> mtlk_command_t option"
  worker :: szr_worker
  stopper :: szr_stopper
  waiters :: "nat \<Rightarrow> szr_waiter"
  szr_result :: "nat \<Rightarrow> serializer_result_t option"
  cancelling :: "nat list"
  szr_log :: "szr_out list"

abbreviation szr_note :: "szr_out \<Rightarrow> mtlk_serializer_t \<Rightarrow> mtlk_serializer_t" where
  "szr_note e s \<equiv> s\<lparr>szr_log := szr_log s @ [e]\<rparr>"

text \<open>State after \<^verbatim>\<open>mtlk_serializer_init\<close> and \<^verbatim>\<open>mtlk_serializer_start\<close>: the worker waits for its event.\<close>

definition mtlk_serializer_init :: "nat \<Rightarrow> mtlk_serializer_t" where
  "mtlk_serializer_init n =
     \<lparr>commands = (\<lambda>_. []), num_priorities = n, tasks_pending = 0, pending_evt = False, is_running = False,
      current_command = None, new_event = False, osdep_stop = False, cmd_mem = (\<lambda>_. None), worker = WExit,
      stopper = SDone, waiters = (\<lambda>_. BIdle), szr_result = (\<lambda>_. None), cancelling = [], szr_log = []\<rparr>"

definition mtlk_rmlock_acquire :: "mtlk_serializer_t \<Rightarrow> mtlk_serializer_t" where
  "mtlk_rmlock_acquire s = s\<lparr>tasks_pending := inc32 (tasks_pending s)\<rparr>"

definition mtlk_rmlock_release :: "mtlk_serializer_t \<Rightarrow> mtlk_serializer_t" where
  "mtlk_rmlock_release s =
     s\<lparr>tasks_pending := dec32 (tasks_pending s), pending_evt := pending_evt s \<or> dec32 (tasks_pending s) = 0\<rparr>"

definition szr_start_processing :: "mtlk_serializer_t \<Rightarrow> mtlk_serializer_t" where
  "szr_start_processing s = (mtlk_rmlock_acquire s)\<lparr>is_running := True\<rparr>"

definition mtlk_serializer_start :: "mtlk_serializer_t \<Rightarrow> mtlk_serializer_t" where
  "mtlk_serializer_start s =
     szr_start_processing (s\<lparr>tasks_pending := 0, pending_evt := False, osdep_stop := False, new_event := False,
       worker := WWait, stopper := SNone\<rparr>)"

section \<open>Enqueueing and cancelling\<close>

definition mtlk_command_init :: "nat \<Rightarrow> nat \<Rightarrow> mtlk_command_t \<Rightarrow> mtlk_command_t" where
  "mtlk_command_init cb slid garbage = garbage\<lparr>cmd_callback := cb, is_in_queue := False, issuer_slid := slid\<rparr>"

definition mtlk_command_cleanup :: "nat \<Rightarrow> mtlk_serializer_t \<Rightarrow> mtlk_serializer_t outcome" where
  "mtlk_command_cleanup c s =
     (case cmd_mem s c of None \<Rightarrow> Fault
      | Some m \<Rightarrow> if is_in_queue m then Fault else Next (s\<lparr>cmd_mem := (cmd_mem s)(c := None)\<rparr>))"

definition mtlk_serializer_enqueue ::
  "nat \<Rightarrow> nat \<Rightarrow> szr_compl \<Rightarrow> mtlk_serializer_t \<Rightarrow> (mtlk_serializer_t \<times> mtlk_error_t) outcome" where
  "mtlk_serializer_enqueue prio c compl s =
     (if \<not> prio < num_priorities s then Fault
      else if \<not> is_running s then Next (s, MTLK_ERR_NOT_READY)
      else case cmd_mem s c of None \<Rightarrow> Fault
        | Some m \<Rightarrow>
            if is_in_queue m then Next (s, MTLK_ERR_BUSY)
            else Next (szr_note (SzrAccept c compl prio)
                (mtlk_rmlock_acquire
                  (s\<lparr>commands := (commands s)(prio := commands s prio @ [c]),
                     cmd_mem := (cmd_mem s)(c := Some (m\<lparr>is_in_queue := True, cmd_priority := prio, post_exec_callback := compl\<rparr>)),
                     new_event := True\<rparr>)), MTLK_ERR_OK))"

text \<open>The critical section of \<^verbatim>\<open>mtlk_serializer_cancel\<close>, and the callback that follows it.\<close>

definition szr_cancel_locked :: "nat \<Rightarrow> mtlk_serializer_t \<Rightarrow> (mtlk_serializer_t \<times> bool) outcome" where
  "szr_cancel_locked c s =
     (case cmd_mem s c of None \<Rightarrow> Fault
      | Some m \<Rightarrow>
          if is_in_queue m then
            Next (szr_note (SzrCancel c) (mtlk_rmlock_release
              (s\<lparr>commands := (commands s)(cmd_priority m := remove1 c (commands s (cmd_priority m))),
                 cmd_mem := (cmd_mem s)(c := Some (m\<lparr>is_in_queue := False\<rparr>))\<rparr>)), True)
          else Next (s, False))"

text \<open>
  The completion callbacks. That of the core frees the structure, with the command in it. That of a
  blocked caller writes the result into the context on the stack of that caller, which exists only
  while the caller is inside \<^verbatim>\<open>mtlk_serializer_execute_blocked\<close>.
\<close>

definition szr_post_exec :: "serializer_result_t \<Rightarrow> nat \<Rightarrow> mtlk_serializer_t \<Rightarrow> mtlk_serializer_t outcome" where
  "szr_post_exec r c s =
     (case cmd_mem s c of None \<Rightarrow> Fault
      | Some m \<Rightarrow>
          (case post_exec_callback m of
             AsyncCompl x \<Rightarrow> mtlk_command_cleanup x (szr_note (SzrDone r c) s)
           | BlockedCompl w \<Rightarrow>
               if waiters s w = BIdle then Fault
               else Next (szr_note (SzrDone r c) (s\<lparr>szr_result := (szr_result s)(w := Some r)\<rparr>))))"

section \<open>The worker thread\<close>

text \<open>
  \<open>WScan k\<close> is the loop over priorities with \<open>i = k - 1\<close> next; at \<open>0\<close> no queue had a command and
  \<^verbatim>\<open>_mtlk_serializer_process_commands\<close> returns to the loop of the thread.
\<close>

definition szr_scan :: "nat \<Rightarrow> mtlk_serializer_t \<Rightarrow> mtlk_serializer_t outcome" where
  "szr_scan i s =
     (case commands s i of
        [] \<Rightarrow> Next (s\<lparr>worker := WScan i\<rparr>)
      | c # cs \<Rightarrow>
          (case cmd_mem s c of None \<Rightarrow> Fault
           | Some m \<Rightarrow>
               Next (szr_note (SzrStart c) (mtlk_rmlock_release
                 (s\<lparr>commands := (commands s)(i := cs), current_command := Some c,
                    cmd_mem := (cmd_mem s)(c := Some (m\<lparr>is_in_queue := False\<rparr>)), worker := WInvoke\<rparr>)))))"

definition szr_worker_step :: "mtlk_serializer_t \<Rightarrow> mtlk_serializer_t outcome" where
  "szr_worker_step s =
     (case worker s of
        WWait \<Rightarrow> if new_event s then Next (s\<lparr>worker := WCheckStop\<rparr>) else Blocked
      | WCheckStop \<Rightarrow> Next (s\<lparr>worker := if osdep_stop s then WExit else WReset\<rparr>)
      | WReset \<Rightarrow> if current_command s \<noteq> None then Fault
                  else Next (s\<lparr>new_event := False, worker := WScan (num_priorities s)\<rparr>)
      | WScan k \<Rightarrow> (case k of 0 \<Rightarrow> Next (s\<lparr>worker := WWait\<rparr>) | Suc i \<Rightarrow> szr_scan i s)
      | WInvoke \<Rightarrow>
          (case current_command s of None \<Rightarrow> Fault
           | Some c \<Rightarrow> if cmd_mem s c = None then Fault else Next (szr_note (SzrRun c) (s\<lparr>worker := WComplete\<rparr>)))
      | WComplete \<Rightarrow>
          (case current_command s of None \<Rightarrow> Fault
           | Some c \<Rightarrow> szr_post_exec MTLK_CMD_EXECUTED c (s\<lparr>worker := WClear\<rparr>))
      | WClear \<Rightarrow> Next (s\<lparr>current_command := None, worker := WScan (num_priorities s)\<rparr>)
      | WExit \<Rightarrow> Blocked)"

section \<open>Stopping\<close>

text \<open>
  \<^verbatim>\<open>mtlk_serializer_stop\<close>: \<^verbatim>\<open>_mtlk_serializer_stop_processing\<close>, then
  \<^verbatim>\<open>_mtlk_serializer_osdep_stop\<close>, which raises the flag, sets the event and waits for the thread.
\<close>

definition szr_stop_step :: "mtlk_serializer_t \<Rightarrow> mtlk_serializer_t outcome" where
  "szr_stop_step s =
     (case stopper s of
        SNone \<Rightarrow> Next (s\<lparr>is_running := False, stopper := SRelease\<rparr>)
      | SRelease \<Rightarrow> Next ((mtlk_rmlock_release s)\<lparr>stopper := SWait\<rparr>)
      | SWait \<Rightarrow> if pending_evt s then Next (s\<lparr>stopper := SStopFlag\<rparr>) else Blocked
      | SStopFlag \<Rightarrow> Next (s\<lparr>osdep_stop := True, stopper := SNotify\<rparr>)
      | SNotify \<Rightarrow> Next (s\<lparr>new_event := True, stopper := SJoin\<rparr>)
      | SJoin \<Rightarrow> if worker s = WExit then Next (s\<lparr>stopper := SDone\<rparr>) else Blocked
      | SDone \<Rightarrow> Blocked)"

section \<open>Clients\<close>

text \<open>
  \<^verbatim>\<open>_mtlk_core_execute_async_ex\<close>: \<open>mem\<close> is what the allocator returns, an address and the content
  of the memory there.
\<close>

definition mtlk_core_execute_async_ex ::
  "(nat \<times> mtlk_command_t) option \<Rightarrow> nat \<Rightarrow> nat \<Rightarrow> nat \<Rightarrow> mtlk_serializer_t \<Rightarrow> (mtlk_serializer_t \<times> mtlk_error_t) outcome" where
  "mtlk_core_execute_async_ex mem cb prio slid s =
     (case mem of None \<Rightarrow> Next (s, MTLK_ERR_NO_MEM)
      | Some (c, g) \<Rightarrow>
          (case mtlk_serializer_enqueue prio c (AsyncCompl c)
                 (s\<lparr>cmd_mem := (cmd_mem s)(c := Some (mtlk_command_init cb slid g))\<rparr>) of
             Next (s1, e) \<Rightarrow>
               if e \<noteq> MTLK_ERR_OK then Next (s1\<lparr>cmd_mem := (cmd_mem s1)(c := None)\<rparr>, e) else Next (s1, e)
           | Fault \<Rightarrow> Fault | Blocked \<Rightarrow> Blocked))"

text \<open>
  \<^verbatim>\<open>mtlk_serializer_execute_blocked\<close> by thread \<open>w\<close> with a command at address \<open>c\<close> of its stack, up
  to the wait; the return to the caller, who cleans the command up; the wait ending with the event
  or with the timeout; the callback of a cancellation by the thread itself.
\<close>

definition szr_return :: "nat \<Rightarrow> nat \<Rightarrow> mtlk_error_t \<Rightarrow> mtlk_serializer_t \<Rightarrow> mtlk_serializer_t outcome" where
  "szr_return w c e s = mtlk_command_cleanup c (szr_note (SzrReturn w c e) (s\<lparr>waiters := (waiters s)(w := BIdle)\<rparr>))"

definition szr_execute_blocked ::
  "nat \<Rightarrow> nat \<Rightarrow> mtlk_command_t \<Rightarrow> nat \<Rightarrow> nat \<Rightarrow> nat \<Rightarrow> mtlk_serializer_t \<Rightarrow> mtlk_serializer_t outcome" where
  "szr_execute_blocked w c g cb prio slid s =
     (case mtlk_serializer_enqueue prio c (BlockedCompl w)
            (s\<lparr>cmd_mem := (cmd_mem s)(c := Some (mtlk_command_init cb slid g)), szr_result := (szr_result s)(w := None)\<rparr>) of
        Next (s1, e) \<Rightarrow>
          if e \<noteq> MTLK_ERR_OK then mtlk_command_cleanup c s1 else Next (s1\<lparr>waiters := (waiters s1)(w := BWait c)\<rparr>)
      | Fault \<Rightarrow> Fault | Blocked \<Rightarrow> Blocked)"

definition szr_blocked_result :: "serializer_result_t \<Rightarrow> mtlk_error_t" where
  "szr_blocked_result r = (if r = MTLK_CMD_EXECUTED then MTLK_ERR_OK else MTLK_ERR_CANCELED)"

definition szr_wake :: "nat \<Rightarrow> mtlk_serializer_t \<Rightarrow> mtlk_serializer_t outcome" where
  "szr_wake w s =
     (case (waiters s w, szr_result s w) of
        (BWait c, Some r) \<Rightarrow> szr_return w c (szr_blocked_result r) s
      | (BWaitInf c, Some r) \<Rightarrow> szr_return w c (szr_blocked_result r) s
      | _ \<Rightarrow> Blocked)"

definition szr_timeout :: "nat \<Rightarrow> mtlk_serializer_t \<Rightarrow> mtlk_serializer_t outcome" where
  "szr_timeout w s =
     (case waiters s w of
        BWait c \<Rightarrow>
          (case szr_result s w of
             Some r \<Rightarrow> szr_return w c (szr_blocked_result r) s
           | None \<Rightarrow>
               (case szr_cancel_locked c s of
                  Next (s1, removed) \<Rightarrow> Next (s1\<lparr>waiters := (waiters s1)(w := if removed then BCancel c else BWaitInf c)\<rparr>)
                | Fault \<Rightarrow> Fault | Blocked \<Rightarrow> Blocked))
      | _ \<Rightarrow> Blocked)"

definition szr_own_cancel :: "nat \<Rightarrow> mtlk_serializer_t \<Rightarrow> mtlk_serializer_t outcome" where
  "szr_own_cancel w s =
     (case waiters s w of
        BCancel c \<Rightarrow>
          (case szr_post_exec MTLK_CMD_CANCELED c s of
             Next s1 \<Rightarrow> szr_return w c MTLK_ERR_TIMEOUT s1 | Fault \<Rightarrow> Fault | Blocked \<Rightarrow> Blocked)
      | _ \<Rightarrow> Blocked)"

text \<open>\<^verbatim>\<open>mtlk_serializer_cancel\<close> by any other thread, in its two parts.\<close>

definition szr_cancel :: "nat \<Rightarrow> mtlk_serializer_t \<Rightarrow> mtlk_serializer_t outcome" where
  "szr_cancel c s =
     (case szr_cancel_locked c s of
        Next (s1, removed) \<Rightarrow> Next (if removed then s1\<lparr>cancelling := c # cancelling s1\<rparr> else s1)
      | Fault \<Rightarrow> Fault | Blocked \<Rightarrow> Blocked)"

definition szr_cancel_clb :: "nat \<Rightarrow> mtlk_serializer_t \<Rightarrow> mtlk_serializer_t outcome" where
  "szr_cancel_clb c s =
     (if c \<in> set (cancelling s)
      then szr_post_exec MTLK_CMD_CANCELED c (s\<lparr>cancelling := remove1 c (cancelling s)\<rparr>) else Blocked)"

definition mtlk_serializer_enum_commands :: "mtlk_serializer_t \<Rightarrow> (nat \<times> bool) list outcome" where
  "mtlk_serializer_enum_commands s =
     (let cs = (case current_command s of Some c \<Rightarrow> [(c, True)] | None \<Rightarrow> []) @
               map (\<lambda>c. (c, False)) (concat (map (commands s) (rev [0..<num_priorities s])))
      in if \<forall>x\<in>set cs. cmd_mem s (fst x) \<noteq> None then Next cs else Fault)"

section \<open>Steps\<close>

datatype szr_event =
    SzrAsync "(nat \<times> mtlk_command_t) option" nat nat nat
  | SzrBlocked nat nat mtlk_command_t nat nat nat
  | SzrWake nat
  | SzrTimeout nat
  | SzrOwnCancel nat
  | SzrCancelCmd nat
  | SzrCancelClb nat
  | SzrWorker
  | SzrStop
  | SzrEnum

fun szr_step :: "mtlk_serializer_t \<Rightarrow> szr_event \<Rightarrow> mtlk_serializer_t outcome" where
  "szr_step s (SzrAsync mem cb prio slid) =
     (case mtlk_core_execute_async_ex mem cb prio slid s of Next (s1, _) \<Rightarrow> Next s1 | Fault \<Rightarrow> Fault | Blocked \<Rightarrow> Blocked)"
| "szr_step s (SzrBlocked w c g cb prio slid) = szr_execute_blocked w c g cb prio slid s"
| "szr_step s (SzrWake w) = szr_wake w s"
| "szr_step s (SzrTimeout w) = szr_timeout w s"
| "szr_step s (SzrOwnCancel w) = szr_own_cancel w s"
| "szr_step s (SzrCancelCmd c) = szr_cancel c s"
| "szr_step s (SzrCancelClb c) = szr_cancel_clb c s"
| "szr_step s SzrWorker = szr_worker_step s"
| "szr_step s SzrStop = szr_stop_step s"
| "szr_step s SzrEnum =
     (case mtlk_serializer_enum_commands s of Next _ \<Rightarrow> Next s | Fault \<Rightarrow> Fault | Blocked \<Rightarrow> Blocked)"

text \<open>
  What callers keep to: memory comes from an allocator or from the stack of a thread that is not
  in a blocked call already, priorities are those the serializer was created with, and only a
  command that exists is cancelled. Enumeration is left out here while the worker is
  between the completion callback and the reset of \<^verbatim>\<open>current_command\<close>.
\<close>

fun szr_event_ok :: "mtlk_serializer_t \<Rightarrow> szr_event \<Rightarrow> bool" where
  "szr_event_ok s (SzrAsync mem cb prio slid) \<longleftrightarrow>
     (case mem of None \<Rightarrow> True | Some (c, g) \<Rightarrow> cmd_mem s c = None \<and> c < 2 ^ 30) \<and> prio < num_priorities s"
| "szr_event_ok s (SzrBlocked w c g cb prio slid) \<longleftrightarrow>
     waiters s w = BIdle \<and> cmd_mem s c = None \<and> c < 2 ^ 30 \<and> prio < num_priorities s"
| "szr_event_ok s (SzrCancelCmd c) \<longleftrightarrow> cmd_mem s c \<noteq> None"
| "szr_event_ok s SzrEnum \<longleftrightarrow> worker s \<noteq> WClear"
| "szr_event_ok s _ \<longleftrightarrow> True"

text \<open>States reached by threads that take their steps in any order.\<close>

inductive szr_reach :: "nat \<Rightarrow> mtlk_serializer_t \<Rightarrow> bool" for n where
  szr_start: "0 < n \<Longrightarrow> szr_reach n (mtlk_serializer_start (mtlk_serializer_init n))"
| szr_move: "szr_reach n s \<Longrightarrow> szr_event_ok s e \<Longrightarrow> szr_step s e = Next s' \<Longrightarrow> szr_reach n s'"

end
