(* ===== verification/Serializer_Inv.thy ===== *)
theory Serializer_Inv
  imports Serializer
begin

text \<open>
  The life of a command and the invariant of the serializer. \<open>life\<close> is an automaton on the log:
  a command is accepted, then either started, run and completed as executed, or cancelled and
  completed as cancelled; a blocked caller then returns with the matching result. \<open>szr_inv\<close> ties
  the place of every command in the state to the place its log says it has.
\<close>

section \<open>The life of a command\<close>

datatype szr_stage = Queued | Started | Ran | Cancelling | Finished serializer_result_t

type_synonym szr_life = "(szr_compl \<times> szr_stage) option"

definition after_done :: "szr_compl \<Rightarrow> serializer_result_t \<Rightarrow> szr_life" where
  "after_done k r = (case k of AsyncCompl _ \<Rightarrow> None | BlockedCompl _ \<Rightarrow> Some (k, Finished r))"

definition return_fits :: "serializer_result_t \<Rightarrow> mtlk_error_t \<Rightarrow> bool" where
  "return_fits r e \<longleftrightarrow> (if r = MTLK_CMD_EXECUTED then e = MTLK_ERR_OK else e = MTLK_ERR_CANCELED \<or> e = MTLK_ERR_TIMEOUT)"

definition life_move :: "szr_life \<Rightarrow> szr_out \<Rightarrow> szr_life option" where
  "life_move ph e =
     (case (ph, e) of
        (None, SzrAccept _ k _) \<Rightarrow> Some (Some (k, Queued))
      | (Some (k, Queued), SzrStart _) \<Rightarrow> Some (Some (k, Started))
      | (Some (k, Started), SzrRun _) \<Rightarrow> Some (Some (k, Ran))
      | (Some (k, Queued), SzrCancel _) \<Rightarrow> Some (Some (k, Cancelling))
      | (Some (k, Ran), SzrDone r _) \<Rightarrow> if r = MTLK_CMD_EXECUTED then Some (after_done k r) else None
      | (Some (k, Cancelling), SzrDone r _) \<Rightarrow> if r = MTLK_CMD_CANCELED then Some (after_done k r) else None
      | (Some (BlockedCompl v, Finished r), SzrReturn w _ e) \<Rightarrow> if v = w \<and> return_fits r e then Some None else None
      | _ \<Rightarrow> None)"

lemma life_move_simps [simp]:
  "life_move None (SzrAccept c k p) = Some (Some (k, Queued))"
  "life_move (Some (k, Queued)) (SzrStart c) = Some (Some (k, Started))"
  "life_move (Some (k, Started)) (SzrRun c) = Some (Some (k, Ran))"
  "life_move (Some (k, Queued)) (SzrCancel c) = Some (Some (k, Cancelling))"
  "life_move (Some (k, Ran)) (SzrDone MTLK_CMD_EXECUTED c) = Some (after_done k MTLK_CMD_EXECUTED)"
  "life_move (Some (k, Cancelling)) (SzrDone MTLK_CMD_CANCELED c) = Some (after_done k MTLK_CMD_CANCELED)"
  "return_fits r e \<Longrightarrow> life_move (Some (BlockedCompl w, Finished r)) (SzrReturn w c e) = Some None"
  by (cases k; simp add: life_move_def)+

fun out_cmd :: "szr_out \<Rightarrow> nat" where
  "out_cmd (SzrAccept c _ _) = c"
| "out_cmd (SzrStart c) = c"
| "out_cmd (SzrRun c) = c"
| "out_cmd (SzrCancel c) = c"
| "out_cmd (SzrDone _ c) = c"
| "out_cmd (SzrReturn _ c _) = c"

definition life_step :: "nat \<Rightarrow> szr_life option \<Rightarrow> szr_out \<Rightarrow> szr_life option" where
  "life_step c l e = (if out_cmd e = c then (case l of None \<Rightarrow> None | Some ph \<Rightarrow> life_move ph e) else l)"

text \<open>\<open>None\<close> is a log that breaks the rules, \<open>Some None\<close> a command that does not exist at the end of it.\<close>

definition life :: "szr_out list \<Rightarrow> nat \<Rightarrow> szr_life option" where
  "life l c = foldl (life_step c) (Some None) l"

lemma life_Nil [simp]: "life [] c = Some None"
  by (simp add: life_def)

lemma life_snoc: "life (l @ [e]) = (if out_cmd e \<in> UNIV then (life l)(out_cmd e := (case life l (out_cmd e) of None \<Rightarrow> None | Some ph \<Rightarrow> life_move ph e)) else life l)"
  by (rule ext) (simp add: life_def life_step_def)

lemmas life_snoc_simp [simp] = life_snoc [simplified]

text \<open>The commands waiting, in the order of their acceptance, with their priorities.\<close>

fun pend_step :: "(nat \<times> nat) list \<Rightarrow> szr_out \<Rightarrow> (nat \<times> nat) list" where
  "pend_step l (SzrAccept c k p) = l @ [(p, c)]"
| "pend_step l (SzrStart c) = filter (\<lambda>x. snd x \<noteq> c) l"
| "pend_step l (SzrCancel c) = filter (\<lambda>x. snd x \<noteq> c) l"
| "pend_step l _ = l"

definition pend :: "szr_out list \<Rightarrow> (nat \<times> nat) list" where
  "pend l = foldl pend_step [] l"

lemma pend_simps [simp]: "pend [] = []" "pend (l @ [e]) = pend_step (pend l) e"
  by (simp_all add: pend_def)

section \<open>The invariant\<close>

abbreviation phase :: "mtlk_serializer_t \<Rightarrow> nat \<Rightarrow> szr_life option" where
  "phase s \<equiv> life (szr_log s)"

definition stage_result :: "szr_stage \<Rightarrow> serializer_result_t option" where
  "stage_result st = (case st of Finished r \<Rightarrow> Some r | _ \<Rightarrow> None)"

text \<open>A command whose completion belongs to \<open>k\<close> and that is at stage \<open>st\<close>.\<close>

definition owner_ok :: "mtlk_serializer_t \<Rightarrow> nat \<Rightarrow> szr_compl \<Rightarrow> szr_stage \<Rightarrow> bool" where
  "owner_ok s c k st \<longleftrightarrow>
     (case k of
        AsyncCompl x \<Rightarrow> x = c \<and> stage_result st = None \<and> (st = Cancelling \<longrightarrow> c \<in> set (cancelling s))
      | BlockedCompl w \<Rightarrow>
          szr_result s w = stage_result st \<and>
          (if waiters s w = BCancel c then st = Cancelling \<and> c \<notin> set (cancelling s)
           else (waiters s w = BWait c \<or> waiters s w = BWaitInf c) \<and> (st = Cancelling \<longrightarrow> c \<in> set (cancelling s))))"

definition live_ok :: "mtlk_serializer_t \<Rightarrow> nat \<Rightarrow> szr_compl \<Rightarrow> szr_stage \<Rightarrow> bool" where
  "live_ok s c k st \<longleftrightarrow>
     (\<exists>m. cmd_mem s c = Some m \<and> post_exec_callback m = k \<and> is_in_queue m = (st = Queued) \<and> c < 2 ^ 30 \<and>
        (st = Queued \<longrightarrow> c \<in> set (commands s (cmd_priority m)))) \<and>
     (st = Started \<longrightarrow> worker s = WInvoke \<and> current_command s = Some c) \<and>
     (st = Ran \<longrightarrow> worker s = WComplete \<and> current_command s = Some c) \<and>
     owner_ok s c k st"

definition cmds_ok :: "mtlk_serializer_t \<Rightarrow> bool" where
  "cmds_ok s \<longleftrightarrow> (\<forall>c. phase s c \<noteq> None \<and> (phase s c = Some None \<longrightarrow> cmd_mem s c = None) \<and>
     (\<forall>k st. phase s c = Some (Some (k, st)) \<longrightarrow> live_ok s c k st))"

definition queues_ok :: "mtlk_serializer_t \<Rightarrow> bool" where
  "queues_ok s \<longleftrightarrow> (\<forall>p. distinct (commands s p) \<and>
     (\<forall>c\<in>set (commands s p). p < num_priorities s \<and>
        (\<exists>m k. cmd_mem s c = Some m \<and> cmd_priority m = p \<and> phase s c = Some (Some (k, Queued)))))"

definition cancels_ok :: "mtlk_serializer_t \<Rightarrow> bool" where
  "cancels_ok s \<longleftrightarrow> distinct (cancelling s) \<and> (\<forall>c\<in>set (cancelling s). \<exists>k. phase s c = Some (Some (k, Cancelling)))"

fun wait_cmd :: "szr_waiter \<Rightarrow> nat option" where
  "wait_cmd BIdle = None"
| "wait_cmd (BWait c) = Some c"
| "wait_cmd (BCancel c) = Some c"
| "wait_cmd (BWaitInf c) = Some c"

definition waiters_ok :: "mtlk_serializer_t \<Rightarrow> bool" where
  "waiters_ok s \<longleftrightarrow> (\<forall>w c. wait_cmd (waiters s w) = Some c \<longrightarrow> (\<exists>st. phase s c = Some (Some (BlockedCompl w, st))))"

definition idle_from :: "mtlk_serializer_t \<Rightarrow> nat \<Rightarrow> bool" where
  "idle_from s k \<longleftrightarrow> (\<forall>p\<ge>k. commands s p = []) \<or> new_event s"

definition worker_ok :: "mtlk_serializer_t \<Rightarrow> bool" where
  "worker_ok s \<longleftrightarrow>
     (case worker s of
        WScan k \<Rightarrow> current_command s = None \<and> k \<le> num_priorities s \<and> idle_from s k
      | WWait \<Rightarrow> current_command s = None \<and> idle_from s 0
      | WInvoke \<Rightarrow> current_command s \<noteq> None \<and> (\<exists>k. phase s (the (current_command s)) = Some (Some (k, Started)))
      | WComplete \<Rightarrow> current_command s \<noteq> None \<and> (\<exists>k. phase s (the (current_command s)) = Some (Some (k, Ran)))
      | WClear \<Rightarrow> current_command s \<noteq> None
      | WExit \<Rightarrow> current_command s = None \<and> osdep_stop s
      | _ \<Rightarrow> current_command s = None)"

definition queued :: "mtlk_serializer_t \<Rightarrow> nat" where
  "queued s = (\<Sum>p<num_priorities s. length (commands s p))"

definition stop_ok :: "mtlk_serializer_t \<Rightarrow> bool" where
  "stop_ok s \<longleftrightarrow>
     tasks_pending s = queued s + (if stopper s \<in> {SNone, SRelease} then 1 else 0) \<and>
     pending_evt s = (tasks_pending s = 0) \<and> is_running s = (stopper s = SNone) \<and>
     osdep_stop s = (stopper s \<in> {SNotify, SJoin, SDone}) \<and>
     (stopper s \<in> {SStopFlag, SNotify, SJoin, SDone} \<longrightarrow> queued s = 0) \<and> (stopper s = SDone \<longrightarrow> worker s = WExit)"

definition order_ok :: "mtlk_serializer_t \<Rightarrow> bool" where
  "order_ok s \<longleftrightarrow> (\<forall>p. commands s p = map snd (filter (\<lambda>x. fst x = p) (pend (szr_log s))))"

definition szr_inv :: "mtlk_serializer_t \<Rightarrow> bool" where
  "szr_inv s \<longleftrightarrow> 0 < num_priorities s \<and> cmds_ok s \<and> queues_ok s \<and> cancels_ok s \<and> waiters_ok s \<and> worker_ok s \<and> stop_ok s \<and> order_ok s"

lemmas szr_inv_defs = cmds_ok_def queues_ok_def cancels_ok_def waiters_ok_def worker_ok_def stop_ok_def order_ok_def

lemma szr_invI [intro?]:
  assumes "0 < num_priorities s" "cmds_ok s" "queues_ok s" "cancels_ok s" "waiters_ok s" "worker_ok s" "stop_ok s" "order_ok s"
  shows "szr_inv s"
  using assms by (simp add: szr_inv_def)

lemma szr_invD:
  assumes "szr_inv s"
  shows "0 < num_priorities s" "cmds_ok s" "queues_ok s" "cancels_ok s" "waiters_ok s" "worker_ok s" "stop_ok s" "order_ok s"
  using assms by (simp_all add: szr_inv_def)

lemma phase_live: "cmds_ok s \<Longrightarrow> phase s c = Some (Some (k, st)) \<Longrightarrow> live_ok s c k st"
  by (simp add: cmds_ok_def)

lemma phase_cases:
  assumes "cmds_ok s"
  obtains (free) "phase s c = Some None" "cmd_mem s c = None"
  | (live) k st m where "phase s c = Some (Some (k, st))" "live_ok s c k st" "cmd_mem s c = Some m"
      "post_exec_callback m = k" "is_in_queue m = (st = Queued)"
proof (cases "phase s c")
  case None
  then show ?thesis using assms by (metis cmds_ok_def)
next
  case (Some ph)
  show ?thesis
  proof (cases ph)
    case None
    then show ?thesis using assms Some free by (simp add: cmds_ok_def)
  next
    case p: (Some x)
    obtain k st where x: "x = (k, st)" by (cases x)
    with p Some have a: "phase s c = Some (Some (k, st))" by simp
    from phase_live [OF assms a] obtain m where "cmd_mem s c = Some m" "post_exec_callback m = k" "is_in_queue m = (st = Queued)"
      by (auto simp: live_ok_def)
    then show ?thesis using live [OF a phase_live [OF assms a]] by blast
  qed
qed

lemma phase_free: "cmds_ok s \<Longrightarrow> cmd_mem s c = None \<longleftrightarrow> phase s c = Some None"
  by (rule phase_cases [of s c]) auto

lemma phase_alloc:
  assumes "cmds_ok s" "cmd_mem s c = Some m"
  obtains st where "phase s c = Some (Some (post_exec_callback m, st))" "live_ok s c (post_exec_callback m) st"
    "is_in_queue m \<longleftrightarrow> st = Queued"
  using phase_cases [OF assms(1), of c] assms(2) by (metis option.distinct(1) option.inject)

lemma waitersD: "waiters_ok s \<Longrightarrow> wait_cmd (waiters s w) = Some c \<Longrightarrow> \<exists>st. phase s c = Some (Some (BlockedCompl w, st))"
  by (simp add: waiters_ok_def)

lemma waiters_ok_moved:
  assumes "waiters_ok s" "phase s c = Some (Some (k, st))" "phase s' = (phase s)(c := Some (Some (k, st')))"
    and "\<And>w. wait_cmd (waiters s' w) = wait_cmd (waiters s w)"
  shows "waiters_ok s'"
  unfolding waiters_ok_def
proof (intro allI impI)
  fix w d
  assume "wait_cmd (waiters s' w) = Some d"
  with assms(4) waitersD [OF assms(1), of w d] obtain st0 where "phase s d = Some (Some (BlockedCompl w, st0))" by auto
  with assms(2,3) show "\<exists>st. phase s' d = Some (Some (BlockedCompl w, st))" by auto
qed

lemma queuesD:
  assumes "queues_ok s" "c \<in> set (commands s p)"
  shows "p < num_priorities s" "\<exists>m. cmd_mem s c = Some m \<and> cmd_priority m = p" "\<exists>k. phase s c = Some (Some (k, Queued))"
  using assms unfolding queues_ok_def by blast+

lemma queues_disjoint: "queues_ok s \<Longrightarrow> p \<noteq> p' \<Longrightarrow> set (commands s p) \<inter> set (commands s p') = {}"
  by (auto simp: queues_ok_def) (metis option.inject)

lemma queues_distinct:
  assumes "queues_ok s"
  shows "distinct (concat (map (commands s) [0..<n]))"
proof (induction n)
  case (Suc n)
  have "set (commands s n) \<inter> (\<Union>p<n. set (commands s p)) = {}"
    using queues_disjoint [OF assms, of n] by (simp add: disjoint_iff)
  with Suc assms show ?case by (auto simp: queues_ok_def atLeast0LessThan)
qed simp

lemma queued_le: "queues_ok s \<Longrightarrow> cmds_ok s \<Longrightarrow> queued s \<le> 2 ^ 30"
proof -
  assume q: "queues_ok s" "cmds_ok s"
  have "c < 2 ^ 30" if "c \<in> set (commands s p)" for c p
  proof -
    from that q(1) obtain k where "phase s c = Some (Some (k, Queued))" by (auto simp: queues_ok_def)
    from phase_live [OF q(2) this] show ?thesis by (auto simp: live_ok_def)
  qed
  then have "set (concat (map (commands s) [0..<num_priorities s])) \<subseteq> {..<2 ^ 30}" by auto
  from card_mono [OF _ this] have "length (concat (map (commands s) [0..<num_priorities s])) \<le> 2 ^ 30"
    using distinct_card [OF queues_distinct [OF q(1), of "num_priorities s"]] by simp
  then show ?thesis by (simp add: queued_def length_concat comp_def sum_list_sum_nth atLeast0LessThan)
qed

lemma queued_zero: "queues_ok s \<Longrightarrow> queued s = 0 \<longleftrightarrow> (\<forall>p. commands s p = [])"
proof -
  assume q: "queues_ok s"
  then have "commands s p = []" if "\<not> p < num_priorities s" for p
    using that unfolding queues_ok_def by (metis last_in_set)
  then show ?thesis by (auto simp: queued_def)
qed

section \<open>Preservation\<close>

text \<open>A new command enters the queue of its priority.\<close>

lemma queued_append:
  "p < num_priorities s \<Longrightarrow> (\<Sum>i<num_priorities s. length (((commands s)(p := commands s p @ [c])) i)) = Suc (queued s)"
proof -
  assume "p < num_priorities s"
  then have "(\<Sum>i<num_priorities s. length (((commands s)(p := commands s p @ [c])) i)) =
      (\<Sum>i<num_priorities s. length (commands s i) + (if i = p then 1 else 0))"
    by (intro sum.cong) auto
  also have "\<dots> = Suc (queued s)" using \<open>p < num_priorities s\<close> by (simp add: sum.distrib queued_def)
  finally show ?thesis .
qed

definition szr_accepted :: "nat \<Rightarrow> szr_compl \<Rightarrow> nat \<Rightarrow> mtlk_command_t \<Rightarrow> mtlk_serializer_t \<Rightarrow> mtlk_serializer_t" where
  "szr_accepted c k p m s =
     s\<lparr>commands := (commands s)(p := commands s p @ [c]), cmd_mem := (cmd_mem s)(c := Some m), new_event := True,
       tasks_pending := inc32 (tasks_pending s), szr_log := szr_log s @ [SzrAccept c k p],
       waiters := (case k of AsyncCompl _ \<Rightarrow> waiters s | BlockedCompl w \<Rightarrow> (waiters s)(w := BWait c)),
       szr_result := (case k of AsyncCompl _ \<Rightarrow> szr_result s | BlockedCompl w \<Rightarrow> (szr_result s)(w := None))\<rparr>"

lemma accepted_inv:
  assumes inv: "szr_inv s" and c: "cmd_mem s c = None" "c < 2 ^ 30" and p: "p < num_priorities s" "is_running s"
    and k: "case k of AsyncCompl x \<Rightarrow> x = c | BlockedCompl w \<Rightarrow> waiters s w = BIdle"
    and m: "post_exec_callback m = k" "is_in_queue m" "cmd_priority m = p"
  shows "szr_inv (szr_accepted c k p m s)" (is "szr_inv ?s")
proof
  note I = szr_invD [OF inv]
  have f: "phase s c = Some None" using phase_free [OF I(2)] c(1) by simp
  have ph: "phase ?s = (phase s)(c := Some (Some (k, Queued)))"
    by (simp add: szr_accepted_def f)
  have nq: "c \<notin> set (commands s i)" for i using queuesD(2) [OF I(3)] c(1) by fastforce
  have nc: "c \<notin> set (cancelling s)" using I(4) f by (auto simp: cancels_ok_def)
  have nw: "wait_cmd (waiters s w) \<noteq> Some c" for w
    using waitersD [OF I(5), of w c] f by auto
  have idle: "waiters s w = BIdle" if "k = BlockedCompl w" for w using k that by simp
  have own: "owner_ok ?s d k' st" if "owner_ok s d k' st" "d \<noteq> c" for d k' st
    using that k idle by (auto simp: owner_ok_def szr_accepted_def split: szr_compl.splits if_splits)
  show "0 < num_priorities ?s" using I(1) by (simp add: szr_accepted_def)
  have new: "live_ok ?s c k Queued"
    using c m k by (auto simp: live_ok_def owner_ok_def stage_result_def szr_accepted_def split: szr_compl.splits)
  have "live_ok ?s d k' st" if "phase s d = Some (Some (k', st))" "d \<noteq> c" for d k' st
    using phase_live [OF I(2) that(1)] own that(2) by (auto simp: live_ok_def) (auto simp: szr_accepted_def)
  with new I(2) show "cmds_ok ?s" unfolding cmds_ok_def ph by (auto simp: szr_accepted_def)
  show "queues_ok ?s" using I(3) nq c p m unfolding queues_ok_def ph by (auto simp: szr_accepted_def)
  show "cancels_ok ?s" using I(4) nc unfolding cancels_ok_def ph by (auto simp: szr_accepted_def)
  show "waiters_ok ?s" using I(5) nw unfolding waiters_ok_def ph by (auto simp: szr_accepted_def split: szr_compl.splits if_splits)
  show "worker_ok ?s" using I(6) f unfolding worker_ok_def ph idle_from_def
    by (auto simp: szr_accepted_def split: szr_worker.splits)
  show "stop_ok ?s" using I(7) p queued_append [OF p(1), of c] queued_le [OF I(3,2)]
    by (auto simp: stop_ok_def queued_def szr_accepted_def inc32_def)
  show "order_ok ?s" using I(8) by (auto simp: order_ok_def szr_accepted_def)
qed

text \<open>
  A command leaves its queue: the worker starts it, another thread cancels it, or its own waiting
  thread does. The three differ in who has it next.
\<close>

definition szr_left ::
  "nat \<Rightarrow> mtlk_command_t \<Rightarrow> szr_out \<Rightarrow> szr_worker \<Rightarrow> nat option \<Rightarrow> nat list \<Rightarrow> (nat \<Rightarrow> szr_waiter) \<Rightarrow> mtlk_serializer_t \<Rightarrow> mtlk_serializer_t" where
  "szr_left c m e wk cur cl wt s =
     s\<lparr>commands := (commands s)(cmd_priority m := remove1 c (commands s (cmd_priority m))),
       cmd_mem := (cmd_mem s)(c := Some (m\<lparr>is_in_queue := False\<rparr>)),
       tasks_pending := dec32 (tasks_pending s), pending_evt := pending_evt s \<or> dec32 (tasks_pending s) = 0,
       szr_log := szr_log s @ [e], worker := wk, current_command := cur, cancelling := cl, waiters := wt\<rparr>"

lemma queued_remove:
  assumes "p < num_priorities s" "c \<in> set (commands s p)"
  shows "queued s = Suc (\<Sum>i<num_priorities s. length (((commands s)(p := remove1 c (commands s p))) i))"
proof -
  have "0 < length (commands s p)" using assms(2) by (cases "commands s p") auto
  then have "queued s = (\<Sum>i<num_priorities s. length (((commands s)(p := remove1 c (commands s p))) i) + (if i = p then 1 else 0))"
    unfolding queued_def using assms(2) by (intro sum.cong) (auto simp: length_remove1)
  also have "\<dots> = Suc (\<Sum>i<num_priorities s. length (((commands s)(p := remove1 c (commands s p))) i))"
    using assms(1) by (simp add: sum.distrib)
  finally show ?thesis .
qed

lemma filter_remove1:
  "distinct (map snd l) \<Longrightarrow> map snd (filter P (filter (\<lambda>x. snd x \<noteq> c) l)) = remove1 c (map snd (filter P l))"
proof (induction l)
  case (Cons x l)
  show ?case
  proof (cases "snd x = c")
    case True
    then have "c \<notin> snd ` set l" using Cons.prems by auto
    then have "filter (\<lambda>x. snd x \<noteq> c) l = l" "c \<notin> set (map snd (filter P l))" by (auto simp: filter_id_conv)
    then show ?thesis using True by (simp add: remove1_idem)
  next
    case False
    then show ?thesis using Cons by simp
  qed
qed simp

lemma distinct_snd:
  assumes "\<And>p. distinct (map snd (filter (\<lambda>x. fst x = p) l))"
    and "\<And>x y. x \<in> set l \<Longrightarrow> y \<in> set l \<Longrightarrow> fst x \<noteq> fst y \<Longrightarrow> snd x \<noteq> snd y"
  shows "distinct (map snd l)"
  using assms
proof (induction l)
  case (Cons x l)
  have "distinct (map snd l)"
  proof (rule Cons.IH)
    show "distinct (map snd (filter (\<lambda>x. fst x = p) l))" for p using Cons.prems(1) [of p] by (auto split: if_splits)
  qed (use Cons.prems(2) in auto)
  moreover have "snd x \<noteq> snd y" if "y \<in> set l" for y
    using Cons.prems(1) [of "fst x"] Cons.prems(2) [of x y] that by (cases "fst y = fst x") (auto simp: image_iff dest: prod_eqI)
  ultimately show ?case by auto
qed simp

lemma pend_distinct:
  assumes "order_ok s" "queues_ok s"
  shows "distinct (map snd (pend (szr_log s)))"
proof (rule distinct_snd)
  have c: "map snd (filter (\<lambda>x. fst x = p) (pend (szr_log s))) = commands s p" for p
    using assms(1) by (simp add: order_ok_def)
  show "distinct (map snd (filter (\<lambda>x. fst x = p) (pend (szr_log s))))" for p
    unfolding c using assms(2) by (simp add: queues_ok_def)
  have "snd x \<in> set (commands s (fst x))" if "x \<in> set (pend (szr_log s))" for x
    unfolding c [symmetric] using that by auto
  then show "snd x \<noteq> snd y" if "x \<in> set (pend (szr_log s))" "y \<in> set (pend (szr_log s))" "fst x \<noteq> fst y" for x y
    using that queues_disjoint [OF assms(2) that(3)] by fastforce
qed

lemma left_inv_common:
  fixes cur cl wt
  assumes inv: "szr_inv s" and c: "cmd_mem s c = Some m" "is_in_queue m" and e: "e = SzrStart c \<or> e = SzrCancel c"
    and wk: "worker s \<noteq> WExit" "wk \<noteq> WExit"
  defines "s' \<equiv> szr_left c m e wk cur cl wt s"
  shows "\<exists>k. phase s c = Some (Some (k, Queued)) \<and> post_exec_callback m = k \<and> live_ok s c k Queued \<and>
      phase s' = (phase s)(c := Some (Some (k, if e = SzrStart c then Started else Cancelling)))"
    and "queues_ok s'" "stop_ok s'" "order_ok s'" "\<And>k. idle_from s k \<Longrightarrow> idle_from s' k"
proof -
  note I = szr_invD [OF inv]
  from phase_alloc [OF I(2) c(1)] c(2) have q: "phase s c = Some (Some (post_exec_callback m, Queued))" "live_ok s c (post_exec_callback m) Queued"
    by auto
  have ph: "phase s' = (phase s)(c := Some (Some (post_exec_callback m, if e = SzrStart c then Started else Cancelling)))"
    using e q(1) by (auto simp: s'_def szr_left_def)
  with q show "\<exists>k. phase s c = Some (Some (k, Queued)) \<and> post_exec_callback m = k \<and> live_ok s c k Queued \<and>
      phase s' = (phase s)(c := Some (Some (k, if e = SzrStart c then Started else Cancelling)))" by blast
  have cin: "c \<in> set (commands s (cmd_priority m))" using q(2) c(1) by (auto simp: live_ok_def)
  have only: "p = cmd_priority m" if "c \<in> set (commands s p)" for p using queuesD(2) [OF I(3) that] c(1) by auto
  show "queues_ok s'" unfolding queues_ok_def ph
  proof (intro allI conjI ballI)
    fix p d
    show "distinct (commands s' p)" using I(3) by (auto simp: queues_ok_def s'_def szr_left_def)
    assume d: "d \<in> set (commands s' p)"
    then have dp: "d \<in> set (commands s p)" using set_remove1_subset [of c "commands s p"]
      by (auto simp: s'_def szr_left_def split: if_splits)
    have dc: "d \<noteq> c"
    proof
      assume "d = c"
      with d dp only have "c \<in> set (remove1 c (commands s (cmd_priority m)))" by (auto simp: s'_def szr_left_def split: if_splits)
      then show False using I(3) by (simp add: queues_ok_def)
    qed
    show "p < num_priorities s'" using queuesD(1) [OF I(3) dp] by (simp add: s'_def szr_left_def)
    show "\<exists>ma k. cmd_mem s' d = Some ma \<and> cmd_priority ma = p \<and> ((phase s)(c := Some (Some (post_exec_callback m, if e = SzrStart c then Started else Cancelling)))) d = Some (Some (k, Queued))"
      using queuesD(2,3) [OF I(3) dp] dc by (simp add: s'_def szr_left_def)
  qed
  have qr: "queued s = Suc (queued s')"
    using queued_remove [OF queuesD(1) [OF I(3) cin] cin] by (simp add: queued_def s'_def szr_left_def)
  have "0 < tasks_pending s" "tasks_pending s < 2 ^ 32"
    using I(7) queued_le [OF I(3,2)] qr unfolding stop_ok_def by (auto split: if_splits)
  then have t: "tasks_pending s' = tasks_pending s - 1" by (simp add: s'_def szr_left_def dec32_eq)
  have sel: "pending_evt s' = (pending_evt s \<or> tasks_pending s' = 0)" "stopper s' = stopper s" "is_running s' = is_running s"
    "osdep_stop s' = osdep_stop s" "worker s' = wk" by (simp_all add: s'_def szr_left_def)
  show "stop_ok s'" using I(7) qr wk unfolding stop_ok_def sel t by (auto split: if_splits)
  have cm: "commands s' p = remove1 c (commands s p)" for p
  proof (cases "p = cmd_priority m")
    case False
    with only have "c \<notin> set (commands s p)" by blast
    with False show ?thesis by (simp add: s'_def szr_left_def remove1_idem)
  qed (simp add: s'_def szr_left_def)
  have "pend (szr_log s') = filter (\<lambda>x. snd x \<noteq> c) (pend (szr_log s))"
    using e by (auto simp: s'_def szr_left_def)
  then show "order_ok s'"
    using I(8) filter_remove1 [OF pend_distinct [OF I(8,3)]] by (simp only: order_ok_def cm simp_thms)
  show "idle_from s k \<Longrightarrow> idle_from s' k" for k
    by (auto simp: idle_from_def s'_def szr_left_def)
qed

lemma owner_ok_same:
  assumes "owner_ok s d k st" "d \<in> set (cancelling s') \<longleftrightarrow> d \<in> set (cancelling s)"
    and "\<And>w. k = BlockedCompl w \<Longrightarrow> waiters s' w = waiters s w \<and> szr_result s' w = szr_result s w"
  shows "owner_ok s' d k st"
  using assms by (auto simp: owner_ok_def split: szr_compl.splits)

lemma owner_waits: "owner_ok s d (BlockedCompl w) st \<Longrightarrow> wait_cmd (waiters s w) = Some d"
  by (auto simp: owner_ok_def split: if_splits)

lemma queued_elsewhere:
  assumes "szr_inv s" "phase s c = Some (Some (k, Queued))"
  shows "c \<notin> set (cancelling s)" "worker s = WInvoke \<or> worker s = WComplete \<Longrightarrow> current_command s \<noteq> Some c"
    "waiters s w \<noteq> BCancel c"
proof -
  note I = szr_invD [OF assms(1)]
  show "c \<notin> set (cancelling s)" using I(4) assms(2) by (auto simp: cancels_ok_def)
  show "current_command s \<noteq> Some c" if "worker s = WInvoke \<or> worker s = WComplete"
    using I(6) assms(2) that by (auto simp: worker_ok_def)
  show "waiters s w \<noteq> BCancel c"
  proof
    assume a: "waiters s w = BCancel c"
    with waitersD [OF I(5), of w c] assms(2) have "k = BlockedCompl w" by auto
    with phase_live [OF I(2) assms(2)] a show False by (simp add: live_ok_def owner_ok_def)
  qed
qed

lemma started_inv:
  assumes inv: "szr_inv s" and c: "cmd_mem s c = Some m" "is_in_queue m" and w: "worker s = WScan i"
  shows "szr_inv (szr_left c m (SzrStart c) WInvoke (Some c) (cancelling s) (waiters s) s)" (is "szr_inv ?s")
proof
  note I = szr_invD [OF inv]
  have e: "SzrStart c = SzrStart c \<or> SzrStart c = SzrCancel c" "worker s \<noteq> WExit" "WInvoke \<noteq> WExit" using w by auto
  note L = left_inv_common [OF inv c e, where cur = "Some c" and cl = "cancelling s" and wt = "waiters s"]
  from L(1) obtain k where k: "phase s c = Some (Some (k, Queued))" "post_exec_callback m = k" "live_ok s c k Queued"
    "phase ?s = (phase s)(c := Some (Some (k, Started)))" by auto
  note E = queued_elsewhere [OF inv k(1)]
  show "0 < num_priorities ?s" using I(1) by (simp add: szr_left_def)
  show "queues_ok ?s" "stop_ok ?s" "order_ok ?s" by (fact L)+
  show "worker_ok ?s" unfolding worker_ok_def k(4) by (simp add: szr_left_def)
  show "waiters_ok ?s" by (rule waiters_ok_moved [OF I(5) k(1,4)]) (simp add: szr_left_def)
  show "cancels_ok ?s" using I(4) E(1) unfolding cancels_ok_def k(4) by (auto simp: szr_left_def)
  have "live_ok ?s d k' st" if "phase s d = Some (Some (k', st))" "d \<noteq> c" for d k' st
  proof -
    note l = phase_live [OF I(2) that(1)]
    then have "owner_ok s d k' st" by (simp add: live_ok_def)
    then have "owner_ok ?s d k' st" by (rule owner_ok_same) (simp_all add: szr_left_def)
    then show ?thesis using l that(2) w by (auto simp: live_ok_def) (auto simp: szr_left_def in_set_remove1)
  qed
  moreover have "live_ok ?s c k Started"
  proof -
    have o: "owner_ok s c k Queued" and m: "c < 2 ^ 30" using k(3) by (auto simp: live_ok_def)
    have "owner_ok ?s c k Started" using o E(3) by (cases k) (auto simp: owner_ok_def stage_result_def szr_left_def)
    then show ?thesis using k(2) c(1) m by (simp add: live_ok_def) (simp add: szr_left_def)
  qed
  ultimately show "cmds_ok ?s" using I(2) unfolding cmds_ok_def k(4) by (auto simp: szr_left_def)
qed

lemma cancelled_inv:
  assumes inv: "szr_inv s" and c: "cmd_mem s c = Some m" "is_in_queue m"
    and how: "cl = c # cancelling s \<and> wt = waiters s \<or>
      (\<exists>w. cl = cancelling s \<and> wt = (waiters s)(w := BCancel c) \<and> waiters s w = BWait c)"
  shows "szr_inv (szr_left c m (SzrCancel c) (worker s) (current_command s) cl wt s)" (is "szr_inv ?s")
proof
  note I = szr_invD [OF inv]
  from phase_alloc [OF I(2) c(1)] c(2) have live: "live_ok s c (post_exec_callback m) Queued" by auto
  have "worker s \<noteq> WExit"
  proof
    assume "worker s = WExit"
    then have "queued s = 0" using I(6,7) by (auto simp: worker_ok_def stop_ok_def)
    then show False using queued_zero [OF I(3)] live c(1) by (auto simp: live_ok_def)
  qed
  then have e: "SzrCancel c = SzrStart c \<or> SzrCancel c = SzrCancel c" "worker s \<noteq> WExit" "worker s \<noteq> WExit" by auto
  note L = left_inv_common [OF inv c e, where cur = "current_command s" and cl = cl and wt = wt]
  from L(1) obtain k where k: "phase s c = Some (Some (k, Queued))" "post_exec_callback m = k" "live_ok s c k Queued"
    "phase ?s = (phase s)(c := Some (Some (k, Cancelling)))" by auto
  note E = queued_elsewhere [OF inv k(1)]
  show "0 < num_priorities ?s" using I(1) by (simp add: szr_left_def)
  show "queues_ok ?s" "stop_ok ?s" "order_ok ?s" by (fact L)+
  have sel: "worker ?s = worker s" "current_command ?s = current_command s" "num_priorities ?s = num_priorities s"
    "osdep_stop ?s = osdep_stop s" "cancelling ?s = cl" "waiters ?s = wt" "szr_result ?s = szr_result s"
    "cmd_mem ?s = (cmd_mem s)(c := Some (m\<lparr>is_in_queue := False\<rparr>))" by (simp_all add: szr_left_def)
  show "worker_ok ?s" using I(6) E(2) L(5) unfolding worker_ok_def k(4) sel by (auto split: szr_worker.splits)
  have wc: "wait_cmd (wt w) = wait_cmd (waiters s w)" for w using how by auto
  have cs: "distinct cl" "d \<noteq> c \<Longrightarrow> d \<in> set cl \<longleftrightarrow> d \<in> set (cancelling s)" for d
    using how I(4) E(1) by (auto simp: cancels_ok_def)
  have wk: "k = BlockedCompl w" if "waiters s w = BWait c" for w using waitersD [OF I(5), of w c] that k(1) by auto
  show "waiters_ok ?s" by (rule waiters_ok_moved [OF I(5) k(1,4)]) (simp add: sel wc)
  show "cancels_ok ?s" using I(4) cs unfolding cancels_ok_def k(4) sel by auto
  have "live_ok ?s d k' st" if "phase s d = Some (Some (k', st))" "d \<noteq> c" for d k' st
  proof -
    note l = phase_live [OF I(2) that(1)]
    then have o: "owner_ok s d k' st" by (simp add: live_ok_def)
    have "owner_ok ?s d k' st"
    proof (rule owner_ok_same [OF o])
      show "d \<in> set (cancelling ?s) \<longleftrightarrow> d \<in> set (cancelling s)" unfolding sel by (rule cs(2) [OF that(2)])
      fix w
      assume "k' = BlockedCompl w"
      with owner_waits o have "wait_cmd (waiters s w) = Some d" by blast
      then have "wt w = waiters s w" using how that(2) by auto
      then show "waiters ?s w = waiters s w \<and> szr_result ?s w = szr_result s w" by (simp add: sel)
    qed
    moreover have "d \<in> set (commands ?s p)" if "d \<in> set (commands s p)" for p
      using that \<open>d \<noteq> c\<close> by (auto simp: szr_left_def in_set_remove1)
    ultimately show ?thesis using l that(2) unfolding live_ok_def sel by auto
  qed
  moreover have "live_ok ?s c k Cancelling"
  proof -
    have o: "owner_ok s c k Queued" and m: "c < 2 ^ 30" using k(3) by (auto simp: live_ok_def)
    from how have "owner_ok ?s c k Cancelling"
    proof (elim disjE exE conjE)
      assume a: "cl = c # cancelling s" "wt = waiters s"
      show ?thesis using o E(3) by (cases k) (auto simp: owner_ok_def stage_result_def szr_left_def a)
    next
      fix w
      assume a: "cl = cancelling s" "wt = (waiters s)(w := BCancel c)" "waiters s w = BWait c"
      show ?thesis using o E(1) wk [OF a(3)] by (simp add: owner_ok_def stage_result_def szr_left_def a)
    qed
    then show ?thesis using k(2) c(1) m by (simp add: live_ok_def) (simp add: szr_left_def)
  qed
  ultimately show "cmds_ok ?s" using I(2) unfolding cmds_ok_def k(4) sel by auto
qed

text \<open>The worker calls the callback of the command.\<close>

lemma szr_run_inv:
  assumes inv: "szr_inv s" and w: "worker s = WInvoke" "current_command s = Some c"
  shows "szr_inv (szr_note (SzrRun c) (s\<lparr>worker := WComplete\<rparr>))" (is "szr_inv ?s")
proof
  note I = szr_invD [OF inv]
  from I(6) w obtain k where k: "phase s c = Some (Some (k, Started))" by (auto simp: worker_ok_def)
  have ph: "phase ?s = (phase s)(c := Some (Some (k, Ran)))" using k by simp
  show "0 < num_priorities ?s" using I(1) by simp
  show "queues_ok ?s" using I(3) k unfolding queues_ok_def ph by (simp, metis option.inject prod.inject szr_stage.distinct(1))
  show "stop_ok ?s" using I(7) w by (auto simp: stop_ok_def queued_def)
  show "order_ok ?s" using I(8) by (simp add: order_ok_def)
  show "worker_ok ?s" unfolding worker_ok_def ph using w by simp
  show "waiters_ok ?s" by (rule waiters_ok_moved [OF I(5) k ph]) simp
  show "cancels_ok ?s" using I(4) k unfolding cancels_ok_def ph by auto
  have "live_ok ?s d k' st" if "phase s d = Some (Some (k', st))" "d \<noteq> c" for d k' st
    using phase_live [OF I(2) that(1)] that(2) w by (auto simp: live_ok_def owner_ok_def split: szr_compl.splits)
  moreover have "live_ok ?s c k Ran"
    using phase_live [OF I(2) k] w by (auto simp: live_ok_def owner_ok_def stage_result_def split: szr_compl.splits if_splits)
  ultimately show "cmds_ok ?s" using I(2) unfolding cmds_ok_def ph by auto
qed

text \<open>A command at the end of its life: its memory is freed.\<close>

lemma freed_inv:
  assumes inv: "szr_inv s" and k: "phase s c = Some (Some (k, st))" "st \<noteq> Queued" "st \<noteq> Started"
    and ph: "phase s' = (phase s)(c := Some None)" and mem: "cmd_mem s' = (cmd_mem s)(c := None)"
    and same: "commands s' = commands s" "num_priorities s' = num_priorities s" "tasks_pending s' = tasks_pending s"
      "pending_evt s' = pending_evt s" "is_running s' = is_running s" "current_command s' = current_command s"
      "new_event s' = new_event s" "osdep_stop s' = osdep_stop s" "stopper s' = stopper s" "pend (szr_log s') = pend (szr_log s)"
    and wk: "worker s' = (if st = Ran then WClear else worker s)" and cl: "cancelling s' = remove1 c (cancelling s)"
    and wt: "waiters s' = (case k of AsyncCompl _ \<Rightarrow> waiters s | BlockedCompl w \<Rightarrow> (waiters s)(w := BIdle))"
    and rs: "\<And>w. k \<noteq> BlockedCompl w \<Longrightarrow> szr_result s' w = szr_result s w"
  shows "szr_inv s'"
proof
  note I = szr_invD [OF inv]
  note l = phase_live [OF I(2) k(1)]
  show "0 < num_priorities s'" using I(1) same by simp
  have nq: "c \<notin> set (commands s p)" for p using queuesD(3) [OF I(3), of c p] k by auto
  show "queues_ok s'" using I(3) nq unfolding queues_ok_def ph mem same by (metis fun_upd_apply)
  have ran: "worker s = WComplete" if "st = Ran" using l that by (simp add: live_ok_def)
  show "stop_ok s'" using I(7) ran unfolding stop_ok_def queued_def same wk by auto
  show "order_ok s'" using I(8) by (simp add: order_ok_def same)
  show "worker_ok s'"
  proof (cases "st = Ran")
    case True
    then show ?thesis using l wk same by (simp add: worker_ok_def live_ok_def)
  next
    case False
    have "current_command s \<noteq> Some c" if "worker s = WInvoke \<or> worker s = WComplete"
      using I(6) k that False by (auto simp: worker_ok_def)
    then show ?thesis using I(6) False unfolding worker_ok_def idle_from_def ph same wk by (auto split: szr_worker.splits)
  qed
  show "cancels_ok s'" using I(4) unfolding cancels_ok_def ph cl by auto
  have ow: "w = w'" if "k = BlockedCompl w" "wait_cmd (waiters s w') = Some c" for w w'
    using waitersD [OF I(5) that(2)] k(1) that(1) by auto
  show "waiters_ok s'" unfolding waiters_ok_def ph
  proof (intro allI impI)
    fix w d
    assume a: "wait_cmd (waiters s' w) = Some d"
    then have b: "wait_cmd (waiters s w) = Some d" by (auto simp: wt split: szr_compl.splits if_splits)
    with waitersD [OF I(5)] obtain st0 where p: "phase s d = Some (Some (BlockedCompl w, st0))" by blast
    have "d \<noteq> c" using a b p k by (auto simp: wt split: szr_compl.splits if_splits)
    with p show "\<exists>st. ((phase s)(c := Some None)) d = Some (Some (BlockedCompl w, st))" by simp
  qed
  have "live_ok s' d k' st'" if "phase s d = Some (Some (k', st'))" "d \<noteq> c" for d k' st'
  proof -
    note l' = phase_live [OF I(2) that(1)]
    then have o: "owner_ok s d k' st'" by (simp add: live_ok_def)
    have kk: "k \<noteq> BlockedCompl w" if "k' = BlockedCompl w" for w
      using owner_waits [of s d w st'] owner_waits [of s c w st] o l that \<open>d \<noteq> c\<close> by (auto simp: live_ok_def)
    have "owner_ok s' d k' st'"
      by (rule owner_ok_same [OF o]) (use that(2) kk rs in \<open>auto simp: cl wt in_set_remove1 split: szr_compl.splits\<close>)
    then show ?thesis using l' l that(2) wk by (auto simp: live_ok_def same mem)
  qed
  then show "cmds_ok s'" using I(2) unfolding cmds_ok_def ph mem by auto
qed

text \<open>The completion of a command that a blocked caller waits for: the caller gets the result.\<close>

lemma finished_inv:
  assumes inv: "szr_inv s" and k: "phase s c = Some (Some (BlockedCompl w, st))" "st = Ran \<or> st = Cancelling \<and> c \<in> set (cancelling s)"
    and ph: "phase s' = (phase s)(c := Some (Some (BlockedCompl w, Finished r)))"
    and same: "commands s' = commands s" "num_priorities s' = num_priorities s" "tasks_pending s' = tasks_pending s"
      "pending_evt s' = pending_evt s" "is_running s' = is_running s" "current_command s' = current_command s"
      "new_event s' = new_event s" "osdep_stop s' = osdep_stop s" "stopper s' = stopper s" "pend (szr_log s') = pend (szr_log s)"
      "cmd_mem s' = cmd_mem s" "waiters s' = waiters s"
    and wk: "worker s' = (if st = Ran then WClear else worker s)" and cl: "cancelling s' = remove1 c (cancelling s)"
    and rs: "szr_result s' = (szr_result s)(w := Some r)"
  shows "szr_inv s'"
proof
  note I = szr_invD [OF inv]
  note l = phase_live [OF I(2) k(1)]
  show "0 < num_priorities s'" using I(1) same by simp
  have nq: "c \<notin> set (commands s p)" for p using queuesD(3) [OF I(3), of c p] k by auto
  show "queues_ok s'" using I(3) nq unfolding queues_ok_def ph same by (metis fun_upd_apply)
  have ran: "worker s = WComplete" if "st = Ran" using l that by (simp add: live_ok_def)
  show "stop_ok s'" using I(7) ran unfolding stop_ok_def queued_def same wk by auto
  show "order_ok s'" using I(8) by (simp add: order_ok_def same)
  show "worker_ok s'"
  proof (cases "st = Ran")
    case True
    then show ?thesis using l wk same by (simp add: worker_ok_def live_ok_def)
  next
    case False
    have "current_command s \<noteq> Some c" if "worker s = WInvoke \<or> worker s = WComplete"
      using I(6) k that False by (auto simp: worker_ok_def)
    then show ?thesis using I(6) False unfolding worker_ok_def idle_from_def ph same wk by (auto split: szr_worker.splits)
  qed
  have nc: "c \<notin> set (cancelling s')" using I(4) by (simp add: cl cancels_ok_def)
  show "cancels_ok s'" using I(4) unfolding cancels_ok_def ph cl by auto
  show "waiters_ok s'" by (rule waiters_ok_moved [OF I(5) k(1) ph]) (simp add: same)
  have nb: "waiters s w \<noteq> BCancel c"
  proof
    assume "waiters s w = BCancel c"
    then have "st = Cancelling" "c \<notin> set (cancelling s)" using l by (auto simp: live_ok_def owner_ok_def)
    then show False using k(2) by auto
  qed
  have "live_ok s' d k' st'" if "phase s d = Some (Some (k', st'))" "d \<noteq> c" for d k' st'
  proof -
    note l' = phase_live [OF I(2) that(1)]
    then have o: "owner_ok s d k' st'" by (simp add: live_ok_def)
    have kk: "k' \<noteq> BlockedCompl w"
      using owner_waits [of s d w st'] owner_waits [of s c w st] o l \<open>d \<noteq> c\<close> by (auto simp: live_ok_def)
    have "owner_ok s' d k' st'"
      by (rule owner_ok_same [OF o]) (use that(2) kk in \<open>auto simp: cl same rs in_set_remove1\<close>)
    then show ?thesis using l' l that(2) wk by (auto simp: live_ok_def same)
  qed
  moreover have "live_ok s' c (BlockedCompl w) (Finished r)"
    using l nb k(2) by (auto simp: live_ok_def owner_ok_def same rs stage_result_def split: if_splits)
  ultimately show "cmds_ok s'" using I(2) unfolding cmds_ok_def ph same by auto
qed

end
