(* ===== verification/Serializer_Props.thy ===== *)
theory Serializer_Props
  imports Serializer_Inv "HOL-Library.Code_Target_Numeral"
begin

text \<open>
  Properties of the serializer: no step of any thread faults and every command lives by the
  rules, the worker executes what is queued in the order of priority and arrival, what holds
  when the serializer has been stopped, and two races.
\<close>

section \<open>Every step keeps the invariant\<close>

lemma result_idle_inv:
  assumes "szr_inv s" "waiters s w = BIdle"
  shows "szr_inv (s\<lparr>szr_result := (szr_result s)(w := x)\<rparr>)"
proof -
  have "live_ok (s\<lparr>szr_result := (szr_result s)(w := x)\<rparr>) c k st" if "live_ok s c k st" for c k st
    using that assms(2) by (auto simp: live_ok_def owner_ok_def split: szr_compl.splits)
  then show ?thesis using szr_invD [OF assms(1)]
    by (intro szr_invI) (auto simp: szr_inv_defs idle_from_def queued_def split: szr_worker.splits)
qed

lemma stop_fields:
  defines "u \<equiv> \<lambda>s a b c d e f. s\<lparr>tasks_pending := a, pending_evt := b, is_running := c, osdep_stop := d, stopper := e, new_event := f\<rparr>"
  shows "cmds_ok (u s a b c d e f) = cmds_ok s" "queues_ok (u s a b c d e f) = queues_ok s"
    "cancels_ok (u s a b c d e f) = cancels_ok s" "waiters_ok (u s a b c d e f) = waiters_ok s"
    "order_ok (u s a b c d e f) = order_ok s" "queued (u s a b c d e f) = queued s"
  by (simp_all add: u_def szr_inv_defs live_ok_def owner_ok_def queued_def cong: szr_compl.case_cong)

lemma stopped_inv:
  assumes inv: "szr_inv s" and d: "osdep_stop s \<longrightarrow> d" "new_event s \<longrightarrow> f"
    and ok: "stop_ok (s\<lparr>tasks_pending := a, pending_evt := b, is_running := c, osdep_stop := d, stopper := e, new_event := f\<rparr>)"
  shows "szr_inv (s\<lparr>tasks_pending := a, pending_evt := b, is_running := c, osdep_stop := d, stopper := e, new_event := f\<rparr>)"
proof (rule szr_invI)
  note I = szr_invD [OF inv]
  show "worker_ok (s\<lparr>tasks_pending := a, pending_evt := b, is_running := c, osdep_stop := d, stopper := e, new_event := f\<rparr>)"
    using I(6) d by (auto simp: worker_ok_def idle_from_def split: szr_worker.splits)
qed (use szr_invD [OF inv] ok in \<open>simp_all add: stop_fields\<close>)

lemma stop_step_inv:
  assumes inv: "szr_inv s" and st: "szr_stop_step s = Next s'"
  shows "szr_inv s'"
proof -
  note I = szr_invD [OF inv]
  note T = I(7) [unfolded stop_ok_def]
  have go: "szr_inv s'"
    if "s' = s\<lparr>tasks_pending := a, pending_evt := b, is_running := c, osdep_stop := d, stopper := e, new_event := f\<rparr>"
      "osdep_stop s \<longrightarrow> d" "new_event s \<longrightarrow> f" "a = queued s + (if e \<in> {SNone, SRelease} then 1 else 0)" "b = (a = 0)"
      "c = (e = SNone)" "d = (e \<in> {SNotify, SJoin, SDone})" "e \<in> {SStopFlag, SNotify, SJoin, SDone} \<longrightarrow> queued s = 0"
      "e = SDone \<longrightarrow> worker s = WExit" for a b c d e f
    unfolding that(1) by (rule stopped_inv [OF inv]) (use that(2-) in \<open>simp_all add: stop_ok_def stop_fields\<close>)
  show ?thesis
  proof (cases "stopper s")
    case SNone
    have eq: "s' = s\<lparr>tasks_pending := tasks_pending s, pending_evt := pending_evt s, is_running := False, osdep_stop := osdep_stop s, stopper := SRelease, new_event := new_event s\<rparr>"
      using st SNone by (auto simp: szr_stop_step_def mtlk_rmlock_release_def split: if_splits)
    show ?thesis by (rule go [OF eq]) (use T SNone st in \<open>auto simp: szr_stop_step_def split: if_splits\<close>)
  next
    case SRelease
    have d: "dec32 (tasks_pending s) = queued s" using T SRelease queued_le [OF I(3,2)] by (simp add: dec32_eq)
    have eq: "s' = s\<lparr>tasks_pending := queued s, pending_evt := pending_evt s \<or> queued s = 0, is_running := is_running s, osdep_stop := osdep_stop s, stopper := SWait, new_event := new_event s\<rparr>"
      using st SRelease d by (auto simp: szr_stop_step_def mtlk_rmlock_release_def split: if_splits)
    show ?thesis by (rule go [OF eq]) (use T SRelease st in \<open>auto simp: szr_stop_step_def split: if_splits\<close>)
  next
    case SWait
    have eq: "s' = s\<lparr>tasks_pending := tasks_pending s, pending_evt := pending_evt s, is_running := is_running s, osdep_stop := osdep_stop s, stopper := SStopFlag, new_event := new_event s\<rparr>"
      using st SWait by (auto simp: szr_stop_step_def mtlk_rmlock_release_def split: if_splits)
    show ?thesis by (rule go [OF eq]) (use T SWait st in \<open>auto simp: szr_stop_step_def split: if_splits\<close>)
  next
    case SStopFlag
    have eq: "s' = s\<lparr>tasks_pending := tasks_pending s, pending_evt := pending_evt s, is_running := is_running s, osdep_stop := True, stopper := SNotify, new_event := new_event s\<rparr>"
      using st SStopFlag by (auto simp: szr_stop_step_def mtlk_rmlock_release_def split: if_splits)
    show ?thesis by (rule go [OF eq]) (use T SStopFlag st in \<open>auto simp: szr_stop_step_def split: if_splits\<close>)
  next
    case SNotify
    have eq: "s' = s\<lparr>tasks_pending := tasks_pending s, pending_evt := pending_evt s, is_running := is_running s, osdep_stop := osdep_stop s, stopper := SJoin, new_event := True\<rparr>"
      using st SNotify by (auto simp: szr_stop_step_def mtlk_rmlock_release_def split: if_splits)
    show ?thesis by (rule go [OF eq]) (use T SNotify st in \<open>auto simp: szr_stop_step_def split: if_splits\<close>)
  next
    case SJoin
    have eq: "s' = s\<lparr>tasks_pending := tasks_pending s, pending_evt := pending_evt s, is_running := is_running s, osdep_stop := osdep_stop s, stopper := SDone, new_event := new_event s\<rparr>"
      using st SJoin by (auto simp: szr_stop_step_def mtlk_rmlock_release_def split: if_splits)
    show ?thesis by (rule go [OF eq]) (use T SJoin st in \<open>auto simp: szr_stop_step_def split: if_splits\<close>)
  next
    case SDone
    then show ?thesis using st by (simp add: szr_stop_step_def)
  qed
qed

lemma worker_moved_inv:
  assumes inv: "szr_inv s" and w: "worker s \<notin> {WInvoke, WComplete, WExit}"
    and ok: "worker_ok (s\<lparr>worker := wk, current_command := cur, new_event := b\<rparr>)"
  shows "szr_inv (s\<lparr>worker := wk, current_command := cur, new_event := b\<rparr>)"
proof (rule szr_invI)
  note I = szr_invD [OF inv]
  have "live_ok (s\<lparr>worker := wk, current_command := cur, new_event := b\<rparr>) c k st" if "live_ok s c k st" for c k st
    using that w by (auto simp: live_ok_def owner_ok_def split: szr_compl.splits)
  then show "cmds_ok (s\<lparr>worker := wk, current_command := cur, new_event := b\<rparr>)" using I(2) by (auto simp: cmds_ok_def)
  show "stop_ok (s\<lparr>worker := wk, current_command := cur, new_event := b\<rparr>)"
    using I(7) w by (auto simp: stop_ok_def queued_def)
qed (use szr_invD [OF inv] ok in \<open>simp_all add: szr_inv_defs\<close>)

lemma worker_pc_inv: "szr_inv s \<Longrightarrow> worker s \<notin> {WInvoke, WComplete, WExit} \<Longrightarrow> worker_ok (s\<lparr>worker := wk\<rparr>) \<Longrightarrow> szr_inv (s\<lparr>worker := wk\<rparr>)"
  using worker_moved_inv [where s = s and wk = wk and cur = "current_command s" and b = "new_event s"] by simp

lemma scan_inv:
  assumes inv: "szr_inv s" and w: "worker s = WScan (Suc i)"
  shows "\<exists>s'. szr_scan i s = Next s' \<and> szr_inv s'"
proof (cases "commands s i")
  case Nil
  note I = szr_invD [OF inv]
  have "worker_ok (s\<lparr>worker := WScan i\<rparr>)"
    using I(6) w Nil by (auto simp: worker_ok_def idle_from_def) (metis le_antisym not_less_eq_eq)
  then show ?thesis using worker_pc_inv [OF inv] w Nil by (simp add: szr_scan_def)
next
  case (Cons c cs)
  note I = szr_invD [OF inv]
  have c: "c \<in> set (commands s i)" using Cons by simp
  from queuesD(2,3) [OF I(3) c] obtain m k where m: "cmd_mem s c = Some m" "cmd_priority m = i" "phase s c = Some (Some (k, Queued))"
    by auto
  then have q: "is_in_queue m" using phase_live [OF I(2) m(3)] by (auto simp: live_ok_def)
  have "szr_scan i s = Next (szr_left c m (SzrStart c) WInvoke (Some c) (cancelling s) (waiters s) s)"
    using m Cons by (simp add: szr_scan_def szr_left_def mtlk_rmlock_release_def)
  then show ?thesis using started_inv [OF inv m(1) q w] by blast
qed

lemma post_exec_inv:
  assumes inv: "szr_inv s" and k: "phase s c = Some (Some (k, st))"
    and how: "st = Ran \<and> r = MTLK_CMD_EXECUTED \<and> s1 = s\<lparr>worker := WClear\<rparr> \<or>
      st = Cancelling \<and> c \<in> set (cancelling s) \<and> r = MTLK_CMD_CANCELED \<and> s1 = s\<lparr>cancelling := remove1 c (cancelling s)\<rparr>"
  shows "\<exists>s'. szr_post_exec r c s1 = Next s' \<and> szr_inv s'"
proof -
  note I = szr_invD [OF inv]
  note l = phase_live [OF I(2) k]
  then obtain m where m: "cmd_mem s c = Some m" "post_exec_callback m = k" "\<not> is_in_queue m" and o: "owner_ok s c k st"
    using how by (auto simp: live_ok_def)
  have nc: "c \<notin> set (cancelling s)" if "st = Ran" using I(4) k that by (auto simp: cancels_ok_def)
  have cl: "cancelling s1 = remove1 c (cancelling s)" using how nc by (auto simp: remove1_idem)
  have wk: "worker s1 = (if st = Ran then WClear else worker s)" using how by auto
  have same: "szr_log s1 = szr_log s" "cmd_mem s1 = cmd_mem s" "waiters s1 = waiters s" "szr_result s1 = szr_result s"
      "commands s1 = commands s" "num_priorities s1 = num_priorities s" "tasks_pending s1 = tasks_pending s"
      "pending_evt s1 = pending_evt s" "is_running s1 = is_running s" "current_command s1 = current_command s"
      "new_event s1 = new_event s" "osdep_stop s1 = osdep_stop s" "stopper s1 = stopper s"
    using how by auto
  have st: "st \<noteq> Queued" "st \<noteq> Started" using how by auto
  show ?thesis
  proof (cases k)
    case (AsyncCompl x)
    with o have x: "x = c" by (simp add: owner_ok_def)
    let ?s = "szr_note (SzrDone r c) (s1\<lparr>cmd_mem := (cmd_mem s1)(c := None)\<rparr>)"
    have ph: "phase ?s = (phase s)(c := Some None)"
      using how k AsyncCompl by (auto simp: same after_done_def)
    have "szr_inv ?s"
      by (rule freed_inv [OF inv k st ph]) (simp_all add: same cl wk AsyncCompl)
    moreover have "szr_post_exec r c s1 = Next ?s"
      using m AsyncCompl x by (simp add: szr_post_exec_def mtlk_command_cleanup_def same)
    ultimately show ?thesis by blast
  next
    case (BlockedCompl w)
    let ?s = "szr_note (SzrDone r c) (s1\<lparr>szr_result := (szr_result s1)(w := Some r)\<rparr>)"
    have ph: "phase ?s = (phase s)(c := Some (Some (BlockedCompl w, Finished r)))"
      using how k BlockedCompl by (auto simp: same after_done_def)
    have a: "st = Ran \<or> st = Cancelling \<and> c \<in> set (cancelling s)" using how by auto
    have "szr_inv ?s"
      by (rule finished_inv [OF inv k [unfolded BlockedCompl] a ph]) (simp_all add: same cl wk)
    moreover have "waiters s w \<noteq> BIdle" using owner_waits [of s c w st] o BlockedCompl by auto
    then have "szr_post_exec r c s1 = Next ?s"
      using m BlockedCompl by (simp add: szr_post_exec_def same)
    ultimately show ?thesis by blast
  qed
qed

lemma worker_step_inv:
  assumes inv: "szr_inv s"
  shows "szr_worker_step s = Blocked \<or> (\<exists>s'. szr_worker_step s = Next s' \<and> szr_inv s')"
proof (cases "worker s")
  case WWait
  have "worker_ok (s\<lparr>worker := WCheckStop\<rparr>)" using szr_invD(6) [OF inv] WWait by (simp add: worker_ok_def)
  then show ?thesis using worker_pc_inv [OF inv] WWait by (simp add: szr_worker_step_def)
next
  case WCheckStop
  have "worker_ok (s\<lparr>worker := WExit\<rparr>)" if "osdep_stop s" using szr_invD(6) [OF inv] WCheckStop that by (simp add: worker_ok_def)
  moreover have "worker_ok (s\<lparr>worker := WReset\<rparr>)" using szr_invD(6) [OF inv] WCheckStop by (simp add: worker_ok_def)
  ultimately show ?thesis using worker_pc_inv [OF inv] WCheckStop by (simp add: szr_worker_step_def)
next
  case WReset
  then have c: "current_command s = None" using szr_invD(6) [OF inv] by (simp add: worker_ok_def)
  have "commands s p = []" if "num_priorities s \<le> p" for p
    using queuesD(1) [OF szr_invD(3) [OF inv], of _ p] that by (cases "commands s p") fastforce+
  then have ok: "worker_ok (s\<lparr>worker := WScan (num_priorities s), current_command := current_command s, new_event := False\<rparr>)"
    using c by (simp add: worker_ok_def idle_from_def)
  have eq: "s\<lparr>new_event := False, worker := WScan (num_priorities s)\<rparr> =
      s\<lparr>worker := WScan (num_priorities s), current_command := current_command s, new_event := False\<rparr>" by simp
  have "szr_inv (s\<lparr>new_event := False, worker := WScan (num_priorities s)\<rparr>)"
    unfolding eq by (rule worker_moved_inv [OF inv _ ok]) (simp add: WReset)
  then show ?thesis using WReset c by (simp add: szr_worker_step_def)
next
  case (WScan k)
  show ?thesis
  proof (cases k)
    case 0
    have "worker_ok (s\<lparr>worker := WWait\<rparr>)" using szr_invD(6) [OF inv] WScan 0 by (simp add: worker_ok_def idle_from_def)
    then show ?thesis using worker_pc_inv [OF inv] WScan 0 by (simp add: szr_worker_step_def)
  next
    case (Suc i)
    then show ?thesis using scan_inv [OF inv, of i] WScan by (simp add: szr_worker_step_def)
  qed
next
  case WInvoke
  then obtain c k where c: "current_command s = Some c" "phase s c = Some (Some (k, Started))"
    using szr_invD(6) [OF inv] by (auto simp: worker_ok_def)
  then show ?thesis using szr_run_inv [OF inv WInvoke c(1)] phase_live [OF szr_invD(2) [OF inv] c(2)] WInvoke
    by (auto simp: szr_worker_step_def live_ok_def)
next
  case WComplete
  then obtain c k where c: "current_command s = Some c" "phase s c = Some (Some (k, Ran))"
    using szr_invD(6) [OF inv] by (auto simp: worker_ok_def)
  then show ?thesis using post_exec_inv [OF inv c(2)] WComplete by (simp add: szr_worker_step_def)
next
  case WClear
  have "commands s p = []" if "num_priorities s \<le> p" for p
    using queuesD(1) [OF szr_invD(3) [OF inv], of _ p] that by (cases "commands s p") fastforce+
  then have ok: "worker_ok (s\<lparr>worker := WScan (num_priorities s), current_command := None, new_event := new_event s\<rparr>)"
    by (simp add: worker_ok_def idle_from_def)
  have eq: "s\<lparr>current_command := None, worker := WScan (num_priorities s)\<rparr> =
      s\<lparr>worker := WScan (num_priorities s), current_command := None, new_event := new_event s\<rparr>" by simp
  have "szr_inv (s\<lparr>current_command := None, worker := WScan (num_priorities s)\<rparr>)"
    unfolding eq by (rule worker_moved_inv [OF inv _ ok]) (simp add: WClear)
  then show ?thesis using WClear by (simp add: szr_worker_step_def)
next
  case WExit
  then show ?thesis by (simp add: szr_worker_step_def)
qed

lemma cmd_mem_restore: "cmd_mem s c = None \<Longrightarrow> s\<lparr>cmd_mem := (cmd_mem s)(c := None)\<rparr> = s"
proof -
  assume "cmd_mem s c = None"
  then have "(cmd_mem s)(c := None) = cmd_mem s" by (auto simp: fun_eq_iff)
  then show ?thesis by simp
qed

lemma async_inv:
  assumes inv: "szr_inv s" and ok: "szr_event_ok s (SzrAsync mem cb prio slid)"
  shows "\<exists>s' e. mtlk_core_execute_async_ex mem cb prio slid s = Next (s', e) \<and> szr_inv s'"
proof (cases mem)
  case None
  then show ?thesis using inv by (simp add: mtlk_core_execute_async_ex_def)
next
  case (Some cg)
  obtain c g where cg: "mem = Some (c, g)" using Some by (cases cg) auto
  then have c: "cmd_mem s c = None" "c < 2 ^ 30" "prio < num_priorities s" using ok by auto
  show ?thesis
  proof (cases "is_running s")
    case False
    then show ?thesis using cg c inv
      by (simp add: mtlk_core_execute_async_ex_def mtlk_serializer_enqueue_def cmd_mem_restore)
  next
    case True
    let ?m = "(mtlk_command_init cb slid g)\<lparr>is_in_queue := True, cmd_priority := prio, post_exec_callback := AsyncCompl c\<rparr>"
    have "szr_inv (szr_accepted c (AsyncCompl c) prio ?m s)" by (rule accepted_inv [OF inv c True]) auto
    moreover have "mtlk_core_execute_async_ex mem cb prio slid s = Next (szr_accepted c (AsyncCompl c) prio ?m s, MTLK_ERR_OK)"
      using cg c(3) True by (simp add: mtlk_core_execute_async_ex_def mtlk_serializer_enqueue_def szr_accepted_def
        mtlk_rmlock_acquire_def mtlk_command_init_def)
    ultimately show ?thesis by blast
  qed
qed

lemma blocked_inv:
  assumes inv: "szr_inv s" and ok: "szr_event_ok s (SzrBlocked w c g cb prio slid)"
  shows "\<exists>s'. szr_execute_blocked w c g cb prio slid s = Next s' \<and> szr_inv s'"
proof -
  have c: "cmd_mem s c = None" "c < 2 ^ 30" "prio < num_priorities s" "waiters s w = BIdle" using ok by auto
  show ?thesis
  proof (cases "is_running s")
    case False
    have "(cmd_mem s)(c := None) = cmd_mem s" using c(1) by (auto simp: fun_eq_iff)
    then show ?thesis using c False result_idle_inv [OF inv c(4), of None]
      by (simp add: szr_execute_blocked_def mtlk_serializer_enqueue_def mtlk_command_cleanup_def mtlk_command_init_def)
  next
    case True
    let ?m = "(mtlk_command_init cb slid g)\<lparr>is_in_queue := True, cmd_priority := prio, post_exec_callback := BlockedCompl w\<rparr>"
    have "szr_inv (szr_accepted c (BlockedCompl w) prio ?m s)" by (rule accepted_inv [OF inv c(1-3) True]) (use c in auto)
    moreover have "szr_execute_blocked w c g cb prio slid s = Next (szr_accepted c (BlockedCompl w) prio ?m s)"
      using c True by (simp add: szr_execute_blocked_def mtlk_serializer_enqueue_def szr_accepted_def
        mtlk_rmlock_acquire_def mtlk_command_init_def)
    ultimately show ?thesis by blast
  qed
qed

text \<open>The return of a blocked caller.\<close>

lemma return_inv:
  assumes inv: "szr_inv s" and w: "waiters s w = BWait c \<or> waiters s w = BWaitInf c" "szr_result s w = Some r"
  shows "\<exists>s'. szr_return w c (szr_blocked_result r) s = Next s' \<and> szr_inv s'"
proof -
  note I = szr_invD [OF inv]
  from waitersD [OF I(5), of w c] w obtain st where k: "phase s c = Some (Some (BlockedCompl w, st))" by auto
  note l = phase_live [OF I(2) k]
  then have st: "st = Finished r" using w(2) by (auto simp: live_ok_def owner_ok_def stage_result_def split: szr_stage.splits)
  from l st obtain m where m: "cmd_mem s c = Some m" "\<not> is_in_queue m" by (auto simp: live_ok_def)
  let ?s = "szr_note (SzrReturn w c (szr_blocked_result r)) (s\<lparr>waiters := (waiters s)(w := BIdle), cmd_mem := (cmd_mem s)(c := None)\<rparr>)"
  have "return_fits r (szr_blocked_result r)" by (simp add: return_fits_def szr_blocked_result_def)
  then have ph: "phase ?s = (phase s)(c := Some None)" using k st by simp
  have nc: "c \<notin> set (cancelling s)" using I(4) k st by (auto simp: cancels_ok_def)
  have n: "st \<noteq> Queued" "st \<noteq> Started" using st by auto
  have "szr_inv ?s" by (rule freed_inv [OF inv k n ph]) (use st nc in \<open>simp_all add: remove1_idem\<close>)
  moreover have "szr_return w c (szr_blocked_result r) s = Next ?s"
    using m by (simp add: szr_return_def mtlk_command_cleanup_def)
  ultimately show ?thesis by blast
qed

lemma own_cancel_inv:
  assumes inv: "szr_inv s" and w: "waiters s w = BCancel c"
  shows "\<exists>s'. szr_own_cancel w s = Next s' \<and> szr_inv s'"
proof -
  note I = szr_invD [OF inv]
  from waitersD [OF I(5), of w c] w obtain st where k: "phase s c = Some (Some (BlockedCompl w, st))" by auto
  note l = phase_live [OF I(2) k]
  then have st: "st = Cancelling" "c \<notin> set (cancelling s)" using w by (auto simp: live_ok_def owner_ok_def)
  from l st obtain m where m: "cmd_mem s c = Some m" "\<not> is_in_queue m" "post_exec_callback m = BlockedCompl w" by (auto simp: live_ok_def)
  let ?s = "s\<lparr>szr_log := szr_log s @ [SzrDone MTLK_CMD_CANCELED c, SzrReturn w c MTLK_ERR_TIMEOUT],
      szr_result := (szr_result s)(w := Some MTLK_CMD_CANCELED), waiters := (waiters s)(w := BIdle), cmd_mem := (cmd_mem s)(c := None)\<rparr>"
  have lg: "l @ [a, b] = (l @ [a]) @ [b]" for l :: "szr_out list" and a b by simp
  have "return_fits MTLK_CMD_CANCELED MTLK_ERR_TIMEOUT" by (simp add: return_fits_def)
  then have ph: "phase ?s = (phase s)(c := Some None)" using k st by (simp add: lg after_done_def del: append_assoc)
  have n: "st \<noteq> Queued" "st \<noteq> Started" using st by auto
  have "szr_inv ?s"
    by (rule freed_inv [OF inv k n ph]) (use st in \<open>simp_all add: remove1_idem lg del: append_assoc\<close>)
  moreover have "szr_own_cancel w s = Next ?s"
    using m w by (simp add: szr_own_cancel_def szr_post_exec_def szr_return_def mtlk_command_cleanup_def)
  ultimately show ?thesis by blast
qed

lemma cancel_locked_cases:
  assumes inv: "szr_inv s" and c: "cmd_mem s c = Some m"
  shows "szr_cancel_locked c s = Next (s, False) \<and> \<not> is_in_queue m \<or>
    is_in_queue m \<and> szr_cancel_locked c s = Next (szr_left c m (SzrCancel c) (worker s) (current_command s) (cancelling s) (waiters s) s, True)"
  using c by (simp add: szr_cancel_locked_def szr_left_def mtlk_rmlock_release_def)

lemma wait_inf_inv:
  assumes inv: "szr_inv s" and w: "waiters s w = BWait c"
  shows "szr_inv (s\<lparr>waiters := (waiters s)(w := BWaitInf c)\<rparr>)" (is "szr_inv ?s")
proof -
  note I = szr_invD [OF inv]
  have "owner_ok ?s d k st" if "owner_ok s d k st" for d k st
    using that w by (auto simp: owner_ok_def split: szr_compl.splits if_splits)
  then have l: "live_ok ?s d k st" if "live_ok s d k st" for d k st using that by (auto simp: live_ok_def)
  have "waiters_ok ?s" using I(5) w by (auto simp: waiters_ok_def)
  then show ?thesis using I l
    by (intro szr_invI) (auto simp: cmds_ok_def queues_ok_def cancels_ok_def worker_ok_def stop_ok_def order_ok_def
      idle_from_def queued_def split: szr_worker.splits)
qed

lemma timeout_inv:
  assumes inv: "szr_inv s"
  shows "szr_timeout w s = Blocked \<or> (\<exists>s'. szr_timeout w s = Next s' \<and> szr_inv s')"
proof (cases "waiters s w")
  case (BWait c)
  show ?thesis
  proof (cases "szr_result s w")
    case (Some r)
    then show ?thesis using return_inv [OF inv _ Some, of c] BWait by (simp add: szr_timeout_def)
  next
    case None
    note I = szr_invD [OF inv]
    from waitersD [OF I(5), of w c] BWait obtain st where "phase s c = Some (Some (BlockedCompl w, st))" by auto
    from phase_live [OF I(2) this] obtain m where m: "cmd_mem s c = Some m" by (auto simp: live_ok_def)
    from cancel_locked_cases [OF inv m] show ?thesis
    proof (elim disjE conjE)
      assume "szr_cancel_locked c s = Next (s, False)"
      then show ?thesis using wait_inf_inv [OF inv BWait] None BWait by (simp add: szr_timeout_def)
    next
      assume q: "is_in_queue m" "szr_cancel_locked c s = Next (szr_left c m (SzrCancel c) (worker s) (current_command s) (cancelling s) (waiters s) s, True)"
      have "szr_inv (szr_left c m (SzrCancel c) (worker s) (current_command s) (cancelling s) ((waiters s)(w := BCancel c)) s)"
        by (rule cancelled_inv [OF inv m q(1)]) (use BWait in auto)
      then show ?thesis using q(2) None BWait by (simp add: szr_timeout_def szr_left_def)
    qed
  qed
qed (simp_all add: szr_timeout_def)

lemma szr_cancel_inv:
  assumes inv: "szr_inv s" and c: "cmd_mem s c = Some m"
  shows "\<exists>s'. szr_cancel c s = Next s' \<and> szr_inv s'"
  using cancel_locked_cases [OF inv c]
proof (elim disjE conjE)
  assume "szr_cancel_locked c s = Next (s, False)"
  then show ?thesis using inv by (simp add: szr_cancel_def)
next
  assume q: "is_in_queue m" "szr_cancel_locked c s = Next (szr_left c m (SzrCancel c) (worker s) (current_command s) (cancelling s) (waiters s) s, True)"
  have "szr_inv (szr_left c m (SzrCancel c) (worker s) (current_command s) (c # cancelling s) (waiters s) s)"
    by (rule cancelled_inv [OF inv c q(1)]) simp
  then show ?thesis using q(2) by (simp add: szr_cancel_def szr_left_def)
qed

lemma enum_ok:
  assumes inv: "szr_inv s" and w: "worker s \<noteq> WClear"
  shows "mtlk_serializer_enum_commands s =
    Next ((case current_command s of Some c \<Rightarrow> [(c, True)] | None \<Rightarrow> []) @
      map (\<lambda>c. (c, False)) (concat (map (commands s) (rev [0..<num_priorities s]))))"
proof -
  note I = szr_invD [OF inv]
  have "cmd_mem s c \<noteq> None" if "current_command s = Some c" for c
    using I(6) w that phase_live [OF I(2), of c] by (auto simp: worker_ok_def live_ok_def split: szr_worker.splits)
  moreover have "cmd_mem s c \<noteq> None" if "c \<in> set (commands s p)" for c p
    using queuesD(2) [OF I(3) that] by auto
  ultimately show ?thesis by (auto simp: mtlk_serializer_enum_commands_def Let_def split: option.splits)
qed

lemma cancel_clb_inv:
  assumes inv: "szr_inv s" and c: "c \<in> set (cancelling s)"
  shows "\<exists>s'. szr_cancel_clb c s = Next s' \<and> szr_inv s'"
proof -
  from szr_invD(4) [OF inv] c obtain k where "phase s c = Some (Some (k, Cancelling))" by (auto simp: cancels_ok_def)
  from post_exec_inv [OF inv this] c show ?thesis by (simp add: szr_cancel_clb_def)
qed

lemma szr_step_inv:
  assumes inv: "szr_inv s" and ok: "szr_event_ok s e"
  shows "szr_step s e = Blocked \<or> (\<exists>s'. szr_step s e = Next s' \<and> szr_inv s')"
proof (cases e)
  case (SzrAsync mem cb prio slid)
  then show ?thesis using async_inv [OF inv, of mem cb prio slid] ok by auto
next
  case (SzrBlocked w c g cb prio slid)
  then show ?thesis using blocked_inv [OF inv, of w c g cb prio slid] ok by simp
next
  case (SzrWake w)
  then show ?thesis using return_inv [OF inv, of w]
    by (cases "waiters s w"; cases "szr_result s w") (auto simp: szr_wake_def)
next
  case (SzrTimeout w)
  then show ?thesis using timeout_inv [OF inv] by simp
next
  case (SzrOwnCancel w)
  then show ?thesis using own_cancel_inv [OF inv, of w] by (cases "waiters s w") (auto simp: szr_own_cancel_def)
next
  case (SzrCancelCmd c)
  then show ?thesis using szr_cancel_inv [OF inv, of c] ok by auto
next
  case (SzrCancelClb c)
  then show ?thesis using cancel_clb_inv [OF inv, of c] by (cases "c \<in> set (cancelling s)") (auto simp: szr_cancel_clb_def)
next
  case SzrWorker
  then show ?thesis using worker_step_inv [OF inv] by simp
next
  case SzrStop
  then show ?thesis using stop_step_inv [OF inv] by (cases "szr_stop_step s") (auto simp: szr_stop_step_def split: szr_stopper.splits if_splits)
next
  case SzrEnum
  then show ?thesis using enum_ok [OF inv] ok inv by simp
qed

lemma szr_start_inv: "0 < n \<Longrightarrow> szr_inv (mtlk_serializer_start (mtlk_serializer_init n))"
  by (rule szr_invI) (auto simp: szr_inv_defs mtlk_serializer_start_def mtlk_serializer_init_def szr_start_processing_def
    mtlk_rmlock_acquire_def inc32_def idle_from_def queued_def)

lemma szr_reach_inv: "szr_reach n s \<Longrightarrow> szr_inv s"
  by (induction rule: szr_reach.induct) (use szr_start_inv szr_step_inv in \<open>auto, metis outcome.distinct(3) outcome.inject\<close>)

section \<open>Every command is completed once\<close>

text \<open>A given sequence of events, each of which the callers are allowed.\<close>

fun szr_exec :: "mtlk_serializer_t \<Rightarrow> szr_event list \<Rightarrow> mtlk_serializer_t outcome" where
  "szr_exec s [] = Next s"
| "szr_exec s (e # es) =
     (if \<not> szr_event_ok s e then Fault else case szr_step s e of Next s' \<Rightarrow> szr_exec s' es | r \<Rightarrow> r)"

lemma szr_exec_reach: "szr_reach n s \<Longrightarrow> szr_exec s es = Next s' \<Longrightarrow> szr_reach n s'"
proof (induction es arbitrary: s)
  case (Cons e es)
  then show ?case by (auto split: if_splits outcome.splits intro: szr_move)
qed simp

definition wit_cmd :: mtlk_command_t where
  "wit_cmd = \<lparr>cmd_callback = 0, post_exec_callback = AsyncCompl 0, is_in_queue = False, cmd_priority = 0, issuer_slid = 0\<rparr>"

definition wit_szr :: "szr_event list \<Rightarrow> mtlk_serializer_t" where
  "wit_szr es = (case szr_exec (mtlk_serializer_start (mtlk_serializer_init 1)) es of Next s \<Rightarrow> s | _ \<Rightarrow> mtlk_serializer_init 1)"

lemma wit_szr_reach:
  assumes "case szr_exec (mtlk_serializer_start (mtlk_serializer_init 1)) es of Next _ \<Rightarrow> True | _ \<Rightarrow> False"
  shows "szr_reach 1 (wit_szr es)"
proof -
  from assms obtain s where "szr_exec (mtlk_serializer_start (mtlk_serializer_init 1)) es = Next s"
    by (auto split: outcome.splits)
  then show ?thesis using szr_exec_reach [OF szr_start] by (simp add: wit_szr_def)
qed

text \<open>
  C15: A command is completed exactly once. In every interleaving of the worker, of threads that
  enqueue, wait, time out or cancel, and of a thread that stops the serializer, no step uses a
  command after it was freed or fails an assertion, and the history of every command follows the
  automaton \<open>life\<close>: an accepted command is either started, run once and completed as executed, or
  cancelled, never run, and completed as cancelled; a blocked caller returns success exactly if its
  command was run. A command is in a queue, once, exactly while it is accepted and neither
  started nor cancelled, and its memory is freed exactly at the end of its history.
\<close>

theorem szr_commands_complete_once:
  assumes "szr_reach n s"
  shows "(szr_event_ok s e \<longrightarrow> szr_step s e \<noteq> Fault) \<and>
    life (szr_log s) c \<noteq> None \<and>
    ((\<exists>p. c \<in> set (commands s p)) \<longleftrightarrow> (\<exists>k. life (szr_log s) c = Some (Some (k, Queued)))) \<and>
    distinct (concat (map (commands s) [0..<num_priorities s])) \<and>
    (cmd_mem s c = None \<longleftrightarrow> life (szr_log s) c = Some None)"
proof -
  note inv = szr_reach_inv [OF assms]
  note I = szr_invD [OF inv]
  have goal1: "szr_step s e \<noteq> Fault" if "szr_event_ok s e" using szr_step_inv [OF inv that] by auto
  have goal2: "life (szr_log s) c \<noteq> None" using I(2) by (simp add: cmds_ok_def)
  have goal3: "(\<exists>p. c \<in> set (commands s p)) \<longleftrightarrow> (\<exists>k. life (szr_log s) c = Some (Some (k, Queued)))"
    using queuesD(3) [OF I(3)] phase_live [OF I(2), of c _ Queued] by (auto simp: live_ok_def)
  have goal4: "distinct (concat (map (commands s) [0..<num_priorities s]))" by (rule queues_distinct [OF I(3)])
  have goal5: "cmd_mem s c = None \<longleftrightarrow> life (szr_log s) c = Some None" by (rule phase_free [OF I(2)])
  show ?thesis using goal1 goal2 goal3 goal4 goal5 by blast
qed

definition wit_life :: "szr_event list" where
  "wit_life = [SzrAsync (Some (7, wit_cmd)) 1 0 0, SzrBlocked 1 8 wit_cmd 1 0 0, SzrTimeout 1]"

theorem szr_commands_complete_once_witness:
  "life (szr_log (wit_szr wit_life)) 7 = Some (Some (AsyncCompl 7, Queued)) \<and>
   (\<exists>p. 7 \<in> set (commands (wit_szr wit_life) p)) \<and> szr_step (wit_szr wit_life) (SzrOwnCancel 1) \<noteq> Fault"
proof -
  have r: "szr_reach 1 (wit_szr wit_life)" by (rule wit_szr_reach) code_simp
  have "life (szr_log (wit_szr wit_life)) 7 = Some (Some (AsyncCompl 7, Queued))" by code_simp
  then show ?thesis using szr_commands_complete_once [OF r, where e = "SzrOwnCancel 1" and c = 7] by simp
qed

section \<open>The worker serves by priority and arrival\<close>

fun szr_work :: "nat \<Rightarrow> mtlk_serializer_t \<Rightarrow> mtlk_serializer_t outcome" where
  "szr_work 0 s = Next s"
| "szr_work (Suc k) s = (case szr_worker_step s of Next s' \<Rightarrow> szr_work k s' | r \<Rightarrow> r)"

lemma szr_work_add: "szr_work j s = Next s1 \<Longrightarrow> szr_work (j + k) s = szr_work k s1"
  by (induction j arbitrary: s) (auto split: outcome.splits)

lemma szr_work_inv: "szr_inv s \<Longrightarrow> szr_work k s = Next s' \<Longrightarrow> szr_inv s'"
proof (induction k arbitrary: s)
  case (Suc k)
  then show ?case using worker_step_inv [OF Suc.prems(1)] by (auto split: outcome.splits)
qed simp

definition runs :: "szr_out list \<Rightarrow> nat list" where
  "runs l = List.map_filter (\<lambda>e. case e of SzrRun c \<Rightarrow> Some c | _ \<Rightarrow> None) l"

lemma runs_append [simp]:
  "runs (l @ m) = runs l @ runs m" "runs [] = []" "runs (SzrRun c # l) = c # runs l" "runs (SzrStart c # l) = runs l" "runs (SzrDone r c # l) = runs l"
  by (simp_all add: runs_def map_filter_def)

text \<open>The commands below a priority in the order the scan meets them.\<close>

definition qlist :: "mtlk_serializer_t \<Rightarrow> nat \<Rightarrow> nat list" where
  "qlist s k = concat (map (commands s) (rev [0..<k]))"

lemma szr_qlist_simps [simp]: "qlist s 0 = []" "qlist s (Suc k) = commands s k @ qlist s k"
  by (simp_all add: qlist_def)

lemma szr_qlist_cong: "(\<And>p. p < k \<Longrightarrow> commands s' p = commands s p) \<Longrightarrow> qlist s' k = qlist s k"
  by (induction k) auto

text \<open>What the worker leaves alone while it works.\<close>

definition calm :: "mtlk_serializer_t \<Rightarrow> mtlk_serializer_t \<Rightarrow> bool" where
  "calm s s' \<longleftrightarrow> num_priorities s' = num_priorities s \<and> osdep_stop s' = osdep_stop s \<and> new_event s' = new_event s"

lemma calm_trans: "calm s s1 \<Longrightarrow> calm s1 s2 \<Longrightarrow> calm s s2"
  by (simp add: calm_def)

lemma scan_down:
  assumes "szr_inv s" "worker s = WScan k"
  shows "(qlist s k = [] \<longrightarrow> (\<exists>j. szr_work j s = Next (s\<lparr>worker := WWait\<rparr>))) \<and>
    (\<forall>c cs. qlist s k = c # cs \<longrightarrow>
      (\<exists>j s1. szr_work j s = Next s1 \<and> worker s1 = WInvoke \<and> current_command s1 = Some c \<and> qlist s1 k = cs \<and>
        (\<forall>p\<ge>k. commands s1 p = commands s p) \<and> runs (szr_log s1) = runs (szr_log s) \<and> calm s s1))"
  using assms
proof (induction k arbitrary: s)
  case 0
  have "szr_work 1 s = Next (s\<lparr>worker := WWait\<rparr>)" using 0 by (simp add: szr_worker_step_def)
  then show ?case by (auto simp del: szr_work.simps One_nat_def)
next
  case (Suc k)
  show ?case
  proof (cases "commands s k")
    case Nil
    let ?s = "s\<lparr>worker := WScan k\<rparr>"
    have st: "szr_worker_step s = Next ?s" using Suc.prems(2) Nil by (simp add: szr_worker_step_def szr_scan_def)
    then have inv: "szr_inv ?s" using worker_step_inv [OF Suc.prems(1)] by auto
    have q: "qlist ?s k = qlist s k" by (rule szr_qlist_cong) simp
    have lift: "szr_work (Suc j) s = szr_work j ?s" for j using st by simp
    show ?thesis
    proof (intro conjI impI allI)
      assume "qlist s (Suc k) = []"
      with Suc.IH [OF inv] q Nil obtain j where "szr_work j ?s = Next (?s\<lparr>worker := WWait\<rparr>)" by auto
      then have "szr_work (Suc j) s = Next (s\<lparr>worker := WWait\<rparr>)" unfolding lift by simp
      then show "\<exists>j. szr_work j s = Next (s\<lparr>worker := WWait\<rparr>)" by blast
    next
      fix c cs
      assume "qlist s (Suc k) = c # cs"
      with Suc.IH [OF inv] q Nil obtain j s1 where "szr_work j ?s = Next s1" "worker s1 = WInvoke" "current_command s1 = Some c"
        "qlist s1 k = cs" "\<forall>p\<ge>k. commands s1 p = commands s p" "runs (szr_log s1) = runs (szr_log s)" "calm s s1"
        by (auto simp: calm_def)
      then show "\<exists>j s1. szr_work j s = Next s1 \<and> worker s1 = WInvoke \<and> current_command s1 = Some c \<and> qlist s1 (Suc k) = cs \<and>
          (\<forall>p\<ge>Suc k. commands s1 p = commands s p) \<and> runs (szr_log s1) = runs (szr_log s) \<and> calm s s1"
        using lift [of j] Nil by (intro exI [of _ "Suc j"] exI [of _ s1]) auto
    qed
  next
    case (Cons c cs)
    from scan_inv [OF Suc.prems] obtain s1 where s1: "szr_scan k s = Next s1" by blast
    then have st: "szr_work 1 s = Next s1" using Suc.prems(2) by (simp add: szr_worker_step_def)
    have sel: "worker s1 = WInvoke" "current_command s1 = Some c" "commands s1 = (commands s)(k := cs)"
        "szr_log s1 = szr_log s @ [SzrStart c]" "calm s s1"
      using s1 Cons by (auto simp: szr_scan_def mtlk_rmlock_release_def calm_def split: option.splits)
    have "qlist s1 k = qlist s k" by (rule szr_qlist_cong) (simp add: sel)
    then show ?thesis using st sel Cons by (intro conjI impI allI exI [of _ 1] exI [of _ s1]) auto
  qed
qed

lemma post_exec_sel:
  "szr_post_exec r c s = Next s' \<Longrightarrow> commands s' = commands s \<and> worker s' = worker s \<and> szr_log s' = szr_log s @ [SzrDone r c] \<and> calm s s'"
  by (auto simp: szr_post_exec_def mtlk_command_cleanup_def calm_def split: option.splits szr_compl.splits if_splits)

lemma post_exec_not_blocked: "szr_post_exec r c s \<noteq> Blocked"
  by (simp add: szr_post_exec_def mtlk_command_cleanup_def split: option.split szr_compl.split)

lemma szr_work_stop: "szr_work k s = Next s' \<Longrightarrow> osdep_stop s' = osdep_stop s"
proof (induction k arbitrary: s)
  case (Suc k)
  from Suc.prems obtain s1 where s1: "szr_worker_step s = Next s1" "szr_work k s1 = Next s'" by (auto split: outcome.splits)
  have "osdep_stop s1 = osdep_stop s"
    using s1(1) post_exec_sel [of MTLK_CMD_EXECUTED _ "s\<lparr>worker := WClear\<rparr>" s1]
    by (auto simp: szr_worker_step_def szr_scan_def mtlk_rmlock_release_def calm_def
      split: szr_worker.splits option.splits nat.splits list.splits if_splits)
  with Suc.IH [OF s1(2)] show ?case by simp
qed simp

text \<open>From the call of a command on the worker is back at the start of its scan after three steps.\<close>

lemma finish_command:
  assumes inv: "szr_inv s" and w: "worker s = WInvoke" "current_command s = Some c"
  shows "\<exists>s1. szr_work 3 s = Next s1 \<and> worker s1 = WScan (num_priorities s) \<and> commands s1 = commands s \<and>
    runs (szr_log s1) = runs (szr_log s) @ [c] \<and> calm s s1"
proof -
  define s2 where "s2 = szr_note (SzrRun c) (s\<lparr>worker := WComplete\<rparr>)"
  have 2: "szr_worker_step s = Next s2"
    using worker_step_inv [OF inv] w by (auto simp: szr_worker_step_def s2_def split: if_splits)
  have i2: "szr_inv s2" using worker_step_inv [OF inv] 2 by auto
  have w2: "worker s2 = WComplete" "current_command s2 = Some c" using w by (simp_all add: s2_def)
  from worker_step_inv [OF i2] w2 obtain s3 where 3: "szr_worker_step s2 = Next s3" "szr_inv s3"
    using post_exec_not_blocked [of MTLK_CMD_EXECUTED c "s2\<lparr>worker := WClear\<rparr>"] by (auto simp: szr_worker_step_def)
  then have p: "szr_post_exec MTLK_CMD_EXECUTED c (s2\<lparr>worker := WClear\<rparr>) = Next s3" using w2 by (simp add: szr_worker_step_def)
  note sel = post_exec_sel [OF p]
  have 4: "szr_worker_step s3 = Next (s3\<lparr>current_command := None, worker := WScan (num_priorities s3)\<rparr>)"
    using sel by (simp add: szr_worker_step_def)
  have "szr_work 3 s = Next (s3\<lparr>current_command := None, worker := WScan (num_priorities s3)\<rparr>)"
    using 2 3 4 by (simp add: numeral_3_eq_3)
  then show ?thesis using sel by (simp add: s2_def calm_def)
qed

lemma drain:
  assumes "szr_inv s" "worker s = WScan (num_priorities s)"
  shows "\<exists>j s1. szr_work j s = Next s1 \<and> worker s1 = WWait \<and> qlist s1 (num_priorities s) = [] \<and>
    runs (szr_log s1) = runs (szr_log s) @ qlist s (num_priorities s) \<and> calm s s1"
  using assms
proof (induction "length (qlist s (num_priorities s))" arbitrary: s)
  case 0
  then have "qlist s (num_priorities s) = []" by simp
  with scan_down [OF 0(2,3)] obtain j where "szr_work j s = Next (s\<lparr>worker := WWait\<rparr>)" by blast
  moreover have "qlist (s\<lparr>worker := WWait\<rparr>) (num_priorities s) = qlist s (num_priorities s)" by (rule szr_qlist_cong) simp
  ultimately show ?case using \<open>qlist s (num_priorities s) = []\<close>
    by (intro exI [of _ j] exI [of _ "s\<lparr>worker := WWait\<rparr>"]) (simp add: calm_def)
next
  case (Suc x)
  then obtain c cs where q: "qlist s (num_priorities s) = c # cs" by (metis length_Suc_conv)
  with scan_down [OF Suc(3,4)] obtain j s1 where a: "szr_work j s = Next s1" "worker s1 = WInvoke" "current_command s1 = Some c"
    "qlist s1 (num_priorities s) = cs" "runs (szr_log s1) = runs (szr_log s)" "calm s s1" by blast
  from finish_command [OF szr_work_inv [OF Suc(3) a(1)] a(2,3)] obtain s2 where b: "szr_work 3 s1 = Next s2"
    "worker s2 = WScan (num_priorities s1)" "commands s2 = commands s1" "runs (szr_log s2) = runs (szr_log s1) @ [c]" "calm s1 s2" by blast
  have n: "num_priorities s1 = num_priorities s" "num_priorities s2 = num_priorities s" using a(6) b(5) by (simp_all add: calm_def)
  have ab: "szr_work (j + 3) s = Next s2" using szr_work_add [OF a(1), of 3] b(1) by simp
  have q2: "qlist s2 (num_priorities s) = cs" using szr_qlist_cong [of "num_priorities s" s2 s1] b(3) a(4) by simp
  from Suc(1) [of s2] szr_work_inv [OF Suc(3) ab] b(2) n q2 q Suc(2) obtain i s3 where c: "szr_work i s2 = Next s3" "worker s3 = WWait"
    "qlist s3 (num_priorities s) = []" "runs (szr_log s3) = runs (szr_log s2) @ cs" "calm s2 s3" by auto
  have "szr_work ((j + 3) + i) s = Next s3" using szr_work_add [OF ab, of i] c(1) by simp
  moreover have "runs (szr_log s3) = runs (szr_log s) @ qlist s (num_priorities s)" using a(5) b(4) c(4) q by simp
  moreover have "calm s s3" by (rule calm_trans [OF calm_trans [OF a(6) b(5)] c(5)])
  ultimately show ?case using c(2,3) by blast
qed

text \<open>A worker that waits with empty queues settles: it clears an event that is still set and waits again.\<close>

lemma settle:
  assumes inv: "szr_inv s" and w: "worker s = WWait" "\<not> osdep_stop s"
  shows "\<exists>j s1. szr_work j s = Next s1 \<and> szr_worker_step s1 = Blocked \<and> qlist s1 (num_priorities s) = [] \<and>
    runs (szr_log s1) = runs (szr_log s) @ qlist s (num_priorities s)"
proof (cases "new_event s")
  case False
  then have "qlist s (num_priorities s) = []" using szr_invD(6) [OF inv] w(1) by (simp add: worker_ok_def idle_from_def qlist_def)
  moreover have "szr_worker_step s = Blocked" using w(1) False by (simp add: szr_worker_step_def)
  ultimately show ?thesis by (intro exI [of _ 0] exI [of _ s]) simp
next
  case True
  let ?s = "s\<lparr>new_event := False, worker := WScan (num_priorities s)\<rparr>"
  have c: "current_command s = None" using szr_invD(6) [OF inv] w(1) by (simp add: worker_ok_def)
  have 3: "szr_work 3 s = Next ?s" using w True c by (simp add: numeral_3_eq_3 szr_worker_step_def)
  from drain [OF szr_work_inv [OF inv 3]] obtain j s1 where a: "szr_work j ?s = Next s1" "worker s1 = WWait" "qlist s1 (num_priorities s) = []"
    "runs (szr_log s1) = runs (szr_log s) @ qlist ?s (num_priorities s)" "calm ?s s1" by auto
  have "szr_work (3 + j) s = Next s1" using szr_work_add [OF 3, of j] a(1) by simp
  moreover have "szr_worker_step s1 = Blocked" using a(2,5) by (simp add: szr_worker_step_def calm_def)
  moreover have "qlist ?s (num_priorities s) = qlist s (num_priorities s)" by (rule szr_qlist_cong) simp
  ultimately show ?thesis using a(3,4) by metis
qed

text \<open>Wherever the worker is, it gets back to its wait; a command it holds is run first.\<close>

lemma reaches_wait:
  assumes inv: "szr_inv s" and w: "worker s \<noteq> WExit" "\<not> osdep_stop s"
  shows "\<exists>j s1 rs. szr_work j s = Next s1 \<and> worker s1 = WWait \<and> \<not> osdep_stop s1 \<and> num_priorities s1 = num_priorities s \<and>
    runs (szr_log s1) = runs (szr_log s) @ rs \<and> set rs \<union> set (qlist s1 (num_priorities s)) \<supseteq> set (qlist s (num_priorities s))"
proof -
  let ?n = "num_priorities s"
  have full: ?thesis if a: "szr_work j s = Next s0" "worker s0 = WScan ?n" "calm s s0 \<or> osdep_stop s0 = osdep_stop s \<and> num_priorities s0 = ?n"
    "runs (szr_log s0) = runs (szr_log s) @ rs0" "set (qlist s ?n) \<subseteq> set rs0 \<union> set (qlist s0 ?n)" for j s0 rs0
  proof -
    from a(3) have n: "num_priorities s0 = ?n" "osdep_stop s0 = osdep_stop s" by (auto simp: calm_def)
    from drain [OF szr_work_inv [OF inv a(1)]] a(2) n obtain i s1 where b: "szr_work i s0 = Next s1" "worker s1 = WWait"
      "qlist s1 ?n = []" "runs (szr_log s1) = runs (szr_log s0) @ qlist s0 ?n" "calm s0 s1" by auto
    have "szr_work (j + i) s = Next s1" using szr_work_add [OF a(1), of i] b(1) by simp
    moreover have "runs (szr_log s1) = runs (szr_log s) @ (rs0 @ qlist s0 ?n)" using a(4) b(4) by simp
    moreover have "\<not> osdep_stop s1" "num_priorities s1 = ?n" using b(5) n w(2) by (simp_all add: calm_def)
    moreover have "set (rs0 @ qlist s0 ?n) \<union> set (qlist s1 ?n) \<supseteq> set (qlist s ?n)" using a(5) by auto
    ultimately show ?thesis using b(2) by blast
  qed
  have held: ?thesis if a: "szr_work j s = Next s0" "worker s0 = WInvoke" "current_command s0 = Some c" "calm s s0"
    "runs (szr_log s0) = runs (szr_log s)" "set (qlist s ?n) \<subseteq> insert c (set (qlist s0 ?n))" for j s0 c
  proof -
    from finish_command [OF szr_work_inv [OF inv a(1)] a(2,3)] obtain s2 where b: "szr_work 3 s0 = Next s2"
      "worker s2 = WScan (num_priorities s0)" "commands s2 = commands s0" "runs (szr_log s2) = runs (szr_log s0) @ [c]" "calm s0 s2" by blast
    have q: "qlist s2 ?n = qlist s0 ?n" by (rule szr_qlist_cong) (simp add: b(3))
    show ?thesis
      by (rule full [of "j + 3" s2 "[c]"]) (use szr_work_add [OF a(1), of 3] b a(4,5,6) q in \<open>simp_all add: calm_def\<close>)
  qed
  show ?thesis
  proof (cases "worker s")
    case WWait
    then show ?thesis using w(2) by (intro exI [of _ 0] exI [of _ s] exI [of _ "[]"]) simp
  next
    case WCheckStop
    have c: "current_command s = None" using szr_invD(6) [OF inv] WCheckStop by (simp add: worker_ok_def)
    let ?s = "s\<lparr>new_event := False, worker := WScan ?n\<rparr>"
    have "szr_work 2 s = Next ?s" using WCheckStop w c by (simp add: numeral_2_eq_2 szr_worker_step_def)
    moreover have "qlist ?s ?n = qlist s ?n" by (rule szr_qlist_cong) simp
    ultimately show ?thesis by (intro full [of 2 ?s "[]"]) (simp_all add: calm_def)
  next
    case WReset
    have c: "current_command s = None" using szr_invD(6) [OF inv] WReset by (simp add: worker_ok_def)
    let ?s = "s\<lparr>new_event := False, worker := WScan ?n\<rparr>"
    have "szr_work 1 s = Next ?s" using WReset c by (simp add: szr_worker_step_def)
    moreover have "qlist ?s ?n = qlist s ?n" by (rule szr_qlist_cong) simp
    ultimately show ?thesis by (intro full [of 1 ?s "[]"]) (simp_all add: calm_def del: szr_work.simps One_nat_def)
  next
    case (WScan k)
    have k: "k \<le> ?n" using szr_invD(6) [OF inv] WScan by (simp add: worker_ok_def)
    show ?thesis
    proof (cases "qlist s k")
      case Nil
      with scan_down [OF inv WScan] obtain j where "szr_work j s = Next (s\<lparr>worker := WWait\<rparr>)" by blast
      moreover have "qlist (s\<lparr>worker := WWait\<rparr>) ?n = qlist s ?n" by (rule szr_qlist_cong) simp
      ultimately show ?thesis using w(2) by (intro exI [of _ j] exI [of _ "s\<lparr>worker := WWait\<rparr>"] exI [of _ "[]"]) simp
    next
      case (Cons c cs)
      with scan_down [OF inv WScan] obtain j s1 where a: "szr_work j s = Next s1" "worker s1 = WInvoke" "current_command s1 = Some c"
        "qlist s1 k = cs" "\<forall>p\<ge>k. commands s1 p = commands s p" "runs (szr_log s1) = runs (szr_log s)" "calm s s1" by blast
      have "set (qlist s m) \<subseteq> insert c (set (qlist s1 m))" if "k \<le> m" for m
        using that by (induction m rule: dec_induct) (use Cons a(4,5) in auto)
      then show ?thesis using a k by (intro held [of j s1 c]) auto
    qed
  next
    case WInvoke
    then obtain c where "current_command s = Some c" using szr_invD(6) [OF inv] by (auto simp: worker_ok_def)
    then show ?thesis using WInvoke by (intro held [of 0 s c]) (auto simp: calm_def)
  next
    case WComplete
    then obtain c k where c: "current_command s = Some c" "phase s c = Some (Some (k, Ran))"
      using szr_invD(6) [OF inv] by (auto simp: worker_ok_def)
    from post_exec_inv [OF inv c(2)] obtain s3 where p: "szr_post_exec MTLK_CMD_EXECUTED c (s\<lparr>worker := WClear\<rparr>) = Next s3" by auto
    note sel = post_exec_sel [OF p]
    let ?s = "s3\<lparr>current_command := None, worker := WScan (num_priorities s3)\<rparr>"
    have "szr_work 2 s = Next ?s" using WComplete c p sel by (simp add: numeral_2_eq_2 szr_worker_step_def)
    moreover have "qlist ?s ?n = qlist s ?n" by (rule szr_qlist_cong) (simp add: sel)
    ultimately show ?thesis using sel by (intro full [of 2 ?s "[]"]) (simp_all add: calm_def)
  next
    case WClear
    let ?s = "s\<lparr>current_command := None, worker := WScan ?n\<rparr>"
    have "szr_work 1 s = Next ?s" using WClear by (simp add: szr_worker_step_def)
    moreover have "qlist ?s ?n = qlist s ?n" by (rule szr_qlist_cong) simp
    ultimately show ?thesis by (intro full [of 1 ?s "[]"]) (simp_all add: calm_def del: szr_work.simps One_nat_def)
  next
    case WExit
    then show ?thesis using w by simp
  qed
qed

lemma sort_by_priority:
  assumes "\<forall>x\<in>set l. fst x < n"
  shows "sort_key (\<lambda>x. n - fst x) l = concat (map (\<lambda>p. filter (\<lambda>x. fst x = p) l) (rev [0..<n]))" (is "sort_key ?f l = ?ys")
proof (rule properties_for_sort_key)
  let ?g = "\<lambda>k. concat (map (\<lambda>p. filter (\<lambda>x. fst x = p) l) (rev [0..<k]))"
  have m: "mset (?g k) = filter_mset (\<lambda>x. fst x < k) (mset l)" for k
  proof (induction k)
    case (Suc k)
    have "mset (?g (Suc k)) = filter_mset (\<lambda>x. fst x = k) (mset l) + filter_mset (\<lambda>x. fst x < k) (mset l)"
      using Suc by (simp add: mset_filter)
    also have "\<dots> = filter_mset (\<lambda>x. fst x < Suc k) (mset l)" by (rule multiset_eqI) auto
    finally show ?case .
  qed simp
  then show "mset ?ys = mset l" using assms by (simp add: filter_mset_eq_conv) 
  have s: "set (?g k) \<subseteq> {x. fst x < k}" for k by auto
  have "sorted (map ?f (?g k))" if "k \<le> n" for k
    using that
  proof (induction k)
    case (Suc k)
    have "\<forall>x\<in>set (map ?f (filter (\<lambda>x. fst x = k) l)). \<forall>y\<in>set (map ?f (?g k)). x \<le> y" using s [of k] by auto
    moreover have "sorted (map ?f (filter (\<lambda>x. fst x = k) l))" by (induction l) auto
    ultimately show ?case using Suc by (simp add: sorted_append)
  qed simp
  then show "sorted (map ?f ?ys)" by simp
  have f: "filter (\<lambda>x. fst x = p) (?g k) = (if p < k then filter (\<lambda>x. fst x = p) l else [])" for p k
    by (induction k) (auto simp: filter_empty_conv intro: filter_cong)
  fix z assume "z \<in> set ?ys"
  then have z: "fst z < n" by auto
  have "filter (\<lambda>x. ?f z = ?f x) ?ys = filter (\<lambda>x. fst x = fst z) ?ys" by (rule filter_cong) (use z in auto)
  also have "\<dots> = filter (\<lambda>x. fst x = fst z) l" using f [of "fst z" n] z by simp
  also have "\<dots> = filter (\<lambda>x. ?f z = ?f x) l" by (rule filter_cong) (use z assms in auto)
  finally show "filter (\<lambda>x. ?f z = ?f x) ?ys = filter (\<lambda>x. ?f z = ?f x) l" .
qed

lemma qlist_sorted:
  assumes "szr_inv s"
  shows "qlist s (num_priorities s) = map snd (sort_key (\<lambda>x. num_priorities s - fst x) (pend (szr_log s)))"
proof -
  note I = szr_invD [OF assms]
  have c: "commands s p = map snd (filter (\<lambda>x. fst x = p) (pend (szr_log s)))" for p using I(8) by (simp add: order_ok_def)
  have "\<forall>x\<in>set (pend (szr_log s)). fst x < num_priorities s"
  proof
    fix x assume "x \<in> set (pend (szr_log s))"
    then have "snd x \<in> set (commands s (fst x))" by (auto simp: c)
    then show "fst x < num_priorities s" by (rule queuesD(1) [OF I(3)])
  qed
  moreover have "commands s = (\<lambda>p. map snd (filter (\<lambda>x. fst x = p) (pend (szr_log s))))" using c by auto
  ultimately show ?thesis using sort_by_priority [of "pend (szr_log s)" "num_priorities s"]
    by (simp add: qlist_def map_concat comp_def)
qed

text \<open>
  C16: The worker never sleeps on work and serves by priority, then by arrival. In every reachable
  state in which the serializer is not being stopped, the worker left to itself reaches its wait
  with nothing queued, and runs every command that was queued (no wake-up is lost). If it starts
  from its wait, the commands it runs are those queued, in the order of a stable sort of the order
  of arrival by falling priority.
\<close>

theorem szr_worker_serves_all:
  assumes "szr_reach n s" "\<not> osdep_stop s"
  defines "m \<equiv> num_priorities s"
  shows "\<exists>k s' rs. szr_work k s = Next s' \<and> szr_worker_step s' = Blocked \<and> (\<forall>p. commands s' p = []) \<and>
      runs (szr_log s') = runs (szr_log s) @ rs \<and> (\<forall>p. set (commands s p) \<subseteq> set rs) \<and>
      (worker s = WWait \<longrightarrow> rs = map snd (sort_key (\<lambda>x. m - fst x) (pend (szr_log s))))"
proof -
  note inv = szr_reach_inv [OF assms(1)]
  have w: "worker s \<noteq> WExit" using szr_invD(6) [OF inv] assms(2) by (auto simp: worker_ok_def)
  have cq: "set (commands s p) \<subseteq> set (qlist s m)" for p
    using queuesD(1) [OF szr_invD(3) [OF inv], of _ p] by (fastforce simp: qlist_def m_def)
  have emp: "\<forall>p. commands s' p = []" if "szr_inv s'" "szr_worker_step s' = Blocked" "\<not> worker s' = WExit" for s'
    using szr_invD(6) [OF that(1)] that(2,3) post_exec_not_blocked
    by (auto simp: worker_ok_def idle_from_def szr_worker_step_def szr_scan_def split: szr_worker.splits option.splits nat.splits list.splits if_splits)
  have noexit: "worker s' \<noteq> WExit" if "szr_inv s'" "\<not> osdep_stop s'" for s'
    using szr_invD(6) [OF that(1)] that(2) by (auto simp: worker_ok_def)
  have stop: "osdep_stop s' = osdep_stop s0" if "szr_work k s0 = Next s'" for k s0 s' using that by (rule szr_work_stop)
  show ?thesis
  proof (cases "worker s = WWait")
    case True
    from settle [OF inv True assms(2)] obtain j s1 where a: "szr_work j s = Next s1" "szr_worker_step s1 = Blocked"
      "runs (szr_log s1) = runs (szr_log s) @ qlist s m" unfolding m_def by blast
    have i1: "szr_inv s1" by (rule szr_work_inv [OF inv a(1)])
    have "\<forall>p. commands s1 p = []" by (rule emp [OF i1 a(2) noexit [OF i1]]) (use stop [OF a(1)] assms(2) in simp)
    then show ?thesis using a cq qlist_sorted [OF inv] unfolding m_def by blast
  next
    case False
    from reaches_wait [OF inv w assms(2)] obtain i s0 rs where b: "szr_work i s = Next s0" "worker s0 = WWait" "\<not> osdep_stop s0"
      "num_priorities s0 = m" "runs (szr_log s0) = runs (szr_log s) @ rs" "set (qlist s m) \<subseteq> set rs \<union> set (qlist s0 m)"
      unfolding m_def by blast
    have i0: "szr_inv s0" by (rule szr_work_inv [OF inv b(1)])
    from settle [OF i0 b(2,3)] b(4) obtain j s1 where a: "szr_work j s0 = Next s1" "szr_worker_step s1 = Blocked"
      "runs (szr_log s1) = runs (szr_log s0) @ qlist s0 m" by blast
    have i1: "szr_inv s1" by (rule szr_work_inv [OF i0 a(1)])
    have "\<forall>p. commands s1 p = []" by (rule emp [OF i1 a(2) noexit [OF i1]]) (use stop [OF a(1)] b(3) in simp)
    moreover have "szr_work (i + j) s = Next s1" using szr_work_add [OF b(1), of j] a(1) by simp
    moreover have "runs (szr_log s1) = runs (szr_log s) @ (rs @ qlist s0 m)" using a(3) b(5) by simp
    moreover have "\<forall>p. set (commands s p) \<subseteq> set (rs @ qlist s0 m)" using cq b(6) by auto
    ultimately show ?thesis using a(2) False by blast
  qed
qed

definition wit_order :: "szr_event list" where
  "wit_order = [SzrAsync (Some (7, wit_cmd)) 1 0 0, SzrAsync (Some (9, wit_cmd)) 1 0 0]"

theorem szr_worker_serves_all_witness:
  "\<exists>k s' rs. szr_work k (wit_szr wit_order) = Next s' \<and> (\<forall>p. commands s' p = []) \<and> runs (szr_log s') = runs (szr_log (wit_szr wit_order)) @ [7, 9]"
proof -
  have r: "szr_reach 1 (wit_szr wit_order)" by (rule wit_szr_reach) code_simp
  have "\<not> osdep_stop (wit_szr wit_order)" "worker (wit_szr wit_order) = WWait" "num_priorities (wit_szr wit_order) = 1"
    "pend (szr_log (wit_szr wit_order)) = [(0, 7), (0, 9)]" by code_simp+
  with szr_worker_serves_all [OF r] show ?thesis by fastforce
qed

section \<open>Stopping\<close>

text \<open>
  C37: When \<^verbatim>\<open>mtlk_serializer_stop\<close> returns, nothing is left. The wait on the remove lock ends only
  when all queues are empty, and the function returns only when the worker has left its loop: no
  command is queued, started or running then, and from the beginning of the stop on every further
  command is refused with \<^verbatim>\<open>MTLK_ERR_NOT_READY\<close> and its memory is freed.
\<close>

theorem szr_stop_leaves_nothing:
  assumes "szr_reach n s"
  shows "(stopper s \<in> {SStopFlag, SNotify, SJoin, SDone} \<longrightarrow> commands s p = []) \<and>
    (stopper s = SDone \<longrightarrow> worker s = WExit \<and> current_command s = None \<and>
      (\<forall>k st. life (szr_log s) c = Some (Some (k, st)) \<longrightarrow> st = Cancelling \<or> (\<exists>r. st = Finished r))) \<and>
    (stopper s \<noteq> SNone \<longrightarrow> cmd_mem s c = None \<longrightarrow> prio < num_priorities s \<longrightarrow>
      mtlk_core_execute_async_ex (Some (c, g)) cb prio slid s = Next (s, MTLK_ERR_NOT_READY))"
proof -
  note I = szr_invD [OF szr_reach_inv [OF assms]]
  have e: "commands s p = []" if "stopper s \<in> {SStopFlag, SNotify, SJoin, SDone}" for p
    using I(7) that queued_zero [OF I(3)] unfolding stop_ok_def by blast
  have goal1: "worker s = WExit \<and> current_command s = None \<and>
      (\<forall>k st. life (szr_log s) c = Some (Some (k, st)) \<longrightarrow> st = Cancelling \<or> (\<exists>r. st = Finished r))" if d: "stopper s = SDone"
  proof -
    have w: "worker s = WExit" "current_command s = None" using I(6,7) d by (auto simp: stop_ok_def worker_ok_def)
    have "st = Cancelling \<or> (\<exists>r. st = Finished r)" if "life (szr_log s) c = Some (Some (k, st))" for k st
      using phase_live [OF I(2) that] w e d by (cases st) (auto simp: live_ok_def)
    with w show ?thesis by blast
  qed
  have goal2: "mtlk_core_execute_async_ex (Some (c, g)) cb prio slid s = Next (s, MTLK_ERR_NOT_READY)"
    if "stopper s \<noteq> SNone" "cmd_mem s c = None" "prio < num_priorities s"
    using I(7) that by (simp add: mtlk_core_execute_async_ex_def mtlk_serializer_enqueue_def stop_ok_def cmd_mem_restore)
  show ?thesis using e goal1 goal2 by blast
qed

definition wit_stopped :: "szr_event list" where
  "wit_stopped = [SzrAsync (Some (7, wit_cmd)) 1 0 0] @ replicate 3 SzrWorker @ replicate 2 SzrStop @ replicate 6 SzrWorker @
     replicate 3 SzrStop @ replicate 2 SzrWorker @ [SzrStop]"

theorem szr_stop_leaves_nothing_witness:
  "worker (wit_szr wit_stopped) = WExit \<and> runs (szr_log (wit_szr wit_stopped)) = [7] \<and> commands (wit_szr wit_stopped) 0 = [] \<and>
   mtlk_core_execute_async_ex (Some (5, wit_cmd)) 1 0 0 (wit_szr wit_stopped) = Next (wit_szr wit_stopped, MTLK_ERR_NOT_READY)"
proof -
  have r: "szr_reach 1 (wit_szr wit_stopped)" by (rule wit_szr_reach) code_simp
  have s: "stopper (wit_szr wit_stopped) = SDone" "cmd_mem (wit_szr wit_stopped) 5 = None" "num_priorities (wit_szr wit_stopped) = 1"
    "runs (szr_log (wit_szr wit_stopped)) = [7]" by code_simp+
  show ?thesis using szr_stop_leaves_nothing [OF r, where p = 0 and c = 5 and prio = 0 and g = wit_cmd and cb = 1 and slid = 0] s by simp
qed

text \<open>Once the stop waits for a worker that sleeps without an event, neither moves again.\<close>

definition szr_hung :: "mtlk_serializer_t \<Rightarrow> bool" where
  "szr_hung s \<longleftrightarrow> worker s = WWait \<and> \<not> new_event s \<and> stopper s = SJoin \<and> \<not> is_running s"

lemma szr_hung_step: "szr_hung s \<Longrightarrow> szr_step s e = Next s' \<Longrightarrow> szr_hung s'"
proof -
  assume h: "szr_hung s" and st: "szr_step s e = Next s'"
  have keep: "worker s' = worker s \<and> new_event s' = new_event s \<and> stopper s' = stopper s \<and> is_running s' = is_running s"
  proof (cases e)
    case (SzrAsync mem cb prio slid)
    then show ?thesis using st h by (auto simp: szr_hung_def mtlk_core_execute_async_ex_def mtlk_serializer_enqueue_def
        split: option.splits if_splits)
  next
    case (SzrBlocked w c g cb prio slid)
    then show ?thesis using st h by (auto simp: szr_hung_def szr_execute_blocked_def mtlk_serializer_enqueue_def
        mtlk_command_cleanup_def mtlk_command_init_def split: option.splits if_splits)
  next
    case (SzrWake w)
    then show ?thesis using st by (auto simp: szr_wake_def szr_return_def mtlk_command_cleanup_def
        split: option.splits szr_waiter.splits if_splits)
  next
    case (SzrTimeout w)
    then show ?thesis using st by (auto simp: szr_timeout_def szr_return_def mtlk_command_cleanup_def szr_cancel_locked_def
        mtlk_rmlock_release_def split: option.splits szr_waiter.splits if_splits)
  next
    case (SzrOwnCancel w)
    then show ?thesis using st by (auto simp: szr_own_cancel_def szr_return_def mtlk_command_cleanup_def szr_post_exec_def
        split: option.splits szr_waiter.splits szr_compl.splits if_splits outcome.splits)
  next
    case (SzrCancelCmd c)
    then show ?thesis using st by (auto simp: szr_cancel_def szr_cancel_locked_def mtlk_rmlock_release_def split: option.splits if_splits)
  next
    case (SzrCancelClb c)
    then show ?thesis using st by (auto simp: szr_cancel_clb_def mtlk_command_cleanup_def szr_post_exec_def
        split: option.splits szr_compl.splits if_splits)
  next
    case SzrWorker
    then show ?thesis using st h by (simp add: szr_hung_def szr_worker_step_def)
  next
    case SzrStop
    then show ?thesis using st h by (simp add: szr_hung_def szr_stop_step_def)
  next
    case SzrEnum
    then show ?thesis using st by (auto split: outcome.splits)
  qed
  with h show ?thesis by (simp add: szr_hung_def)
qed

lemma szr_hung_exec: "szr_hung s \<Longrightarrow> szr_exec s es = Next s' \<Longrightarrow> szr_hung s'"
  by (induction es arbitrary: s) (auto split: if_splits outcome.splits dest: szr_hung_step)

definition wit_hang :: "szr_event list" where
  "wit_hang = [SzrAsync (Some (7, wit_cmd)) 1 0 0] @ replicate 3 SzrWorker @ [SzrAsync (Some (8, wit_cmd)) 1 0 0] @
     replicate 12 SzrWorker @ replicate 5 SzrStop @ replicate 3 SzrWorker"

text \<open>
  Stopping can block for ever. The thread of the serializer tests the stop flag before it resets its
  event. Two commands whose processing overlaps leave the event set with the queues empty; if the
  stop raises its flag and sets the event between that test and the reset, the reset erases the
  wake-up: the worker sleeps on an event that nothing sets any more and \<^verbatim>\<open>mtlk_serializer_stop\<close>
  waits for the worker. The state is reached by callers that follow the rules, and it is
  final for both threads whatever the other threads do.
\<close>

lemma szr_stop_can_hang:
  "\<exists>s. szr_reach 1 s \<and> stopper s = SJoin \<and> worker s = WWait \<and>
    (\<forall>es s'. szr_exec s es = Next s' \<longrightarrow>
      stopper s' = SJoin \<and> szr_step s' SzrStop = Blocked \<and> szr_step s' SzrWorker = Blocked)"
proof -
  have r: "szr_reach 1 (wit_szr wit_hang)" by (rule wit_szr_reach) code_simp
  have "worker (wit_szr wit_hang) = WWait" "\<not> new_event (wit_szr wit_hang)" "stopper (wit_szr wit_hang) = SJoin"
    "\<not> is_running (wit_szr wit_hang)" by code_simp+
  then have h: "szr_hung (wit_szr wit_hang)" by (simp add: szr_hung_def)
  have "stopper s' = SJoin \<and> szr_step s' SzrStop = Blocked \<and> szr_step s' SzrWorker = Blocked"
    if "szr_exec (wit_szr wit_hang) es = Next s'" for es s'
    using szr_hung_exec [OF h that] by (simp add: szr_hung_def szr_stop_step_def szr_worker_step_def)
  with r h show ?thesis by (auto simp: szr_hung_def)
qed


definition wit_enum :: "szr_event list" where
  "wit_enum = [SzrAsync (Some (7, wit_cmd)) 1 0 0] @ replicate 6 SzrWorker"

text \<open>
  Enumerating commands can read freed memory. The completion callback of the core frees the structure
  that contains the command, and only afterwards, in another critical section, the worker
  resets \<^verbatim>\<open>current_command\<close>. An enumeration in between, which the core offers to user
  requests outside the serializer, dereferences the freed command.
\<close>

lemma szr_enum_reads_freed_command:
  "\<exists>s. szr_reach 1 s \<and> worker s = WClear \<and> current_command s = Some 7 \<and> cmd_mem s 7 = None \<and> szr_step s SzrEnum = Fault"
proof -
  have r: "szr_reach 1 (wit_szr wit_enum)" by (rule wit_szr_reach) code_simp
  have a: "worker (wit_szr wit_enum) = WClear" "current_command (wit_szr wit_enum) = Some 7" "cmd_mem (wit_szr wit_enum) 7 = None"
    by code_simp+
  then have "szr_step (wit_szr wit_enum) SzrEnum = Fault" by (simp add: mtlk_serializer_enum_commands_def Let_def)
  with r a show ?thesis by blast
qed

end
