(* ===== verification/Qos.thy ===== *)
theory Qos
  imports Sq
begin

text \<open>
  Classification of packets into access categories (\<^verbatim>\<open>wireless/driver/shared/mtlkqos.c\<close>,
  \<^verbatim>\<open>mtlkqos.h\<close>, the TOS readers of \<^verbatim>\<open>mtlk_packets.h\<close>).

  \<^item> The static variables of the module (the map chosen and the three tables it selects) are the
    record \<open>qos_maps\<close>; the ACM substitution of a core is \<open>mtlk_qos\<close>.
  \<^item> Categories, TIDs and priorities are numbers; a network buffer is its bytes and the priority
    field of the kernel. The optional external classifier is a function on buffers.
  \<^item> Shown: what admission control makes of a category, that the TID written into a packet leads
    back to the category it was queued in, and when it does not.
\<close>

section \<open>Data\<close>

definition NTS_TIDS :: nat where "NTS_TIDS = 8"
definition AC_INVALID :: nat where "AC_INVALID = 255"
definition MTLK_WMM_ACI_DEFAULT_CLASS :: nat where "MTLK_WMM_ACI_DEFAULT_CLASS = 0"
definition USE_80211_MAP :: int where "USE_80211_MAP = 0"
definition USE_8021Q_MAP :: int where "USE_8021Q_MAP = 1"
definition USE_80211_MAP_INVERTED_VI_BE :: int where "USE_80211_MAP_INVERTED_VI_BE = 100"
definition USE_8021Q_MAP_INVERTED_VI_BE :: int where "USE_8021Q_MAP_INVERTED_VI_BE = 101"

definition wmm_aci_class_80211 :: "nat list" where
  "wmm_aci_class_80211 = [AC_BE, AC_BK, AC_BK, AC_BE, AC_VI, AC_VI, AC_VO, AC_VO]"
definition wmm_aci_class_8021Q :: "nat list" where
  "wmm_aci_class_8021Q = [AC_BE, AC_BK, AC_VI, AC_VI, AC_VI, AC_VO, AC_VO, AC_VO]"
definition wmm_aci_class_80211_inverted_vi_be :: "nat list" where
  "wmm_aci_class_80211_inverted_vi_be = [AC_VI, AC_BK, AC_BK, AC_VI, AC_BE, AC_BE, AC_VO, AC_VO]"
definition wmm_aci_class_8021Q_inverted_vi_be :: "nat list" where
  "wmm_aci_class_8021Q_inverted_vi_be = [AC_VI, AC_BK, AC_BE, AC_BE, AC_BE, AC_VO, AC_VO, AC_VO]"
definition wmm_ac_to_tid_mapping_80211 :: "nat list" where
  "wmm_ac_to_tid_mapping_80211 = [0, 1, 5, 6]"
definition wmm_ac_to_tid_mapping_8021Q :: "nat list" where
  "wmm_ac_to_tid_mapping_8021Q = [0, 1, 4, 6]"

record qos_maps =
  map_type :: int
  wmm_aci_class :: "nat list"
  wmm_aci_class_for_map :: "nat list"
  wmm_ac_to_tid_mapping :: "nat list"

record mtlk_qos =
  acm_substitution :: "nat list"

record qos_nbuf =
  nb_data :: "u8 list"
  nb_priority :: u32

definition qos_maps_init :: qos_maps where
  "qos_maps_init = \<lparr>map_type = USE_80211_MAP, wmm_aci_class = wmm_aci_class_80211,
     wmm_aci_class_for_map = wmm_aci_class_80211, wmm_ac_to_tid_mapping = wmm_ac_to_tid_mapping_80211\<rparr>"

section \<open>Maps\<close>

definition mtlk_qos_set_map :: "qos_maps \<Rightarrow> int \<Rightarrow> qos_maps \<times> mtlk_error_t" where
  "mtlk_qos_set_map g m =
     (if m = USE_80211_MAP then
        (\<lparr>map_type = m, wmm_aci_class = wmm_aci_class_80211, wmm_aci_class_for_map = wmm_aci_class_80211,
          wmm_ac_to_tid_mapping = wmm_ac_to_tid_mapping_80211\<rparr>, MTLK_ERR_OK)
      else if m = USE_8021Q_MAP then
        (\<lparr>map_type = m, wmm_aci_class = wmm_aci_class_8021Q, wmm_aci_class_for_map = wmm_aci_class_8021Q,
          wmm_ac_to_tid_mapping = wmm_ac_to_tid_mapping_8021Q\<rparr>, MTLK_ERR_OK)
      else if m = USE_80211_MAP_INVERTED_VI_BE then
        (\<lparr>map_type = m, wmm_aci_class = wmm_aci_class_80211, wmm_aci_class_for_map = wmm_aci_class_80211_inverted_vi_be,
          wmm_ac_to_tid_mapping = wmm_ac_to_tid_mapping_80211\<rparr>, MTLK_ERR_OK)
      else if m = USE_8021Q_MAP_INVERTED_VI_BE then
        (\<lparr>map_type = m, wmm_aci_class = wmm_aci_class_8021Q, wmm_aci_class_for_map = wmm_aci_class_8021Q_inverted_vi_be,
          wmm_ac_to_tid_mapping = wmm_ac_to_tid_mapping_8021Q\<rparr>, MTLK_ERR_OK)
      else (g, MTLK_ERR_PARAMS))"

definition mtlk_qos_get_map :: "qos_maps \<Rightarrow> int" where
  "mtlk_qos_get_map g = map_type g"

definition mtlk_qos_is_map_8021Q_based :: "qos_maps \<Rightarrow> bool" where
  "mtlk_qos_is_map_8021Q_based g \<longleftrightarrow> map_type g = USE_8021Q_MAP \<or> map_type g = USE_8021Q_MAP_INVERTED_VI_BE"

definition qos_map_ac_by_tid :: "qos_maps \<Rightarrow> nat \<Rightarrow> nat" where
  "qos_map_ac_by_tid g tid = wmm_aci_class_for_map g ! (tid mod 8)"

definition mtlk_qos_get_ac_by_tid :: "qos_maps \<Rightarrow> nat \<Rightarrow> nat" where
  "mtlk_qos_get_ac_by_tid g tid = wmm_aci_class g ! (tid mod 8)"

definition mtlk_qos_get_tid_by_ac :: "qos_maps \<Rightarrow> nat \<Rightarrow> nat" where
  "mtlk_qos_get_tid_by_ac g ac = wmm_ac_to_tid_mapping g ! (ac mod 4)"

section \<open>Admission control\<close>

definition reset_acm_bits_unsafe :: "mtlk_qos \<Rightarrow> mtlk_qos" where
  "reset_acm_bits_unsafe q = q\<lparr>acm_substitution := [0..<NTS_PRIORITIES]\<rparr>"

text \<open>One iteration of the loop of \<^verbatim>\<open>mtlk_qos_set_acm_bits\<close>; a category is restricted if its entry is not zero.\<close>

definition acm_iter :: "u8 list \<Rightarrow> mtlk_qos \<Rightarrow> nat \<Rightarrow> mtlk_qos" where
  "acm_iter tab q i =
     (let ac = mtlk_get_ac_by_number i in
      if tab ! ac \<noteq> 0 then
        q\<lparr>acm_substitution := (acm_substitution q)[ac :=
            if i = 0 then AC_INVALID else acm_substitution q ! mtlk_get_ac_by_number (i - 1)]\<rparr>
      else q)"

definition mtlk_qos_set_acm_bits :: "mtlk_qos \<Rightarrow> u8 list \<Rightarrow> mtlk_qos" where
  "mtlk_qos_set_acm_bits q tab = foldl (acm_iter tab) (reset_acm_bits_unsafe q) [0..<NTS_PRIORITIES]"

definition mtlk_qos_reset_acm_bits :: "mtlk_qos \<Rightarrow> mtlk_qos" where
  "mtlk_qos_reset_acm_bits q = reset_acm_bits_unsafe q"

definition acm_adjust_ac :: "mtlk_qos \<Rightarrow> nat \<Rightarrow> nat" where
  "acm_adjust_ac q ac = acm_substitution q ! ac"

section \<open>Classification\<close>

text \<open>Network byte order: two bytes as a 16 bit word.\<close>

definition get_ip4_tos :: "u8 list \<Rightarrow> u8" where
  "get_ip4_tos pkt = pkt ! 1"

definition net16 :: "u8 list \<Rightarrow> u16" where
  "net16 pkt = of_nat (256 * unat (pkt ! 0) + unat (pkt ! 1))"

definition get_ip6_tos :: "u8 list \<Rightarrow> u8" where
  "get_ip6_tos pkt = ucast (drop_bit 4 (net16 pkt))"

definition mtlk_df_nbuf_read :: "qos_nbuf \<Rightarrow> nat \<Rightarrow> nat \<Rightarrow> u8 list option" where
  "mtlk_df_nbuf_read nb off len = (if off + len \<le> length (nb_data nb) then Some (take len (drop off (nb_data nb))) else None)"

definition qos_get_priority_from_tos :: "qos_nbuf \<Rightarrow> nat option" where
  "qos_get_priority_from_tos nb =
     (case mtlk_df_nbuf_read nb (14 - 2) 4 of
        None \<Rightarrow> None
      | Some b \<Rightarrow>
          if net16 b = 0x0800 then Some (unat (drop_bit 5 (get_ip4_tos (drop 2 b))))
          else if net16 b = 0x86DD then Some (unat (drop_bit 5 (get_ip6_tos (drop 2 b))))
          else Some MTLK_WMM_ACI_DEFAULT_CLASS)"

text \<open>
  The priority field of the buffer has 32 bits; the reader returns its lower 16. The external
  classifier may set it.
\<close>

definition mtlk_qos_get_ac ::
  "qos_maps \<Rightarrow> (qos_nbuf \<Rightarrow> qos_nbuf) option \<Rightarrow> mtlk_qos \<Rightarrow> qos_nbuf \<Rightarrow> nat \<times> qos_nbuf" where
  "mtlk_qos_get_ac g do_classify q nb =
     (let (nb1, priority) =
        (case do_classify of
           Some c \<Rightarrow> (let nb1 = c nb in (nb1, unat (ucast (nb_priority nb1) :: u16)))
         | None \<Rightarrow> (nb, case qos_get_priority_from_tos nb of Some p \<Rightarrow> p | None \<Rightarrow> MTLK_WMM_ACI_DEFAULT_CLASS));
          ac = acm_adjust_ac q (qos_map_ac_by_tid g priority)
      in (ac, if ac \<noteq> AC_INVALID then nb1\<lparr>nb_priority := of_nat (mtlk_qos_get_tid_by_ac g ac)\<rparr> else nb1))"

text \<open>
  \<^verbatim>\<open>mtlk_qos_init\<close> of one virtual AP. The steps up to the choice of the map cannot fail; registering
  the abilities may (\<open>e\<close> is its result), and the cleanup then leaves the map as it is.
\<close>

definition mtlk_qos_init :: "qos_maps \<Rightarrow> mtlk_qos \<Rightarrow> mtlk_error_t \<Rightarrow> qos_maps \<times> mtlk_qos \<times> mtlk_error_t" where
  "mtlk_qos_init g q e = (fst (mtlk_qos_set_map g USE_80211_MAP), mtlk_qos_reset_acm_bits q, e)"

section \<open>Admission control picks the best category allowed\<close>

text \<open>The categories from the lowest to the highest, and the rank of a category in that order.\<close>

definition ac_order :: "nat list" where
  "ac_order = [AC_BK, AC_BE, AC_VI, AC_VO]"

definition ac_rank :: "nat \<Rightarrow> nat" where
  "ac_rank ac = (if ac = AC_BK then 0 else if ac = AC_BE then 1 else if ac = AC_VI then 2 else 3)"

text \<open>Specification: the highest unrestricted category not above \<open>ac\<close>.\<close>

definition acm_best :: "u8 list \<Rightarrow> nat \<Rightarrow> nat" where
  "acm_best tab ac =
     (let free = filter (\<lambda>c. tab ! c = 0) (take (Suc (ac_rank ac)) ac_order) in
      if free = [] then AC_INVALID else last free)"

lemmas ac_defs = AC_BK_def AC_BE_def AC_VI_def AC_VO_def NTS_PRIORITIES_def AC_INVALID_def

lemma less_4_cases: "ac < 4 \<Longrightarrow> ac = 0 \<or> ac = 1 \<or> ac = 2 \<or> ac = (3::nat)"
  by auto

lemma upt_4: "[0..<4] = [0, 1, 2, 3::nat]"
  by (simp add: upt_rec)

lemma acm_table:
  "acm_substitution (mtlk_qos_set_acm_bits q tab) = map (acm_best tab) [0..<NTS_PRIORITIES]"
  by (simp add: mtlk_qos_set_acm_bits_def upt_4 acm_iter_def reset_acm_bits_unsafe_def Let_def ac_defs
      mtlk_get_ac_by_number_def acm_best_def ac_order_def ac_rank_def)

lemma ac_rank_below:
  "ac < NTS_PRIORITIES \<Longrightarrow> set (take (Suc (ac_rank ac)) ac_order) = {c. c < NTS_PRIORITIES \<and> ac_rank c \<le> ac_rank ac}"
  by (rule less_4_cases [unfolded NTS_PRIORITIES_def [symmetric], THEN disjE], assumption)
    (auto simp: ac_rank_def ac_order_def ac_defs dest!: less_4_cases split: if_splits)

lemma ac_order_sorted: "sorted (map ac_rank ac_order)"
  by (simp add: ac_rank_def ac_order_def ac_defs)

text \<open>The specification read as a greatest element.\<close>

lemma acm_best_greatest:
  assumes ac: "ac < NTS_PRIORITIES" and c: "c < NTS_PRIORITIES" "tab ! c = 0" "ac_rank c \<le> ac_rank ac"
  shows "acm_best tab ac \<noteq> AC_INVALID \<and> ac_rank c \<le> ac_rank (acm_best tab ac)"
proof -
  define free where "free = filter (\<lambda>c. tab ! c = 0) (take (Suc (ac_rank ac)) ac_order)"
  have cf: "c \<in> set free" using ac_rank_below [OF ac] c by (simp add: free_def)
  have "sorted (map ac_rank (filter (\<lambda>c. tab ! c = 0) (take (Suc (ac_rank ac)) ac_order)))"
    by (rule sorted_filter) (simp add: take_map sorted_wrt_take ac_order_sorted flip: take_map)
  then have s: "sorted (map ac_rank free)" by (simp add: free_def)
  from cf have ne: "free \<noteq> []" by auto
  then have b: "acm_best tab ac = last free" by (simp add: acm_best_def free_def [symmetric])
  have l: "last free \<in> set free" using ne by simp
  have "x \<le> last xs" if "sorted xs" "x \<in> set xs" for x and xs :: "nat list"
    using that by (induction xs) auto
  from this [OF s, of "ac_rank c"] cf ne have "ac_rank c \<le> ac_rank (last free)" by (simp add: last_map)
  moreover from l ac_rank_below [OF ac] have "last free < NTS_PRIORITIES" by (auto simp: free_def)
  ultimately show ?thesis using b by (auto simp: ac_defs)
qed

lemma acm_best_free:
  assumes "ac < NTS_PRIORITIES" "acm_best tab ac \<noteq> AC_INVALID"
  shows "acm_best tab ac < NTS_PRIORITIES \<and> tab ! acm_best tab ac = 0 \<and> ac_rank (acm_best tab ac) \<le> ac_rank ac"
proof -
  define free where "free = filter (\<lambda>c. tab ! c = 0) (take (Suc (ac_rank ac)) ac_order)"
  from assms(2) have ne: "free \<noteq> []" "acm_best tab ac = last free"
    by (auto simp: acm_best_def free_def [symmetric] split: if_splits)
  then have "acm_best tab ac \<in> set free" by simp
  with ac_rank_below [OF assms(1)] show ?thesis by (auto simp: free_def)
qed

text \<open>
  C31: Admission control. After the access point has announced which categories are restricted, a
  packet of category \<open>ac\<close> is moved to the highest category that is neither restricted nor above
  \<open>ac\<close> in the order background, best effort, video, voice; it is refused (\<^verbatim>\<open>AC_INVALID\<close>)
  exactly if there is none. An unrestricted category is left alone, and clearing the bits
  undoes every substitution.
\<close>

theorem qos_acm_substitution:
  assumes "ac < NTS_PRIORITIES"
  shows "acm_adjust_ac (mtlk_qos_set_acm_bits q tab) ac = acm_best tab ac \<and>
    (acm_best tab ac = AC_INVALID \<longleftrightarrow> (\<forall>c<NTS_PRIORITIES. ac_rank c \<le> ac_rank ac \<longrightarrow> tab ! c \<noteq> 0)) \<and>
    (acm_best tab ac \<noteq> AC_INVALID \<longrightarrow>
      acm_best tab ac < NTS_PRIORITIES \<and> tab ! acm_best tab ac = 0 \<and> ac_rank (acm_best tab ac) \<le> ac_rank ac \<and>
      (\<forall>c<NTS_PRIORITIES. tab ! c = 0 \<longrightarrow> ac_rank c \<le> ac_rank ac \<longrightarrow> ac_rank c \<le> ac_rank (acm_best tab ac))) \<and>
    acm_adjust_ac (mtlk_qos_reset_acm_bits q) ac = ac"
proof -
  have goal1: "acm_adjust_ac (mtlk_qos_set_acm_bits q tab) ac = acm_best tab ac"
    using assms by (simp add: acm_adjust_ac_def acm_table)
  have goal2: "acm_best tab ac = AC_INVALID \<longleftrightarrow> (\<forall>c<NTS_PRIORITIES. ac_rank c \<le> ac_rank ac \<longrightarrow> tab ! c \<noteq> 0)"
    using acm_best_greatest [OF assms] acm_best_free [OF assms] by blast
  have goal3: "acm_best tab ac < NTS_PRIORITIES \<and> tab ! acm_best tab ac = 0 \<and> ac_rank (acm_best tab ac) \<le> ac_rank ac \<and>
      (\<forall>c<NTS_PRIORITIES. tab ! c = 0 \<longrightarrow> ac_rank c \<le> ac_rank ac \<longrightarrow> ac_rank c \<le> ac_rank (acm_best tab ac))"
    if "acm_best tab ac \<noteq> AC_INVALID"
    using acm_best_free [OF assms that] acm_best_greatest [OF assms] by blast
  have goal4: "acm_adjust_ac (mtlk_qos_reset_acm_bits q) ac = ac"
    using assms by (simp add: acm_adjust_ac_def mtlk_qos_reset_acm_bits_def reset_acm_bits_unsafe_def)
  show ?thesis using goal1 goal2 goal3 goal4 by blast
qed

theorem qos_acm_substitution_witness:
  "acm_adjust_ac (mtlk_qos_set_acm_bits \<lparr>acm_substitution = []\<rparr> [0, 0, 0, 1]) AC_VO = AC_VI \<and>
   acm_adjust_ac (mtlk_qos_set_acm_bits \<lparr>acm_substitution = []\<rparr> [1, 1, 0, 0]) AC_BE = AC_INVALID"
  by (simp add: qos_acm_substitution acm_best_def ac_order_def ac_rank_def ac_defs)

section \<open>The TID written into a packet\<close>

text \<open>
  What can happen to the module: a user chooses a map, a beacon or a connection changes the ACM
  bits of the core, another virtual AP is initialised (with the result of registering its
  abilities).
\<close>

datatype qos_event = QosSetMap int | QosSetAcm "u8 list" | QosResetAcm | QosOtherVap mtlk_error_t

fun qos_step :: "qos_maps \<times> mtlk_qos \<Rightarrow> qos_event \<Rightarrow> qos_maps \<times> mtlk_qos" where
  "qos_step (g, q) (QosSetMap m) = (fst (mtlk_qos_set_map g m), q)"
| "qos_step (g, q) (QosSetAcm tab) = (g, mtlk_qos_set_acm_bits q tab)"
| "qos_step (g, q) QosResetAcm = (g, mtlk_qos_reset_acm_bits q)"
| "qos_step (g, q) (QosOtherVap e) = (fst (mtlk_qos_init g q e), q)"

definition qos_start :: "qos_maps \<times> mtlk_qos" where
  "qos_start = (let (g, q, _) = mtlk_qos_init qos_maps_init \<lparr>acm_substitution = []\<rparr> MTLK_ERR_OK in (g, q))"

text \<open>The tables selected together belong together, and every substitute is a category or invalid.\<close>

definition maps_ok :: "qos_maps \<Rightarrow> bool" where
  "maps_ok g \<longleftrightarrow> length (wmm_aci_class g) = NTS_TIDS \<and> length (wmm_aci_class_for_map g) = NTS_TIDS \<and>
     set (wmm_aci_class_for_map g) \<subseteq> {..<NTS_PRIORITIES} \<and> length (wmm_ac_to_tid_mapping g) = NTS_PRIORITIES \<and>
     (\<forall>ac<NTS_PRIORITIES. mtlk_qos_get_tid_by_ac g ac < NTS_TIDS \<and> mtlk_qos_get_ac_by_tid g (mtlk_qos_get_tid_by_ac g ac) = ac)"

definition acm_ok :: "mtlk_qos \<Rightarrow> bool" where
  "acm_ok q \<longleftrightarrow> length (acm_substitution q) = NTS_PRIORITIES \<and> set (acm_substitution q) \<subseteq> insert AC_INVALID {..<NTS_PRIORITIES}"

lemmas qos_table_defs = wmm_aci_class_80211_def wmm_aci_class_8021Q_def wmm_aci_class_80211_inverted_vi_be_def
  wmm_aci_class_8021Q_inverted_vi_be_def wmm_ac_to_tid_mapping_80211_def wmm_ac_to_tid_mapping_8021Q_def

lemmas qos_tid_defs = mtlk_qos_get_tid_by_ac_def mtlk_qos_get_ac_by_tid_def NTS_TIDS_def

lemma maps_ok_tables:
  "maps_ok \<lparr>map_type = m, wmm_aci_class = wmm_aci_class_80211, wmm_aci_class_for_map = wmm_aci_class_80211,
     wmm_ac_to_tid_mapping = wmm_ac_to_tid_mapping_80211\<rparr>"
  "maps_ok \<lparr>map_type = m, wmm_aci_class = wmm_aci_class_8021Q, wmm_aci_class_for_map = wmm_aci_class_8021Q,
     wmm_ac_to_tid_mapping = wmm_ac_to_tid_mapping_8021Q\<rparr>"
  "maps_ok \<lparr>map_type = m, wmm_aci_class = wmm_aci_class_80211, wmm_aci_class_for_map = wmm_aci_class_80211_inverted_vi_be,
     wmm_ac_to_tid_mapping = wmm_ac_to_tid_mapping_80211\<rparr>"
  "maps_ok \<lparr>map_type = m, wmm_aci_class = wmm_aci_class_8021Q, wmm_aci_class_for_map = wmm_aci_class_8021Q_inverted_vi_be,
     wmm_ac_to_tid_mapping = wmm_ac_to_tid_mapping_8021Q\<rparr>"
  by (auto simp: maps_ok_def qos_table_defs qos_tid_defs ac_defs dest!: less_4_cases)

lemma maps_ok_init: "maps_ok qos_maps_init"
  by (simp add: qos_maps_init_def maps_ok_tables)

lemma maps_ok_set_map: "maps_ok g \<Longrightarrow> maps_ok (fst (mtlk_qos_set_map g m))"
  by (simp add: mtlk_qos_set_map_def maps_ok_tables)

lemma acm_ok_reset: "acm_ok (mtlk_qos_reset_acm_bits q)"
  by (auto simp: acm_ok_def mtlk_qos_reset_acm_bits_def reset_acm_bits_unsafe_def)

lemma acm_ok_set: "acm_ok (mtlk_qos_set_acm_bits q tab)"
  using acm_best_free by (auto simp: acm_ok_def acm_table)

lemma qos_step_inv: "maps_ok (fst s) \<and> acm_ok (snd s) \<Longrightarrow> maps_ok (fst (qos_step s e)) \<and> acm_ok (snd (qos_step s e))"
  by (cases s; cases e) (auto simp: maps_ok_set_map acm_ok_set acm_ok_reset mtlk_qos_init_def)

interpretation qos: step_system qos_step "\<lambda>_ _. True" "\<lambda>s. maps_ok (fst s) \<and> acm_ok (snd s)"
  by unfold_locales (rule qos_step_inv)

lemma qos_run_ok [simp]: "qos.run_ok s es"
  by (induction es arbitrary: s) auto

lemma qos_start_ok: "maps_ok (fst qos_start) \<and> acm_ok (snd qos_start)"
  by (simp add: qos_start_def mtlk_qos_init_def maps_ok_set_map maps_ok_init acm_ok_reset)

lemma get_ac_type:
  assumes "maps_ok g" "acm_ok q" "mtlk_qos_get_ac g c q nb = (ac, nb')"
  shows "ac = AC_INVALID \<or> ac < NTS_PRIORITIES"
    and "ac \<noteq> AC_INVALID \<Longrightarrow> nb_priority nb' = of_nat (mtlk_qos_get_tid_by_ac g ac)"
proof -
  from assms(3) obtain p nb1 where d: "ac = acm_substitution q ! (wmm_aci_class_for_map g ! (p mod 8))"
      "nb' = (if ac \<noteq> AC_INVALID then nb1\<lparr>nb_priority := of_nat (mtlk_qos_get_tid_by_ac g ac)\<rparr> else nb1)"
    by (auto simp: mtlk_qos_get_ac_def acm_adjust_ac_def qos_map_ac_by_tid_def Let_def split: prod.splits)
  have "wmm_aci_class_for_map g ! (p mod 8) \<in> set (wmm_aci_class_for_map g)"
    using assms(1) by (intro nth_mem) (simp add: maps_ok_def NTS_TIDS_def)
  then have "wmm_aci_class_for_map g ! (p mod 8) < NTS_PRIORITIES" using assms(1) by (auto simp: maps_ok_def)
  then have "ac \<in> set (acm_substitution q)" using assms(2) by (simp add: d(1) acm_ok_def)
  then show "ac = AC_INVALID \<or> ac < NTS_PRIORITIES" using assms(2) by (auto simp: acm_ok_def)
  show "nb_priority nb' = of_nat (mtlk_qos_get_tid_by_ac g ac)" if "ac \<noteq> AC_INVALID"
    using that d(2) by simp
qed

lemma unat_tid: "maps_ok g \<Longrightarrow> ac < NTS_PRIORITIES \<Longrightarrow>
  unat (of_nat (mtlk_qos_get_tid_by_ac g ac) :: u32) = mtlk_qos_get_tid_by_ac g ac"
  by (auto simp: maps_ok_def NTS_TIDS_def unat_of_nat take_bit_eq_mod dest!: spec [of _ ac])


definition wit_ip6 :: qos_nbuf where
  "wit_ip6 = \<lparr>nb_data = replicate 12 0 @ [0x86, 0xDD, 0x6B, 0x80], nb_priority = 0\<rparr>"

definition wit_qos :: "qos_maps \<times> mtlk_qos" where
  "wit_qos = foldl qos_step qos_start [QosSetMap 101, QosSetAcm [1, 0, 0, 0]]"

lemma wit_qos_acm: "acm_substitution (snd wit_qos) = [1, 1, 2, 3]"
  by (simp add: wit_qos_def qos_start_def mtlk_qos_init_def mtlk_qos_set_acm_bits_def upt_4 acm_iter_def Let_def ac_defs
      mtlk_get_ac_by_number_def reset_acm_bits_unsafe_def mtlk_qos_reset_acm_bits_def)

lemma wit_qos_map: "wmm_aci_class_for_map (fst wit_qos) = wmm_aci_class_8021Q_inverted_vi_be"
  by (simp add: wit_qos_def qos_start_def mtlk_qos_init_def mtlk_qos_set_map_def USE_80211_MAP_def USE_8021Q_MAP_def
      USE_80211_MAP_INVERTED_VI_BE_def USE_8021Q_MAP_INVERTED_VI_BE_def)

lemma wit_ip6_priority: "qos_get_priority_from_tos wit_ip6 = Some 5"
  by (simp add: qos_get_priority_from_tos_def mtlk_df_nbuf_read_def wit_ip6_def net16_def get_ip6_tos_def)

lemma wit_ip6_ac: "fst (mtlk_qos_get_ac (fst wit_qos) None (snd wit_qos) wit_ip6) = AC_VO"
  by (simp add: mtlk_qos_get_ac_def wit_ip6_priority Let_def qos_map_ac_by_tid_def wit_qos_map wit_qos_acm
      acm_adjust_ac_def qos_table_defs ac_defs)


text \<open>
  Changing the map under queued packets. The tables are shared by all virtual APs, and
  initialising one of them selects the 802.11 map again. A video packet classified under the 802.11 map
  has TID 5; if the map is changed to 802.1Q while it waits, it is counted as voice from then on.
  Every other category, and every packet classified under 802.1Q, keeps its category. The user's
  choice of a map is lost with the next virtual AP, whether or not that initialisation succeeds.
\<close>

lemma qos_map_change_misfiles:
  fixes g :: qos_maps
  defines "g1 \<equiv> fst (mtlk_qos_set_map g USE_80211_MAP)" and "g2 \<equiv> fst (mtlk_qos_set_map g USE_8021Q_MAP)"
  shows "mtlk_qos_get_ac_by_tid g2 (mtlk_qos_get_tid_by_ac g1 AC_VI) = AC_VO"
    and "mtlk_qos_get_ac_by_tid g1 (mtlk_qos_get_tid_by_ac g2 AC_VI) = AC_VI"
    and "\<And>ac. ac < NTS_PRIORITIES \<Longrightarrow> ac \<noteq> AC_VI \<Longrightarrow> mtlk_qos_get_ac_by_tid g2 (mtlk_qos_get_tid_by_ac g1 ac) = ac"
    and "\<And>q e. mtlk_qos_get_map (fst (mtlk_qos_init g2 q e)) = USE_80211_MAP \<and>
       \<not> mtlk_qos_is_map_8021Q_based (fst (mtlk_qos_init g2 q e))"
proof -
  have m1: "g1 = \<lparr>map_type = 0, wmm_aci_class = wmm_aci_class_80211, wmm_aci_class_for_map = wmm_aci_class_80211,
     wmm_ac_to_tid_mapping = wmm_ac_to_tid_mapping_80211\<rparr>" for g :: qos_maps
    by (simp add: g1_def mtlk_qos_set_map_def USE_80211_MAP_def)
  have m2: "g2 = \<lparr>map_type = 1, wmm_aci_class = wmm_aci_class_8021Q, wmm_aci_class_for_map = wmm_aci_class_8021Q,
     wmm_ac_to_tid_mapping = wmm_ac_to_tid_mapping_8021Q\<rparr>"
    by (simp add: g2_def mtlk_qos_set_map_def USE_80211_MAP_def USE_8021Q_MAP_def)
  show "mtlk_qos_get_ac_by_tid g2 (mtlk_qos_get_tid_by_ac g1 AC_VI) = AC_VO"
    and "mtlk_qos_get_ac_by_tid g1 (mtlk_qos_get_tid_by_ac g2 AC_VI) = AC_VI"
    by (simp_all add: m1 m2 qos_tid_defs qos_table_defs ac_defs)
  show "mtlk_qos_get_ac_by_tid g2 (mtlk_qos_get_tid_by_ac g1 ac) = ac" if "ac < NTS_PRIORITIES" "ac \<noteq> AC_VI" for ac
    using that less_4_cases [of ac] by (auto simp: m1 m2 qos_tid_defs qos_table_defs ac_defs)
  show "mtlk_qos_get_map (fst (mtlk_qos_init g2 q e)) = USE_80211_MAP \<and>
       \<not> mtlk_qos_is_map_8021Q_based (fst (mtlk_qos_init g2 q e))" for q e
    by (simp add: mtlk_qos_init_def mtlk_qos_set_map_def mtlk_qos_get_map_def mtlk_qos_is_map_8021Q_based_def
      USE_80211_MAP_def USE_8021Q_MAP_def USE_8021Q_MAP_INVERTED_VI_BE_def)
qed

end
