(* ===== verification/Mcast.thy ===== *)
theory Mcast
  imports Qos "HOL-Library.Monad_Syntax"
begin

text \<open>
  Reliable multicast (\<^verbatim>\<open>wireless/driver/linux/mcast.c\<close>, \<^verbatim>\<open>mcast.h\<close>): the access point listens to the
  IGMP and MLD reports of its stations, keeps the members of each group in two hash tables, and
  sends a packet for a group to every member.

  \<^item> A bucket is the list of its groups, a group its address and the list of its stations, in the
    order of the pointers. Stations are handles. The functions for IPv4 and IPv6 are the same up to
    address, hash and link local range, which are arguments of the shared definitions.
  \<^item> A packet is a list of bytes. The parsers do not check its length; reading beyond the end is
    the value \<open>None\<close>.
  \<^item> The outcomes of the allocations are arguments.
\<close>

section \<open>Groups\<close>

definition MCAST_HASH_SIZE :: nat where "MCAST_HASH_SIZE = 64"

type_synonym 'a mc_tab = "nat \<Rightarrow> ('a \<times> nat list) list"
type_synonym ip6 = "u32 \<times> u32 \<times> u32 \<times> u32"

record mcast_ctx =
  mcast_ip4_hash :: "u32 mc_tab"
  mcast_ip6_hash :: "ip6 mc_tab"

definition MCAST_HASH :: "u32 \<Rightarrow> nat" where
  "MCAST_HASH ip = unat (and ip (of_nat (MCAST_HASH_SIZE - 1)))"

definition mc_local4 :: "u32 \<Rightarrow> bool" where
  "mc_local4 a \<longleftrightarrow> and a 0xFFFFFF00 = 0xE0000000"

definition mc_local6 :: "ip6 \<Rightarrow> bool" where
  "mc_local6 a \<longleftrightarrow> and (fst a) 0xFF0F0000 = 0xFF020000"

definition mc_hash6 :: "ip6 \<Rightarrow> nat" where
  "mc_hash6 a = (case a of (_, _, _, w) \<Rightarrow> MCAST_HASH w)"

definition mc_find :: "('a \<Rightarrow> nat) \<Rightarrow> 'a mc_tab \<Rightarrow> 'a \<Rightarrow> nat list option" where
  "mc_find h tab a = map_option snd (find (\<lambda>g. fst g = a) (tab (h a)))"

text \<open>Writing the station list of a group, and taking a group out of its bucket.\<close>

fun mc_put :: "'a \<Rightarrow> nat list \<Rightarrow> ('a \<times> nat list) list \<Rightarrow> ('a \<times> nat list) list" where
  "mc_put a ms [] = []"
| "mc_put a ms (g # gs) = (if fst g = a then (a, ms) # gs else g # mc_put a ms gs)"

fun mc_unlink :: "'a \<Rightarrow> ('a \<times> nat list) list \<Rightarrow> ('a \<times> nat list) list" where
  "mc_unlink a [] = []"
| "mc_unlink a (g # gs) = (if fst g = a then gs else g # mc_unlink a gs)"

text \<open>\<open>mem\<close>: whether the allocations of a group and of a member succeed.\<close>

definition mc_add :: "('a \<Rightarrow> nat) \<Rightarrow> ('a \<Rightarrow> bool) \<Rightarrow> bool \<times> bool \<Rightarrow> 'a mc_tab \<Rightarrow> nat option \<Rightarrow> 'a \<Rightarrow> 'a mc_tab \<times> bool" where
  "mc_add h loc mem tab sta a =
     (case sta of None \<Rightarrow> (tab, False)
      | Some s \<Rightarrow>
          if loc a then (tab, False)
          else
            (case (case mc_find h tab a of
                     Some ms \<Rightarrow> Some (tab, ms)
                   | None \<Rightarrow> if fst mem then Some (tab(h a := (a, []) # tab (h a)), []) else None) of
               None \<Rightarrow> (tab, False)
             | Some (tab1, ms) \<Rightarrow>
                 if s \<in> set ms then (tab1, False)
                 else if \<not> snd mem then (tab1, False)
                 else (tab1(h a := mc_put a (s # ms) (tab1 (h a))), True)))"

definition mc_del_gr :: "('a \<Rightarrow> nat) \<Rightarrow> 'a mc_tab \<Rightarrow> 'a \<Rightarrow> 'a mc_tab" where
  "mc_del_gr h tab a = tab(h a := mc_unlink a (tab (h a)))"

definition mc_del :: "('a \<Rightarrow> nat) \<Rightarrow> 'a mc_tab \<Rightarrow> nat option \<Rightarrow> 'a \<Rightarrow> 'a mc_tab \<times> bool" where
  "mc_del h tab sta a =
     (case mc_find h tab a of None \<Rightarrow> (tab, False)
      | Some ms \<Rightarrow>
          (case sta of None \<Rightarrow> (tab, False)
           | Some s \<Rightarrow>
               if s \<notin> set ms then (tab, False)
               else let ms' = remove1 s ms; tab1 = tab(h a := mc_put a ms' (tab (h a)))
                 in (if ms' = [] then mc_del_gr h tab1 a else tab1, True)))"

definition add_ip4_sta :: "bool \<times> bool \<Rightarrow> mcast_ctx \<Rightarrow> nat option \<Rightarrow> u32 \<Rightarrow> mcast_ctx \<times> bool" where
  "add_ip4_sta mem c sta a =
     (let (t, r) = mc_add MCAST_HASH mc_local4 mem (mcast_ip4_hash c) sta a in (c\<lparr>mcast_ip4_hash := t\<rparr>, r))"

definition del_ip4_sta :: "mcast_ctx \<Rightarrow> nat option \<Rightarrow> u32 \<Rightarrow> mcast_ctx \<times> bool" where
  "del_ip4_sta c sta a = (let (t, r) = mc_del MCAST_HASH (mcast_ip4_hash c) sta a in (c\<lparr>mcast_ip4_hash := t\<rparr>, r))"

definition find_ip4_gr :: "mcast_ctx \<Rightarrow> u32 \<Rightarrow> nat list option" where
  "find_ip4_gr c a = mc_find MCAST_HASH (mcast_ip4_hash c) a"

definition add_ip6_sta :: "bool \<times> bool \<Rightarrow> mcast_ctx \<Rightarrow> nat option \<Rightarrow> ip6 \<Rightarrow> mcast_ctx \<times> bool" where
  "add_ip6_sta mem c sta a =
     (let (t, r) = mc_add mc_hash6 mc_local6 mem (mcast_ip6_hash c) sta a in (c\<lparr>mcast_ip6_hash := t\<rparr>, r))"

definition del_ip6_sta :: "mcast_ctx \<Rightarrow> nat option \<Rightarrow> ip6 \<Rightarrow> mcast_ctx \<times> bool" where
  "del_ip6_sta c sta a = (let (t, r) = mc_del mc_hash6 (mcast_ip6_hash c) sta a in (c\<lparr>mcast_ip6_hash := t\<rparr>, r))"

definition find_ip6_gr :: "mcast_ctx \<Rightarrow> ip6 \<Rightarrow> nat list option" where
  "find_ip6_gr c a = mc_find mc_hash6 (mcast_ip6_hash c) a"

definition mtlk_mc_init :: mcast_ctx where
  "mtlk_mc_init = \<lparr>mcast_ip4_hash = (\<lambda>_. []), mcast_ip6_hash = (\<lambda>_. [])\<rparr>"

text \<open>
  A station leaves: in every group the first member with its MAC address (predicate \<open>P\<close>) is removed,
  and a group that becomes empty by this is unlinked.
\<close>

fun mc_rem_first :: "(nat \<Rightarrow> bool) \<Rightarrow> nat list \<Rightarrow> nat list option" where
  "mc_rem_first P [] = None"
| "mc_rem_first P (m # ms) = (if P m then Some ms else map_option ((#) m) (mc_rem_first P ms))"

fun mc_drop_bucket :: "(nat \<Rightarrow> bool) \<Rightarrow> ('a \<times> nat list) list \<Rightarrow> ('a \<times> nat list) list" where
  "mc_drop_bucket P [] = []"
| "mc_drop_bucket P (g # gs) =
     (case mc_rem_first P (snd g) of
        None \<Rightarrow> g # mc_drop_bucket P gs
      | Some ms \<Rightarrow> if ms = [] then mc_drop_bucket P gs else (fst g, ms) # mc_drop_bucket P gs)"

definition mc_drop_tab :: "(nat \<Rightarrow> bool) \<Rightarrow> 'a mc_tab \<Rightarrow> 'a mc_tab" where
  "mc_drop_tab P tab = (\<lambda>i. if i < MCAST_HASH_SIZE then mc_drop_bucket P (tab i) else tab i)"

definition mtlk_mc_drop_sta :: "bool \<Rightarrow> (nat \<Rightarrow> nat) \<Rightarrow> nat \<Rightarrow> mcast_ctx \<Rightarrow> mcast_ctx" where
  "mtlk_mc_drop_sta is_ap mac_of mac c =
     (if \<not> is_ap then c
      else c\<lparr>mcast_ip4_hash := mc_drop_tab (\<lambda>s. mac_of s = mac) (mcast_ip4_hash c),
             mcast_ip6_hash := mc_drop_tab (\<lambda>s. mac_of s = mac) (mcast_ip6_hash c)\<rparr>)"

section \<open>Parsing reports\<close>

definition rd8 :: "u8 list \<Rightarrow> nat \<Rightarrow> nat option" where
  "rd8 b i = (if i < length b then Some (unat (b ! i)) else None)"

definition rd16 :: "u8 list \<Rightarrow> nat \<Rightarrow> nat option" where
  "rd16 b i = (if i + 1 < length b then Some (unat (net16 (drop i b))) else None)"

definition net32 :: "u8 list \<Rightarrow> u32" where
  "net32 b = of_nat (((unat (b ! 0) * 256 + unat (b ! 1)) * 256 + unat (b ! 2)) * 256 + unat (b ! 3))"

definition rd32 :: "u8 list \<Rightarrow> nat \<Rightarrow> u32 option" where
  "rd32 b i = (if i + 3 < length b then Some (net32 (drop i b)) else None)"

definition rd_ip6 :: "u8 list \<Rightarrow> nat \<Rightarrow> ip6 option" where
  "rd_ip6 b i = do {w0 \<leftarrow> rd32 b i; w1 \<leftarrow> rd32 b (i + 4); w2 \<leftarrow> rd32 b (i + 8); w3 \<leftarrow> rd32 b (i + 12); Some (w0, w1, w2, w3)}"

text \<open>
  The records of a version 3 report (IGMPv3) or a version 2 report (MLDv2); \<open>alen\<close> is the size of
  an address, \<open>add\<close> and \<open>del\<close> the functions of the protocol.
\<close>

definition grec_apply ::
  "('c \<Rightarrow> 'a \<Rightarrow> 'c) \<Rightarrow> ('c \<Rightarrow> 'a \<Rightarrow> 'c) \<Rightarrow> nat \<Rightarrow> nat \<Rightarrow> 'a \<Rightarrow> 'c \<Rightarrow> 'c" where
  "grec_apply add del ty nsrcs a c =
     (if ty = 1 \<or> ty = 3 then (if nsrcs = 0 then del c a else c)
      else if ty = 2 \<or> ty = 4 then add c a
      else c)"

fun grec_loop ::
  "(u8 list \<Rightarrow> nat \<Rightarrow> 'a option) \<Rightarrow> nat \<Rightarrow> ('c \<Rightarrow> 'a \<Rightarrow> 'c) \<Rightarrow> ('c \<Rightarrow> 'a \<Rightarrow> 'c) \<Rightarrow> u8 list \<Rightarrow> nat \<Rightarrow> nat \<Rightarrow> 'c \<Rightarrow> 'c option" where
  "grec_loop rda alen add del b 0 pos c = Some c"
| "grec_loop rda alen add del b (Suc n) pos c =
     do {nsrcs \<leftarrow> rd16 b (pos + 2);
         a \<leftarrow> rda b (pos + 4);
         ty \<leftarrow> rd8 b pos;
         aux \<leftarrow> rd8 b (pos + 1);
         grec_loop rda alen add del b n (pos + (4 + alen) + alen * nsrcs + 4 * aux) (grec_apply add del ty nsrcs a c)}"

definition parse_igmp :: "bool \<times> bool \<Rightarrow> mcast_ctx \<Rightarrow> u8 list \<Rightarrow> nat \<Rightarrow> nat option \<Rightarrow> mcast_ctx option" where
  "parse_igmp mem c b off sta =
     do {grp \<leftarrow> rd32 b (off + 4);
         ty \<leftarrow> rd8 b off;
         if ty = 0x12 \<or> ty = 0x16 then Some (fst (add_ip4_sta mem c sta grp))
         else if ty = 0x17 then Some (fst (del_ip4_sta c sta grp))
         else if ty = 0x22 then
           do {n \<leftarrow> rd16 b (off + 6);
               grec_loop rd32 4 (\<lambda>c a. fst (add_ip4_sta mem c sta a)) (\<lambda>c a. fst (del_ip4_sta c sta a)) b n (off + 8) c}
         else Some c}"

definition parse_icmp6 :: "bool \<times> bool \<Rightarrow> mcast_ctx \<Rightarrow> u8 list \<Rightarrow> nat \<Rightarrow> nat option \<Rightarrow> mcast_ctx option" where
  "parse_icmp6 mem c b off sta =
     do {grp \<leftarrow> rd_ip6 b (off + 8);
         ty \<leftarrow> rd8 b off;
         if ty = 131 then Some (fst (add_ip6_sta mem c sta grp))
         else if ty = 132 then Some (fst (del_ip6_sta c sta grp))
         else if ty = 143 then
           do {n \<leftarrow> rd16 b (off + 6);
               grec_loop rd_ip6 16 (\<lambda>c a. fst (add_ip6_sta mem c sta a)) (\<lambda>c a. fst (del_ip6_sta c sta a)) b n (off + 8) c}
         else Some c}"

text \<open>
  \<^verbatim>\<open>mtlk_mc_parse\<close> on an Ethernet frame: IGMP in an IPv4 packet, or MLD behind a hop-by-hop header
  with a router alert option. The result is \<open>-1\<close> unless a parser was called.
\<close>

definition mtlk_mc_parse :: "bool \<Rightarrow> bool \<times> bool \<Rightarrow> mcast_ctx \<Rightarrow> u8 list \<Rightarrow> nat option \<Rightarrow> (mcast_ctx \<times> int) option" where
  "mtlk_mc_parse is_ap mem c b sta =
     (if sta = None \<or> \<not> is_ap then Some (c, -1)
      else do {
        proto \<leftarrow> rd16 b 12;
        if proto = 0x0800 then
          do {p \<leftarrow> rd8 b (14 + 9);
              if p = 2 then
                do {ihl \<leftarrow> rd8 b 14;
                    c' \<leftarrow> parse_igmp mem c b (14 + 4 * (ihl mod 16)) sta;
                    Some (c', 0)}
              else Some (c, -1)}
        else if proto = 0x86DD then
          do {hl \<leftarrow> rd8 b 55;
              nh \<leftarrow> rd8 b (14 + 6);
              if nh \<noteq> 0 then Some (c, -1)
              else do {opt \<leftarrow> rd16 b 56;
                if opt \<noteq> 0x0502 then Some (c, -1)
                else do {ra \<leftarrow> rd16 b 58;
                  if ra \<noteq> 0 then Some (c, -1)
                  else do {hnh \<leftarrow> rd8 b 54;
                    if hnh \<noteq> 58 then Some (c, -1)
                    else do {
                      c' \<leftarrow> parse_icmp6 mem c b (54 + 8 * (hl + 1)) sta;
                      Some (c', 0)}}}}}
        else Some (c, -1)})"

section \<open>Transmission\<close>

text \<open>Where \<^verbatim>\<open>mtlk_mc_transmit\<close> sends a packet, up to the point where packets are queued.\<close>

datatype mc_route = McUnicast nat | McDrop | McPlain | McGroup "nat list"

datatype mc_kind = KUnicast "nat option" | KBroadcast | KMulticast

definition mc_route_of :: "bool \<Rightarrow> bool \<Rightarrow> mcast_ctx \<Rightarrow> mc_kind \<Rightarrow> u8 list \<Rightarrow> mc_route option" where
  "mc_route_of reliable is_ap c kind b =
     (case kind of
        KUnicast (Some sta) \<Rightarrow> Some (McUnicast sta)
      | KUnicast None \<Rightarrow> Some McDrop
      | KBroadcast \<Rightarrow> Some McPlain
      | KMulticast \<Rightarrow>
          if \<not> reliable \<or> \<not> is_ap then Some McPlain
          else do {
            proto \<leftarrow> rd16 b 12;
            if proto = 0x0800 then
              do {a \<leftarrow> rd32 b (14 + 16);
                  Some (if mc_local4 a then McPlain else case find_ip4_gr c a of None \<Rightarrow> McDrop | Some ms \<Rightarrow> McGroup ms)}
            else if proto = 0x86DD then
              do {a \<leftarrow> rd_ip6 b (14 + 24);
                  Some (if mc_local6 a then McPlain else case find_ip6_gr c a of None \<Rightarrow> McDrop | Some ms \<Rightarrow> McGroup ms)}
            else Some McPlain})"

text \<open>
  The whole function: \<open>peer\<close> is the queue of a station, \<open>bcast\<close> that of broadcast packets, \<open>x\<close> the
  shared record for clones if memory is left, \<open>ok\<close> which clones can be allocated. On an access point
  that bridges wirelessly, \<open>wds\<close> is the list of peer access points with their stations, if
  connected, and the number of stations: broadcast and plain multicast packets are cloned to the
  peers, and the original is dropped if there is no other station.
\<close>

definition mtlk_mc_transmit ::
  "qos_maps \<Rightarrow> (nat \<Rightarrow> nat) \<Rightarrow> nat \<Rightarrow> (nat option list \<times> nat) option \<Rightarrow> nat option \<Rightarrow> (nat \<Rightarrow> bool) \<Rightarrow> nat option \<Rightarrow>
   mtlk_sq_t \<Rightarrow> mc_route \<Rightarrow> nat \<Rightarrow> sq_pkt \<Rightarrow> mtlk_sq_t \<times> mtlk_error_t" where
  "mtlk_mc_transmit g peer bcast wds x ok src s route tid k =
     (let ac = mtlk_qos_get_ac_by_tid g tid;
          clones = (\<lambda>ms. mc_transmit_group s ac k x (map (\<lambda>m. (peer m, ok m)) (filter (\<lambda>m. src \<noteq> Some m) ms)))
      in case route of
        McDrop \<Rightarrow> (s, MTLK_ERR_OK)
      | McGroup ms \<Rightarrow> (clones ms, MTLK_ERR_OK)
      | McUnicast sta \<Rightarrow> mtlk_sq_enqueue s ac False (peer sta) k
      | McPlain \<Rightarrow>
          (case wds of
             None \<Rightarrow> mtlk_sq_enqueue s ac False bcast k
           | Some (peers, sta_cnt) \<Rightarrow>
               let s1 = clones (somes peers) in
               if sta_cnt = length (somes peers) then (s1, MTLK_ERR_OK)
               else mtlk_sq_enqueue s1 ac False bcast k))"

section \<open>Restoring group addresses\<close>

text \<open>
  \<^verbatim>\<open>mtlk_mc_restore_mac\<close> writes the Ethernet group address that belongs to the IP destination.
  The tests of the kernel on addresses are arguments. The byte order of the processor decides what
  the byte view of a converted IPv6 address holds; \<open>big\<close> is big-endian.
\<close>

definition word_bytes :: "u32 \<Rightarrow> u8 list" where
  "word_bytes w = [ucast (drop_bit 24 w), ucast (drop_bit 16 w), ucast (drop_bit 8 w), ucast w]"

definition mc_restore4 :: "(u32 \<Rightarrow> bool) \<Rightarrow> (u32 \<Rightarrow> bool) \<Rightarrow> u8 list \<Rightarrow> u8 list option" where
  "mc_restore4 ipv4_is_multicast ipv4_is_local_multicast b =
     do {a \<leftarrow> rd32 b (14 + 16);
         if \<not> ipv4_is_multicast a \<or> ipv4_is_local_multicast a then Some b
         else Some ([0x01, 0x00, 0x5E, and (ucast (drop_bit 16 a)) 0x7F, ucast (drop_bit 8 a), ucast a] @ drop 6 b)}"

definition mc_restore6 :: "(ip6 \<Rightarrow> bool) \<Rightarrow> bool \<Rightarrow> u8 list \<Rightarrow> u8 list option" where
  "mc_restore6 ipv6_addr_is_multicast big b =
     do {a \<leftarrow> rd_ip6 b (14 + 24);
         if ipv6_addr_is_multicast a then Some b
         else if mc_local6 a then Some b
         else let w = word_bytes (snd (snd (snd a))) in
           Some ([0x33, 0x33] @ (if big then w else rev w) @ drop 6 b)}"

definition mtlk_mc_restore_mac ::
  "(u32 \<Rightarrow> bool) \<Rightarrow> (u32 \<Rightarrow> bool) \<Rightarrow> (ip6 \<Rightarrow> bool) \<Rightarrow> bool \<Rightarrow> u8 list \<Rightarrow> u8 list option" where
  "mtlk_mc_restore_mac ipv4_is_multicast ipv4_is_local_multicast ipv6_addr_is_multicast big b =
     do {proto \<leftarrow> rd16 b 12;
         if proto = 0x0800 then mc_restore4 ipv4_is_multicast ipv4_is_local_multicast b
         else if proto = 0x86DD then mc_restore6 ipv6_addr_is_multicast big b else Some b}"

end
