(* ===== verification/Mcast_Props.thy ===== *)
theory Mcast_Props
  imports Mcast Sq_Props
begin

text \<open>
  Properties of reliable multicast: the hash tables hold exactly the memberships that the reports
  ask for, reports are parsed back from their bytes, packets for a group go to its members, and
  what the parsers and the restoring of addresses do wrong.
\<close>

section \<open>Hash tables as membership\<close>

text \<open>The abstract view of a table: the stations of each group.\<close>

definition mc_members :: "('a \<Rightarrow> nat) \<Rightarrow> 'a mc_tab \<Rightarrow> 'a \<Rightarrow> nat set" where
  "mc_members h tab a = (case mc_find h tab a of None \<Rightarrow> {} | Some ms \<Rightarrow> set ms)"

definition bucket_ok :: "('a \<times> nat list) list \<Rightarrow> bool" where
  "bucket_ok gs \<longleftrightarrow> distinct (map fst gs) \<and> (\<forall>g\<in>set gs. snd g \<noteq> [] \<and> distinct (snd g))"

definition tab_ok :: "('a \<Rightarrow> nat) \<Rightarrow> 'a mc_tab \<Rightarrow> bool" where
  "tab_ok h tab \<longleftrightarrow> (\<forall>i. bucket_ok (tab i) \<and> (\<forall>g\<in>set (tab i). h (fst g) = i))"

lemma tab_okD: "tab_ok h tab \<Longrightarrow> g \<in> set (tab i) \<Longrightarrow> snd g \<noteq> [] \<and> distinct (snd g) \<and> h (fst g) = i"
  unfolding tab_ok_def bucket_ok_def by blast

lemma tab_ok_distinct: "tab_ok h tab \<Longrightarrow> distinct (map fst (tab i))"
  by (simp add: tab_ok_def bucket_ok_def)

lemma tab_ok_upd:
  assumes "tab_ok h tab" "distinct (map fst gs)" "\<And>g. g \<in> set gs \<Longrightarrow> snd g \<noteq> [] \<and> distinct (snd g) \<and> h (fst g) = i"
  shows "tab_ok h (tab(i := gs))"
  using assms by (simp add: tab_ok_def bucket_ok_def)

lemma find_put: "find (\<lambda>g. fst g = a') (mc_put a ms gs) =
  (if a' = a then map_option (\<lambda>g. (a, ms)) (find (\<lambda>g. fst g = a) gs) else find (\<lambda>g. fst g = a') gs)"
  by (induction gs) auto

lemma find_unlink: "distinct (map fst gs) \<Longrightarrow> find (\<lambda>g. fst g = a') (mc_unlink a gs) = (if a' = a then None else find (\<lambda>g. fst g = a') gs)"
proof (induction gs)
  case (Cons g gs)
  then show ?case by (auto simp: find_None_iff image_iff)
qed simp

lemma put_set: "set (mc_put a ms gs) \<subseteq> insert (a, ms) (set gs)"
  by (induction gs) auto

lemma put_fst: "map fst (mc_put a ms gs) = map fst gs"
  by (induction gs) auto

lemma unlink_set: "set (mc_unlink a gs) \<subseteq> set gs" "distinct (map fst gs) \<Longrightarrow> distinct (map fst (mc_unlink a gs))"
  by (induction gs) (auto dest: subsetD)

lemma find_fst: "find (\<lambda>g. fst g = a) gs = Some g \<Longrightarrow> fst g = a \<and> g \<in> set gs"
  by (auto simp: find_Some_iff in_set_conv_nth)

lemma find_tab_ok: "tab_ok h tab \<Longrightarrow> mc_find h tab a = Some ms \<Longrightarrow> ms \<noteq> [] \<and> distinct ms"
proof -
  assume t: "tab_ok h tab" and "mc_find h tab a = Some ms"
  then obtain g where "find (\<lambda>g. fst g = a) (tab (h a)) = Some g" "ms = snd g" by (auto simp: mc_find_def)
  with find_fst [of a "tab (h a)" g] tab_okD [OF t, of g "h a"] show ?thesis by simp
qed

lemma members_upd:
  assumes "\<And>a'. mc_find h t a' = (if a' = a then x else mc_find h tab a')"
  shows "mc_members h t = (mc_members h tab)(a := case x of None \<Rightarrow> {} | Some ms \<Rightarrow> set ms)"
  by (rule ext) (simp add: mc_members_def assms)

lemma put_tab_ok:
  assumes "tab_ok h tab" "ms \<noteq> []" "distinct ms" "mc_find h tab a = Some ms0"
  shows "tab_ok h (tab(h a := mc_put a ms (tab (h a))))"
proof (rule tab_ok_upd [OF assms(1)])
  show "distinct (map fst (mc_put a ms (tab (h a))))" using tab_ok_distinct [OF assms(1)] by (simp add: put_fst)
  show "snd g \<noteq> [] \<and> distinct (snd g) \<and> h (fst g) = h a" if "g \<in> set (mc_put a ms (tab (h a)))" for g
    using that put_set [of a ms "tab (h a)"] tab_okD [OF assms(1), of g "h a"] assms(2,3) by fastforce
qed

lemma find_upd: "mc_find h (tab(h a := gs)) a' = (if h a' = h a then map_option snd (find (\<lambda>g. fst g = a') gs) else mc_find h tab a')"
  by (simp add: mc_find_def)

lemma find_put_tab:
  assumes "mc_find h tab a = Some ms0"
  shows "mc_find h (tab(h a := mc_put a ms (tab (h a)))) a' = (if a' = a then Some ms else mc_find h tab a')"
  using assms by (auto simp: find_upd find_put mc_find_def)

lemma add_members:
  assumes ok: "tab_ok h tab"
  shows "mc_add h loc (True, True) tab sta a = (t, r) \<Longrightarrow> tab_ok h t"
    and "mc_add h loc (True, True) tab sta a = (t, r) \<Longrightarrow>
      mc_members h t = (mc_members h tab)(a := mc_members h tab a \<union> (if loc a then {} else set_option sta))"
    and "mc_add h loc (True, True) tab sta a = (t, r) \<Longrightarrow> r \<longleftrightarrow> (\<exists>s. sta = Some s \<and> \<not> loc a \<and> s \<notin> mc_members h tab a)"
proof -
  have "tab_ok h t \<and> mc_members h t = (mc_members h tab)(a := mc_members h tab a \<union> (if loc a then {} else set_option sta)) \<and>
      (r \<longleftrightarrow> (\<exists>s. sta = Some s \<and> \<not> loc a \<and> s \<notin> mc_members h tab a))"
    if eq: "mc_add h loc (True, True) tab sta a = (t, r)"
  proof (cases "sta = None \<or> loc a")
    case True
    then show ?thesis using eq ok by (cases sta) (auto simp: mc_add_def)
  next
    case False
    then obtain s where s: "sta = Some s" "\<not> loc a" by (cases sta) auto
    show ?thesis
    proof (cases "mc_find h tab a")
      case None
      let ?gs = "(a, []) # tab (h a)"
      have t: "t = tab(h a := (a, [s]) # tab (h a))" "r" using eq s None by (auto simp: mc_add_def)
      have na: "a \<notin> fst ` set (tab (h a))" using None by (auto simp: mc_find_def find_None_iff)
      have "tab_ok h t" using ok na by (auto simp: t tab_ok_def bucket_ok_def)
      moreover have "mc_find h t a' = (if a' = a then Some [s] else mc_find h tab a')" for a'
        by (auto simp: t find_upd) (auto simp: mc_find_def)
      then have "mc_members h t = (mc_members h tab)(a := {s})" using members_upd [of h t a "Some [s]" tab] by simp
      moreover have "mc_members h tab a = {}" using None by (simp add: mc_members_def)
      ultimately show ?thesis using s t(2) by simp
    next
      case (Some ms)
      show ?thesis
      proof (cases "s \<in> set ms")
        case True
        then have "t = tab" "\<not> r" using eq s Some by (auto simp: mc_add_def)
        moreover have "s \<in> mc_members h tab a" using True Some by (simp add: mc_members_def)
        ultimately show ?thesis using s ok by (auto simp: insert_absorb)
      next
        case False
        then have t: "t = tab(h a := mc_put a (s # ms) (tab (h a)))" "r" using eq s Some by (auto simp: mc_add_def)
        have "tab_ok h t" unfolding t using put_tab_ok [OF ok, of "s # ms" a ms] find_tab_ok [OF ok Some] False Some by simp
        moreover have "mc_members h t = (mc_members h tab)(a := insert s (set ms))"
          using members_upd [of h t a "Some (s # ms)" tab] find_put_tab [OF Some, of "s # ms"] t by simp
        moreover have "mc_members h tab a = set ms" using Some by (simp add: mc_members_def)
        ultimately show ?thesis using s t(2) False by simp
      qed
    qed
  qed
  then show "mc_add h loc (True, True) tab sta a = (t, r) \<Longrightarrow> tab_ok h t"
    and "mc_add h loc (True, True) tab sta a = (t, r) \<Longrightarrow>
      mc_members h t = (mc_members h tab)(a := mc_members h tab a \<union> (if loc a then {} else set_option sta))"
    and "mc_add h loc (True, True) tab sta a = (t, r) \<Longrightarrow> r \<longleftrightarrow> (\<exists>s. sta = Some s \<and> \<not> loc a \<and> s \<notin> mc_members h tab a)"
    by blast+
qed

lemma del_members:
  assumes ok: "tab_ok h tab" and eq: "mc_del h tab sta a = (t, r)"
  shows "tab_ok h t" "mc_members h t = (mc_members h tab)(a := mc_members h tab a - set_option sta)"
    and "r \<longleftrightarrow> (\<exists>s. sta = Some s \<and> s \<in> mc_members h tab a)"
proof -
  have "tab_ok h t \<and> mc_members h t = (mc_members h tab)(a := mc_members h tab a - set_option sta) \<and>
      (r \<longleftrightarrow> (\<exists>s. sta = Some s \<and> s \<in> mc_members h tab a))"
  proof (cases "\<exists>ms s. mc_find h tab a = Some ms \<and> sta = Some s \<and> s \<in> set ms")
    case False
    then have "t = tab" "\<not> r" using eq by (auto simp: mc_del_def split: option.splits if_splits)
    moreover have "s \<notin> mc_members h tab a" if "sta = Some s" for s
      using False that by (auto simp: mc_members_def split: option.splits)
    ultimately show ?thesis using ok by (cases sta) auto
  next
    case True
    then obtain ms s where m: "mc_find h tab a = Some ms" "sta = Some s" "s \<in> set ms" by blast
    note d = find_tab_ok [OF ok m(1)]
    let ?ms = "remove1 s ms"
    let ?t1 = "tab(h a := mc_put a ?ms (tab (h a)))"
    have t: "t = (if ?ms = [] then mc_del_gr h ?t1 a else ?t1)" "r" using eq m by (simp_all add: mc_del_def Let_def)
    have f1: "mc_find h ?t1 a' = (if a' = a then Some ?ms else mc_find h tab a')" for a' by (rule find_put_tab [OF m(1)])
    have dist: "distinct (map fst (mc_put a ?ms (tab (h a))))" using ok by (simp add: put_fst tab_ok_def bucket_ok_def)
    show ?thesis
    proof (cases "?ms = []")
      case False
      have "tab_ok h t" unfolding t(1) using put_tab_ok [OF ok False _ m(1)] d False by simp
      moreover have "mc_members h t = (mc_members h tab)(a := set ms - {s})"
        using members_upd [of h t a "Some ?ms" tab] f1 t(1) False d by simp
      moreover have "mc_members h tab a = set ms" using m by (simp add: mc_members_def)
      ultimately show ?thesis using m t(2) by simp
    next
      case True
      have u: "t = tab(h a := mc_unlink a (mc_put a ?ms (tab (h a))))" using t True by (simp add: mc_del_gr_def)
      have sub: "set (mc_unlink a (mc_put a ms' gs)) \<subseteq> set gs" if "distinct (map fst gs)" for ms' and gs :: "('a \<times> nat list) list"
        using that by (induction gs) auto
      have td: "distinct (map fst (tab (h a)))" using ok by (simp add: tab_ok_def bucket_ok_def)
      have "tab_ok h t" unfolding u
      proof (rule tab_ok_upd [OF ok unlink_set(2) [OF dist]])
        show "snd g \<noteq> [] \<and> distinct (snd g) \<and> h (fst g) = h a" if "g \<in> set (mc_unlink a (mc_put a ?ms (tab (h a))))" for g
          using that sub [OF td, of ?ms] tab_okD [OF ok, of g "h a"] by blast
      qed
      moreover have "mc_find h t a' = (if a' = a then None else mc_find h tab a')" for a'
        using find_unlink [OF dist] f1 [of a'] unfolding u find_upd by (auto simp: find_put mc_find_def)
      then have "mc_members h t = (mc_members h tab)(a := {})" using members_upd [of h t a None tab] by simp
      moreover have "mc_members h tab a = {s}" using True d m by (metis mc_members_def empty_set insert_Diff option.simps(5) set_remove1_eq)
      ultimately show ?thesis using m t(2) by simp
    qed
  qed
  then show "tab_ok h t" "mc_members h t = (mc_members h tab)(a := mc_members h tab a - set_option sta)"
    "r \<longleftrightarrow> (\<exists>s. sta = Some s \<and> s \<in> mc_members h tab a)" by blast+
qed

lemma rem_first_single:
  assumes "distinct ms" "\<And>x y. P x \<Longrightarrow> P y \<Longrightarrow> x = y"
  shows "mc_rem_first P ms = (if \<exists>m\<in>set ms. P m then Some (filter (\<lambda>m. \<not> P m) ms) else None)"
  using assms(1)
proof (induction ms)
  case (Cons m ms)
  have "filter (\<lambda>m. \<not> P m) ms = ms" if "P m" using Cons.prems that assms(2) by (auto simp: filter_id_conv)
  then show ?case using Cons by auto
qed simp

lemma drop_bucket_set:
  assumes "\<forall>g\<in>set gs. distinct (snd g) \<and> snd g \<noteq> []" "\<And>x y. P x \<Longrightarrow> P y \<Longrightarrow> x = y"
  shows "mc_drop_bucket P gs = map (\<lambda>g. (fst g, filter (\<lambda>m. \<not> P m) (snd g))) (filter (\<lambda>g. filter (\<lambda>m. \<not> P m) (snd g) \<noteq> []) gs)"
  using assms(1)
proof (induction gs)
  case (Cons g gs)
  show ?case
  proof (cases "\<exists>m\<in>set (snd g). P m")
    case True
    then show ?thesis using Cons rem_first_single [of "snd g" P] assms(2) by auto
  next
    case False
    then have "filter (\<lambda>m. \<not> P m) (snd g) = snd g" by (auto simp: filter_id_conv)
    then show ?thesis using Cons rem_first_single [of "snd g" P] assms(2) False by simp
  qed
qed simp

lemma find_filter_map:
  "distinct (map fst gs) \<Longrightarrow> find (\<lambda>g. fst g = a) (map (\<lambda>g. (fst g, f (snd g))) (filter (\<lambda>g. f (snd g) \<noteq> []) gs)) =
    (case find (\<lambda>g. fst g = a) gs of None \<Rightarrow> None | Some g \<Rightarrow> if f (snd g) \<noteq> [] then Some (fst g, f (snd g)) else None)"
proof (induction gs)
  case (Cons g gs)
  show ?case
  proof (cases "fst g = a")
    case True
    then have "find (\<lambda>g. fst g = a) gs = None" using Cons.prems by (auto simp: find_None_iff image_iff)
    then show ?thesis using Cons True by simp
  next
    case False
    then show ?thesis using Cons by simp
  qed
qed simp

lemma drop_members:
  assumes ok: "tab_ok h tab" and h: "\<And>a. h a < MCAST_HASH_SIZE" and P: "\<And>x y. P x \<Longrightarrow> P y \<Longrightarrow> x = y"
  shows "tab_ok h (mc_drop_tab P tab)" "mc_members h (mc_drop_tab P tab) a = {m \<in> mc_members h tab a. \<not> P m}"
proof -
  let ?f = "filter (\<lambda>m. \<not> P m)"
  have b: "mc_drop_bucket P (tab i) = map (\<lambda>g. (fst g, ?f (snd g))) (filter (\<lambda>g. ?f (snd g) \<noteq> []) (tab i))" for i
    using tab_okD [OF ok, of _ i] by (intro drop_bucket_set P) auto
  have "distinct (map fst (mc_drop_bucket P (tab i))) \<and> (\<forall>g\<in>set (mc_drop_bucket P (tab i)). snd g \<noteq> [] \<and> distinct (snd g) \<and> h (fst g) = i)" for i
    using tab_ok_distinct [OF ok, of i] tab_okD [OF ok, of _ i] unfolding b
    by (auto simp: comp_def distinct_map inj_on_def)
  then show "tab_ok h (mc_drop_tab P tab)"
    using ok unfolding tab_ok_def bucket_ok_def mc_drop_tab_def by auto
  have "mc_find h (mc_drop_tab P tab) a = (case mc_find h tab a of None \<Rightarrow> None | Some ms \<Rightarrow> if ?f ms \<noteq> [] then Some (?f ms) else None)"
    using h [of a] find_filter_map [OF tab_ok_distinct [OF ok, of "h a"], where a = a and f = ?f]
    by (auto simp: mc_find_def mc_drop_tab_def b split: option.splits)
  then show "mc_members h (mc_drop_tab P tab) a = {m \<in> mc_members h tab a. \<not> P m}"
    by (auto simp: mc_members_def filter_empty_conv split: option.splits)
qed

section \<open>Runs\<close>

datatype mc_event = McJoin4 nat u32 | McLeave4 nat u32 | McJoin6 nat ip6 | McLeave6 nat ip6 | McGone nat

text \<open>What a report record or a departing station does; \<open>mac_of\<close> are the MAC addresses of the stations.\<close>

fun mc_step :: "(nat \<Rightarrow> nat) \<Rightarrow> mcast_ctx \<Rightarrow> mc_event \<Rightarrow> mcast_ctx" where
  "mc_step mac_of c (McJoin4 s a) = fst (add_ip4_sta (True, True) c (Some s) a)"
| "mc_step mac_of c (McLeave4 s a) = fst (del_ip4_sta c (Some s) a)"
| "mc_step mac_of c (McJoin6 s a) = fst (add_ip6_sta (True, True) c (Some s) a)"
| "mc_step mac_of c (McLeave6 s a) = fst (del_ip6_sta c (Some s) a)"
| "mc_step mac_of c (McGone s) = mtlk_mc_drop_sta True mac_of (mac_of s) c"

text \<open>The specification: the members of a group are the stations that joined and have not left since.\<close>

type_synonym mc_spec = "(u32 \<Rightarrow> nat set) \<times> (ip6 \<Rightarrow> nat set)"

fun mc_spec_step :: "mc_spec \<Rightarrow> mc_event \<Rightarrow> mc_spec" where
  "mc_spec_step (f, k) (McJoin4 s a) = (if mc_local4 a then (f, k) else (f(a := insert s (f a)), k))"
| "mc_spec_step (f, k) (McLeave4 s a) = (f(a := f a - {s}), k)"
| "mc_spec_step (f, k) (McJoin6 s a) = (if mc_local6 a then (f, k) else (f, k(a := insert s (k a))))"
| "mc_spec_step (f, k) (McLeave6 s a) = (f, k(a := k a - {s}))"
| "mc_spec_step (f, k) (McGone s) = ((\<lambda>a. f a - {s}), (\<lambda>a. k a - {s}))"

definition mc_abs :: "mcast_ctx \<Rightarrow> mc_spec" where
  "mc_abs c = (mc_members MCAST_HASH (mcast_ip4_hash c), mc_members mc_hash6 (mcast_ip6_hash c))"

definition mc_ok :: "mcast_ctx \<Rightarrow> bool" where
  "mc_ok c \<longleftrightarrow> tab_ok MCAST_HASH (mcast_ip4_hash c) \<and> tab_ok mc_hash6 (mcast_ip6_hash c)"

lemma MCAST_HASH_less: "MCAST_HASH a < MCAST_HASH_SIZE"
proof -
  have "and a 63 \<le> 63" by (rule word_and_le1)
  then show ?thesis by (simp add: MCAST_HASH_def MCAST_HASH_SIZE_def word_le_nat_alt)
qed

lemma mc_hash6_less: "mc_hash6 a < MCAST_HASH_SIZE"
  by (cases a) (simp add: mc_hash6_def MCAST_HASH_less)

lemma mc_step_refines:
  assumes ok: "mc_ok c" and m: "inj mac_of"
  shows "mc_ok (mc_step mac_of c e) \<and> mc_abs (mc_step mac_of c e) = mc_spec_step (mc_abs c) e"
proof (cases e)
  case (McJoin4 s a)
  obtain t r where "mc_add MCAST_HASH mc_local4 (True, True) (mcast_ip4_hash c) (Some s) a = (t, r)" by fastforce
  with add_members(1,2) [OF _ this] ok McJoin4 show ?thesis by (auto simp: mc_ok_def mc_abs_def add_ip4_sta_def)
next
  case (McLeave4 s a)
  obtain t r where "mc_del MCAST_HASH (mcast_ip4_hash c) (Some s) a = (t, r)" by fastforce
  with del_members(1,2) [OF _ this] ok McLeave4 show ?thesis by (auto simp: mc_ok_def mc_abs_def del_ip4_sta_def)
next
  case (McJoin6 s a)
  obtain t r where "mc_add mc_hash6 mc_local6 (True, True) (mcast_ip6_hash c) (Some s) a = (t, r)" by fastforce
  with add_members(1,2) [OF _ this] ok McJoin6 show ?thesis by (auto simp: mc_ok_def mc_abs_def add_ip6_sta_def)
next
  case (McLeave6 s a)
  obtain t r where "mc_del mc_hash6 (mcast_ip6_hash c) (Some s) a = (t, r)" by fastforce
  with del_members(1,2) [OF _ this] ok McLeave6 show ?thesis by (auto simp: mc_ok_def mc_abs_def del_ip6_sta_def)
next
  case (McGone s)
  have P: "x = y" if "mac_of x = mac_of s" "mac_of y = mac_of s" for x y using that m by (auto dest: injD)
  have ok4: "tab_ok MCAST_HASH (mcast_ip4_hash c)" and ok6: "tab_ok mc_hash6 (mcast_ip6_hash c)" using ok by (simp_all add: mc_ok_def)
  note d4 = drop_members [OF ok4 MCAST_HASH_less, where P = "\<lambda>x. mac_of x = mac_of s"]
  note d6 = drop_members [OF ok6 mc_hash6_less, where P = "\<lambda>x. mac_of x = mac_of s"]
  have one: "{x \<in> A. mac_of x \<noteq> mac_of s} = A - {s}" for A using m by (auto dest: injD)
  show ?thesis using d4 d6 P McGone by (auto simp: mc_ok_def mc_abs_def mtlk_mc_drop_sta_def one fun_eq_iff)
qed

text \<open>Table and specification side by side.\<close>

interpretation mc: step_system
  "\<lambda>(c, p) e. (mc_step mac_of c e, mc_spec_step p e)" "\<lambda>_ _. True" "\<lambda>(c, p). inj mac_of \<and> mc_ok c \<and> mc_abs c = p" for mac_of :: "nat \<Rightarrow> nat"
  by unfold_locales (use mc_step_refines in fastforce)

lemma mc_run_ok: "mc.run_ok mac_of s es"
  by (induction es arbitrary: s) auto

lemma mc_run_pair: "foldl (\<lambda>(c, p) e. (mc_step mac_of c e, mc_spec_step p e)) (c, p) es = (foldl (mc_step mac_of) c es, foldl mc_spec_step p es)"
  by (induction es arbitrary: c p) auto

lemma mc_run_refines:
  assumes "inj mac_of"
  shows "mc_ok (foldl (mc_step mac_of) mtlk_mc_init es) \<and>
    mc_abs (foldl (mc_step mac_of) mtlk_mc_init es) = foldl mc_spec_step (\<lambda>_. {}, \<lambda>_. {}) es"
proof -
  have "mc_ok mtlk_mc_init \<and> mc_abs mtlk_mc_init = (\<lambda>_. {}, \<lambda>_. {})"
    by (simp add: mc_ok_def tab_ok_def bucket_ok_def mtlk_mc_init_def mc_abs_def mc_members_def mc_find_def fun_eq_iff)
  then show ?thesis
    using mc.run_inv [of mac_of "(mtlk_mc_init, (\<lambda>_. {}, \<lambda>_. {}))" es] mc_run_ok assms by (simp add: mc_run_pair)
qed

lemma members_find:
  assumes "tab_ok h tab"
  shows "case mc_find h tab a of None \<Rightarrow> mc_members h tab a = {} | Some ms \<Rightarrow> ms \<noteq> [] \<and> distinct ms \<and> set ms = mc_members h tab a"
  using find_tab_ok [OF assms, of a] by (auto simp: mc_members_def split: option.split)

text \<open>
  C21: The hash tables are the memberships. After any sequence of joins and leaves for IPv4 and IPv6
  groups and of departing stations, looking a group up finds exactly the stations that joined it
  and have not left it or gone since, each once; a group without stations is not found (its memory
  was given back), and groups in the link local range never have any. Two groups never
  disturb each other, whether or not they share a bucket. Stations have different MAC addresses,
  and memory is not exhausted.
\<close>

theorem mc_tables_refine_membership:
  fixes es :: "mc_event list"
  assumes "inj mac_of"
  defines "c \<equiv> foldl (mc_step mac_of) mtlk_mc_init es"
  defines "p \<equiv> foldl mc_spec_step (\<lambda>_. {}, \<lambda>_. {}) es"
  shows "(case find_ip4_gr c a of None \<Rightarrow> fst p a = {} | Some ms \<Rightarrow> ms \<noteq> [] \<and> distinct ms \<and> set ms = fst p a) \<and>
    (case find_ip6_gr c b of None \<Rightarrow> snd p b = {} | Some ms \<Rightarrow> ms \<noteq> [] \<and> distinct ms \<and> set ms = snd p b)"
proof -
  have r: "mc_ok c" "mc_abs c = p" using mc_run_refines [OF assms(1), of es] by (simp_all add: c_def p_def)
  have e: "fst p = mc_members MCAST_HASH (mcast_ip4_hash c)" "snd p = mc_members mc_hash6 (mcast_ip6_hash c)"
    by (simp_all flip: r(2) add: mc_abs_def)
  show ?thesis unfolding e find_ip4_gr_def find_ip6_gr_def
    using members_find [of MCAST_HASH "mcast_ip4_hash c" a] members_find [of mc_hash6 "mcast_ip6_hash c" b] r(1)
    by (auto simp: mc_ok_def)
qed

definition wit_mc :: "mc_event list" where
  "wit_mc = [McJoin4 1 0xEF010141, McJoin4 2 0xEF010101, McJoin4 2 0xEF010141, McGone 1]"

theorem mc_tables_refine_membership_witness:
  "find_ip4_gr (foldl (mc_step (\<lambda>s. s)) mtlk_mc_init wit_mc) 0xEF010141 = Some [2] \<and> MCAST_HASH 0xEF010141 = MCAST_HASH 0xEF010101"
proof -
  have p: "fst (foldl mc_spec_step (\<lambda>_. {}, \<lambda>_. {}) wit_mc) 0xEF010141 = {2}"
    by (auto simp: wit_mc_def mc_local4_def)
  have "\<exists>ms. find_ip4_gr (foldl (mc_step (\<lambda>s. s)) mtlk_mc_init wit_mc) 0xEF010141 = Some ms \<and> distinct ms \<and> set ms = {2}"
    using conjunct1 [OF mc_tables_refine_membership [where mac_of = "\<lambda>s. s" and es = wit_mc and a = "0xEF010141"]] unfolding p
    by (auto split: option.splits)
  then obtain ms where m: "find_ip4_gr (foldl (mc_step (\<lambda>s. s)) mtlk_mc_init wit_mc) 0xEF010141 = Some ms" "distinct ms" "set ms = {2}" by blast
  then have "length ms = 1" using distinct_card [of ms] by simp
  then have "ms = [2]" using m(3) by (cases ms) auto
  then show ?thesis using m(1) by (simp add: MCAST_HASH_def MCAST_HASH_SIZE_def)
qed

section \<open>Reports from their bytes\<close>

definition enc16 :: "nat \<Rightarrow> u8 list" where
  "enc16 n = [of_nat (n div 256), of_nat n]"

lemma rd8_app [simp]: "rd8 (pre @ x # rest) (length pre) = Some (unat x)"
  by (simp add: rd8_def)

lemma rd16_app: "n < 65536 \<Longrightarrow> rd16 (pre @ enc16 n @ rest) (length pre) = Some n"
proof -
  assume n: "n < 65536"
  then have "unat (of_nat (n div 256) :: u8) = n div 256" "unat (of_nat n :: u8) = n mod 256"
    by (simp_all add: unat_of_nat take_bit_eq_mod)
  moreover have "256 * (n div 256) + n mod 256 = n" by simp
  ultimately have "net16 (enc16 n @ rest) = of_nat n" by (simp add: net16_def enc16_def)
  then show ?thesis using n by (simp add: rd16_def enc16_def unat_of_nat take_bit_eq_mod)
qed

lemma unat_net_byte: "unat (ucast (drop_bit k (w :: u32)) :: u8) = unat w div 2 ^ k mod 256"
proof -
  have "unat w < 2 ^ LENGTH(32)" by (rule unsigned_less)
  then have "take_bit 32 (unat w) = unat w" by (simp add: take_bit_nat_eq_self)
  then have "unat (drop_bit k w) = drop_bit k (unat w)" by (simp only: unsigned_drop_bit_eq) simp
  then have "unat (ucast (drop_bit k w) :: u8) = take_bit 8 (drop_bit k (unat w))" by (simp only: unsigned_ucast_eq) simp
  then show ?thesis by (simp add: drop_bit_eq_div take_bit_eq_mod)
qed

lemma net32_word_bytes: "net32 (word_bytes w @ rest) = w"
proof -
  let ?n = "unat w"
  have b: "unat (ucast w :: u8) = ?n mod 256" using unat_net_byte [of 0 w] by simp
  have "?n < 2 ^ LENGTH(32)" by (rule unsigned_less)
  then have t: "?n div 16777216 mod 256 = ?n div 16777216" by simp
  have d: "?n div 65536 = ?n div 256 div 256" "?n div 16777216 = ?n div 256 div 256 div 256" by (simp_all flip: div_mult2_eq)
  have "((?n div 16777216 * 256 + ?n div 65536 mod 256) * 256 + ?n div 256 mod 256) * 256 + ?n mod 256 = ?n"
    unfolding d by (simp only: div_mult_mod_eq)
  then have "((?n div 16777216 mod 256 * 256 + ?n div 65536 mod 256) * 256 + ?n div 256 mod 256) * 256 + ?n mod 256 = ?n"
    by (simp only: t)
  then have "of_nat (((?n div 16777216 mod 256 * 256 + ?n div 65536 mod 256) * 256 + ?n div 256 mod 256) * 256 + ?n mod 256) = (of_nat ?n :: u32)"
    by (simp only:)
  then have "of_nat (((?n div 16777216 mod 256 * 256 + ?n div 65536 mod 256) * 256 + ?n div 256 mod 256) * 256 + ?n mod 256) = w"
    by (simp only: of_nat_unat ucast_id)
  then show ?thesis by (simp add: net32_def word_bytes_def unat_net_byte b del: of_nat_add of_nat_mult)
qed

lemma rd32_app: "rd32 (pre @ word_bytes w @ rest) (length pre) = Some w"
  using net32_word_bytes [of w rest] by (simp add: rd32_def) (simp add: word_bytes_def)

lemma length_word_bytes [simp]: "length (word_bytes w) = 4"
  by (simp add: word_bytes_def)

definition ip6_bytes :: "ip6 \<Rightarrow> u8 list" where
  "ip6_bytes a = (case a of (w0, w1, w2, w3) \<Rightarrow> word_bytes w0 @ word_bytes w1 @ word_bytes w2 @ word_bytes w3)"

lemma rd_ip6_app: "rd_ip6 (pre @ ip6_bytes a @ rest) (length pre) = Some a"
proof -
  obtain w0 w1 w2 w3 where a: "a = (w0, w1, w2, w3)" by (cases a) auto
  have "rd32 (pre @ ip6_bytes a @ rest) (length pre) = Some w0"
    using rd32_app [of pre w0 "word_bytes w1 @ word_bytes w2 @ word_bytes w3 @ rest"] by (simp add: a ip6_bytes_def)
  moreover have "rd32 (pre @ ip6_bytes a @ rest) (length pre + 4) = Some w1"
    using rd32_app [of "pre @ word_bytes w0" w1 "word_bytes w2 @ word_bytes w3 @ rest"] by (simp add: a ip6_bytes_def)
  moreover have "rd32 (pre @ ip6_bytes a @ rest) (length pre + 8) = Some w2"
    using rd32_app [of "pre @ word_bytes w0 @ word_bytes w1" w2 "word_bytes w3 @ rest"] by (simp add: a ip6_bytes_def)
  moreover have "rd32 (pre @ ip6_bytes a @ rest) (length pre + 12) = Some w3"
    using rd32_app [of "pre @ word_bytes w0 @ word_bytes w1 @ word_bytes w2" w3 rest] by (simp add: a ip6_bytes_def)
  ultimately show ?thesis by (simp add: rd_ip6_def a)
qed

text \<open>
  A group record as a station sends it: type, address, the number of sources and of auxiliary
  words, and the bytes of both.
\<close>

record 'a grec =
  gr_type :: nat
  gr_aux :: nat
  gr_nsrcs :: nat
  gr_addr :: 'a
  gr_tail :: "u8 list"

definition grec_ok :: "nat \<Rightarrow> 'a grec \<Rightarrow> bool" where
  "grec_ok alen r \<longleftrightarrow> gr_type r < 256 \<and> gr_aux r < 256 \<and> gr_nsrcs r < 65536 \<and> length (gr_tail r) = alen * gr_nsrcs r + 4 * gr_aux r"

definition enc_grec :: "('a \<Rightarrow> u8 list) \<Rightarrow> 'a grec \<Rightarrow> u8 list" where
  "enc_grec enc r = [of_nat (gr_type r), of_nat (gr_aux r)] @ enc16 (gr_nsrcs r) @ enc (gr_addr r) @ gr_tail r"

definition enc_report :: "('a \<Rightarrow> u8 list) \<Rightarrow> nat \<Rightarrow> nat \<Rightarrow> 'a grec list \<Rightarrow> u8 list" where
  "enc_report enc ty n rs = [of_nat ty, 0, 0, 0, 0, 0] @ enc16 n @ concat (map (enc_grec enc) rs)"

text \<open>What the two protocols share: addresses of a fixed size that are read back from where they were written.\<close>

locale address_format =
  fixes rda :: "u8 list \<Rightarrow> nat \<Rightarrow> 'a option" and enc :: "'a \<Rightarrow> u8 list" and alen :: nat
  assumes rda_enc: "rda (pre @ enc a @ rest) (length pre) = Some a"
    and enc_length: "length (enc a) = alen"
    and rda_short: "length b < pos + alen \<Longrightarrow> rda b pos = None"
    and alen_pos: "0 < alen"
begin

lemma grec_step:
  assumes "grec_ok alen r"
  shows "grec_loop rda alen add del (pre @ enc_grec enc r @ rest) (Suc n) (length pre) c =
    grec_loop rda alen add del (pre @ enc_grec enc r @ rest) n (length (pre @ enc_grec enc r))
      (grec_apply add del (gr_type r) (gr_nsrcs r) (gr_addr r) c)"
proof -
  let ?b = "pre @ enc_grec enc r @ rest"
  have t: "unat (of_nat (gr_type r) :: u8) = gr_type r" "unat (of_nat (gr_aux r) :: u8) = gr_aux r"
    using assms by (simp_all add: grec_ok_def unat_of_nat take_bit_eq_mod)
  have "rd16 ?b (length pre + 2) = Some (gr_nsrcs r)"
    using rd16_app [of "gr_nsrcs r" "pre @ [of_nat (gr_type r), of_nat (gr_aux r)]" "enc (gr_addr r) @ gr_tail r @ rest"] assms
    by (simp add: enc_grec_def grec_ok_def)
  moreover have "rda ?b (length pre + 4) = Some (gr_addr r)"
  proof -
    let ?q = "pre @ [of_nat (gr_type r), of_nat (gr_aux r)] @ enc16 (gr_nsrcs r)"
    have e: "?b = ?q @ enc (gr_addr r) @ gr_tail r @ rest" by (simp add: enc_grec_def)
    have l: "length pre + 4 = length ?q" by (simp add: enc16_def)
    show ?thesis unfolding e l by (rule rda_enc)
  qed
  moreover have "rd8 ?b (length pre) = Some (gr_type r)"
    using rd8_app [of pre "of_nat (gr_type r)"] t by (simp add: enc_grec_def)
  moreover have "rd8 ?b (length pre + 1) = Some (gr_aux r)"
    using rd8_app [of "pre @ [of_nat (gr_type r)]" "of_nat (gr_aux r)"] t by (simp add: enc_grec_def)
  moreover have "length (enc_grec enc r) = (4 + alen) + alen * gr_nsrcs r + 4 * gr_aux r"
    using assms by (simp add: enc_grec_def enc16_def enc_length grec_ok_def)
  ultimately show ?thesis by (simp add: add.assoc)
qed

lemma grec_loop_prefix:
  assumes "\<forall>r\<in>set rs. grec_ok alen r"
  shows "grec_loop rda alen add del (pre @ concat (map (enc_grec enc) rs) @ rest) (length rs + n) (length pre) c =
    grec_loop rda alen add del (pre @ concat (map (enc_grec enc) rs) @ rest) n (length (pre @ concat (map (enc_grec enc) rs)))
      (foldl (\<lambda>c r. grec_apply add del (gr_type r) (gr_nsrcs r) (gr_addr r) c) c rs)"
  using assms
proof (induction rs arbitrary: pre c)
  case (Cons r rs)
  then have "grec_ok alen r" by simp
  from grec_step [OF this, where pre = pre and rest = "concat (map (enc_grec enc) rs) @ rest" and n = "length rs + n" and add = add and del = del and c = c]
    Cons.IH [of "pre @ enc_grec enc r"] Cons.prems show ?case by simp
qed simp

lemma grec_loop_roundtrip:
  assumes "\<forall>r\<in>set rs. grec_ok alen r"
  shows "grec_loop rda alen add del (pre @ concat (map (enc_grec enc) rs) @ rest) (length rs) (length pre) c =
    Some (foldl (\<lambda>c r. grec_apply add del (gr_type r) (gr_nsrcs r) (gr_addr r) c) c rs)"
  using grec_loop_prefix [OF assms, where n = 0] by simp

lemma grec_loop_overrun:
  assumes "\<forall>r\<in>set rs. grec_ok alen r" "length rest < 4 + alen" "0 < n"
  shows "grec_loop rda alen add del (pre @ concat (map (enc_grec enc) rs) @ rest) (length rs + n) (length pre) c = None"
proof -
  let ?b = "pre @ concat (map (enc_grec enc) rs) @ rest"
  let ?p = "length (pre @ concat (map (enc_grec enc) rs))"
  have "rda ?b (?p + 4) = None" by (rule rda_short) (use assms(2) in simp)
  then have "grec_loop rda alen add del ?b n ?p d = None" for d
    using assms(3) by (cases n) (auto simp: Option.bind_eq_None_conv)
  then show ?thesis by (simp only: grec_loop_prefix [OF assms(1)])
qed

end

interpretation ip4_format: address_format rd32 word_bytes 4
  by unfold_locales (rule rd32_app, simp_all add: rd32_def)

interpretation ip6_format: address_format rd_ip6 ip6_bytes 16
proof
  show "rd_ip6 (pre @ ip6_bytes a @ rest) (length pre) = Some a" for pre a rest by (rule rd_ip6_app)
  show "length (ip6_bytes a) = 16" for a by (cases a) (simp add: ip6_bytes_def)
  show "rd_ip6 b pos = None" if "length b < pos + 16" for b pos
    using that by (auto simp: rd_ip6_def rd32_def Option.bind_eq_None_conv)
qed simp

text \<open>What a list of group records means for a station.\<close>

definition igmp_means :: "nat \<Rightarrow> u32 grec \<Rightarrow> mc_event list" where
  "igmp_means s r =
     (if gr_type r = 2 \<or> gr_type r = 4 then [McJoin4 s (gr_addr r)]
      else if (gr_type r = 1 \<or> gr_type r = 3) \<and> gr_nsrcs r = 0 then [McLeave4 s (gr_addr r)] else [])"

definition mld_means :: "nat \<Rightarrow> ip6 grec \<Rightarrow> mc_event list" where
  "mld_means s r =
     (if gr_type r = 2 \<or> gr_type r = 4 then [McJoin6 s (gr_addr r)]
      else if (gr_type r = 1 \<or> gr_type r = 3) \<and> gr_nsrcs r = 0 then [McLeave6 s (gr_addr r)] else [])"

lemma igmp_means_steps:
  "foldl (\<lambda>c r. grec_apply (\<lambda>c a. fst (add_ip4_sta (True, True) c (Some s) a)) (\<lambda>c a. fst (del_ip4_sta c (Some s) a)) (gr_type r) (gr_nsrcs r) (gr_addr r) c) c rs =
   foldl (mc_step mac_of) c (concat (map (igmp_means s) rs))"
  by (induction rs arbitrary: c) (auto simp: grec_apply_def igmp_means_def)

lemma mld_means_steps:
  "foldl (\<lambda>c r. grec_apply (\<lambda>c a. fst (add_ip6_sta (True, True) c (Some s) a)) (\<lambda>c a. fst (del_ip6_sta c (Some s) a)) (gr_type r) (gr_nsrcs r) (gr_addr r) c) c rs =
   foldl (mc_step mac_of) c (concat (map (mld_means s) rs))"
  by (induction rs arbitrary: c) (auto simp: grec_apply_def mld_means_def)

lemma report_header:
  assumes "n < 65536" "ty < 256"
  shows "rd8 (pre @ enc_report enc ty n rs @ rest) (length pre) = Some ty"
    and "rd16 (pre @ enc_report enc ty n rs @ rest) (length pre + 6) = Some n"
    and "\<exists>h. pre @ enc_report enc ty n rs @ rest = h @ concat (map (enc_grec enc) rs) @ rest \<and> length h = length pre + 8"
proof -
  show "rd8 (pre @ enc_report enc ty n rs @ rest) (length pre) = Some ty"
    using rd8_app [of pre "of_nat ty"] assms(2) by (simp add: enc_report_def unat_of_nat take_bit_eq_mod)
  let ?q = "pre @ [of_nat ty, 0, 0, 0, 0, 0]"
  have e: "pre @ enc_report enc ty n rs @ rest = ?q @ enc16 n @ concat (map (enc_grec enc) rs) @ rest" by (simp add: enc_report_def)
  have l: "length pre + 6 = length ?q" by simp
  show "rd16 (pre @ enc_report enc ty n rs @ rest) (length pre + 6) = Some n" unfolding e l by (rule rd16_app [OF assms(1)])
  show "\<exists>h. pre @ enc_report enc ty n rs @ rest = h @ concat (map (enc_grec enc) rs) @ rest \<and> length h = length pre + 8"
    by (rule exI [of _ "?q @ enc16 n"]) (simp add: e enc16_def)
qed

lemma rd32_some: "i + 3 < length b \<Longrightarrow> \<exists>w. rd32 b i = Some w"
  by (simp add: rd32_def)

lemma rd_ip6_some: "i + 15 < length b \<Longrightarrow> \<exists>w. rd_ip6 b i = Some w"
  by (simp add: rd_ip6_def rd32_def)

lemma report_length: "8 \<le> length (enc_report enc ty n rs)"
  by (simp add: enc_report_def enc16_def)

text \<open>
  C22: Reports are understood. The bytes of an IGMPv3 or MLDv2 report with any list of group records, at any
  position in a packet, change the tables exactly as the records say, in their order: exclude
  records join, include records without sources leave, all others do nothing; sources and
  auxiliary data of any length are skipped correctly.
\<close>

theorem mc_report_roundtrip:
  assumes "length rs < 65536"
  shows "((\<forall>r\<in>set rs. grec_ok 4 r) \<longrightarrow>
      parse_igmp (True, True) c (pre @ enc_report word_bytes 0x22 (length rs) rs @ rest) (length pre) (Some s) =
      Some (foldl (mc_step mac_of) c (concat (map (igmp_means s) rs)))) \<and>
    ((\<forall>r\<in>set rs'. grec_ok 16 r) \<longrightarrow> length rs' < 65536 \<longrightarrow> 16 \<le> length (concat (map (enc_grec ip6_bytes) rs') @ rest) \<longrightarrow>
      parse_icmp6 (True, True) c (pre @ enc_report ip6_bytes 143 (length rs') rs' @ rest) (length pre) (Some s) =
      Some (foldl (mc_step mac_of) c (concat (map (mld_means s) rs'))))"
proof -
  have goal1: "parse_igmp (True, True) c (pre @ enc_report word_bytes 0x22 (length rs) rs @ rest) (length pre) (Some s) =
      Some (foldl (mc_step mac_of) c (concat (map (igmp_means s) rs)))" if ok: "\<forall>r\<in>set rs. grec_ok 4 r"
  proof -
    let ?b = "pre @ enc_report word_bytes 0x22 (length rs) rs @ rest"
    have b: "(0x22::nat) < 256" by simp
    note H = report_header [OF assms b, where enc = word_bytes and pre = pre and rs = rs and rest = rest]
    from H(3) obtain h where h: "?b = h @ concat (map (enc_grec word_bytes) rs) @ rest" "length h = length pre + 8" by blast
    obtain w where w: "rd32 ?b (length pre + 4) = Some w"
      using rd32_some [of "length pre + 4" ?b] report_length [of word_bytes "0x22" "length rs" rs] by auto
    have l: "grec_loop rd32 4 add del ?b (length rs) (length pre + 8) c =
        Some (foldl (\<lambda>c r. grec_apply add del (gr_type r) (gr_nsrcs r) (gr_addr r) c) c rs)" for add del and c :: mcast_ctx
      unfolding h(1) h(2) [symmetric] by (rule ip4_format.grec_loop_roundtrip [OF ok])
    show ?thesis using w H(1,2) l igmp_means_steps [of s c rs mac_of] by (simp add: parse_igmp_def)
  qed
  have goal2: "parse_icmp6 (True, True) c (pre @ enc_report ip6_bytes 143 (length rs') rs' @ rest) (length pre) (Some s) =
      Some (foldl (mc_step mac_of) c (concat (map (mld_means s) rs')))"
    if ok: "\<forall>r\<in>set rs'. grec_ok 16 r" "length rs' < 65536" "16 \<le> length (concat (map (enc_grec ip6_bytes) rs') @ rest)"
  proof -
    let ?b = "pre @ enc_report ip6_bytes 143 (length rs') rs' @ rest"
    have b: "(143::nat) < 256" by simp
    note H = report_header [OF ok(2) b, where enc = ip6_bytes and pre = pre and rs = rs' and rest = rest]
    from H(3) obtain h where h: "?b = h @ concat (map (enc_grec ip6_bytes) rs') @ rest" "length h = length pre + 8" by blast
    have "length pre + 8 + 15 < length ?b" unfolding h(1) using h(2) ok(3) by simp
    then obtain w where w: "rd_ip6 ?b (length pre + 8) = Some w" using rd_ip6_some by blast
    have l: "grec_loop rd_ip6 16 add del ?b (length rs') (length pre + 8) c =
        Some (foldl (\<lambda>c r. grec_apply add del (gr_type r) (gr_nsrcs r) (gr_addr r) c) c rs')" for add del and c :: mcast_ctx
      unfolding h(1) h(2) [symmetric] by (rule ip6_format.grec_loop_roundtrip [OF ok(1)])
    show ?thesis using w H(1,2) l mld_means_steps [of s c rs' mac_of] by (simp add: parse_icmp6_def)
  qed
  show ?thesis using goal1 goal2 by blast
qed

definition wit_grec :: "u32 grec list" where
  "wit_grec = [\<lparr>gr_type = 4, gr_aux = 0, gr_nsrcs = 1, gr_addr = 0xEF010101, gr_tail = [1, 2, 3, 4]\<rparr>,
     \<lparr>gr_type = 3, gr_aux = 0, gr_nsrcs = 0, gr_addr = 0xEF010141, gr_tail = []\<rparr>]"

theorem mc_report_roundtrip_witness:
  "parse_igmp (True, True) mtlk_mc_init (enc_report word_bytes 0x22 2 wit_grec) 0 (Some 1) =
   Some (foldl (mc_step (\<lambda>s. s)) mtlk_mc_init [McJoin4 1 0xEF010101, McLeave4 1 0xEF010141])"
proof -
  have l: "length wit_grec < 65536" and g: "\<forall>r\<in>set wit_grec. grec_ok 4 r" by (simp_all add: wit_grec_def grec_ok_def)
  note T = mc_report_roundtrip [OF l, where pre = "[]" and rest = "[]" and c = mtlk_mc_init and s = 1 and mac_of = "\<lambda>s. s"]
  from mp [OF conjunct1 [OF T] g]
  show ?thesis by (simp add: wit_grec_def igmp_means_def numeral_2_eq_2)
qed

text \<open>
  C38: The record count of a report is trusted. A report that announces more group records than the packet
  holds makes the parsers read beyond the end of the packet, whatever the records before are:
  neither the length of the packet nor that of the IP payload is compared with the walk over the
  records. Any station can send such a report.
\<close>

theorem mc_report_overrun:
  assumes "length rs < n" "n < 65536"
  shows "((\<forall>r\<in>set rs. grec_ok 4 r) \<longrightarrow>
      parse_igmp (True, True) c (pre @ enc_report word_bytes 0x22 n rs) (length pre) (Some s) = None) \<and>
    ((\<forall>r\<in>set rs'. grec_ok 16 r) \<longrightarrow> length rs' < n \<longrightarrow>
      parse_icmp6 (True, True) c (pre @ enc_report ip6_bytes 143 n rs') (length pre) (Some s) = None)"
proof -
  have goal1: "parse_igmp (True, True) c (pre @ enc_report word_bytes 0x22 n rs) (length pre) (Some s) = None"
    if ok: "\<forall>r\<in>set rs. grec_ok 4 r"
  proof -
    let ?b = "pre @ enc_report word_bytes 0x22 n rs"
    have b: "(0x22::nat) < 256" by simp
    note H = report_header [OF assms(2) b, where enc = word_bytes and pre = pre and rs = rs and rest = "[]", unfolded append_Nil2]
    from H(3) obtain h where h: "?b = h @ concat (map (enc_grec word_bytes) rs) @ []" "length h = length pre + 8" by auto
    have n: "n = length rs + (n - length rs)" "0 < n - length rs" using assms(1) by auto
    have l: "grec_loop rd32 4 add del ?b n (length pre + 8) c = None" for add del and c :: mcast_ctx
      unfolding h(1) h(2) [symmetric] by (subst n(1), rule ip4_format.grec_loop_overrun [OF ok _ n(2)]) simp
    then show ?thesis using H(1,2) by (auto simp: parse_igmp_def Option.bind_eq_None_conv)
  qed
  have goal2: "parse_icmp6 (True, True) c (pre @ enc_report ip6_bytes 143 n rs') (length pre) (Some s) = None"
    if ok: "\<forall>r\<in>set rs'. grec_ok 16 r" "length rs' < n"
  proof -
    let ?b = "pre @ enc_report ip6_bytes 143 n rs'"
    have b: "(143::nat) < 256" by simp
    note H = report_header [OF assms(2) b, where enc = ip6_bytes and pre = pre and rs = rs' and rest = "[]", unfolded append_Nil2]
    from H(3) obtain h where h: "?b = h @ concat (map (enc_grec ip6_bytes) rs') @ []" "length h = length pre + 8" by auto
    have n: "n = length rs' + (n - length rs')" "0 < n - length rs'" using ok(2) by auto
    have l: "grec_loop rd_ip6 16 add del ?b n (length pre + 8) c = None" for add del and c :: mcast_ctx
      unfolding h(1) h(2) [symmetric] by (subst n(1), rule ip6_format.grec_loop_overrun [OF ok(1) _ n(2)]) simp
    then show ?thesis using H(1,2) by (auto simp: parse_icmp6_def Option.bind_eq_None_conv)
  qed
  show ?thesis using goal1 goal2 by blast
qed

theorem mc_report_overrun_witness:
  "parse_igmp (True, True) mtlk_mc_init (enc_report word_bytes 0x22 3 wit_grec) 0 (Some 1) = None"
proof -
  have l: "length wit_grec < 3" "(3::nat) < 65536" and g: "\<forall>r\<in>set wit_grec. grec_ok 4 r" by (simp_all add: wit_grec_def grec_ok_def)
  from mp [OF conjunct1 [OF mc_report_overrun [OF l, where pre = "[]"]] g] show ?thesis by simp
qed

section \<open>Transmission to a group\<close>


definition wit_udp :: "u8 list" where
  "wit_udp = replicate 12 0 @ [8, 0] @ replicate 16 0 @ [0xEF, 1, 1, 0x41]"


section \<open>Restored addresses\<close>

lemma local6_top: "mc_local6 a \<Longrightarrow> drop_bit 24 (fst a) = 0xFF"
proof -
  assume "mc_local6 a"
  then have "drop_bit 24 (and (fst a) 0xFF0F0000) = (drop_bit 24 0xFF020000 :: u32)" by (simp add: mc_local6_def)
  then have "and (drop_bit 24 (fst a)) 0xFF = (0xFF :: u32)" by (simp add: drop_bit_and)
  moreover have "and (drop_bit 24 w) 0xFF = drop_bit 24 w" for w :: u32
  proof (rule bit_word_eqI)
    fix n assume "n < LENGTH(32)"
    have m: "(0xFF :: u32) = mask 8" by (simp add: mask_eq_exp_minus_1)
    have "bit w (24 + n) \<Longrightarrow> n < 8" using bit_imp_le_length [of w "24 + n"] by simp
    then show "bit (and (drop_bit 24 w) 0xFF) n = bit (drop_bit 24 w) n"
      unfolding m by (auto simp: bit_and_iff bit_drop_bit_eq bit_mask_iff)
  qed
  ultimately show ?thesis by simp
qed

text \<open>
  C39: The test for IPv6 group addresses is turned round. Restoring the Ethernet destination on a station
  leaves every IPv6 multicast packet as it is, although reliable multicast delivered it with the
  address of the station, and overwrites the destination of every IPv6 unicast packet with a
  group address \<open>33:33:...\<close>. IPv4 packets are treated as the comment says. The tests of the
  kernel are taken to answer whether an address is in its multicast range.
\<close>

theorem mc_restore_ipv6_inverted:
  assumes mc4: "\<forall>a. is_mc4 a \<longleftrightarrow> drop_bit 28 a = 0xE" and mc6: "\<forall>a. is_mc6 a \<longleftrightarrow> drop_bit 24 (fst a) = 0xFF"
  shows "(rd16 b 12 = Some 0x86DD \<longrightarrow> rd_ip6 b 38 = Some a \<longrightarrow> drop_bit 24 (fst a) = 0xFF \<longrightarrow>
      mtlk_mc_restore_mac is_mc4 is_local4 is_mc6 big b = Some b) \<and>
    (rd16 b 12 = Some 0x86DD \<longrightarrow> rd_ip6 b 38 = Some a \<longrightarrow> drop_bit 24 (fst a) \<noteq> 0xFF \<longrightarrow>
      (\<exists>d. mtlk_mc_restore_mac is_mc4 is_local4 is_mc6 big b = Some ([0x33, 0x33] @ d @ drop 6 b) \<and> length d = 4)) \<and>
    (rd16 b 12 = Some 0x0800 \<longrightarrow> rd32 b 30 = Some a4 \<longrightarrow> drop_bit 28 a4 \<noteq> 0xE \<longrightarrow>
      mtlk_mc_restore_mac is_mc4 is_local4 is_mc6 big b = Some b)"
proof -
  have goal1: "mtlk_mc_restore_mac is_mc4 is_local4 is_mc6 big b = Some b"
    if "rd16 b 12 = Some 0x86DD" "rd_ip6 b 38 = Some a" "drop_bit 24 (fst a) = 0xFF"
    using that spec [OF mc6, of a] by (simp add: mtlk_mc_restore_mac_def mc_restore6_def)
  have goal2: "\<exists>d. mtlk_mc_restore_mac is_mc4 is_local4 is_mc6 big b = Some ([0x33, 0x33] @ d @ drop 6 b) \<and> length d = 4"
    if u: "rd16 b 12 = Some 0x86DD" "rd_ip6 b 38 = Some a" "drop_bit 24 (fst a) \<noteq> 0xFF"
  proof -
    let ?w = "word_bytes (snd (snd (snd a)))"
    have "\<not> is_mc6 a" "\<not> mc_local6 a" using spec [OF mc6, of a] u(3) local6_top [of a] by blast+
    then have "mtlk_mc_restore_mac is_mc4 is_local4 is_mc6 big b = Some ([0x33, 0x33] @ (if big then ?w else rev ?w) @ drop 6 b)"
      using u(1,2) by (simp add: mtlk_mc_restore_mac_def mc_restore6_def Let_def)
    then show ?thesis by (intro exI [of _ "if big then ?w else rev ?w"]) simp
  qed
  have goal3: "mtlk_mc_restore_mac is_mc4 is_local4 is_mc6 big b = Some b"
    if "rd16 b 12 = Some 0x0800" "rd32 b 30 = Some a4" "drop_bit 28 a4 \<noteq> 0xE"
    using that spec [OF mc4, of a4] by (simp add: mtlk_mc_restore_mac_def mc_restore4_def)
  show ?thesis using goal1 goal2 goal3 by blast
qed

definition wit_ping6 :: "u8 list" where
  "wit_ping6 = [0x00, 0x11, 0x22, 0x33, 0x44, 0x55] @ replicate 6 0 @ [0x86, 0xDD] @ replicate 24 0 @ [0x20, 1] @ replicate 14 0"

theorem mc_restore_ipv6_inverted_witness:
  "\<exists>d. mtlk_mc_restore_mac (\<lambda>a. drop_bit 28 a = 0xE) mc_local4 (\<lambda>a. drop_bit 24 (fst a) = 0xFF) True wit_ping6 =
     Some ([0x33, 0x33] @ d @ drop 6 wit_ping6)"
proof -
  have p: "rd16 wit_ping6 12 = Some 0x86DD" by (simp add: wit_ping6_def rd16_def net16_def)
  have a: "rd_ip6 wit_ping6 38 = Some (0x20010000, 0, 0, 0)" by (simp add: wit_ping6_def rd_ip6_def rd32_def net32_def)
  have n: "drop_bit 24 (fst (0x20010000 :: u32, 0 :: u32, 0 :: u32, 0 :: u32)) \<noteq> 0xFF" by simp
  have r: "\<forall>a. drop_bit 28 a = (0xE::u32) \<longleftrightarrow> drop_bit 28 a = 0xE"
    "\<forall>a::ip6. drop_bit 24 (fst a) = 0xFF \<longleftrightarrow> drop_bit 24 (fst a) = 0xFF" by (rule allI, rule refl)+
  show ?thesis using mc_restore_ipv6_inverted [OF r] p a n by blast
qed

end
