(* ===== verification/Wds.thy ===== *)
theory Wds
  imports Wave_Prelude
begin

text \<open>
  Wireless bridges between access points (\<^verbatim>\<open>wireless/driver/shared/wds.c\<close>, \<^verbatim>\<open>wds.h\<close>, and the callers in
  \<^verbatim>\<open>core_ext.c\<close>): every virtual access point (VAP) has a list of peer access points, each with a
  state machine, a timer and a reference to its station while it is connected. The master VAP
  keeps the addresses from which a beacon is awaited.

  \<^item> VAPs, addresses and stations are numbers. A peer is found by its address, as in the code.
  \<^item> Operations run in the serializer, one after the other. Beacons and timers arrive at any time
    and queue tasks for it (\<open>wds_tasks\<close>).
  \<^item> The answer of the firmware, the outcomes of allocations and the keep-alive interval are
    arguments.
  \<^item> \<open>stations\<close> is what the bridge relies on of the station database: which station, if any, is
    connected under an address. \<open>sta_refs\<close> counts the references that the bridge holds.
\<close>

section \<open>State\<close>

datatype wds_peer_state_t =
  WDS_STATE_DISCONNECTED | WDS_STATE_CONNECTING | WDS_STATE_CONNECTED | WDS_STATE_DISCONNECTING | WDS_STATE_ERROR

datatype wds_peer_action_t = WDS_ACTION_CONNECT | WDS_ACTION_CONNECTED | WDS_ACTION_DISCONNECT | WDS_ACTION_ERROR

record wds_peer_t =
  peer_addr :: nat
  kill_on_disconnect :: bool
  fw_peer_sta_added :: bool
  peer_sta :: "nat option"
  fsm_timer :: "nat option"
  peer_state :: wds_peer_state_t

datatype wds_task = OnBeaconProc nat nat | FsmTimer nat nat

record wds_sys =
  peers_list :: "nat \<Rightarrow> wds_peer_t list"
  on_beacon_list :: "(nat \<times> nat) list"
  wds_tasks :: "wds_task list"
  vap_connected :: "nat \<Rightarrow> bool"
  stations :: "nat \<Rightarrow> nat \<Rightarrow> nat option"
  sta_next :: nat
  sta_refs :: "nat \<Rightarrow> int"

definition wds_init :: wds_sys where
  "wds_init = \<lparr>peers_list = (\<lambda>_. []), on_beacon_list = [], wds_tasks = [], vap_connected = (\<lambda>_. False),
     stations = (\<lambda>_ _. None), sta_next = 0, sta_refs = (\<lambda>_. 0)\<rparr>"

definition wds_peer_new :: "nat \<Rightarrow> wds_peer_t" where
  "wds_peer_new a = \<lparr>peer_addr = a, kill_on_disconnect = False, fw_peer_sta_added = False, peer_sta = None,
     fsm_timer = None, peer_state = WDS_STATE_DISCONNECTED\<rparr>"

definition RECONNECT_TIMER_MAX_MS :: u32 where "RECONNECT_TIMER_MAX_MS = 3000"
definition CONNECTING_TIMEOUT_MS :: nat where "CONNECTING_TIMEOUT_MS = 1000"
definition DISCONNECTING_TIMEOUT_MS :: nat where "DISCONNECTING_TIMEOUT_MS = 1000"

definition wds_get_reconnect_delay :: "u32 \<Rightarrow> u32" where
  "wds_get_reconnect_delay ka =
     (if ka < 500 then RECONNECT_TIMER_MAX_MS
      else let delay = (ka - 200) div 4 * 3
        in if delay > RECONNECT_TIMER_MAX_MS then RECONNECT_TIMER_MAX_MS else delay)"

section \<open>Peers\<close>

definition wds_peer_find :: "wds_sys \<Rightarrow> nat \<Rightarrow> nat \<Rightarrow> wds_peer_t option" where
  "wds_peer_find s v a = find (\<lambda>p. peer_addr p = a) (peers_list s v)"

text \<open>Writing to the peer that was found, and taking it out of the list.\<close>

fun peer_upd :: "nat \<Rightarrow> (wds_peer_t \<Rightarrow> wds_peer_t) \<Rightarrow> wds_peer_t list \<Rightarrow> wds_peer_t list" where
  "peer_upd a f [] = []"
| "peer_upd a f (p # ps) = (if peer_addr p = a then f p # ps else p # peer_upd a f ps)"

fun peer_unlink :: "nat \<Rightarrow> wds_peer_t list \<Rightarrow> wds_peer_t list" where
  "peer_unlink a [] = []"
| "peer_unlink a (p # ps) = (if peer_addr p = a then ps else p # peer_unlink a ps)"

definition wds_upd_peer :: "nat \<Rightarrow> nat \<Rightarrow> (wds_peer_t \<Rightarrow> wds_peer_t) \<Rightarrow> wds_sys \<Rightarrow> wds_sys" where
  "wds_upd_peer v a f s = s\<lparr>peers_list := (peers_list s)(v := peer_upd a f (peers_list s v))\<rparr>"

definition mtlk_sta_decref :: "nat option \<Rightarrow> wds_sys \<Rightarrow> wds_sys" where
  "mtlk_sta_decref st s =
     (case st of None \<Rightarrow> s | Some x \<Rightarrow> s\<lparr>sta_refs := (sta_refs s)(x := sta_refs s x - 1)\<rparr>)"

definition wds_on_beacon_create_add :: "bool \<Rightarrow> nat \<Rightarrow> nat \<Rightarrow> wds_sys \<Rightarrow> wds_sys" where
  "wds_on_beacon_create_add mem v a s = (if mem then s\<lparr>on_beacon_list := (a, v) # on_beacon_list s\<rparr> else s)"

text \<open>The first entry with the address, whichever VAP it belongs to, leaves the list.\<close>

fun beacon_unlink :: "nat \<Rightarrow> (nat \<times> nat) list \<Rightarrow> (nat \<times> nat) list" where
  "beacon_unlink a [] = []"
| "beacon_unlink a (e # es) = (if fst e = a then es else e # beacon_unlink a es)"

definition wds_on_beacon_exclude :: "nat \<Rightarrow> wds_sys \<Rightarrow> wds_sys \<times> (nat \<times> nat) option" where
  "wds_on_beacon_exclude a s =
     (s\<lparr>on_beacon_list := beacon_unlink a (on_beacon_list s)\<rparr>, find (\<lambda>e. fst e = a) (on_beacon_list s))"

text \<open>\<open>FwNone\<close>: no message buffer is left; \<open>FwFail\<close>: the request failed with this status.\<close>

datatype fw_answer = FwNone | FwOk | FwFail nat

definition wds_send_fw_cfg_peer_ap :: "fw_answer \<Rightarrow> nat \<Rightarrow> nat \<Rightarrow> bool \<Rightarrow> wds_sys \<Rightarrow> wds_sys \<times> mtlk_error_t" where
  "wds_send_fw_cfg_peer_ap r v a add_peer s =
     (case r of
        FwNone \<Rightarrow> (s, MTLK_ERR_NO_RESOURCES)
      | FwFail status \<Rightarrow>
          (s, if status = 13 then MTLK_ERR_NO_MEM else if status = 3 then MTLK_ERR_PARAMS else MTLK_ERR_UNKNOWN)
      | FwOk \<Rightarrow> (wds_upd_peer v a (\<lambda>p. p\<lparr>fw_peer_sta_added := add_peer\<rparr>) s, MTLK_ERR_OK))"

definition wds_peer_remove_delete :: "nat \<Rightarrow> wds_peer_t \<Rightarrow> wds_sys \<Rightarrow> wds_sys" where
  "wds_peer_remove_delete v p s =
     (let s1 = mtlk_sta_decref (peer_sta p) s;
          s2 = fst (wds_on_beacon_exclude (peer_addr p) s1)
      in s2\<lparr>peers_list := (peers_list s2)(v := peer_unlink (peer_addr p) (peers_list s2 v))\<rparr>)"

text \<open>\<open>mem\<close>: whether the peer and its entry for beacons can be allocated.\<close>

definition wds_peer_create_add :: "bool \<times> bool \<Rightarrow> nat \<Rightarrow> nat \<Rightarrow> wds_sys \<Rightarrow> wds_sys \<times> mtlk_error_t" where
  "wds_peer_create_add mem v a s =
     (if \<not> fst mem then (s, MTLK_ERR_NO_MEM)
      else let s1 = s\<lparr>peers_list := (peers_list s)(v := wds_peer_new a # peers_list s v)\<rparr>
        in (if vap_connected s1 v then wds_on_beacon_create_add (snd mem) v a s1 else s1, MTLK_ERR_OK))"

section \<open>The state machine\<close>

definition peer_to :: "wds_peer_state_t \<Rightarrow> nat option \<Rightarrow> wds_peer_t \<Rightarrow> wds_peer_t" where
  "peer_to st tm p = p\<lparr>peer_state := st, fsm_timer := tm\<rparr>"

definition wds_peer_fsm :: "u32 \<Rightarrow> nat \<Rightarrow> nat \<Rightarrow> wds_peer_action_t \<Rightarrow> wds_sys \<Rightarrow> wds_sys" where
  "wds_peer_fsm ka v a action s =
     (case wds_peer_find s v a of
        None \<Rightarrow> s
      | Some p \<Rightarrow>
          let delay = Some (unat (wds_get_reconnect_delay ka)); to = (\<lambda>st tm. wds_upd_peer v a (peer_to st tm) s)
          in case peer_state p of
            WDS_STATE_DISCONNECTED \<Rightarrow>
              (case action of
                 WDS_ACTION_CONNECT \<Rightarrow> to WDS_STATE_CONNECTING (Some CONNECTING_TIMEOUT_MS)
               | WDS_ACTION_ERROR \<Rightarrow> to WDS_STATE_ERROR delay
               | WDS_ACTION_DISCONNECT \<Rightarrow> if kill_on_disconnect p then wds_peer_remove_delete v p s else s
               | WDS_ACTION_CONNECTED \<Rightarrow> s)
          | WDS_STATE_ERROR \<Rightarrow>
              (case action of
                 WDS_ACTION_CONNECT \<Rightarrow> to WDS_STATE_CONNECTING (Some CONNECTING_TIMEOUT_MS)
               | WDS_ACTION_ERROR \<Rightarrow> to WDS_STATE_ERROR delay
               | WDS_ACTION_DISCONNECT \<Rightarrow> if kill_on_disconnect p then wds_peer_remove_delete v p s else s
               | WDS_ACTION_CONNECTED \<Rightarrow> s)
          | WDS_STATE_CONNECTING \<Rightarrow>
              (case action of
                 WDS_ACTION_DISCONNECT \<Rightarrow> to WDS_STATE_DISCONNECTED delay
               | WDS_ACTION_CONNECTED \<Rightarrow> to WDS_STATE_CONNECTED None
               | WDS_ACTION_ERROR \<Rightarrow> to WDS_STATE_ERROR delay
               | WDS_ACTION_CONNECT \<Rightarrow> s)
          | WDS_STATE_CONNECTED \<Rightarrow>
              (case action of
                 WDS_ACTION_DISCONNECT \<Rightarrow> to WDS_STATE_DISCONNECTING (Some DISCONNECTING_TIMEOUT_MS)
               | _ \<Rightarrow> s)
          | WDS_STATE_DISCONNECTING \<Rightarrow>
              (case action of
                 WDS_ACTION_DISCONNECT \<Rightarrow>
                   if kill_on_disconnect p then wds_peer_remove_delete v p s else to WDS_STATE_DISCONNECTED delay
               | _ \<Rightarrow> s))"

section \<open>Operations\<close>

definition wds_on_beacon_proc :: "u32 \<Rightarrow> fw_answer \<Rightarrow> nat \<Rightarrow> nat \<Rightarrow> wds_sys \<Rightarrow> wds_sys" where
  "wds_on_beacon_proc ka r a v s =
     (if \<not> vap_connected s v \<or> wds_peer_find s v a = None then s
      else let (s1, res) = wds_send_fw_cfg_peer_ap r v a True s
        in wds_peer_fsm ka v a (if res = MTLK_ERR_OK then WDS_ACTION_CONNECT else WDS_ACTION_ERROR) s1)"

definition wds_usr_add_peer_ap :: "bool \<times> bool \<Rightarrow> nat \<Rightarrow> nat \<Rightarrow> nat \<Rightarrow> wds_sys \<Rightarrow> wds_sys \<times> mtlk_error_t" where
  "wds_usr_add_peer_ap mem max_sta v a s =
     (if wds_peer_find s v a \<noteq> None then (s, MTLK_ERR_ALREADY_EXISTS)
      else if max_sta = length (peers_list s v) then (s, MTLK_ERR_NO_MEM)
      else wds_peer_create_add mem v a s)"

definition wds_usr_del_peer_ap :: "u32 \<Rightarrow> fw_answer \<Rightarrow> nat \<Rightarrow> nat \<Rightarrow> wds_sys \<Rightarrow> wds_sys \<times> mtlk_error_t" where
  "wds_usr_del_peer_ap ka r v a s =
     (case wds_peer_find s v a of
        None \<Rightarrow> (s, MTLK_ERR_NO_ENTRY)
      | Some p \<Rightarrow>
          let s1 = wds_upd_peer v a (\<lambda>p. p\<lparr>kill_on_disconnect := True\<rparr>) s;
              (s2, res) = (if fw_peer_sta_added p then wds_send_fw_cfg_peer_ap r v a False s1 else (s1, MTLK_ERR_OK))
          in (if res = MTLK_ERR_OK then wds_peer_fsm ka v a WDS_ACTION_DISCONNECT s2 else s2, res))"

definition wds_peer_connect :: "u32 \<Rightarrow> fw_answer \<Rightarrow> nat \<Rightarrow> nat option \<Rightarrow> nat \<Rightarrow> wds_sys \<Rightarrow> wds_sys" where
  "wds_peer_connect ka r v st a s =
     (case wds_peer_find s v a of
        None \<Rightarrow> s
      | Some p \<Rightarrow>
          (case st of
             Some x \<Rightarrow>
               wds_peer_fsm ka v a WDS_ACTION_CONNECTED
                 (wds_upd_peer v a (\<lambda>p. p\<lparr>peer_sta := Some x\<rparr>) (s\<lparr>sta_refs := (sta_refs s)(x := sta_refs s x + 1)\<rparr>))
           | None \<Rightarrow> wds_peer_fsm ka v a WDS_ACTION_ERROR (fst (wds_send_fw_cfg_peer_ap r v a False s))))"

definition wds_peer_disconnect :: "u32 \<Rightarrow> fw_answer \<Rightarrow> nat \<Rightarrow> nat \<Rightarrow> wds_sys \<Rightarrow> wds_sys \<times> mtlk_error_t \<times> bool" where
  "wds_peer_disconnect ka r v a s =
     (case wds_peer_find s v a of
        None \<Rightarrow> (s, MTLK_ERR_OK, False)
      | Some p \<Rightarrow>
          let s1 = mtlk_sta_decref (peer_sta p) (wds_upd_peer v a (\<lambda>p. p\<lparr>peer_sta := None\<rparr>) s);
              (s2, res) = (if fw_peer_sta_added p then wds_send_fw_cfg_peer_ap r v a False s1 else (s1, MTLK_ERR_OK))
          in (if res = MTLK_ERR_OK then wds_peer_fsm ka v a WDS_ACTION_DISCONNECT s2 else s2, res, fw_peer_sta_added p))"

definition peer_force_down :: "wds_peer_t \<Rightarrow> wds_peer_t" where
  "peer_force_down p = p\<lparr>kill_on_disconnect := False, fw_peer_sta_added := False, fsm_timer := None,
     peer_state := WDS_STATE_DISCONNECTED, peer_sta := None\<rparr>"

definition wds_on_if_down :: "nat \<Rightarrow> wds_sys \<Rightarrow> wds_sys" where
  "wds_on_if_down v s =
     (let s1 = foldl (\<lambda>s p. mtlk_sta_decref (peer_sta p) s) s (peers_list s v)
      in s1\<lparr>on_beacon_list := filter (\<lambda>e. snd e \<noteq> v) (on_beacon_list s1),
            peers_list := (peers_list s1)(v := map peer_force_down (peers_list s1 v))\<rparr>)"

definition wds_on_if_up :: "bool list \<Rightarrow> nat \<Rightarrow> wds_sys \<Rightarrow> wds_sys" where
  "wds_on_if_up mems v s =
     foldl (\<lambda>s (mem, p). wds_on_beacon_create_add mem v (peer_addr p) s) s (zip mems (peers_list s v))"

definition wds_cleanup :: "nat \<Rightarrow> wds_sys \<Rightarrow> wds_sys" where
  "wds_cleanup v s = s\<lparr>peers_list := (peers_list s)(v := [])\<rparr>"

definition mtlk_wds_get_peer_vect :: "nat \<Rightarrow> wds_sys \<Rightarrow> nat list" where
  "mtlk_wds_get_peer_vect v s = map peer_addr (peers_list s v)"

definition wds_peer_fsm_timer :: "u32 \<Rightarrow> fw_answer \<Rightarrow> bool \<Rightarrow> nat \<Rightarrow> nat \<Rightarrow> wds_sys \<Rightarrow> wds_sys" where
  "wds_peer_fsm_timer ka r mem v a s =
     (case wds_peer_find s v a of
        None \<Rightarrow> s
      | Some p \<Rightarrow>
          (case peer_state p of
             WDS_STATE_CONNECTING \<Rightarrow> wds_peer_fsm ka v a WDS_ACTION_ERROR (fst (wds_send_fw_cfg_peer_ap r v a False s))
           | WDS_STATE_DISCONNECTING \<Rightarrow> wds_peer_fsm ka v a WDS_ACTION_DISCONNECT s
           | WDS_STATE_ERROR \<Rightarrow> wds_on_beacon_create_add mem v a s
           | WDS_STATE_DISCONNECTED \<Rightarrow> wds_on_beacon_create_add mem v a s
           | WDS_STATE_CONNECTED \<Rightarrow> s))"

section \<open>Events of the core\<close>

text \<open>\<open>ok\<close>: whether the task can be queued in the serializer.\<close>

definition mtlk_core_wds_on_beacon :: "bool \<Rightarrow> nat \<Rightarrow> wds_sys \<Rightarrow> wds_sys" where
  "mtlk_core_wds_on_beacon ok a s =
     (let (s1, e) = wds_on_beacon_exclude a s
      in case e of None \<Rightarrow> s1
         | Some (a', v) \<Rightarrow> if ok then s1\<lparr>wds_tasks := wds_tasks s1 @ [OnBeaconProc a' v]\<rparr> else s1)"

definition mtlk_core_wds_on_timer :: "bool \<Rightarrow> nat \<Rightarrow> nat \<Rightarrow> wds_sys \<Rightarrow> wds_sys" where
  "mtlk_core_wds_on_timer ok v a s =
     (let s1 = wds_upd_peer v a (\<lambda>p. p\<lparr>fsm_timer := None\<rparr>) s
      in if ok then s1\<lparr>wds_tasks := wds_tasks s1 @ [FsmTimer v a]\<rparr> else s1)"

text \<open>
  A station connects: it is added to the station database, which fails if the address is there
  already or (\<open>mem\<close>) memory is short. A station disconnects: it is removed from the database,
  unless the bridge asks to wait for the firmware.
\<close>

definition core_connect_sta :: "u32 \<Rightarrow> fw_answer \<Rightarrow> bool \<Rightarrow> nat \<Rightarrow> nat \<Rightarrow> wds_sys \<Rightarrow> wds_sys" where
  "core_connect_sta ka r mem v a s =
     (if stations s v a \<noteq> None \<or> \<not> mem then wds_peer_connect ka r v None a s
      else let x = sta_next s
        in wds_peer_connect ka r v (Some x) a
             (s\<lparr>sta_next := Suc x, stations := (stations s)(v := (stations s v)(a := Some x))\<rparr>))"

definition core_disconnect_sta :: "u32 \<Rightarrow> fw_answer \<Rightarrow> nat \<Rightarrow> nat \<Rightarrow> wds_sys \<Rightarrow> wds_sys" where
  "core_disconnect_sta ka r v a s =
     (let (s1, res, terminate) = wds_peer_disconnect ka r v a s
      in if terminate then s1 else s1\<lparr>stations := (stations s1)(v := (stations s1 v)(a := None))\<rparr>)"

text \<open>
  An interface goes up or down. A deactivation that is refused (\<open>ok\<close> false) has stopped the bridge
  but leaves the interface up, with its stations.
\<close>

definition core_activate :: "bool list \<Rightarrow> nat \<Rightarrow> wds_sys \<Rightarrow> wds_sys" where
  "core_activate mems v s = wds_on_if_up mems v (s\<lparr>vap_connected := (vap_connected s)(v := True)\<rparr>)"

definition core_deactivate :: "bool \<Rightarrow> nat \<Rightarrow> wds_sys \<Rightarrow> wds_sys" where
  "core_deactivate ok v s =
     (let s1 = wds_on_if_down v s
      in if ok then s1\<lparr>stations := (stations s1)(v := \<lambda>_. None), vap_connected := (vap_connected s1)(v := False)\<rparr> else s1)"

definition wds_run_task :: "u32 \<Rightarrow> fw_answer \<Rightarrow> bool \<Rightarrow> nat \<Rightarrow> wds_sys \<Rightarrow> wds_sys" where
  "wds_run_task ka r mem i s =
     (let s1 = s\<lparr>wds_tasks := take i (wds_tasks s) @ drop (Suc i) (wds_tasks s)\<rparr>
      in case wds_tasks s ! i of
           OnBeaconProc a v \<Rightarrow> wds_on_beacon_proc ka r a v s1
         | FsmTimer v a \<Rightarrow> wds_peer_fsm_timer ka r mem v a s1)"

end
