(* ===== verification/Wds_Props.thy ===== *)
theory Wds_Props
  imports Wds
begin

text \<open>
  Wireless bridges: in every run of the driver the bridge holds exactly one reference on the
  station of each connected peer; no peer is ever left without something that will bring it back;
  what the user deletes can come back.
\<close>

section \<open>Runs\<close>

datatype wds_event =
    EvAdd "bool \<times> bool" nat nat nat
  | EvDel u32 fw_answer nat nat
  | EvConnect u32 fw_answer bool nat nat
  | EvDisconnect u32 fw_answer nat nat
  | EvBeacon bool nat
  | EvTimer bool nat nat
  | EvTask u32 fw_answer bool nat
  | EvUp "bool list" nat
  | EvDown bool nat
  | EvCleanup nat

fun wds_do :: "wds_sys \<Rightarrow> wds_event \<Rightarrow> wds_sys" where
  "wds_do s (EvAdd mem mx v a) = fst (wds_usr_add_peer_ap mem mx v a s)"
| "wds_do s (EvDel ka r v a) = fst (wds_usr_del_peer_ap ka r v a s)"
| "wds_do s (EvConnect ka r mem v a) = core_connect_sta ka r mem v a s"
| "wds_do s (EvDisconnect ka r v a) = core_disconnect_sta ka r v a s"
| "wds_do s (EvBeacon ok a) = mtlk_core_wds_on_beacon ok a s"
| "wds_do s (EvTimer ok v a) = mtlk_core_wds_on_timer ok v a s"
| "wds_do s (EvTask ka r mem i) = wds_run_task ka r mem i s"
| "wds_do s (EvUp mems v) = core_activate mems v s"
| "wds_do s (EvDown ok v) = core_deactivate ok v s"
| "wds_do s (EvCleanup v) = wds_cleanup v s"

text \<open>
  What can happen: stations connect to an interface that is up, a timer fires if it is armed, the
  serializer runs a task that is queued, an interface is removed when it is down.
\<close>

fun wds_can :: "wds_sys \<Rightarrow> wds_event \<Rightarrow> bool" where
  "wds_can s (EvConnect ka r mem v a) = vap_connected s v"
| "wds_can s (EvTimer ok v a) = (\<exists>p. wds_peer_find s v a = Some p \<and> fsm_timer p \<noteq> None)"
| "wds_can s (EvTask ka r mem i) = (i < length (wds_tasks s))"
| "wds_can s (EvCleanup v) = (\<not> vap_connected s v)"
| "wds_can s _ = True"

section \<open>Finding, writing and unlinking peers\<close>

lemma find_peer_upd:
  "(\<And>p. peer_addr (f p) = peer_addr p) \<Longrightarrow>
   find (\<lambda>p. peer_addr p = a') (peer_upd a f ps) =
   (if a' = a then map_option f (find (\<lambda>p. peer_addr p = a) ps) else find (\<lambda>p. peer_addr p = a') ps)"
  by (induction ps) auto

lemma addr_peer_upd: "(\<And>p. peer_addr (f p) = peer_addr p) \<Longrightarrow> map peer_addr (peer_upd a f ps) = map peer_addr ps"
  by (induction ps) auto

lemma set_peer_unlink: "set (peer_unlink a ps) \<subseteq> set ps"
  by (induction ps) auto

lemma find_peer_unlink:
  "distinct (map peer_addr ps) \<Longrightarrow> find (\<lambda>p. peer_addr p = a') (peer_unlink a ps) =
   (if a' = a then None else find (\<lambda>p. peer_addr p = a') ps)"
  by (induction ps) (auto simp: find_None_iff image_iff)

lemma distinct_peer_unlink: "distinct (map peer_addr ps) \<Longrightarrow> distinct (map peer_addr (peer_unlink a ps))"
  using set_peer_unlink by (induction ps) (fastforce)+

lemma find_addr: "wds_peer_find s v a = Some p \<Longrightarrow> peer_addr p = a \<and> p \<in> set (peers_list s v)"
  by (auto simp: wds_peer_find_def find_Some_iff)

definition wds_distinct :: "wds_sys \<Rightarrow> bool" where
  "wds_distinct s \<longleftrightarrow> (\<forall>v. distinct (map peer_addr (peers_list s v)))"

lemma find_wds_upd:
  "(\<And>p. peer_addr (f p) = peer_addr p) \<Longrightarrow> wds_peer_find (wds_upd_peer v a f s) v' a' =
   (if v' = v \<and> a' = a then map_option f (wds_peer_find s v a) else wds_peer_find s v' a')"
  by (simp add: wds_peer_find_def wds_upd_peer_def find_peer_upd)

lemma wds_upd_peer_frame [simp]:
  "on_beacon_list (wds_upd_peer v a f s) = on_beacon_list s" "wds_tasks (wds_upd_peer v a f s) = wds_tasks s"
  "vap_connected (wds_upd_peer v a f s) = vap_connected s" "stations (wds_upd_peer v a f s) = stations s"
  "sta_next (wds_upd_peer v a f s) = sta_next s" "sta_refs (wds_upd_peer v a f s) = sta_refs s"
  by (simp_all add: wds_upd_peer_def)

lemma distinct_wds_upd: "(\<And>p. peer_addr (f p) = peer_addr p) \<Longrightarrow> wds_distinct (wds_upd_peer v a f s) = wds_distinct s"
  by (auto simp: wds_distinct_def wds_upd_peer_def addr_peer_upd)

lemma find_sys_upd [simp]:
  "wds_peer_find (s\<lparr>on_beacon_list := b\<rparr>) v a = wds_peer_find s v a"
  "wds_peer_find (s\<lparr>wds_tasks := t\<rparr>) v a = wds_peer_find s v a"
  "wds_peer_find (s\<lparr>vap_connected := c\<rparr>) v a = wds_peer_find s v a"
  "wds_peer_find (s\<lparr>stations := d\<rparr>) v a = wds_peer_find s v a"
  "wds_peer_find (s\<lparr>sta_next := n\<rparr>) v a = wds_peer_find s v a"
  "wds_peer_find (s\<lparr>sta_refs := r\<rparr>) v a = wds_peer_find s v a"
  by (simp_all add: wds_peer_find_def)

lemma distinct_sys_upd [simp]:
  "wds_distinct (s\<lparr>on_beacon_list := b\<rparr>) = wds_distinct s" "wds_distinct (s\<lparr>wds_tasks := t\<rparr>) = wds_distinct s"
  "wds_distinct (s\<lparr>vap_connected := c\<rparr>) = wds_distinct s" "wds_distinct (s\<lparr>stations := d\<rparr>) = wds_distinct s"
  "wds_distinct (s\<lparr>sta_next := n\<rparr>) = wds_distinct s" "wds_distinct (s\<lparr>sta_refs := r\<rparr>) = wds_distinct s"
  by (simp_all add: wds_distinct_def)

lemma decref_frame [simp]:
  "on_beacon_list (mtlk_sta_decref x s) = on_beacon_list s" "wds_tasks (mtlk_sta_decref x s) = wds_tasks s"
  "vap_connected (mtlk_sta_decref x s) = vap_connected s" "stations (mtlk_sta_decref x s) = stations s"
  "sta_next (mtlk_sta_decref x s) = sta_next s" "peers_list (mtlk_sta_decref x s) = peers_list s"
  "wds_peer_find (mtlk_sta_decref x s) v a = wds_peer_find s v a" "wds_distinct (mtlk_sta_decref x s) = wds_distinct s"
  by (simp_all add: mtlk_sta_decref_def wds_distinct_def wds_peer_find_def split: option.splits)

lemma decref_refs [simp]: "sta_refs (mtlk_sta_decref x s) y = sta_refs s y - (if x = Some y then 1 else 0)"
  by (simp add: mtlk_sta_decref_def split: option.splits)

lemma remove_frame [simp]:
  "wds_tasks (wds_peer_remove_delete v p s) = wds_tasks s" "vap_connected (wds_peer_remove_delete v p s) = vap_connected s"
  "stations (wds_peer_remove_delete v p s) = stations s" "sta_next (wds_peer_remove_delete v p s) = sta_next s"
  "sta_refs (wds_peer_remove_delete v p s) x = sta_refs s x - (if peer_sta p = Some x then 1 else 0)"
  "on_beacon_list (wds_peer_remove_delete v p s) = beacon_unlink (peer_addr p) (on_beacon_list s)"
  by (simp_all add: wds_peer_remove_delete_def wds_on_beacon_exclude_def Let_def)

lemma find_remove:
  "wds_distinct s \<Longrightarrow> wds_peer_find (wds_peer_remove_delete v p s) v' a' =
   (if v' = v \<and> a' = peer_addr p then None else wds_peer_find s v' a')"
  by (simp add: wds_peer_remove_delete_def wds_on_beacon_exclude_def Let_def wds_peer_find_def wds_distinct_def find_peer_unlink)

lemma distinct_remove: "wds_distinct s \<Longrightarrow> wds_distinct (wds_peer_remove_delete v p s)"
  by (simp add: wds_peer_remove_delete_def wds_on_beacon_exclude_def Let_def wds_distinct_def distinct_peer_unlink)

text \<open>
  The state machine moves its peer, removes it, or does nothing.
\<close>

fun fsm_moves :: "wds_peer_action_t \<Rightarrow> wds_peer_state_t \<Rightarrow> bool" where
  "fsm_moves WDS_ACTION_CONNECT st = (st \<in> {WDS_STATE_DISCONNECTED, WDS_STATE_ERROR})"
| "fsm_moves WDS_ACTION_ERROR st = (st \<in> {WDS_STATE_DISCONNECTED, WDS_STATE_ERROR, WDS_STATE_CONNECTING})"
| "fsm_moves WDS_ACTION_DISCONNECT st = (st \<in> {WDS_STATE_CONNECTING, WDS_STATE_CONNECTED, WDS_STATE_DISCONNECTING})"
| "fsm_moves WDS_ACTION_CONNECTED st = (st = WDS_STATE_CONNECTING)"

lemma fsm_disj:
  "wds_peer_fsm ka v a act s = s \<and> (\<forall>p. wds_peer_find s v a = Some p \<longrightarrow> \<not> fsm_moves act (peer_state p)) \<or>
   (\<exists>p st tm. wds_peer_find s v a = Some p \<and> wds_peer_fsm ka v a act s = wds_upd_peer v a (peer_to st tm) s \<and>
      (st = WDS_STATE_CONNECTED \<or> tm \<noteq> None)) \<or>
   (\<exists>p. wds_peer_find s v a = Some p \<and> wds_peer_fsm ka v a act s = wds_peer_remove_delete v p s)"
proof (cases "wds_peer_find s v a")
  case None
  then show ?thesis by (simp add: wds_peer_fsm_def)
next
  case (Some p)
  then show ?thesis
    by (cases "peer_state p"; cases act; cases "kill_on_disconnect p") (simp_all add: wds_peer_fsm_def Let_def, blast+)
qed

lemma fsm_cases:
  obtains (Same) "wds_peer_fsm ka v a act s = s" "\<forall>p. wds_peer_find s v a = Some p \<longrightarrow> \<not> fsm_moves act (peer_state p)"
  | (Move) p st tm where "wds_peer_find s v a = Some p" "wds_peer_fsm ka v a act s = wds_upd_peer v a (peer_to st tm) s"
      "st = WDS_STATE_CONNECTED \<or> tm \<noteq> None"
  | (Remove) p where "wds_peer_find s v a = Some p" "wds_peer_fsm ka v a act s = wds_peer_remove_delete v p s"
  using fsm_disj [of ka v a act s] by blast

lemma peer_to_simps [simp]:
  "peer_addr (peer_to st tm p) = peer_addr p" "peer_sta (peer_to st tm p) = peer_sta p"
  "peer_state (peer_to st tm p) = st" "fsm_timer (peer_to st tm p) = tm"
  "kill_on_disconnect (peer_to st tm p) = kill_on_disconnect p" "fw_peer_sta_added (peer_to st tm p) = fw_peer_sta_added p"
  by (simp_all add: peer_to_def)

section \<open>References\<close>

definition psta :: "wds_sys \<Rightarrow> nat \<Rightarrow> nat \<Rightarrow> nat option" where
  "psta s v a = Option.bind (wds_peer_find s v a) peer_sta"

definition sta_db_ok :: "wds_sys \<Rightarrow> bool" where
  "sta_db_ok s \<longleftrightarrow> (\<forall>v a x. stations s v a = Some x \<longrightarrow> x < sta_next s) \<and>
     (\<forall>v a v' a' x. stations s v a = Some x \<and> stations s v' a' = Some x \<longrightarrow> v = v' \<and> a = a')"

definition ref_inv :: "wds_sys \<Rightarrow> bool" where
  "ref_inv s \<longleftrightarrow> wds_distinct s \<and> sta_db_ok s \<and>
     (\<forall>v a x. psta s v a = Some x \<longrightarrow> stations s v a = Some x) \<and>
     (\<forall>v a. \<not> vap_connected s v \<longrightarrow> psta s v a = None) \<and>
     (\<forall>x. sta_refs s x = (if \<exists>v a. psta s v a = Some x then 1 else 0))"

lemma ref_invD:
  assumes "ref_inv s"
  shows "wds_distinct s" "sta_db_ok s" "psta s v a = Some x \<Longrightarrow> stations s v a = Some x" "\<not> vap_connected s v \<Longrightarrow> psta s v a = None"
    "sta_refs s x = (if \<exists>v a. psta s v a = Some x then 1 else 0)"
  using assms by (auto simp: ref_inv_def)

lemma psta_inj: "ref_inv s \<Longrightarrow> psta s v a = Some x \<Longrightarrow> psta s v' a' = Some x \<Longrightarrow> v' = v \<and> a' = a"
  using ref_invD(2,3) unfolding sta_db_ok_def by blast

lemma ref_inv_cong:
  assumes "ref_inv s" "psta s' = psta s" "wds_distinct s'" "stations s' = stations s" "sta_next s' = sta_next s"
    "vap_connected s' = vap_connected s" "sta_refs s' = sta_refs s"
  shows "ref_inv s'"
  using assms by (auto simp: ref_inv_def sta_db_ok_def)

text \<open>Every station of a set of peers is given back: the counts stay exact.\<close>

lemma ref_inv_clear:
  assumes "ref_inv s" "wds_distinct s'" "stations s' = stations s" "sta_next s' = sta_next s" "vap_connected s' = vap_connected s"
    and p: "\<And>v a. psta s' v a = (if C v a then None else psta s v a)"
    and r: "\<And>x. sta_refs s' x = sta_refs s x - (if \<exists>v a. C v a \<and> psta s v a = Some x then 1 else 0)"
  shows "ref_inv s'"
proof -
  have "sta_refs s' x = (if \<exists>v a. psta s' v a = Some x then 1 else 0)" for x
  proof (cases "\<exists>v a. psta s v a = Some x")
    case True
    then obtain v a where e: "psta s v a = Some x" by blast
    have "v' = v \<and> a' = a" if "psta s v' a' = Some x" for v' a' using psta_inj [OF assms(1) e that] .
    then have "(\<exists>v a. C v a \<and> psta s v a = Some x) = C v a" using e by blast
    moreover have "(\<exists>v a. psta s' v a = Some x) = (\<not> C v a)"
      unfolding p using e \<open>\<And>v' a'. psta s v' a' = Some x \<Longrightarrow> v' = v \<and> a' = a\<close> by (metis option.distinct(1))
    ultimately show ?thesis using r [of x] ref_invD(5) [OF assms(1), of x] True by simp
  next
    case False
    then show ?thesis unfolding r using ref_invD(5) [OF assms(1), of x] by (simp add: p)
  qed
  then show ?thesis using assms(1-5) p by (auto simp: ref_inv_def sta_db_ok_def)
qed

lemma psta_upd_peer:
  "(\<And>p. peer_addr (f p) = peer_addr p) \<Longrightarrow> psta (wds_upd_peer v a f s) v' a' =
   (if v' = v \<and> a' = a then Option.bind (wds_peer_find s v a) (peer_sta \<circ> f) else psta s v' a')"
  by (auto simp: psta_def find_wds_upd split: option.splits bind_splits)

lemma ref_inv_upd_peer:
  "ref_inv s \<Longrightarrow> (\<And>p. peer_addr (f p) = peer_addr p) \<Longrightarrow> (\<And>p. peer_sta (f p) = peer_sta p) \<Longrightarrow> ref_inv (wds_upd_peer v a f s)"
  by (rule ref_inv_cong, assumption, intro ext)
     (simp_all add: psta_upd_peer distinct_wds_upd ref_invD(1) comp_def, simp add: psta_def)

lemma psta_remove: "wds_distinct s \<Longrightarrow> psta (wds_peer_remove_delete v p s) v' a' = (if v' = v \<and> a' = peer_addr p then None else psta s v' a')"
  by (simp add: psta_def find_remove)

lemma ref_inv_fsm: "ref_inv s \<Longrightarrow> ref_inv (wds_peer_fsm ka v a act s)"
proof (cases rule: fsm_cases [of ka v a act s])
  case (Remove p)
  assume i: "ref_inv s"
  have a: "peer_addr p = a" using find_addr Remove(1) by blast
  have "psta s v a = peer_sta p" using Remove(1) by (simp add: psta_def)
  then show ?thesis unfolding Remove(2)
    by (intro ref_inv_clear [OF i, where C = "\<lambda>v' a'. v' = v \<and> a' = a"])
      (use ref_invD(1) [OF i] a in \<open>auto simp: psta_remove distinct_remove\<close>)
qed (auto intro: ref_inv_upd_peer)

lemma psta_fsm_None: "ref_inv s \<Longrightarrow> psta s v a = None \<Longrightarrow> psta (wds_peer_fsm ka v a act s) v a = None"
proof (cases rule: fsm_cases [of ka v a act s])
  case (Move p st tm)
  assume "psta s v a = None"
  then show ?thesis using Move by (simp add: psta_upd_peer) (simp add: psta_def)
next
  case (Remove p)
  then show "ref_inv s \<Longrightarrow> ?thesis" using find_addr [OF Remove(1)] by (simp add: psta_remove ref_invD(1))
qed auto

lemma send_fw_cases:
  "fst (wds_send_fw_cfg_peer_ap r v a b s) = s \<or>
   fst (wds_send_fw_cfg_peer_ap r v a b s) = wds_upd_peer v a (\<lambda>p. p\<lparr>fw_peer_sta_added := b\<rparr>) s"
  by (cases r) (simp_all add: wds_send_fw_cfg_peer_ap_def)

lemma ref_inv_send: "ref_inv s \<Longrightarrow> ref_inv (fst (wds_send_fw_cfg_peer_ap r v a b s))"
  using send_fw_cases [of r v a b s] ref_inv_upd_peer [of s "\<lambda>p. p\<lparr>fw_peer_sta_added := b\<rparr>" v a] by auto

lemma psta_send: "psta (fst (wds_send_fw_cfg_peer_ap r v a b s)) v' a' = psta s v' a'"
  using send_fw_cases [of r v a b s] by (auto simp: psta_upd_peer) (auto simp: psta_def split: bind_splits)

text \<open>A message that is sent only if the firmware knows the peer, and the action that follows its success.\<close>

lemma send_if:
  assumes "ref_inv s" "(s2, res) = (if c then wds_send_fw_cfg_peer_ap r v a b s else (s, MTLK_ERR_OK))"
  shows "ref_inv s2" "psta s2 v' a' = psta s v' a'"
  using assms ref_inv_send [of s r v a b] psta_send [of r v a b s v' a'] by (auto split: if_splits simp: prod_eq_iff)

lemma ref_inv_stations:
  assumes "ref_inv s" "\<And>v a x. d v a = Some x \<Longrightarrow> stations s v a = Some x" "\<And>v a x. psta s v a = Some x \<Longrightarrow> d v a = Some x"
  shows "ref_inv (s\<lparr>stations := d\<rparr>)"
proof -
  have "sta_db_ok (s\<lparr>stations := d\<rparr>)"
    unfolding sta_db_ok_def using ref_invD(2) [OF assms(1)] assms(2) by (simp add: sta_db_ok_def) blast
  moreover have "psta (s\<lparr>stations := d\<rparr>) = psta s" by (intro ext) (simp add: psta_def)
  ultimately show ?thesis using assms(1,3) unfolding ref_inv_def by simp
qed

lemma ref_inv_drop_station: "ref_inv s \<Longrightarrow> psta s v a = None \<Longrightarrow> ref_inv (s\<lparr>stations := (stations s)(v := (stations s v)(a := None))\<rparr>)"
  by (rule ref_inv_stations) (auto split: if_splits dest: ref_invD(3))

lemma ref_inv_disconnect:
  assumes i: "ref_inv s"
  shows "ref_inv (core_disconnect_sta ka r v a s)"
proof (cases "wds_peer_find s v a")
  case None
  then have "psta s v a = None" by (simp add: psta_def)
  then have "ref_inv (s\<lparr>stations := (stations s)(v := (stations s v)(a := None))\<rparr>)"
    by (rule ref_inv_drop_station [OF i])
  then show ?thesis using None by (simp add: core_disconnect_sta_def wds_peer_disconnect_def)
next
  case (Some p)
  let ?s1 = "mtlk_sta_decref (peer_sta p) (wds_upd_peer v a (\<lambda>p. p\<lparr>peer_sta := None\<rparr>) s)"
  have e: "psta s v a = peer_sta p" using Some by (simp add: psta_def)
  have c: "psta ?s1 v' a' = (if v' = v \<and> a' = a then None else psta s v' a')" for v' a'
    by (simp add: psta_def find_wds_upd Some)
  have i1: "ref_inv ?s1"
    by (rule ref_inv_clear [OF i, where C = "\<lambda>v' a'. v' = v \<and> a' = a"])
      (use ref_invD(1) [OF i] e c in \<open>auto simp: distinct_wds_upd\<close>)
  obtain s2 res where s2: "(s2, res) = (if fw_peer_sta_added p then wds_send_fw_cfg_peer_ap r v a False ?s1 else (?s1, MTLK_ERR_OK))"
    by (metis surj_pair)
  let ?s3 = "if res = MTLK_ERR_OK then wds_peer_fsm ka v a WDS_ACTION_DISCONNECT s2 else s2"
  have i2: "ref_inv s2" "psta s2 v a = None" using send_if [OF i1 s2] c by simp_all
  have i3: "ref_inv ?s3" "psta ?s3 v a = None" using i2 ref_inv_fsm psta_fsm_None by auto
  then have "ref_inv (?s3\<lparr>stations := (stations ?s3)(v := (stations ?s3 v)(a := None))\<rparr>)"
    by (rule ref_inv_drop_station)
  then show ?thesis
    using i3(1) Some s2 [symmetric] by (simp add: core_disconnect_sta_def wds_peer_disconnect_def Let_def split_def split: if_splits)
qed

lemma sta_db_cong: "sta_db_ok s \<Longrightarrow> stations s' = stations s \<Longrightarrow> sta_next s' = sta_next s \<Longrightarrow> sta_db_ok s'"
  by (simp add: sta_db_ok_def)

lemma sta_db_add:
  assumes ok: "sta_db_ok s"
  shows "sta_db_ok (s\<lparr>sta_next := Suc (sta_next s), stations := (stations s)(v := (stations s v)(a := Some (sta_next s)))\<rparr>)"
    (is "sta_db_ok ?s1")
proof -
  have e: "stations ?s1 v' a' = (if v' = v \<and> a' = a then Some (sta_next s) else stations s v' a')" for v' a' by simp
  have lt: "y < sta_next s" if "stations s v' a' = Some y" for v' a' y using ok that unfolding sta_db_ok_def by blast
  have inj: "v1 = v2 \<and> a1 = a2" if "stations s v1 a1 = Some y" "stations s v2 a2 = Some y" for v1 a1 v2 a2 y
    using ok that unfolding sta_db_ok_def by blast
  have "v1 = v2 \<and> a1 = a2" if "stations ?s1 v1 a1 = Some y" "stations ?s1 v2 a2 = Some y" for v1 a1 v2 a2 y
    using that inj lt unfolding e by (metis less_irrefl option.inject)
  moreover have "y < sta_next ?s1" if "stations ?s1 v' a' = Some y" for v' a' y
    using that lt [of v' a' y] unfolding e by (auto split: if_splits)
  ultimately show ?thesis unfolding sta_db_ok_def by blast
qed

lemma ref_inv_connect:
  assumes i: "ref_inv s" and c: "vap_connected s v"
  shows "ref_inv (core_connect_sta ka r mem v a s)"
proof -
  have fail: "ref_inv (wds_peer_connect ka r v None a s)"
    using i by (simp add: wds_peer_connect_def ref_inv_fsm ref_inv_send split: option.splits)
  let ?x = "sta_next s"
  let ?s1 = "s\<lparr>sta_next := Suc ?x, stations := (stations s)(v := (stations s v)(a := Some ?x))\<rparr>"
  let ?s2 = "wds_upd_peer v a (\<lambda>p. p\<lparr>peer_sta := Some ?x\<rparr>) (?s1\<lparr>sta_refs := (sta_refs ?s1)(?x := sta_refs ?s1 ?x + 1)\<rparr>)"
  have "ref_inv (wds_peer_connect ka r v (Some ?x) a ?s1)" if n: "stations s v a = None"
  proof -
    have db: "sta_db_ok ?s1" by (rule sta_db_add [OF ref_invD(2) [OF i]])
    have pn: "psta s v a = None" using ref_invD(3) [OF i, of v a] n by (cases "psta s v a") auto
    have px: "psta s v' a' \<noteq> Some ?x" for v' a' using ref_invD(2,3) [OF i] unfolding sta_db_ok_def by (metis less_irrefl)
    show ?thesis
    proof (cases "wds_peer_find s v a")
      case None
      have "psta ?s1 = psta s" by (intro ext) (simp add: psta_def)
      moreover have "psta s v' a' = Some x \<Longrightarrow> stations ?s1 v' a' = Some x" for v' a' x
        using ref_invD(3) [OF i, of v' a' x] pn by (cases "v' = v \<and> a' = a") auto
      ultimately have "ref_inv ?s1" using i db unfolding ref_inv_def by simp
      then show ?thesis using None by (simp add: wds_peer_connect_def)
    next
      case (Some p)
      have ps: "psta ?s2 v' a' = (if v' = v \<and> a' = a then Some ?x else psta s v' a')" for v' a'
        by (simp add: psta_def find_wds_upd Some)
      have db2: "sta_db_ok ?s2" by (rule sta_db_cong [OF db]) simp_all
      have rf: "sta_refs ?s2 x = (if \<exists>v a. psta ?s2 v a = Some x then 1 else 0)" for x
      proof (cases "x = ?x")
        case True
        have "sta_refs s ?x = 0" using ref_invD(5) [OF i, of ?x] px by simp
        moreover have "\<exists>v' a'. psta ?s2 v' a' = Some x" by (intro exI [of _ v] exI [of _ a]) (simp only: ps True refl simp_thms if_True)
        ultimately show ?thesis using True by simp
      next
        case False
        have "(\<exists>v a. psta ?s2 v a = Some x) = (\<exists>v a. psta s v a = Some x)" unfolding ps using False pn by (metis option.distinct(1) option.inject)
        then show ?thesis using False ref_invD(5) [OF i, of x] by simp
      qed
      have "ref_inv ?s2"
        unfolding ref_inv_def
      proof (intro conjI allI impI rf db2)
        show "wds_distinct ?s2" using ref_invD(1) [OF i] by (simp add: distinct_wds_upd)
        show "stations ?s2 v' a' = Some x" if "psta ?s2 v' a' = Some x" for v' a' x
          using that [unfolded ps] ref_invD(3) [OF i, of v' a' x] by (cases "v' = v \<and> a' = a") auto
        show "psta ?s2 v' a' = None" if "\<not> vap_connected ?s2 v'" for v' a'
          unfolding ps using that ref_invD(4) [OF i, of v' a'] c by (cases "v' = v") auto
      qed
      then show ?thesis using Some ref_inv_fsm by (simp add: wds_peer_connect_def)
    qed
  qed
  with fail show ?thesis by (simp add: core_connect_sta_def Let_def)
qed

lemma ref_inv_del: "ref_inv s \<Longrightarrow> ref_inv (fst (wds_usr_del_peer_ap ka r v a s))"
proof -
  assume i: "ref_inv s"
  let ?s1 = "wds_upd_peer v a (\<lambda>p. p\<lparr>kill_on_disconnect := True\<rparr>) s"
  have i1: "ref_inv ?s1" by (rule ref_inv_upd_peer [OF i]) simp_all
  show ?thesis
  proof (cases "wds_peer_find s v a")
    case (Some p)
    obtain s2 res where s2: "(s2, res) = (if fw_peer_sta_added p then wds_send_fw_cfg_peer_ap r v a False ?s1 else (?s1, MTLK_ERR_OK))"
      by (metis surj_pair)
    have "ref_inv s2" using send_if [OF i1 s2] by simp
    then show ?thesis using Some s2 [symmetric] ref_inv_fsm by (simp add: wds_usr_del_peer_ap_def Let_def split_def split: if_splits)
  qed (simp add: wds_usr_del_peer_ap_def i)
qed

lemma ref_inv_beacon_proc: "ref_inv s \<Longrightarrow> ref_inv (wds_on_beacon_proc ka r a v s)"
  by (simp add: wds_on_beacon_proc_def Let_def split_def ref_inv_fsm ref_inv_send)

lemma ref_inv_beacons: "ref_inv (s\<lparr>on_beacon_list := b\<rparr>) = ref_inv s" "ref_inv (s\<lparr>wds_tasks := t\<rparr>) = ref_inv s"
  by (simp_all add: ref_inv_def sta_db_ok_def psta_def)

lemma ref_inv_create_add: "ref_inv (wds_on_beacon_create_add mem v a s) = ref_inv s"
  by (simp add: wds_on_beacon_create_add_def ref_inv_beacons)

lemma ref_inv_timer: "ref_inv s \<Longrightarrow> ref_inv (wds_peer_fsm_timer ka r mem v a s)"
  by (simp add: wds_peer_fsm_timer_def ref_inv_fsm ref_inv_send ref_inv_create_add split: option.splits wds_peer_state_t.splits)

lemma ref_inv_add: "ref_inv s \<Longrightarrow> ref_inv (fst (wds_usr_add_peer_ap mem mx v a s))"
proof -
  assume i: "ref_inv s"
  let ?s1 = "s\<lparr>peers_list := (peers_list s)(v := wds_peer_new a # peers_list s v)\<rparr>"
  have "ref_inv ?s1" if n: "wds_peer_find s v a = None"
  proof (rule ref_inv_cong [OF i])
    show "psta ?s1 = psta s"
      using n by (intro ext) (auto simp: psta_def wds_peer_find_def wds_peer_new_def)
    show "wds_distinct ?s1" using ref_invD(1) [OF i] n
      by (auto simp: wds_distinct_def wds_peer_new_def wds_peer_find_def find_None_iff)
  qed simp_all
  then show ?thesis using i by (simp add: wds_usr_add_peer_ap_def wds_peer_create_add_def Let_def ref_inv_create_add)
qed

lemma decref_all_frame [simp]:
  "on_beacon_list (foldl (\<lambda>s p. mtlk_sta_decref (peer_sta p) s) s ps) = on_beacon_list s"
  "wds_tasks (foldl (\<lambda>s p. mtlk_sta_decref (peer_sta p) s) s ps) = wds_tasks s"
  "vap_connected (foldl (\<lambda>s p. mtlk_sta_decref (peer_sta p) s) s ps) = vap_connected s"
  "stations (foldl (\<lambda>s p. mtlk_sta_decref (peer_sta p) s) s ps) = stations s"
  "sta_next (foldl (\<lambda>s p. mtlk_sta_decref (peer_sta p) s) s ps) = sta_next s"
  "peers_list (foldl (\<lambda>s p. mtlk_sta_decref (peer_sta p) s) s ps) = peers_list s"
  by (induction ps arbitrary: s) auto

lemma decref_all_refs:
  "sta_refs (foldl (\<lambda>s p. mtlk_sta_decref (peer_sta p) s) s ps) x = sta_refs s x - int (count_list (map peer_sta ps) (Some x))"
  by (induction ps arbitrary: s) auto

lemma psta_mem:
  "wds_distinct s \<Longrightarrow> psta s v a = Some x \<longleftrightarrow> (\<exists>p\<in>set (peers_list s v). peer_addr p = a \<and> peer_sta p = Some x)"
proof -
  have "distinct (map peer_addr ps) \<Longrightarrow> Option.bind (find (\<lambda>p. peer_addr p = a) ps) peer_sta = Some x \<longleftrightarrow>
      (\<exists>p\<in>set ps. peer_addr p = a \<and> peer_sta p = Some x)" for ps
    by (induction ps) (auto simp: image_iff)
  from this [of "peers_list s v"] show "wds_distinct s \<Longrightarrow> ?thesis" by (simp add: psta_def wds_peer_find_def wds_distinct_def)
qed

lemma count_sta:
  assumes "distinct (map peer_addr ps)" "\<forall>p\<in>set ps. \<forall>q\<in>set ps. peer_sta p = Some x \<and> peer_sta q = Some x \<longrightarrow> peer_addr p = peer_addr q"
  shows "count_list (map peer_sta ps) (Some x) = (if \<exists>p\<in>set ps. peer_sta p = Some x then 1 else 0)"
  using assms
proof (induction ps)
  case (Cons p ps)
  have IH: "count_list (map peer_sta ps) (Some x) = (if \<exists>p\<in>set ps. peer_sta p = Some x then 1 else 0)"
  proof (rule Cons.IH)
    show "distinct (map peer_addr ps)" using Cons.prems(1) by simp
    show "\<forall>p\<in>set ps. \<forall>q\<in>set ps. peer_sta p = Some x \<and> peer_sta q = Some x \<longrightarrow> peer_addr p = peer_addr q"
      using Cons.prems(2) by (meson list.set_intros(2))
  qed
  have "q \<notin> set ps" if "peer_sta p = Some x" "peer_sta q = Some x" for q
  proof
    assume q: "q \<in> set ps"
    then have "peer_addr p = peer_addr q" using Cons.prems(2) that by (meson list.set_intros)
    then show False using Cons.prems(1) q by simp
  qed
  then show ?case using IH by auto
qed simp

lemma find_map_addr:
  "(\<And>p. peer_addr (f p) = peer_addr p) \<Longrightarrow> find (\<lambda>p. peer_addr p = a) (map f ps) = map_option f (find (\<lambda>p. peer_addr p = a) ps)"
  by (induction ps) auto

lemma force_down_simps [simp]:
  "peer_addr (peer_force_down p) = peer_addr p" "peer_sta (peer_force_down p) = None" "fsm_timer (peer_force_down p) = None"
  "peer_state (peer_force_down p) = WDS_STATE_DISCONNECTED" "kill_on_disconnect (peer_force_down p) = False"
  by (simp_all add: peer_force_down_def)

lemma if_down_frame [simp]:
  "wds_tasks (wds_on_if_down v s) = wds_tasks s" "vap_connected (wds_on_if_down v s) = vap_connected s"
  "stations (wds_on_if_down v s) = stations s" "sta_next (wds_on_if_down v s) = sta_next s"
  "on_beacon_list (wds_on_if_down v s) = filter (\<lambda>e. snd e \<noteq> v) (on_beacon_list s)"
  "wds_peer_find (wds_on_if_down v s) v' a = (if v' = v then map_option peer_force_down (wds_peer_find s v a) else wds_peer_find s v' a)"
  "wds_distinct (wds_on_if_down v s) = wds_distinct s"
  by (auto simp: wds_on_if_down_def Let_def wds_peer_find_def find_map_addr wds_distinct_def comp_def)

lemma ref_inv_if_down:
  assumes i: "ref_inv s"
  shows "ref_inv (wds_on_if_down v s)" "psta (wds_on_if_down v s) v a = None"
proof -
  have ps: "psta (wds_on_if_down v s) v' a' = (if v' = v then None else psta s v' a')" for v' a'
    by (cases "wds_peer_find s v a'") (simp_all add: psta_def)
  then show "psta (wds_on_if_down v s) v a = None" by simp
  have d: "distinct (map peer_addr (peers_list s v))" using ref_invD(1) [OF i] by (simp add: wds_distinct_def)
  have c: "int (count_list (map peer_sta (peers_list s v)) (Some x)) = (if \<exists>a. psta s v a = Some x then 1 else 0)" for x
  proof -
    have "\<forall>p\<in>set (peers_list s v). \<forall>q\<in>set (peers_list s v). peer_sta p = Some x \<and> peer_sta q = Some x \<longrightarrow> peer_addr p = peer_addr q"
      using psta_inj [OF i] psta_mem [OF ref_invD(1) [OF i]] by metis
    from count_sta [OF d this] show ?thesis by (simp add: psta_mem [OF ref_invD(1) [OF i]])
  qed
  show "ref_inv (wds_on_if_down v s)"
    by (rule ref_inv_clear [OF i, where C = "\<lambda>v' _. v' = v"])
      (use ref_invD(1) [OF i] ps in \<open>simp_all add: c [symmetric]\<close>, simp add: wds_on_if_down_def Let_def decref_all_refs)
qed

lemma ref_inv_connected:
  "ref_inv s \<Longrightarrow> (\<And>v a. \<not> c v \<Longrightarrow> psta s v a = None) \<Longrightarrow> ref_inv (s\<lparr>vap_connected := c\<rparr>)"
  unfolding ref_inv_def sta_db_ok_def psta_def by simp

lemma ref_inv_deactivate: "ref_inv s \<Longrightarrow> ref_inv (core_deactivate ok v s)"
proof -
  assume i: "ref_inv s"
  note d = ref_inv_if_down [OF i, of v]
  let ?d = "(stations (wds_on_if_down v s))(v := \<lambda>_. None)"
  have "ref_inv ((wds_on_if_down v s)\<lparr>stations := ?d\<rparr>)"
    by (rule ref_inv_stations [OF d(1)]) (use d(2) ref_invD(3) [OF d(1)] in \<open>auto split: if_splits\<close>)
  then have "ref_inv ((wds_on_if_down v s)\<lparr>stations := ?d\<rparr>\<lparr>vap_connected := (vap_connected (wds_on_if_down v s))(v := False)\<rparr>)"
  proof (rule ref_inv_connected)
    fix v' a assume n: "\<not> ((vap_connected (wds_on_if_down v s))(v := False)) v'"
    then show "psta ((wds_on_if_down v s)\<lparr>stations := ?d\<rparr>) v' a = None"
      using d(2) [of a] ref_invD(4) [OF i, of v' a] by (cases "v' = v") (simp_all add: psta_def)
  qed
  then show ?thesis using d(1) by (simp add: core_deactivate_def Let_def)
qed

lemma if_up_eq:
  "foldl (\<lambda>s (mem, p). wds_on_beacon_create_add mem v (peer_addr p) s) s xs =
   s\<lparr>on_beacon_list := rev (map (\<lambda>(mem, p). (peer_addr p, v)) (filter fst xs)) @ on_beacon_list s\<rparr>"
  by (induction xs arbitrary: s) (auto simp: wds_on_beacon_create_add_def)

lemma ref_inv_activate: "ref_inv s \<Longrightarrow> ref_inv (core_activate mems v s)"
  unfolding core_activate_def wds_on_if_up_def if_up_eq ref_inv_beacons
  by (rule ref_inv_connected) (auto dest: ref_invD(4) split: if_splits)

lemma ref_inv_cleanup: "ref_inv s \<Longrightarrow> \<not> vap_connected s v \<Longrightarrow> ref_inv (wds_cleanup v s)"
proof -
  assume i: "ref_inv s" "\<not> vap_connected s v"
  have "psta (wds_cleanup v s) = psta s"
    by (intro ext) (use ref_invD(4) [OF i] in \<open>simp add: psta_def wds_peer_find_def wds_cleanup_def\<close>)
  then show ?thesis by (rule ref_inv_cong [OF i(1)])
    (use ref_invD(1) [OF i(1)] in \<open>simp_all add: wds_cleanup_def wds_distinct_def\<close>)
qed

lemma ref_inv_on_beacon: "ref_inv s \<Longrightarrow> ref_inv (mtlk_core_wds_on_beacon ok a s)"
  by (simp add: mtlk_core_wds_on_beacon_def wds_on_beacon_exclude_def ref_inv_beacons split: option.splits prod.splits)

lemma ref_inv_on_timer: "ref_inv s \<Longrightarrow> ref_inv (mtlk_core_wds_on_timer ok v a s)"
  using ref_inv_upd_peer [of s "\<lambda>p. p\<lparr>fsm_timer := None\<rparr>" v a] by (simp add: mtlk_core_wds_on_timer_def Let_def ref_inv_beacons)

lemma ref_inv_run_task: "ref_inv s \<Longrightarrow> ref_inv (wds_run_task ka r mem i s)"
  by (simp add: wds_run_task_def Let_def ref_inv_beacon_proc ref_inv_timer ref_inv_beacons split: wds_task.splits)

lemma ref_inv_step: "ref_inv s \<Longrightarrow> wds_can s e \<Longrightarrow> ref_inv (wds_do s e)"
  by (cases e) (simp_all add: ref_inv_add ref_inv_del ref_inv_connect ref_inv_disconnect ref_inv_on_beacon
      ref_inv_on_timer ref_inv_run_task ref_inv_activate ref_inv_deactivate ref_inv_cleanup)

interpretation wds_ref: step_system wds_do wds_can ref_inv
  by unfold_locales (rule ref_inv_step)

lemma ref_inv_init: "ref_inv wds_init"
  by (simp add: ref_inv_def wds_init_def wds_distinct_def sta_db_ok_def psta_def wds_peer_find_def)

text \<open>
  C19: References on stations are exact. In every run of the bridge (whatever the firmware answers, whichever
  allocations fail) the bridge holds exactly one reference on every station that belongs to a
  connected peer and none on any other; a peer never refers to a station that has left the
  station database; no two peers of an interface have the same address. Nothing is left when an
  interface has gone down.
\<close>

theorem wds_references_exact:
  assumes "wds_ref.run_ok wds_init es"
  defines "s \<equiv> foldl wds_do wds_init es"
  shows "sta_refs s x = (if \<exists>v. \<exists>p\<in>set (peers_list s v). peer_sta p = Some x then 1 else 0) \<and>
    (p \<in> set (peers_list s v) \<longrightarrow> peer_sta p = Some x \<longrightarrow> stations s v (peer_addr p) = Some x) \<and>
    distinct (map peer_addr (peers_list s v)) \<and>
    (\<not> vap_connected s v \<longrightarrow> p \<in> set (peers_list s v) \<longrightarrow> peer_sta p = None)"
proof -
  have i: "ref_inv s" unfolding s_def by (rule wds_ref.run_inv [OF ref_inv_init assms(1)])
  note d = ref_invD(1) [OF i] and m = psta_mem [OF ref_invD(1) [OF i]]
  have goal1: "distinct (map peer_addr (peers_list s v))" using d by (simp add: wds_distinct_def)
  have "(\<exists>v a. psta s v a = Some x) = (\<exists>v. \<exists>p\<in>set (peers_list s v). peer_sta p = Some x)" unfolding m by blast
  then have goal2: "sta_refs s x = (if \<exists>v. \<exists>p\<in>set (peers_list s v). peer_sta p = Some x then 1 else 0)" using ref_invD(5) [OF i, of x] by simp
  have goal3: "p \<in> set (peers_list s v) \<Longrightarrow> peer_sta p = Some x \<Longrightarrow> stations s v (peer_addr p) = Some x"
    using ref_invD(3) [OF i] m by blast
  have goal4: "\<not> vap_connected s v \<Longrightarrow> p \<in> set (peers_list s v) \<Longrightarrow> peer_sta p = None"
    using ref_invD(4) [OF i, of v "peer_addr p"] m [of v "peer_addr p"] by (cases "peer_sta p") auto
  show ?thesis using goal1 goal2 goal3 goal4 by blast
qed

definition wit_wds :: "wds_event list" where
  "wit_wds = [EvUp [] 0, EvAdd (True, True) 8 0 5, EvBeacon True 5, EvTask 1000 FwOk True 0, EvConnect 1000 FwOk True 0 5]"

lemmas wds_eval = wit_wds_def wds_init_def core_activate_def wds_on_if_up_def wds_usr_add_peer_ap_def wds_peer_find_def
  wds_peer_create_add_def wds_on_beacon_create_add_def mtlk_core_wds_on_beacon_def wds_on_beacon_exclude_def wds_run_task_def
  wds_on_beacon_proc_def wds_send_fw_cfg_peer_ap_def wds_upd_peer_def wds_peer_fsm_def peer_to_def wds_peer_new_def
  core_connect_sta_def wds_peer_connect_def

theorem wds_references_exact_witness:
  "sta_refs (foldl wds_do wds_init wit_wds) 0 = 1 \<and> (\<exists>p\<in>set (peers_list (foldl wds_do wds_init wit_wds) 0). peer_sta p = Some 0)"
proof -
  have "wds_ref.run_ok wds_init wit_wds" by (simp add: wds_eval)
  note T = conjunct1 [OF wds_references_exact [OF this, where x = 0]]
  moreover have p: "\<exists>p\<in>set (peers_list (foldl wds_do wds_init wit_wds) 0). peer_sta p = Some 0" by (simp add: wds_eval)
  ultimately show ?thesis by auto
qed

section \<open>No peer is forgotten\<close>

text \<open>
  What will make a peer move: its timer or the task of the timer, or a beacon that is awaited or has
  come. Runs in which memory suffices, deactivations go through, and no two interfaces have a peer
  with the same address.
\<close>

definition peer_armed :: "wds_sys \<Rightarrow> nat \<Rightarrow> wds_peer_t \<Rightarrow> bool" where
  "peer_armed s v p \<longleftrightarrow> fsm_timer p \<noteq> None \<or> FsmTimer v (peer_addr p) \<in> set (wds_tasks s)"

definition peer_awaited :: "wds_sys \<Rightarrow> nat \<Rightarrow> wds_peer_t \<Rightarrow> bool" where
  "peer_awaited s v p \<longleftrightarrow> (peer_addr p, v) \<in> set (on_beacon_list s) \<or> OnBeaconProc (peer_addr p) v \<in> set (wds_tasks s)"

definition peer_ok :: "wds_sys \<Rightarrow> nat \<Rightarrow> wds_peer_t \<Rightarrow> bool" where
  "peer_ok s v p \<longleftrightarrow> peer_state p = WDS_STATE_CONNECTED \<or> peer_armed s v p \<or>
     peer_state p \<in> {WDS_STATE_DISCONNECTED, WDS_STATE_ERROR} \<and> (vap_connected s v \<longrightarrow> peer_awaited s v p)"

fun wds_benign :: "wds_sys \<Rightarrow> wds_event \<Rightarrow> bool" where
  "wds_benign s (EvAdd mem mx v a) = (snd mem \<and> (\<forall>v'. v' \<noteq> v \<longrightarrow> wds_peer_find s v' a = None))"
| "wds_benign s (EvBeacon ok a) = ok"
| "wds_benign s (EvTimer ok v a) = (ok \<and> (\<exists>p. wds_peer_find s v a = Some p \<and> fsm_timer p \<noteq> None))"
| "wds_benign s (EvTask ka r mem i) = (mem \<and> i < length (wds_tasks s))"
| "wds_benign s (EvUp mems v) = (mems = replicate (length (peers_list s v)) True)"
| "wds_benign s (EvDown ok v) = ok"
| "wds_benign s e = wds_can s e"

definition uniq :: "wds_sys \<Rightarrow> bool" where
  "uniq s \<longleftrightarrow> wds_distinct s \<and> (\<forall>v v' a. wds_peer_find s v a \<noteq> None \<and> wds_peer_find s v' a \<noteq> None \<longrightarrow> v = v')"

definition live_ex :: "(nat \<times> nat) set \<Rightarrow> wds_sys \<Rightarrow> bool" where
  "live_ex X s \<longleftrightarrow> uniq s \<and> (\<forall>v a p. wds_peer_find s v a = Some p \<and> (v, a) \<notin> X \<longrightarrow> peer_ok s v p)"

lemma live_exD: "live_ex X s \<Longrightarrow> wds_peer_find s v a = Some p \<Longrightarrow> (v, a) \<notin> X \<Longrightarrow> peer_ok s v p"
  by (auto simp: live_ex_def)

lemma live_ex_close: "live_ex {(v, a)} s \<Longrightarrow> (\<And>p. wds_peer_find s v a = Some p \<Longrightarrow> peer_ok s v p) \<Longrightarrow> live_ex {} s"
  unfolding live_ex_def by blast

lemma live_ex_mono: "live_ex {} s \<Longrightarrow> live_ex X s"
  by (auto simp: live_ex_def)

lemma uniq_distinct: "uniq s \<Longrightarrow> wds_distinct s"
  by (simp add: uniq_def)

lemma find_upd_None:
  "(\<And>p. peer_addr (f p) = peer_addr p) \<Longrightarrow> wds_peer_find (wds_upd_peer v a f s) v' a' = None \<longleftrightarrow> wds_peer_find s v' a' = None"
  by (simp add: find_wds_upd)

lemma uniq_mono:
  "uniq s \<Longrightarrow> wds_distinct s' \<Longrightarrow> (\<And>v a. wds_peer_find s' v a \<noteq> None \<Longrightarrow> wds_peer_find s v a \<noteq> None) \<Longrightarrow> uniq s'"
  unfolding uniq_def by blast

lemma uniq_upd_peer: "uniq s \<Longrightarrow> (\<And>p. peer_addr (f p) = peer_addr p) \<Longrightarrow> uniq (wds_upd_peer v a f s)"
  unfolding uniq_def by (simp add: distinct_wds_upd find_upd_None)

lemma peer_ok_upd [simp]: "peer_ok (wds_upd_peer v a f s) v' p = peer_ok s v' p"
  by (simp add: peer_ok_def peer_armed_def peer_awaited_def)

lemma live_upd:
  assumes "live_ex X s" "\<And>p. peer_addr (f p) = peer_addr p" "\<And>p. wds_peer_find s v a = Some p \<Longrightarrow> (v, a) \<notin> Y \<Longrightarrow> peer_ok s v (f p)" "X \<subseteq> insert (v, a) Y"
  shows "live_ex Y (wds_upd_peer v a f s)"
proof -
  have "peer_ok s v' q" if "wds_peer_find (wds_upd_peer v a f s) v' a' = Some q" "(v', a') \<notin> Y" for v' a' q
  proof (cases "v' = v \<and> a' = a")
    case True
    with that obtain p where "wds_peer_find s v a = Some p" "q = f p" by (auto simp: find_wds_upd assms(2))
    then show ?thesis using assms(3) that(2) True by auto
  next
    case False
    then have "wds_peer_find s v' a' = Some q" using that(1) by (auto simp: find_wds_upd assms(2))
    moreover have "(v', a') \<notin> X" using that(2) assms(4) False by auto
    ultimately show ?thesis using live_exD [OF assms(1)] by blast
  qed
  then show ?thesis using uniq_upd_peer [of s f v a] assms(1,2) unfolding live_ex_def peer_ok_upd by blast
qed

text \<open>Fields that do not matter for progress.\<close>

lemma live_upd_same:
  assumes "live_ex X s" "\<And>p. peer_addr (f p) = peer_addr p" "\<And>p. peer_state (f p) = peer_state p" "\<And>p. fsm_timer (f p) = fsm_timer p"
  shows "live_ex X (wds_upd_peer v a f s)"
proof (rule live_upd [OF assms(1,2)])
  show "peer_ok s v (f p)" if "wds_peer_find s v a = Some p" "(v, a) \<notin> X" for p
    using live_exD [OF assms(1) that] assms(2-4) unfolding peer_ok_def peer_armed_def peer_awaited_def by simp
qed auto

lemma live_frame [simp]:
  "live_ex X (s\<lparr>stations := d\<rparr>) = live_ex X s" "live_ex X (s\<lparr>sta_next := n\<rparr>) = live_ex X s"
  "live_ex X (s\<lparr>sta_refs := r\<rparr>) = live_ex X s"
  by (simp_all add: live_ex_def uniq_def peer_ok_def peer_armed_def peer_awaited_def)

lemma live_decref [simp]: "live_ex X (mtlk_sta_decref x s) = live_ex X s"
  by (simp add: mtlk_sta_decref_def split: option.splits)

lemma live_send: "live_ex X s \<Longrightarrow> live_ex X (fst (wds_send_fw_cfg_peer_ap r v a b s))"
  using send_fw_cases [of r v a b s] live_upd_same [of X s "\<lambda>p. p\<lparr>fw_peer_sta_added := b\<rparr>" v a] by auto

lemma beacon_unlink_mem: "e \<in> set es \<Longrightarrow> e \<in> set (beacon_unlink a es) \<or> find (\<lambda>e. fst e = a) es = Some e"
  by (induction es) auto

lemma beacon_unlink_other: "fst e \<noteq> a \<Longrightarrow> e \<in> set (beacon_unlink a es) \<longleftrightarrow> e \<in> set es"
  by (induction es) auto

lemma live_remove:
  assumes "live_ex {(v, a)} s" "wds_peer_find s v a = Some p"
  shows "live_ex {} (wds_peer_remove_delete v p s)"
proof -
  have a: "peer_addr p = a" using find_addr [OF assms(2)] by blast
  have u: "uniq s" using assms(1) by (simp add: live_ex_def)
  let ?s = "wds_peer_remove_delete v p s"
  have f: "wds_peer_find ?s v' a' = (if v' = v \<and> a' = a then None else wds_peer_find s v' a')" for v' a'
    using find_remove [OF uniq_distinct [OF u], of v p v' a'] a by simp
  have "peer_ok ?s v' q" if q: "wds_peer_find ?s v' a' = Some q" for v' a' q
  proof -
    have q1: "wds_peer_find s v' a' = Some q" "(v', a') \<noteq> (v, a)" using q f by (auto split: if_splits)
    then have "a' \<noteq> a" using u assms(2) unfolding uniq_def by fastforce
    then have "peer_addr q \<noteq> a" using find_addr [OF q1(1)] by simp
    then have "peer_awaited ?s v' q = peer_awaited s v' q"
      by (simp add: peer_awaited_def beacon_unlink_other a)
    then show ?thesis using live_exD [OF assms(1) q1(1)] q1(2)
      by (simp add: peer_ok_def peer_armed_def)
  qed
  moreover have "uniq ?s"
    by (rule uniq_mono [OF u distinct_remove [OF uniq_distinct [OF u]]]) (simp add: f split: if_splits)
  ultimately show ?thesis by (simp add: live_ex_def)
qed

lemma live_fsm:
  assumes "live_ex {(v, a)} s" "\<And>p. wds_peer_find s v a = Some p \<Longrightarrow> peer_ok s v p \<or> fsm_moves act (peer_state p)"
  shows "live_ex {} (wds_peer_fsm ka v a act s)"
proof (cases rule: fsm_cases [of ka v a act s])
  case Same
  then show ?thesis using live_ex_close [OF assms(1)] assms(2) by auto
next
  case (Move p st tm)
  then show ?thesis unfolding Move(2)
    by (intro live_upd [OF assms(1)]) (auto simp: peer_ok_def peer_armed_def split: wds_peer_state_t.splits)
next
  case (Remove p)
  then show ?thesis using live_remove [OF assms(1)] by simp
qed

lemma live_fsm_any: "live_ex {} s \<Longrightarrow> live_ex {} (wds_peer_fsm ka v a act s)"
  by (rule live_fsm [OF live_ex_mono]) (auto dest: live_exD)

lemma live_del: "live_ex {} s \<Longrightarrow> live_ex {} (fst (wds_usr_del_peer_ap ka r v a s))"
proof -
  assume l: "live_ex {} s"
  let ?s1 = "wds_upd_peer v a (\<lambda>p. p\<lparr>kill_on_disconnect := True\<rparr>) s"
  have l1: "live_ex {} ?s1" by (rule live_upd_same [OF l]) simp_all
  show ?thesis using l live_fsm_any [OF l1] live_fsm_any [OF live_send [OF l1]] live_send [OF l1]
    by (simp add: wds_usr_del_peer_ap_def Let_def split_def l1 split: option.splits)
qed

lemma live_connect: "live_ex {} s \<Longrightarrow> live_ex {} (core_connect_sta ka r mem v a s)"
proof -
  have c: "live_ex {} s \<Longrightarrow> live_ex {} (wds_peer_connect ka r v st a s)" for s st
    by (cases st) (simp_all add: wds_peer_connect_def live_fsm_any live_send live_upd_same split: option.splits)
  show "live_ex {} s \<Longrightarrow> ?thesis" by (simp add: core_connect_sta_def Let_def c)
qed

lemma live_disconnect: "live_ex {} s \<Longrightarrow> live_ex {} (core_disconnect_sta ka r v a s)"
proof -
  assume l: "live_ex {} s"
  have l1: "live_ex {} (mtlk_sta_decref x (wds_upd_peer v a (\<lambda>p. p\<lparr>peer_sta := None\<rparr>) s))" for x
    unfolding live_decref by (rule live_upd_same [OF l]) simp_all
  show ?thesis using l live_fsm_any [OF l1] live_fsm_any [OF live_send [OF l1]] live_send [OF l1]
    by (simp add: core_disconnect_sta_def wds_peer_disconnect_def Let_def split_def l1 split: option.splits)
qed

lemma live_on_timer: "live_ex {} s \<Longrightarrow> live_ex {} (mtlk_core_wds_on_timer True v a s)"
proof -
  assume l: "live_ex {} s"
  let ?s = "mtlk_core_wds_on_timer True v a s"
  have f: "wds_peer_find ?s v' a' = (if v' = v \<and> a' = a then map_option (\<lambda>p. p\<lparr>fsm_timer := None\<rparr>) (wds_peer_find s v a) else wds_peer_find s v' a')" for v' a'
    by (simp add: mtlk_core_wds_on_timer_def Let_def find_wds_upd)
  have u: "uniq s" using l by (simp add: live_ex_def)
  have "uniq ?s"
    by (rule uniq_mono [OF u]) (use uniq_distinct [OF u] in \<open>auto simp: mtlk_core_wds_on_timer_def Let_def distinct_wds_upd find_wds_upd split: if_splits\<close>)
  moreover have "peer_ok ?s v' q" if q: "wds_peer_find ?s v' a' = Some q" for v' a' q
  proof (cases "v' = v \<and> a' = a")
    case True
    then have "peer_addr q = a" using find_addr [OF q] by simp
    then show ?thesis using True by (simp add: peer_ok_def peer_armed_def mtlk_core_wds_on_timer_def Let_def)
  next
    case False
    then have "peer_ok s v' q" using live_exD [OF l, of v' a' q] q f by auto
    then show ?thesis by (auto simp: peer_ok_def peer_armed_def peer_awaited_def mtlk_core_wds_on_timer_def Let_def)
  qed
  ultimately show ?thesis by (auto simp: live_ex_def)
qed

lemma live_on_beacon: "live_ex {} s \<Longrightarrow> live_ex {} (mtlk_core_wds_on_beacon True a s)"
proof -
  assume l: "live_ex {} s"
  let ?s = "mtlk_core_wds_on_beacon True a s"
  have f: "wds_peer_find ?s v' a' = wds_peer_find s v' a'" "wds_distinct ?s = wds_distinct s" "vap_connected ?s = vap_connected s"
    "set (wds_tasks s) \<subseteq> set (wds_tasks ?s)" for v' a'
    by (auto simp: mtlk_core_wds_on_beacon_def wds_on_beacon_exclude_def split: option.splits)
  have "peer_awaited s v' q \<Longrightarrow> peer_awaited ?s v' q" for v' q
    using beacon_unlink_mem [of "(peer_addr q, v')" "on_beacon_list s" a]
    by (auto simp: peer_awaited_def mtlk_core_wds_on_beacon_def wds_on_beacon_exclude_def split: option.splits)
  then have "peer_ok s v' q \<Longrightarrow> peer_ok ?s v' q" for v' q using f(3,4) by (auto simp: peer_ok_def peer_armed_def)
  then show ?thesis using l unfolding live_ex_def uniq_def f(1,2) by blast
qed

lemma live_create_add:
  assumes "live_ex {(v, a)} s" "\<And>p. wds_peer_find s v a = Some p \<Longrightarrow> peer_state p \<in> {WDS_STATE_DISCONNECTED, WDS_STATE_ERROR}"
  shows "live_ex {} (wds_on_beacon_create_add True v a s)"
proof -
  let ?s = "wds_on_beacon_create_add True v a s"
  have f: "wds_peer_find ?s v' a' = wds_peer_find s v' a'" "wds_distinct ?s = wds_distinct s" "peer_ok s v' q \<Longrightarrow> peer_ok ?s v' q" for v' a' q
    by (auto simp: wds_on_beacon_create_add_def peer_ok_def peer_armed_def peer_awaited_def)
  have "live_ex {(v, a)} ?s" using assms(1) f unfolding live_ex_def uniq_def by auto
  then show ?thesis
  proof (rule live_ex_close)
    fix p assume "wds_peer_find ?s v a = Some p"
    then have "wds_peer_find s v a = Some p" "peer_addr p = a" using f(1) find_addr by auto
    then show "peer_ok ?s v p" using assms(2) [of p] by (auto simp: peer_ok_def peer_awaited_def wds_on_beacon_create_add_def)
  qed
qed

lemma task_removed:
  assumes "i < length ts" "t \<in> set ts" "t \<noteq> ts ! i"
  shows "t \<in> set (take i ts @ drop (Suc i) ts)"
  using assms(2,3) by (subst (asm) id_take_nth_drop [OF assms(1)]) auto

lemma live_run_task:
  assumes l: "live_ex {} s" and i: "i < length (wds_tasks s)"
  shows "live_ex {} (wds_run_task ka r True i s)"
proof -
  let ?s = "s\<lparr>wds_tasks := take i (wds_tasks s) @ drop (Suc i) (wds_tasks s)\<rparr>"
  have t: "t \<in> set (wds_tasks ?s)" if "t \<in> set (wds_tasks s)" "t \<noteq> wds_tasks s ! i" for t
    using task_removed [OF i that] by simp
  have ok: "peer_ok ?s v p" if "peer_ok s v p" "FsmTimer v (peer_addr p) \<noteq> wds_tasks s ! i" "OnBeaconProc (peer_addr p) v \<noteq> wds_tasks s ! i" for v p
    using that t unfolding peer_ok_def peer_armed_def peer_awaited_def by auto
  show ?thesis
  proof (cases "wds_tasks s ! i")
    case (FsmTimer v a)
    have x: "live_ex {(v, a)} ?s" unfolding live_ex_def
    proof (intro conjI allI impI)
      show "uniq ?s" using l by (simp add: live_ex_def uniq_def)
      fix v' a' p assume "wds_peer_find ?s v' a' = Some p \<and> (v', a') \<notin> {(v, a)}"
      then show "peer_ok ?s v' p" using live_exD [OF l, of v' a' p] find_addr [of s v' a' p] ok [of v' p] FsmTimer by auto
    qed
    show ?thesis
    proof (cases "wds_peer_find s v a")
      case None
      then show ?thesis using live_ex_close [OF x] FsmTimer by (simp add: wds_run_task_def Let_def wds_peer_fsm_timer_def)
    next
      case (Some p)
      have send: "wds_peer_find (fst (wds_send_fw_cfg_peer_ap r v a False ?s)) v a = Some q \<Longrightarrow> peer_state q = peer_state p" for q
        using Some send_fw_cases [of r v a False ?s] by (auto simp: find_wds_upd)
      have "live_ex {} (wds_peer_fsm ka v a WDS_ACTION_ERROR (fst (wds_send_fw_cfg_peer_ap r v a False ?s)))" if "peer_state p = WDS_STATE_CONNECTING"
        using that send by (intro live_fsm [OF live_send [OF x]]) simp
      moreover have "live_ex {} (wds_peer_fsm ka v a WDS_ACTION_DISCONNECT ?s)" if "peer_state p = WDS_STATE_DISCONNECTING"
        using that Some by (intro live_fsm [OF x]) simp
      moreover have "live_ex {} (wds_on_beacon_create_add True v a ?s)" if "peer_state p \<in> {WDS_STATE_DISCONNECTED, WDS_STATE_ERROR}"
        using that Some by (intro live_create_add [OF x]) simp
      moreover have "live_ex {} ?s" if "peer_state p = WDS_STATE_CONNECTED"
        using that Some by (intro live_ex_close [OF x]) (simp add: peer_ok_def)
      ultimately show ?thesis using Some FsmTimer
        by (cases "peer_state p") (simp_all add: wds_run_task_def Let_def wds_peer_fsm_timer_def)
    qed
  next
    case (OnBeaconProc a v)
    have x: "live_ex {(v, a)} ?s" unfolding live_ex_def
    proof (intro conjI allI impI)
      show "uniq ?s" using l by (simp add: live_ex_def uniq_def)
      fix v' a' p assume "wds_peer_find ?s v' a' = Some p \<and> (v', a') \<notin> {(v, a)}"
      then show "peer_ok ?s v' p" using live_exD [OF l, of v' a' p] find_addr [of s v' a' p] ok [of v' p] OnBeaconProc by auto
    qed
    have k: "peer_ok ?s v p \<or> peer_state p \<in> {WDS_STATE_DISCONNECTED, WDS_STATE_ERROR} \<and> vap_connected s v" if "wds_peer_find s v a = Some p" for p
      using live_exD [OF l that] OnBeaconProc t [of "FsmTimer v (peer_addr p)"] unfolding peer_ok_def peer_armed_def by auto
    let ?q = "wds_send_fw_cfg_peer_ap r v a True ?s"
    have sd: "\<exists>q0. wds_peer_find s v a = Some q0 \<and> peer_state q0 = peer_state q \<and> peer_ok ?s v q0 = peer_ok (fst ?q) v q"
      if "wds_peer_find (fst ?q) v a = Some q" for q
      using that send_fw_cases [of r v a True ?s]
      by (auto simp: find_wds_upd peer_ok_def peer_armed_def peer_awaited_def)
    have "live_ex {} (wds_peer_fsm ka v a (if snd ?q = MTLK_ERR_OK then WDS_ACTION_CONNECT else WDS_ACTION_ERROR) (fst ?q))"
      by (rule live_fsm [OF live_send [OF x]]) (use sd k in \<open>fastforce split: if_splits\<close>)
    moreover have "live_ex {} ?s" if "\<not> vap_connected s v \<or> wds_peer_find s v a = None"
      using k that by (intro live_ex_close [OF x]) auto
    ultimately show ?thesis using OnBeaconProc by (simp add: wds_run_task_def Let_def wds_on_beacon_proc_def split_def)
  qed
qed

lemma live_activate:
  "live_ex {} s \<Longrightarrow> live_ex {} (core_activate (replicate (length (peers_list s v)) True) v s)"
proof -
  assume l: "live_ex {} s"
  let ?s = "core_activate (replicate (length (peers_list s v)) True) v s"
  have z: "filter fst (zip (replicate (length ps) True) ps) = map (Pair True) ps" for ps :: "wds_peer_t list"
    by (induction ps) auto
  have s: "?s = s\<lparr>vap_connected := (vap_connected s)(v := True),
      on_beacon_list := rev (map (\<lambda>p. (peer_addr p, v)) (peers_list s v)) @ on_beacon_list s\<rparr>"
    by (simp add: core_activate_def wds_on_if_up_def if_up_eq z comp_def)
  have "peer_ok ?s v' p" if "wds_peer_find s v' a' = Some p" for v' a' p
    using live_exD [OF l that] find_addr [OF that] unfolding s by (auto simp: peer_ok_def peer_armed_def peer_awaited_def)
  moreover have "wds_peer_find ?s v' a' = wds_peer_find s v' a'" "wds_distinct ?s = wds_distinct s" for v' a' by (simp_all add: s)
  ultimately show ?thesis using l unfolding live_ex_def uniq_def by simp
qed

lemma live_deactivate: "live_ex {} s \<Longrightarrow> live_ex {} (core_deactivate True v s)"
proof -
  assume l: "live_ex {} s"
  then have u: "uniq s" by (simp add: live_ex_def)
  let ?s = "core_deactivate True v s"
  have f: "wds_peer_find ?s v' a = (if v' = v then map_option peer_force_down (wds_peer_find s v a) else wds_peer_find s v' a)" for v' a
    by (simp add: core_deactivate_def Let_def)
  have "uniq ?s"
    by (rule uniq_mono [OF u]) (use uniq_distinct [OF u] in \<open>auto simp: core_deactivate_def Let_def split: if_splits\<close>)
  moreover have "peer_ok ?s v' p" if p: "wds_peer_find ?s v' a = Some p" for v' a p
  proof (cases "v' = v")
    case True
    then show ?thesis using p f by (auto simp: peer_ok_def core_deactivate_def Let_def)
  next
    case False
    then have "peer_ok s v' p" using live_exD [OF l, of v' a p] p f by simp
    then show ?thesis using False by (auto simp: peer_ok_def peer_armed_def peer_awaited_def core_deactivate_def Let_def)
  qed
  ultimately show ?thesis by (simp add: live_ex_def)
qed

lemma live_cleanup: "live_ex {} s \<Longrightarrow> live_ex {} (wds_cleanup v s)"
proof -
  assume l: "live_ex {} s"
  then have u: "uniq s" by (simp add: live_ex_def)
  have f: "wds_peer_find (wds_cleanup v s) v' a = (if v' = v then None else wds_peer_find s v' a)" for v' a
    by (simp add: wds_cleanup_def wds_peer_find_def)
  have "uniq (wds_cleanup v s)"
    by (rule uniq_mono [OF u]) (use uniq_distinct [OF u] f in \<open>auto simp: wds_cleanup_def wds_distinct_def split: if_splits\<close>)
  moreover have "peer_ok (wds_cleanup v s) v' p = peer_ok s v' p" for v' p
    by (simp add: wds_cleanup_def peer_ok_def peer_armed_def peer_awaited_def)
  ultimately show ?thesis using l f by (auto simp: live_ex_def split: if_splits)
qed

lemma live_add:
  assumes l: "live_ex {} s" and n: "\<forall>v'. v' \<noteq> v \<longrightarrow> wds_peer_find s v' a = None"
  shows "live_ex {} (fst (wds_usr_add_peer_ap (m, True) mx v a s))"
proof -
  let ?s = "s\<lparr>peers_list := (peers_list s)(v := wds_peer_new a # peers_list s v)\<rparr>"
  let ?t = "if vap_connected ?s v then wds_on_beacon_create_add True v a ?s else ?s"
  have "live_ex {} ?t" if f: "wds_peer_find s v a = None"
  proof -
    have g: "wds_peer_find ?t v' a' = (if v' = v \<and> a' = a then Some (wds_peer_new a) else wds_peer_find s v' a')" for v' a'
      by (auto simp: wds_on_beacon_create_add_def wds_peer_find_def wds_peer_new_def)
    have "a \<notin> peer_addr ` set (peers_list s v)" using f by (auto simp: wds_peer_find_def find_None_iff)
    moreover have "wds_distinct s" using l by (simp add: live_ex_def uniq_def)
    ultimately have "wds_distinct ?t" by (simp add: wds_on_beacon_create_add_def wds_distinct_def wds_peer_new_def)
    moreover have "v1 = v2" if "wds_peer_find ?t v1 a' \<noteq> None" "wds_peer_find ?t v2 a' \<noteq> None" for v1 v2 a'
    proof (cases "a' = a")
      case True
      then show ?thesis using that n unfolding g by (metis)
    next
      case False
      then show ?thesis using that l unfolding g live_ex_def uniq_def by auto
    qed
    moreover have "peer_ok ?t v' p" if p: "wds_peer_find ?t v' a' = Some p" for v' a' p
    proof (cases "v' = v \<and> a' = a")
      case True
      then have "p = wds_peer_new a" using p g by simp
      then show ?thesis using True by (auto simp: peer_ok_def peer_awaited_def wds_peer_new_def wds_on_beacon_create_add_def)
    next
      case False
      then have "peer_ok s v' p" using live_exD [OF l, of v' a' p] p unfolding g by (auto split: if_splits)
      then show ?thesis by (auto simp: peer_ok_def peer_armed_def peer_awaited_def wds_on_beacon_create_add_def)
    qed
    ultimately show ?thesis unfolding live_ex_def uniq_def by blast
  qed
  then show ?thesis using l by (cases "wds_peer_find s v a") (auto simp: wds_usr_add_peer_ap_def wds_peer_create_add_def Let_def)
qed

lemma live_step: "live_ex {} s \<Longrightarrow> wds_benign s e \<Longrightarrow> live_ex {} (wds_do s e)"
  by (cases e) (auto simp: live_add live_del live_connect live_disconnect live_on_beacon live_on_timer live_run_task
      live_activate live_deactivate live_cleanup)

interpretation wds_live: step_system wds_do wds_benign "live_ex {}"
  by unfold_locales (rule live_step)

lemma live_init: "live_ex {} wds_init"
  by (simp add: live_ex_def uniq_def wds_init_def wds_distinct_def wds_peer_find_def)

text \<open>
  A peer can settle: it is gone, or a connection is under way or up. From a state in which
  something will make the peer move, the events that make it move settle it.
\<close>

definition settled :: "wds_sys \<Rightarrow> nat \<Rightarrow> nat \<Rightarrow> bool" where
  "settled s v a \<longleftrightarrow> (\<forall>p. wds_peer_find s v a = Some p \<longrightarrow> peer_state p \<in> {WDS_STATE_CONNECTING, WDS_STATE_CONNECTED})"

definition can_settle :: "wds_sys \<Rightarrow> nat \<Rightarrow> nat \<Rightarrow> bool" where
  "can_settle s v a \<longleftrightarrow> (\<exists>es. wds_live.run_ok s es \<and> settled (foldl wds_do s es) v a)"

lemma can_settle_now: "settled s v a \<Longrightarrow> can_settle s v a"
  unfolding can_settle_def by (rule exI [of _ "[]"]) simp

lemma can_settle_step: "wds_benign s e \<Longrightarrow> can_settle (wds_do s e) v a \<Longrightarrow> can_settle s v a"
  unfolding can_settle_def by (metis foldl_Cons wds_live.run_ok.simps(2))

lemma settle_beacon_task:
  assumes c: "vap_connected s v" and t: "OnBeaconProc a v \<in> set (wds_tasks s)"
    and d: "\<And>p. wds_peer_find s v a = Some p \<Longrightarrow> peer_state p \<noteq> WDS_STATE_DISCONNECTING"
  shows "can_settle s v a"
proof -
  obtain i where i: "i < length (wds_tasks s)" "wds_tasks s ! i = OnBeaconProc a v" using t by (auto simp: in_set_conv_nth)
  have "settled (wds_do s (EvTask 1000 FwOk True i)) v a"
  proof (cases "wds_peer_find s v a")
    case None
    then show ?thesis using i by (simp add: settled_def wds_run_task_def Let_def wds_on_beacon_proc_def)
  next
    case (Some p)
    then show ?thesis using i c d [of p]
      by (cases "peer_state p") (simp_all add: settled_def wds_run_task_def Let_def wds_on_beacon_proc_def
          wds_send_fw_cfg_peer_ap_def wds_peer_fsm_def find_wds_upd)
  qed
  then show ?thesis using i(1) by (intro can_settle_step [of s "EvTask 1000 FwOk True i"] can_settle_now) simp_all
qed

lemma settle_beacon:
  assumes c: "vap_connected s v" and t: "(a, v) \<in> set (on_beacon_list s)"
    and d: "\<And>p. wds_peer_find s v a = Some p \<Longrightarrow> peer_state p \<noteq> WDS_STATE_DISCONNECTING"
  shows "can_settle s v a"
  using assms
proof (induction "length (on_beacon_list s)" arbitrary: s)
  case (Suc n)
  let ?s = "mtlk_core_wds_on_beacon True a s"
  have e: "find (\<lambda>e. fst e = a) (on_beacon_list s) \<noteq> None" using Suc.prems(2) by (auto simp: find_None_iff)
  then obtain x where x: "find (\<lambda>e. fst e = a) (on_beacon_list s) = Some x" by blast
  then have "x = (a, snd x)" by (auto simp: find_Some_iff prod_eq_iff)
  with x obtain v' where v': "find (\<lambda>e. fst e = a) (on_beacon_list s) = Some (a, v')" by metis
  have len: "fst e = a \<Longrightarrow> e \<in> set es \<Longrightarrow> Suc (length (beacon_unlink a es)) = length es" for e es
    by (induction es) auto
  have s: "?s = s\<lparr>on_beacon_list := beacon_unlink a (on_beacon_list s), wds_tasks := wds_tasks s @ [OnBeaconProc a v']\<rparr>"
    using v' by (simp add: mtlk_core_wds_on_beacon_def wds_on_beacon_exclude_def)
  have "can_settle ?s v a"
  proof (cases "v' = v")
    case True
    show ?thesis by (rule settle_beacon_task) (use Suc.prems(1,3) True s in auto)
  next
    case False
    then have "(a, v) \<in> set (beacon_unlink a (on_beacon_list s))" using beacon_unlink_mem [OF Suc.prems(2), of a] v' by auto
    then show ?thesis using Suc.prems len [OF _ Suc.prems(2)] Suc.hyps(2) s by (intro Suc.hyps(1)) simp_all
  qed
  then show ?case by (intro can_settle_step [of s "EvBeacon True a"]) simp_all
qed simp

lemma settle_timer_task:
  assumes "vap_connected s v" "FsmTimer v a \<in> set (wds_tasks s)" "wds_peer_find s v a = Some p"
    "peer_state p \<in> {WDS_STATE_DISCONNECTED, WDS_STATE_ERROR}"
  shows "can_settle s v a"
proof -
  obtain i where i: "i < length (wds_tasks s)" "wds_tasks s ! i = FsmTimer v a" using assms(2) by (auto simp: in_set_conv_nth)
  let ?s = "wds_do s (EvTask 1000 FwOk True i)"
  have s: "?s = s\<lparr>wds_tasks := take i (wds_tasks s) @ drop (Suc i) (wds_tasks s), on_beacon_list := (a, v) # on_beacon_list s\<rparr>"
    using i(2) assms(3,4) by (auto simp: wds_run_task_def Let_def wds_peer_fsm_timer_def wds_on_beacon_create_add_def)
  have "can_settle ?s v a" by (rule settle_beacon) (use assms s in auto)
  then show ?thesis using i(1) by (intro can_settle_step [of s "EvTask 1000 FwOk True i"]) simp_all
qed

lemma settle_timer:
  assumes "vap_connected s v" "wds_peer_find s v a = Some p" "fsm_timer p \<noteq> None"
    "peer_state p \<in> {WDS_STATE_DISCONNECTED, WDS_STATE_ERROR}"
  shows "can_settle s v a"
proof -
  let ?s = "wds_do s (EvTimer True v a)"
  have "can_settle ?s v a"
    by (rule settle_timer_task [where p = "p\<lparr>fsm_timer := None\<rparr>"])
      (use assms in \<open>auto simp: mtlk_core_wds_on_timer_def Let_def find_wds_upd\<close>)
  then show ?thesis using assms(2,3) by (intro can_settle_step [of s "EvTimer True v a"]) simp_all
qed

lemma settle_disconnecting_task:
  assumes c: "vap_connected s v" and u: "uniq s" and t: "FsmTimer v a \<in> set (wds_tasks s)" and p: "wds_peer_find s v a = Some p"
    and d: "peer_state p = WDS_STATE_DISCONNECTING"
  shows "can_settle s v a"
proof -
  obtain i where i: "i < length (wds_tasks s)" "wds_tasks s ! i = FsmTimer v a" using t by (auto simp: in_set_conv_nth)
  let ?s1 = "s\<lparr>wds_tasks := take i (wds_tasks s) @ drop (Suc i) (wds_tasks s)\<rparr>"
  let ?s = "wds_do s (EvTask 1000 FwOk True i)"
  have s: "?s = (if kill_on_disconnect p then wds_peer_remove_delete v p ?s1
      else wds_upd_peer v a (peer_to WDS_STATE_DISCONNECTED (Some (unat (wds_get_reconnect_delay 1000)))) ?s1)"
    using i(2) p d by (simp add: wds_run_task_def Let_def wds_peer_fsm_timer_def wds_peer_fsm_def)
  have "can_settle ?s v a"
  proof (cases "kill_on_disconnect p")
    case True
    have "wds_distinct ?s1" using u by (simp add: uniq_def)
    then have "wds_peer_find ?s v a = None" using s True find_addr [OF p] by (simp add: find_remove)
    then show ?thesis by (intro can_settle_now) (simp add: settled_def)
  next
    case False
    show ?thesis
      by (rule settle_timer [where p = "peer_to WDS_STATE_DISCONNECTED (Some (unat (wds_get_reconnect_delay 1000))) p"])
        (use c s False p in \<open>simp_all add: find_wds_upd\<close>)
  qed
  then show ?thesis using i(1) by (intro can_settle_step [of s "EvTask 1000 FwOk True i"]) simp_all
qed

lemma live_can_settle:
  assumes l: "live_ex {} s" and c: "vap_connected s v"
  shows "can_settle s v a"
proof (cases "wds_peer_find s v a")
  case None
  then show ?thesis by (intro can_settle_now) (simp add: settled_def)
next
  case (Some p)
  have u: "uniq s" using l by (simp add: live_ex_def)
  have ad: "peer_addr p = a" using find_addr [OF Some] by simp
  note ok = live_exD [OF l Some, unfolded peer_ok_def peer_armed_def peer_awaited_def ad, simplified]
  consider "peer_state p \<in> {WDS_STATE_CONNECTING, WDS_STATE_CONNECTED}" | "peer_state p = WDS_STATE_DISCONNECTING"
    | "peer_state p \<in> {WDS_STATE_DISCONNECTED, WDS_STATE_ERROR}" by (cases "peer_state p") auto
  then show ?thesis
  proof cases
    case 1
    then show ?thesis using Some by (intro can_settle_now) (simp add: settled_def)
  next
    case 2
    then consider "FsmTimer v a \<in> set (wds_tasks s)" | "fsm_timer p \<noteq> None" using ok by auto
    then show ?thesis
    proof cases
      case 2
      let ?s = "wds_do s (EvTimer True v a)"
      have "uniq ?s" using live_step [OF l, of "EvTimer True v a"] Some 2 by (simp add: live_ex_def)
      then have "can_settle ?s v a"
        by (intro settle_disconnecting_task [where p = "p\<lparr>fsm_timer := None\<rparr>"])
          (use c Some \<open>peer_state p = WDS_STATE_DISCONNECTING\<close> in \<open>simp_all add: mtlk_core_wds_on_timer_def Let_def find_wds_upd\<close>)
      then show ?thesis using Some 2 by (intro can_settle_step [of s "EvTimer True v a"]) simp_all
    qed (use settle_disconnecting_task [OF c u _ Some] \<open>peer_state p = WDS_STATE_DISCONNECTING\<close> in blast)
  next
    case 3
    have nd: "wds_peer_find s v a = Some q \<Longrightarrow> peer_state q \<noteq> WDS_STATE_DISCONNECTING" for q using 3 Some by auto
    consider "FsmTimer v a \<in> set (wds_tasks s)" | "fsm_timer p \<noteq> None" | "(a, v) \<in> set (on_beacon_list s)" | "OnBeaconProc a v \<in> set (wds_tasks s)"
      using ok 3 c by auto
    then show ?thesis
      by cases (use settle_timer_task [OF c _ Some 3] settle_timer [OF c Some _ 3] settle_beacon [OF c _ nd] settle_beacon_task [OF c _ nd] in blast)+
  qed
qed

lemma find_distinct: "distinct (map f xs) \<Longrightarrow> x \<in> set xs \<Longrightarrow> find (\<lambda>y. f y = f x) xs = Some x"
proof (induction xs)
  case (Cons y ys)
  then show ?case by (cases "y = x") (auto simp: rev_image_eqI)
qed simp



section \<open>Deleted peers\<close>

text \<open>
  A peer that is connected is deleted as it should: the firmware is told, the peer is taken down
  and removed when the firmware reports its departure or after the timeout.
\<close>

lemma wds_delete_connected:
  fixes ka :: u32
  assumes "wds_peer_find s v a = Some p" "peer_state p = WDS_STATE_CONNECTED" "fw_peer_sta_added p" "wds_distinct s" "wds_tasks s = []"
  defines "s1 \<equiv> fst (wds_usr_del_peer_ap ka FwOk v a s)"
  shows "snd (wds_usr_del_peer_ap ka FwOk v a s) = MTLK_ERR_OK"
    and "wds_peer_find (core_disconnect_sta ka r v a s1) v a = None"
    and "wds_peer_find (foldl wds_do s1 [EvTimer True v a, EvTask ka r mem 0]) v a = None"
proof -
  let ?f = "\<lambda>p. peer_to WDS_STATE_DISCONNECTING (Some DISCONNECTING_TIMEOUT_MS) (p\<lparr>kill_on_disconnect := True, fw_peer_sta_added := False\<rparr>)"
  have q: "wds_peer_find s1 v a = Some (?f p)" "wds_distinct s1" "wds_tasks s1 = []"
    using assms(1-5) by (simp_all add: s1_def wds_usr_del_peer_ap_def Let_def wds_send_fw_cfg_peer_ap_def wds_peer_fsm_def find_wds_upd distinct_wds_upd)
  show "snd (wds_usr_del_peer_ap ka FwOk v a s) = MTLK_ERR_OK"
    using assms(1-3) by (simp add: wds_usr_del_peer_ap_def Let_def wds_send_fw_cfg_peer_ap_def)
  show "wds_peer_find (core_disconnect_sta ka r v a s1) v a = None"
    using q find_addr [OF assms(1)]
    by (simp add: core_disconnect_sta_def wds_peer_disconnect_def wds_peer_fsm_def find_wds_upd find_remove distinct_wds_upd)
  show "wds_peer_find (foldl wds_do s1 [EvTimer True v a, EvTask ka r mem 0]) v a = None"
    using q find_addr [OF assms(1)]
    by (simp add: mtlk_core_wds_on_timer_def wds_run_task_def wds_peer_fsm_timer_def Let_def wds_peer_fsm_def find_wds_upd find_remove distinct_wds_upd)
qed

text \<open>
  C40: Deleted peers come back. If the user deletes a peer while a connection to it is being set up, the
  request succeeds but the peer stays, and after the reconnection delay its next beacon makes the
  driver ask the firmware to connect to it again. If the interface is restarted while a deleted
  peer is being disconnected, the deletion is forgotten and the peer is awaited again. The
  transition from the connecting state does not look at the mark that the deletion has set, and
  taking the interface down clears it.
\<close>

theorem wds_deleted_peer_returns:
  assumes "vap_connected s v" "wds_peer_find s v a = Some p" "wds_tasks s = []" "on_beacon_list s = []"
  shows "(peer_state p = WDS_STATE_CONNECTING \<longrightarrow> fw_peer_sta_added p \<longrightarrow>
      snd (wds_usr_del_peer_ap ka FwOk v a s) = MTLK_ERR_OK \<and>
      (\<exists>p'. wds_peer_find (foldl wds_do s [EvDel ka FwOk v a, EvTimer True v a, EvTask ka r True 0, EvBeacon True a, EvTask ka FwOk True 0]) v a = Some p' \<and>
        peer_state p' = WDS_STATE_CONNECTING \<and> fw_peer_sta_added p' \<and> kill_on_disconnect p')) \<and>
    (peer_state p = WDS_STATE_DISCONNECTING \<longrightarrow> kill_on_disconnect p \<longrightarrow>
      (\<exists>p'. wds_peer_find (foldl wds_do s [EvDown True v, EvUp (replicate (length (peers_list s v)) True) v]) v a = Some p' \<and> \<not> kill_on_disconnect p') \<and>
      (a, v) \<in> set (on_beacon_list (foldl wds_do s [EvDown True v, EvUp (replicate (length (peers_list s v)) True) v])))"
proof -
  have goal1: "snd (wds_usr_del_peer_ap ka FwOk v a s) = MTLK_ERR_OK \<and>
      (\<exists>p'. wds_peer_find (foldl wds_do s [EvDel ka FwOk v a, EvTimer True v a, EvTask ka r True 0, EvBeacon True a, EvTask ka FwOk True 0]) v a = Some p' \<and>
        peer_state p' = WDS_STATE_CONNECTING \<and> fw_peer_sta_added p' \<and> kill_on_disconnect p')"
    if st: "peer_state p = WDS_STATE_CONNECTING" "fw_peer_sta_added p"
  proof -
    let ?s1 = "wds_do s (EvDel ka FwOk v a)"
    let ?p1 = "peer_to WDS_STATE_DISCONNECTED (Some (unat (wds_get_reconnect_delay ka))) (p\<lparr>kill_on_disconnect := True, fw_peer_sta_added := False\<rparr>)"
    have 1: "wds_peer_find ?s1 v a = Some ?p1" "wds_tasks ?s1 = []" "on_beacon_list ?s1 = []" "vap_connected ?s1 v"
      using assms st by (simp_all add: wds_usr_del_peer_ap_def Let_def wds_send_fw_cfg_peer_ap_def wds_peer_fsm_def find_wds_upd)
    let ?s2 = "wds_do ?s1 (EvTimer True v a)"
    have 2: "wds_peer_find ?s2 v a = Some (?p1\<lparr>fsm_timer := None\<rparr>)" "wds_tasks ?s2 = [FsmTimer v a]" "on_beacon_list ?s2 = []" "vap_connected ?s2 v"
      using 1 by (simp_all add: mtlk_core_wds_on_timer_def Let_def find_wds_upd)
    let ?s3 = "wds_do ?s2 (EvTask ka r True 0)"
    have 3: "wds_peer_find ?s3 v a = Some (?p1\<lparr>fsm_timer := None\<rparr>)" "wds_tasks ?s3 = []" "on_beacon_list ?s3 = [(a, v)]" "vap_connected ?s3 v"
      using 2 by (simp_all add: wds_run_task_def Let_def wds_peer_fsm_timer_def wds_on_beacon_create_add_def)
    let ?s4 = "wds_do ?s3 (EvBeacon True a)"
    have 4: "wds_peer_find ?s4 v a = Some (?p1\<lparr>fsm_timer := None\<rparr>)" "wds_tasks ?s4 = [OnBeaconProc a v]" "vap_connected ?s4 v"
      using 3 by (simp_all add: mtlk_core_wds_on_beacon_def wds_on_beacon_exclude_def)
    have "snd (wds_usr_del_peer_ap ka FwOk v a s) = MTLK_ERR_OK"
      using assms st by (simp add: wds_usr_del_peer_ap_def Let_def wds_send_fw_cfg_peer_ap_def)
    moreover have "\<exists>p'. wds_peer_find (wds_do ?s4 (EvTask ka FwOk True 0)) v a = Some p' \<and>
        peer_state p' = WDS_STATE_CONNECTING \<and> fw_peer_sta_added p' \<and> kill_on_disconnect p'"
      using 4 by (simp add: wds_run_task_def Let_def wds_on_beacon_proc_def wds_send_fw_cfg_peer_ap_def wds_peer_fsm_def find_wds_upd)
    ultimately show ?thesis by simp
  qed
  let ?t = "foldl wds_do s [EvDown True v, EvUp (replicate (length (peers_list s v)) True) v]"
  have z: "filter fst (zip (replicate (length ps) True) (map f ps)) = map (\<lambda>p. (True, f p)) ps" for ps :: "wds_peer_t list" and f :: "wds_peer_t \<Rightarrow> wds_peer_t"
    by (induction ps) auto
  have ps: "peers_list (core_deactivate True v s) v = map peer_force_down (peers_list s v)"
    by (simp add: core_deactivate_def wds_on_if_down_def Let_def)
  have t: "?t = (core_deactivate True v s)\<lparr>vap_connected := (vap_connected (core_deactivate True v s))(v := True),
      on_beacon_list := rev (map (\<lambda>p. (peer_addr p, v)) (peers_list s v)) @ on_beacon_list (core_deactivate True v s)\<rparr>"
    by (simp add: core_activate_def wds_on_if_up_def if_up_eq ps z comp_def)
  have goal2: "(\<exists>p'. wds_peer_find ?t v a = Some p' \<and> \<not> kill_on_disconnect p') \<and> (a, v) \<in> set (on_beacon_list ?t)"
  proof
    have "wds_peer_find ?t v a = Some (peer_force_down p)" unfolding t using assms(2) by (simp add: core_deactivate_def Let_def)
    then show "\<exists>p'. wds_peer_find ?t v a = Some p' \<and> \<not> kill_on_disconnect p'" by simp
    show "(a, v) \<in> set (on_beacon_list ?t)" unfolding t using find_addr [OF assms(2)] by auto
  qed
  show ?thesis using goal1 goal2 by blast
qed

theorem wds_deleted_peer_returns_witness:
  "\<exists>p'. wds_peer_find (foldl wds_do (foldl wds_do wds_init (take 4 wit_wds))
     [EvDel 1000 FwOk 0 5, EvTimer True 0 5, EvTask 1000 FwOk True 0, EvBeacon True 5, EvTask 1000 FwOk True 0]) 0 5 = Some p' \<and>
     fw_peer_sta_added p' \<and> kill_on_disconnect p'"
proof -
  let ?s = "foldl wds_do wds_init (take 4 wit_wds)"
  obtain p where p: "wds_peer_find ?s 0 5 = Some p" "peer_state p = WDS_STATE_CONNECTING" "fw_peer_sta_added p"
    by (simp add: wds_eval)
  have s: "vap_connected ?s 0" "wds_tasks ?s = []" "on_beacon_list ?s = []" by (simp_all add: wds_eval)
  show ?thesis using wds_deleted_peer_returns [OF s(1) p(1) s(2,3)] p(2,3) by blast
qed

text \<open>Deleting a peer takes the entry of another interface with a peer of the same address out of the list.\<close>

lemma wds_delete_takes_foreign_entry:
  assumes "wds_peer_find s v a = Some p" "peer_state p = WDS_STATE_ERROR" "\<not> fw_peer_sta_added p" "on_beacon_list s = [(a, v')]"
  shows "on_beacon_list (fst (wds_usr_del_peer_ap ka r v a s)) = []"
  using assms find_addr [OF assms(1)] by (simp add: wds_usr_del_peer_ap_def Let_def wds_peer_fsm_def find_wds_upd)

text \<open>A timer task that runs after the interface went down leaves an entry, and the next start adds a second one.\<close>

lemma wds_entry_twice:
  assumes "wds_peer_find s v a = Some p" "peers_list s v = [p]" "wds_tasks s = [FsmTimer v a]" "on_beacon_list s = []"
  shows "on_beacon_list (foldl wds_do s [EvDown True v, EvTask ka r True 0, EvUp [True] v]) = [(a, v), (a, v)]"
proof -
  let ?s1 = "core_deactivate True v s"
  have 1: "wds_peer_find ?s1 v a = Some (peer_force_down p)" "wds_tasks ?s1 = [FsmTimer v a]" "on_beacon_list ?s1 = []"
    "peers_list ?s1 v = [peer_force_down p]"
    using assms by (simp_all add: core_deactivate_def Let_def) (simp add: wds_on_if_down_def Let_def)
  have "wds_run_task ka r True 0 ?s1 = ?s1\<lparr>wds_tasks := [], on_beacon_list := [(a, v)]\<rparr>"
    using 1 by (simp add: wds_run_task_def wds_peer_fsm_timer_def wds_on_beacon_create_add_def)
  then show ?thesis using 1 find_addr [OF assms(1)] by (simp add: core_activate_def wds_on_if_up_def wds_on_beacon_create_add_def)
qed

text \<open>The reconnection delay is always between 225 ms and 3 s.\<close>

lemma wds_reconnect_delay_bounds: "225 \<le> wds_get_reconnect_delay ka \<and> wds_get_reconnect_delay ka \<le> 3000"
proof -
  have "225 \<le> (ka - 200) div 4 * 3" if "500 \<le> ka" "(ka - 200) div 4 * 3 \<le> 3000"
  proof -
    have 1: "unat (ka - 200) = unat ka - 200" using that(1) by (simp add: unat_sub word_le_nat_alt)
    have 2: "unat ((ka - 200) div 4) = (unat ka - 200) div 4" by (simp add: unat_div 1)
    have "unat ka < 2 ^ 32" using unsigned_less [of ka, where 'a = nat] by simp
    then have 3: "unat ((ka - 200) div 4 * 3) = (unat ka - 200) div 4 * 3"
      using 2 by (subst unat_mult_lem [THEN iffD1]) simp_all
    have "500 \<le> unat ka" using that(1) by (simp add: word_le_nat_alt)
    then have "225 \<le> (unat ka - 200) div 4 * 3" by presburger
    then show ?thesis using 3 by (simp add: word_le_nat_alt)
  qed
  then show ?thesis by (auto simp: wds_get_reconnect_delay_def RECONNECT_TIMER_MAX_MS_def Let_def not_less)
qed

end
