(* ===== verification/Pdb.thy ===== *)
theory Pdb
  imports Replay
begin

text \<open>
  The parameter database (\<^verbatim>\<open>wireless/driver/shared/mtlk_param_db.c\<close>, \<^verbatim>\<open>mtlk_param_db.h\<close>): an array of
  typed values with reference counted handles. A handle is the index of its slot.

  \<^item> The union of a slot holds an integer or a pointer to a block of bytes. \<open>pdb_blocks\<close> counts the
    blocks that are allocated.
  \<^item> Failing assertions and accesses outside a block are values of \<open>pdb_fault\<close>.
  \<^item> \<open>alloc n\<close> is the block that the allocator returns for \<open>n\<close> bytes, with whatever it contains, or
    \<open>None\<close>. \<open>ld32\<close> reads an integer in the byte order of the processor.
\<close>

section \<open>Memory\<close>

datatype pdb_fault = PdbAssert | PdbBounds

definition pdb_bind :: "pdb_fault + 'a \<Rightarrow> ('a \<Rightarrow> pdb_fault + 'b) \<Rightarrow> pdb_fault + 'b" where
  "pdb_bind r f = (case r of Inl e \<Rightarrow> Inl e | Inr x \<Rightarrow> f x)"

definition pdb_assert :: "bool \<Rightarrow> pdb_fault + unit" where
  "pdb_assert b = (if b then Inr () else Inl PdbAssert)"

definition memcpy :: "u8 list \<Rightarrow> u8 list \<Rightarrow> nat \<Rightarrow> pdb_fault + u8 list" where
  "memcpy dst src n = (if n \<le> length dst \<and> n \<le> length src then Inr (take n src @ drop n dst) else Inl PdbBounds)"

text \<open>\<^verbatim>\<open>strncpy\<close> pads with zeros and writes no terminator if the string has \<open>n\<close> characters or more.\<close>

definition strncpy :: "u8 list \<Rightarrow> u8 list \<Rightarrow> nat \<Rightarrow> pdb_fault + u8 list" where
  "strncpy dst src n =
     (let s = takeWhile (\<lambda>c. c \<noteq> 0) (take n src)
      in if length dst < n \<or> (length s < n \<and> length s = length src) then Inl PdbBounds
         else Inr (s @ replicate (n - length s) 0 @ drop n dst))"

definition strlen :: "u8 list \<Rightarrow> pdb_fault + nat" where
  "strlen src = (if 0 \<in> set src then Inr (length (takeWhile (\<lambda>c. c \<noteq> 0) src)) else Inl PdbBounds)"

section \<open>State\<close>

definition PARAM_DB_LAST_VALUE_ID :: nat where "PARAM_DB_LAST_VALUE_ID = 115"

definition PARAM_DB_TYPE_INT :: nat where "PARAM_DB_TYPE_INT = 0x01"
definition PARAM_DB_TYPE_STRING :: nat where "PARAM_DB_TYPE_STRING = 0x02"
definition PARAM_DB_TYPE_BINARY :: nat where "PARAM_DB_TYPE_BINARY = 0x04"
definition PARAM_DB_TYPE_MAC :: nat where "PARAM_DB_TYPE_MAC = 0x08"

definition PARAM_DB_VALUE_FLAG_NO_FLAG :: u32 where "PARAM_DB_VALUE_FLAG_NO_FLAG = 0x00"
definition PARAM_DB_VALUE_FLAG_READONLY :: u32 where "PARAM_DB_VALUE_FLAG_READONLY = 0x01"
definition PARAM_DB_VALUE_FLAG_UNINITIALIZED :: u32 where "PARAM_DB_VALUE_FLAG_UNINITIALIZED = 0x02"

definition ETH_ALEN :: nat where "ETH_ALEN = 6"

datatype pdb_val = PvInt u32 | PvPtr "u8 list option"

record mtlk_pdb_value_t =
  pv_size :: nat
  pv_flags :: u32
  pv_type :: nat
  pv_value :: pdb_val

record mtlk_pdb_t =
  storage :: "nat \<Rightarrow> mtlk_pdb_value_t"
  usage_ref_cnt :: nat
  pdb_blocks :: int

record mtlk_pdb_initial_value =
  iv_id :: nat
  iv_type :: nat
  iv_flag :: u32
  iv_size :: nat
  iv_value :: "u8 list"

definition mtlk_pdb_is_param_flag_set :: "mtlk_pdb_value_t \<Rightarrow> u32 \<Rightarrow> bool" where
  "mtlk_pdb_is_param_flag_set h flag \<longleftrightarrow> and (pv_flags h) flag \<noteq> 0"

definition mtlk_pdb_is_param_of_type :: "mtlk_pdb_value_t \<Rightarrow> nat \<Rightarrow> bool" where
  "mtlk_pdb_is_param_of_type h ty \<longleftrightarrow> pv_type h = ty"

text \<open>The assertions at the start of a getter or, with \<open>wr\<close>, of a setter.\<close>

definition pdb_check :: "bool \<Rightarrow> nat \<Rightarrow> mtlk_pdb_value_t \<Rightarrow> pdb_fault + unit" where
  "pdb_check wr ty h =
     pdb_assert (\<not> mtlk_pdb_is_param_flag_set h PARAM_DB_VALUE_FLAG_UNINITIALIZED \<and>
       (wr \<longrightarrow> \<not> mtlk_pdb_is_param_flag_set h PARAM_DB_VALUE_FLAG_READONLY) \<and> mtlk_pdb_is_param_of_type h ty)"

definition pdb_block :: "mtlk_pdb_value_t \<Rightarrow> pdb_fault + u8 list" where
  "pdb_block h = (case pv_value h of PvPtr (Some b) \<Rightarrow> Inr b | _ \<Rightarrow> Inl PdbBounds)"

definition pdb_has_block :: "mtlk_pdb_value_t \<Rightarrow> bool" where
  "pdb_has_block h \<longleftrightarrow> (case pv_value h of PvPtr (Some b) \<Rightarrow> True | _ \<Rightarrow> False)"

definition pdb_put :: "nat \<Rightarrow> mtlk_pdb_value_t \<Rightarrow> mtlk_pdb_t \<Rightarrow> mtlk_pdb_t" where
  "pdb_put i h p = p\<lparr>storage := (storage p)(i := h)\<rparr>"

text \<open>A new block replaces the one of a slot, which is freed if there is one.\<close>

definition pdb_replace :: "nat \<Rightarrow> u8 list \<Rightarrow> nat \<Rightarrow> mtlk_pdb_t \<Rightarrow> mtlk_pdb_t" where
  "pdb_replace i b n p =
     (pdb_put i ((storage p i)\<lparr>pv_value := PvPtr (Some b), pv_size := n\<rparr>) p)
       \<lparr>pdb_blocks := pdb_blocks p + 1 - (if pdb_has_block (storage p i) then 1 else 0)\<rparr>"

section \<open>Fast accessors\<close>

definition mtlk_pdb_fast_get_int :: "mtlk_pdb_t \<Rightarrow> nat \<Rightarrow> pdb_fault + u32" where
  "mtlk_pdb_fast_get_int p i =
     pdb_bind (pdb_check False PARAM_DB_TYPE_INT (storage p i))
       (\<lambda>_. case pv_value (storage p i) of PvInt n \<Rightarrow> Inr n | _ \<Rightarrow> Inl PdbBounds)"

definition mtlk_pdb_fast_set_int :: "mtlk_pdb_t \<Rightarrow> nat \<Rightarrow> u32 \<Rightarrow> pdb_fault + mtlk_pdb_t" where
  "mtlk_pdb_fast_set_int p i n =
     pdb_bind (pdb_check True PARAM_DB_TYPE_INT (storage p i)) (\<lambda>_. Inr (pdb_put i ((storage p i)\<lparr>pv_value := PvInt n\<rparr>) p))"

text \<open>A getter returns the buffer and the size of the caller as it leaves them, and a result.\<close>

definition mtlk_pdb_fast_get_string :: "mtlk_pdb_t \<Rightarrow> nat \<Rightarrow> u8 list \<Rightarrow> nat \<Rightarrow> pdb_fault + (u8 list \<times> nat \<times> mtlk_error_t)" where
  "mtlk_pdb_fast_get_string p i buf sz =
     (let h = storage p i
      in pdb_bind (pdb_check False PARAM_DB_TYPE_STRING h) (\<lambda>_.
           if sz < pv_size h then Inr (buf, pv_size h, MTLK_ERR_BUF_TOO_SMALL)
           else pdb_bind (pdb_block h) (\<lambda>b. pdb_bind (strncpy buf b (dec32 (pv_size h))) (\<lambda>buf'. Inr (buf', pv_size h, MTLK_ERR_OK)))))"

definition mtlk_pdb_fast_cmp_binary :: "mtlk_pdb_t \<Rightarrow> nat \<Rightarrow> u8 list \<Rightarrow> nat \<Rightarrow> pdb_fault + int" where
  "mtlk_pdb_fast_cmp_binary p i buf sz =
     (let h = storage p i
      in pdb_bind (pdb_assert (sz \<noteq> 0)) (\<lambda>_.
         pdb_bind (pdb_check False PARAM_DB_TYPE_BINARY h) (\<lambda>_.
           if sz \<noteq> pv_size h then Inr (sint (word_of_nat (pv_size h) - word_of_nat sz :: u32))
           else pdb_bind (pdb_block h) (\<lambda>b.
             if sz \<le> length b \<and> sz \<le> length buf then Inr (memcmp (take sz b) (take sz buf)) else Inl PdbBounds))))"

definition mtlk_pdb_fast_get_binary :: "mtlk_pdb_t \<Rightarrow> nat \<Rightarrow> u8 list \<Rightarrow> nat \<Rightarrow> pdb_fault + (u8 list \<times> nat \<times> mtlk_error_t)" where
  "mtlk_pdb_fast_get_binary p i buf sz =
     (let h = storage p i
      in pdb_bind (pdb_check False PARAM_DB_TYPE_BINARY h) (\<lambda>_.
           if sz < pv_size h then Inr (buf, pv_size h, MTLK_ERR_BUF_TOO_SMALL)
           else pdb_bind (pdb_block h) (\<lambda>b. pdb_bind (memcpy buf b (pv_size h)) (\<lambda>buf'. Inr (buf', pv_size h, MTLK_ERR_OK)))))"

definition mtlk_pdb_fast_set_string ::
  "(nat \<Rightarrow> u8 list option) \<Rightarrow> mtlk_pdb_t \<Rightarrow> nat \<Rightarrow> u8 list \<Rightarrow> pdb_fault + (mtlk_pdb_t \<times> mtlk_error_t)" where
  "mtlk_pdb_fast_set_string alloc p i v =
     (let h = storage p i
      in pdb_bind (pdb_check True PARAM_DB_TYPE_STRING h) (\<lambda>_.
         pdb_bind (strlen v) (\<lambda>sz.
           if sz > dec32 (pv_size h) then
             (case alloc (sz + 1) of
                None \<Rightarrow> Inr (p, MTLK_ERR_NO_MEM)
              | Some b \<Rightarrow> pdb_bind (strncpy b v sz) (\<lambda>b'. Inr (pdb_replace i b' (sz + 1) p, MTLK_ERR_OK)))
           else pdb_bind (pdb_block h) (\<lambda>b. pdb_bind (strncpy b v (dec32 (pv_size h)))
             (\<lambda>b'. Inr (pdb_put i (h\<lparr>pv_value := PvPtr (Some b')\<rparr>) p, MTLK_ERR_OK))))))"

definition mtlk_pdb_fast_set_binary ::
  "(nat \<Rightarrow> u8 list option) \<Rightarrow> mtlk_pdb_t \<Rightarrow> nat \<Rightarrow> u8 list \<Rightarrow> nat \<Rightarrow> pdb_fault + (mtlk_pdb_t \<times> mtlk_error_t)" where
  "mtlk_pdb_fast_set_binary alloc p i buf sz =
     (let h = storage p i
      in pdb_bind (pdb_check True PARAM_DB_TYPE_BINARY h) (\<lambda>_.
           if sz = 0 then Inr (p, MTLK_ERR_PARAMS)
           else if sz \<noteq> pv_size h then
             (case alloc sz of
                None \<Rightarrow> Inr (p, MTLK_ERR_NO_MEM)
              | Some b \<Rightarrow> pdb_bind (memcpy b buf sz) (\<lambda>b'. Inr (pdb_replace i b' sz p, MTLK_ERR_OK)))
           else pdb_bind (pdb_block h) (\<lambda>b. pdb_bind (memcpy b buf sz)
             (\<lambda>b'. Inr (pdb_put i (h\<lparr>pv_value := PvPtr (Some b'), pv_size := sz\<rparr>) p, MTLK_ERR_OK)))))"

definition mtlk_pdb_fast_get_mac :: "mtlk_pdb_t \<Rightarrow> nat \<Rightarrow> u8 list \<Rightarrow> pdb_fault + u8 list" where
  "mtlk_pdb_fast_get_mac p i buf =
     (let h = storage p i
      in pdb_bind (pdb_check False PARAM_DB_TYPE_MAC h) (\<lambda>_. pdb_bind (pdb_block h) (\<lambda>b. memcpy buf b (pv_size h))))"

definition mtlk_pdb_fast_set_mac :: "mtlk_pdb_t \<Rightarrow> nat \<Rightarrow> u8 list \<Rightarrow> pdb_fault + mtlk_pdb_t" where
  "mtlk_pdb_fast_set_mac p i buf =
     (let h = storage p i
      in pdb_bind (pdb_check True PARAM_DB_TYPE_MAC h) (\<lambda>_. pdb_bind (pdb_block h) (\<lambda>b.
         pdb_bind (memcpy b buf ETH_ALEN) (\<lambda>b'. Inr (pdb_put i (h\<lparr>pv_value := PvPtr (Some b')\<rparr>) p)))))"

definition mtlk_pdb_fast_cmp_mac :: "mtlk_pdb_t \<Rightarrow> nat \<Rightarrow> u8 list \<Rightarrow> pdb_fault + int" where
  "mtlk_pdb_fast_cmp_mac p i buf =
     (let h = storage p i
      in pdb_bind (pdb_check False PARAM_DB_TYPE_MAC h) (\<lambda>_. pdb_bind (pdb_block h) (\<lambda>b.
         if pv_size h \<le> length b \<and> pv_size h \<le> length buf then Inr (memcmp (take (pv_size h) b) (take (pv_size h) buf))
         else Inl PdbBounds)))"

section \<open>Handles and regular accessors\<close>

definition mtlk_pdb_open :: "mtlk_pdb_t \<Rightarrow> nat \<Rightarrow> pdb_fault + mtlk_pdb_t" where
  "mtlk_pdb_open p i =
     pdb_bind (pdb_assert (i < PARAM_DB_LAST_VALUE_ID)) (\<lambda>_. Inr (p\<lparr>usage_ref_cnt := inc32 (usage_ref_cnt p)\<rparr>))"

definition mtlk_pdb_close :: "mtlk_pdb_t \<Rightarrow> pdb_fault + mtlk_pdb_t" where
  "mtlk_pdb_close p =
     pdb_bind (pdb_assert (usage_ref_cnt p \<noteq> 0)) (\<lambda>_. Inr (p\<lparr>usage_ref_cnt := dec32 (usage_ref_cnt p)\<rparr>))"

text \<open>A getter between opening and closing the handle, and a setter.\<close>

definition pdb_get :: "mtlk_pdb_t \<Rightarrow> nat \<Rightarrow> (mtlk_pdb_t \<Rightarrow> pdb_fault + 'a) \<Rightarrow> pdb_fault + (mtlk_pdb_t \<times> 'a)" where
  "pdb_get p i f = pdb_bind (mtlk_pdb_open p i) (\<lambda>p1. pdb_bind (f p1) (\<lambda>r. pdb_bind (mtlk_pdb_close p1) (\<lambda>p2. Inr (p2, r))))"

definition pdb_set :: "mtlk_pdb_t \<Rightarrow> nat \<Rightarrow> (mtlk_pdb_t \<Rightarrow> pdb_fault + (mtlk_pdb_t \<times> 'a)) \<Rightarrow> pdb_fault + (mtlk_pdb_t \<times> 'a)" where
  "pdb_set p i f = pdb_bind (mtlk_pdb_open p i) (\<lambda>p1. pdb_bind (f p1) (\<lambda>(p2, r). pdb_bind (mtlk_pdb_close p2) (\<lambda>p3. Inr (p3, r))))"

definition mtlk_pdb_get_int :: "mtlk_pdb_t \<Rightarrow> nat \<Rightarrow> pdb_fault + (mtlk_pdb_t \<times> u32)" where
  "mtlk_pdb_get_int p i = pdb_get p i (\<lambda>p. mtlk_pdb_fast_get_int p i)"

definition mtlk_pdb_get_string :: "mtlk_pdb_t \<Rightarrow> nat \<Rightarrow> u8 list \<Rightarrow> nat \<Rightarrow> pdb_fault + (mtlk_pdb_t \<times> u8 list \<times> nat \<times> mtlk_error_t)" where
  "mtlk_pdb_get_string p i buf sz = pdb_get p i (\<lambda>p. mtlk_pdb_fast_get_string p i buf sz)"

definition mtlk_pdb_get_binary :: "mtlk_pdb_t \<Rightarrow> nat \<Rightarrow> u8 list \<Rightarrow> nat \<Rightarrow> pdb_fault + (mtlk_pdb_t \<times> u8 list \<times> nat \<times> mtlk_error_t)" where
  "mtlk_pdb_get_binary p i buf sz = pdb_get p i (\<lambda>p. mtlk_pdb_fast_get_binary p i buf sz)"

definition mtlk_pdb_get_mac :: "mtlk_pdb_t \<Rightarrow> nat \<Rightarrow> u8 list \<Rightarrow> pdb_fault + (mtlk_pdb_t \<times> u8 list)" where
  "mtlk_pdb_get_mac p i buf = pdb_get p i (\<lambda>p. mtlk_pdb_fast_get_mac p i buf)"

definition mtlk_pdb_set_int :: "mtlk_pdb_t \<Rightarrow> nat \<Rightarrow> u32 \<Rightarrow> pdb_fault + (mtlk_pdb_t \<times> unit)" where
  "mtlk_pdb_set_int p i n = pdb_set p i (\<lambda>p. pdb_bind (mtlk_pdb_fast_set_int p i n) (\<lambda>p. Inr (p, ())))"

definition mtlk_pdb_set_string ::
  "(nat \<Rightarrow> u8 list option) \<Rightarrow> mtlk_pdb_t \<Rightarrow> nat \<Rightarrow> u8 list \<Rightarrow> pdb_fault + (mtlk_pdb_t \<times> mtlk_error_t)" where
  "mtlk_pdb_set_string alloc p i v = pdb_set p i (\<lambda>p. mtlk_pdb_fast_set_string alloc p i v)"

definition mtlk_pdb_set_binary ::
  "(nat \<Rightarrow> u8 list option) \<Rightarrow> mtlk_pdb_t \<Rightarrow> nat \<Rightarrow> u8 list \<Rightarrow> nat \<Rightarrow> pdb_fault + (mtlk_pdb_t \<times> mtlk_error_t)" where
  "mtlk_pdb_set_binary alloc p i buf sz = pdb_set p i (\<lambda>p. mtlk_pdb_fast_set_binary alloc p i buf sz)"

definition mtlk_pdb_set_mac :: "mtlk_pdb_t \<Rightarrow> nat \<Rightarrow> u8 list \<Rightarrow> pdb_fault + (mtlk_pdb_t \<times> unit)" where
  "mtlk_pdb_set_mac p i buf = pdb_set p i (\<lambda>p. pdb_bind (mtlk_pdb_fast_set_mac p i buf) (\<lambda>p. Inr (p, ())))"

section \<open>Creation and deletion\<close>

definition pdb_zero :: mtlk_pdb_t where
  "pdb_zero = \<lparr>storage = (\<lambda>_. \<lparr>pv_size = 0, pv_flags = 0, pv_type = 0, pv_value = PvPtr None\<rparr>), usage_ref_cnt = 0, pdb_blocks = 0\<rparr>"

definition pdb_destroy_slot :: "mtlk_pdb_value_t \<Rightarrow> mtlk_pdb_value_t" where
  "pdb_destroy_slot h =
     (if pv_type h = PARAM_DB_TYPE_STRING \<or> pv_type h = PARAM_DB_TYPE_BINARY \<or> pv_type h = PARAM_DB_TYPE_MAC
      then h\<lparr>pv_value := PvPtr None, pv_flags := PARAM_DB_VALUE_FLAG_UNINITIALIZED\<rparr>
      else h\<lparr>pv_flags := PARAM_DB_VALUE_FLAG_UNINITIALIZED\<rparr>)"

definition pdb_destroy_step :: "mtlk_pdb_t \<Rightarrow> nat \<Rightarrow> mtlk_pdb_t" where
  "pdb_destroy_step p i =
     (pdb_put i (pdb_destroy_slot (storage p i)) p)
       \<lparr>pdb_blocks := pdb_blocks p -
          (if pdb_has_block (storage p i) \<and> \<not> pdb_has_block (pdb_destroy_slot (storage p i)) then 1 else 0)\<rparr>"

definition mtlk_pdb_destroy_stored_params :: "mtlk_pdb_t \<Rightarrow> mtlk_pdb_t" where
  "mtlk_pdb_destroy_stored_params p = foldl pdb_destroy_step p [0..<PARAM_DB_LAST_VALUE_ID]"

definition pdb_init_value ::
  "(u8 list \<Rightarrow> u32) \<Rightarrow> (nat \<Rightarrow> u8 list option) \<Rightarrow> mtlk_pdb_t \<Rightarrow> mtlk_pdb_initial_value \<Rightarrow> pdb_fault + (mtlk_pdb_t \<times> mtlk_error_t)" where
  "pdb_init_value ld32 alloc p v =
     pdb_bind (pdb_assert (iv_id v < PARAM_DB_LAST_VALUE_ID)) (\<lambda>_.
       let h = (storage p (iv_id v))\<lparr>pv_type := iv_type v, pv_flags := iv_flag v, pv_size := iv_size v\<rparr>;
           new = (\<lambda>b'. (pdb_put (iv_id v) (h\<lparr>pv_value := PvPtr (Some b')\<rparr>) p)\<lparr>pdb_blocks := pdb_blocks p + 1\<rparr>);
           fail = pdb_put (iv_id v) (h\<lparr>pv_value := PvPtr None\<rparr>) p
       in if iv_type v = PARAM_DB_TYPE_INT then
            (if length (iv_value v) < 4 then Inl PdbBounds
             else Inr (pdb_put (iv_id v) (h\<lparr>pv_value := PvInt (ld32 (take 4 (iv_value v)))\<rparr>) p, MTLK_ERR_OK))
          else if iv_type v = PARAM_DB_TYPE_STRING then
            (case alloc (iv_size v) of
               None \<Rightarrow> Inr (fail, MTLK_ERR_NO_MEM)
             | Some b \<Rightarrow> pdb_bind (strncpy b (iv_value v) (dec32 (iv_size v))) (\<lambda>b'. Inr (new b', MTLK_ERR_OK)))
          else if iv_type v = PARAM_DB_TYPE_BINARY \<or> iv_type v = PARAM_DB_TYPE_MAC then
            (case alloc (iv_size v) of
               None \<Rightarrow> Inr (fail, MTLK_ERR_NO_MEM)
             | Some b \<Rightarrow> pdb_bind (memcpy b (iv_value v) (iv_size v)) (\<lambda>b'. Inr (new b', MTLK_ERR_OK)))
          else Inl PdbAssert)"

text \<open>\<open>alloc i\<close> is the allocator when parameter \<open>i\<close> is initialised.\<close>

fun mtlk_pdb_init_values_set ::
  "(u8 list \<Rightarrow> u32) \<Rightarrow> (nat \<Rightarrow> nat \<Rightarrow> u8 list option) \<Rightarrow> mtlk_pdb_t \<Rightarrow> mtlk_pdb_initial_value list \<Rightarrow> pdb_fault + (mtlk_pdb_t \<times> mtlk_error_t)" where
  "mtlk_pdb_init_values_set ld32 alloc p [] = Inr (p, MTLK_ERR_OK)"
| "mtlk_pdb_init_values_set ld32 alloc p (v # vs) =
     pdb_bind (pdb_init_value ld32 (alloc (iv_id v)) p v) (\<lambda>(p1, res).
       if res \<noteq> MTLK_ERR_OK then Inr (p1, res) else mtlk_pdb_init_values_set ld32 alloc p1 vs)"

text \<open>\<open>vs\<close> are the initial values of all modules, \<open>hw\<close> those of the hardware type.\<close>

definition mtlk_pdb_fill_stored_params ::
  "(u8 list \<Rightarrow> u32) \<Rightarrow> (nat \<Rightarrow> nat \<Rightarrow> u8 list option) \<Rightarrow> mtlk_pdb_initial_value list \<Rightarrow> mtlk_pdb_initial_value list \<Rightarrow> mtlk_pdb_t \<Rightarrow>
   pdb_fault + (mtlk_pdb_t \<times> mtlk_error_t)" where
  "mtlk_pdb_fill_stored_params ld32 alloc vs hw p =
     (let p0 = p\<lparr>storage := (\<lambda>i. if i < PARAM_DB_LAST_VALUE_ID
            then (storage p i)\<lparr>pv_flags := PARAM_DB_VALUE_FLAG_UNINITIALIZED\<rparr> else storage p i)\<rparr>
      in pdb_bind (mtlk_pdb_init_values_set ld32 alloc p0 vs) (\<lambda>(p1, res1).
         pdb_bind (if res1 = MTLK_ERR_OK then mtlk_pdb_init_values_set ld32 alloc p1 hw else Inr (p1, res1)) (\<lambda>(p2, res2).
           Inr (if res2 \<noteq> MTLK_ERR_OK then mtlk_pdb_destroy_stored_params p2 else p2, res2))))"

definition mtlk_pdb_create ::
  "bool \<Rightarrow> (u8 list \<Rightarrow> u32) \<Rightarrow> (nat \<Rightarrow> nat \<Rightarrow> u8 list option) \<Rightarrow> mtlk_pdb_initial_value list \<Rightarrow> mtlk_pdb_initial_value list \<Rightarrow>
   pdb_fault + (mtlk_pdb_t option \<times> int)" where
  "mtlk_pdb_create mem ld32 alloc vs hw =
     (if \<not> mem then Inr (None, 0)
      else pdb_bind (mtlk_pdb_fill_stored_params ld32 alloc vs hw pdb_zero) (\<lambda>(p, res).
        Inr (if res = MTLK_ERR_OK then Some (p\<lparr>usage_ref_cnt := 0\<rparr>) else None, pdb_blocks p)))"

definition mtlk_pdb_delete :: "mtlk_pdb_t \<Rightarrow> pdb_fault + int" where
  "mtlk_pdb_delete p =
     pdb_bind (pdb_assert (usage_ref_cnt p = 0)) (\<lambda>_. Inr (pdb_blocks (mtlk_pdb_destroy_stored_params p)))"

end
