(* ===== verification/Pdb_Props.thy ===== *)
theory Pdb_Props
  imports Pdb
begin

text \<open>
  Properties of the parameter database: a program that uses parameters at their declared types is
  safe and leaves no memory behind, a value that was set is the value that is read, and comparing
  with a parameter is comparing with what would be read.
\<close>

section \<open>Evaluation\<close>

lemma pdb_bind_simps [simp]: "pdb_bind (Inr x) f = f x" "pdb_bind (Inl e) f = Inl e"
  by (simp_all add: pdb_bind_def)

lemma pdb_assert_simps [simp]: "pdb_assert True = Inr ()" "pdb_assert False = Inl PdbAssert"
  by (simp_all add: pdb_assert_def)

lemma pdb_put_simps [simp]:
  "storage (pdb_put i h p) = (storage p)(i := h)" "usage_ref_cnt (pdb_put i h p) = usage_ref_cnt p"
  "pdb_blocks (pdb_put i h p) = pdb_blocks p"
  by (simp_all add: pdb_put_def)

lemma pdb_count_up [simp]: "i < PARAM_DB_LAST_VALUE_ID \<Longrightarrow> k + 1 < 2 ^ 32 \<Longrightarrow> usage_ref_cnt p = k \<Longrightarrow>
    mtlk_pdb_open p i = Inr (p\<lparr>usage_ref_cnt := Suc k\<rparr>)"
  by (simp add: mtlk_pdb_open_def inc32_eq)

lemma pdb_count_down [simp]: "usage_ref_cnt p = Suc k \<Longrightarrow> Suc k < 2 ^ 32 \<Longrightarrow> mtlk_pdb_close p = Inr (p\<lparr>usage_ref_cnt := k\<rparr>)"
  by (simp add: mtlk_pdb_close_def dec32_eq)

lemma pdb_get_eq:
  assumes "i < PARAM_DB_LAST_VALUE_ID" "usage_ref_cnt p + 1 < 2 ^ 32"
    and "f (p\<lparr>usage_ref_cnt := Suc (usage_ref_cnt p)\<rparr>) = Inr r"
  shows "pdb_get p i f = Inr (p, r)"
  using assms by (simp add: pdb_get_def)

lemma pdb_set_eq:
  assumes "i < PARAM_DB_LAST_VALUE_ID" "usage_ref_cnt p + 1 < 2 ^ 32"
    and "f (p\<lparr>usage_ref_cnt := Suc (usage_ref_cnt p)\<rparr>) = Inr (pdb_put i h (p\<lparr>usage_ref_cnt := Suc (usage_ref_cnt p)\<rparr>), r)"
  shows "pdb_set p i f = Inr (pdb_put i h p, r)"
  using assms by (simp add: pdb_set_def pdb_put_def)

lemma pdb_set_same:
  assumes "i < PARAM_DB_LAST_VALUE_ID" "usage_ref_cnt p + 1 < 2 ^ 32"
    and "f (p\<lparr>usage_ref_cnt := Suc (usage_ref_cnt p)\<rparr>) = Inr (p\<lparr>usage_ref_cnt := Suc (usage_ref_cnt p)\<rparr>, r)"
  shows "pdb_set p i f = Inr (p, r)"
  using assms by (simp add: pdb_set_def)

lemma pdb_put_same: "h = storage p i \<Longrightarrow> pdb_put i h p = p"
  by (simp add: pdb_put_def)

section \<open>Copies\<close>

definition cstr :: "u8 list \<Rightarrow> u8 list" where
  "cstr s = takeWhile (\<lambda>c. c \<noteq> 0) s"

lemma cstr_less: "0 \<in> set s \<Longrightarrow> length (cstr s) < length s"
  unfolding cstr_def by (induction s) auto

lemma cstr_take: "cstr (take n s) = take n (cstr s)"
  unfolding cstr_def by (induction s arbitrary: n) (auto simp: take_Cons split: nat.splits)

lemma cstr_stop: "cstr (cstr s @ 0 # t) = cstr s"
  unfolding cstr_def by (induction s) auto

lemma cstr_pad: "cstr (cstr s @ replicate n 0 @ 0 # t) = cstr s"
  by (cases n) (simp_all add: cstr_stop)

lemma memcpy_ok: "n \<le> length d \<Longrightarrow> n \<le> length s \<Longrightarrow> memcpy d s n = Inr (take n s @ drop n d)"
  by (simp add: memcpy_def)

text \<open>Copying from a block with a character behind the limit, and from a string.\<close>

lemma strncpy_ok:
  assumes "n \<le> length d" "n < length s \<or> 0 \<in> set s"
  shows "strncpy d s n = Inr (take n (cstr s) @ replicate (n - length (cstr s)) 0 @ drop n d)"
proof -
  have t: "takeWhile (\<lambda>c. c \<noteq> 0) (take n s) = take n (cstr s)" using cstr_take [of n s] by (simp add: cstr_def)
  have "\<not> (length (take n (cstr s)) < n \<and> length (take n (cstr s)) = length s)"
    using assms(2) cstr_less [of s] by auto
  then show ?thesis using assms(1) by (simp add: strncpy_def t Let_def)
qed

lemma strncpy_total: "n \<le> length d \<Longrightarrow> n < length s \<or> 0 \<in> set s \<Longrightarrow> \<exists>d'. length d' = length d \<and> strncpy d s n = Inr d'"
  by (simp add: strncpy_ok)

lemma strlen_ok: "0 \<in> set s \<Longrightarrow> strlen s = Inr (length (cstr s))"
  by (simp add: strlen_def cstr_def)

section \<open>Well-typed databases\<close>

text \<open>The flags and the type of a slot as one value, and what an access of type \<open>ty\<close> needs of it.\<close>

definition sig_ok :: "bool \<Rightarrow> nat \<Rightarrow> nat \<times> u32 \<Rightarrow> bool" where
  "sig_ok wr ty s \<longleftrightarrow> fst s = ty \<and> and (snd s) PARAM_DB_VALUE_FLAG_UNINITIALIZED = 0 \<and>
     (wr \<longrightarrow> and (snd s) PARAM_DB_VALUE_FLAG_READONLY = 0)"

definition pdb_sig :: "mtlk_pdb_t \<Rightarrow> nat \<Rightarrow> nat \<times> u32" where
  "pdb_sig p i = (pv_type (storage p i), pv_flags (storage p i))"

lemma pdb_check_ok: "sig_ok wr ty (pv_type h, pv_flags h) \<Longrightarrow> pdb_check wr ty h = Inr ()"
  by (auto simp: pdb_check_def sig_ok_def mtlk_pdb_is_param_flag_set_def mtlk_pdb_is_param_of_type_def)

definition ptr_types :: "nat set" where
  "ptr_types = {PARAM_DB_TYPE_STRING, PARAM_DB_TYPE_BINARY, PARAM_DB_TYPE_MAC}"

lemmas pdb_type_defs = PARAM_DB_TYPE_INT_def PARAM_DB_TYPE_STRING_def PARAM_DB_TYPE_BINARY_def PARAM_DB_TYPE_MAC_def

definition slot_val :: "mtlk_pdb_value_t \<Rightarrow> bool" where
  "slot_val h \<longleftrightarrow>
     (if pv_type h = PARAM_DB_TYPE_INT then \<exists>n. pv_value h = PvInt n
      else \<exists>b. pv_value h = PvPtr (Some b) \<and> length b = pv_size h \<and>
        (pv_type h = PARAM_DB_TYPE_STRING \<longrightarrow> 0 < pv_size h) \<and> (pv_type h = PARAM_DB_TYPE_MAC \<longrightarrow> pv_size h = ETH_ALEN))"

definition slot_ok :: "mtlk_pdb_value_t \<Rightarrow> bool" where
  "slot_ok h \<longleftrightarrow> pv_size h < 2 ^ 32 \<and> (pdb_has_block h \<longrightarrow> pv_type h \<in> ptr_types) \<and>
     (and (pv_flags h) PARAM_DB_VALUE_FLAG_UNINITIALIZED = 0 \<longrightarrow> slot_val h)"

definition blocks_of :: "mtlk_pdb_t \<Rightarrow> int" where
  "blocks_of p = (\<Sum>i<PARAM_DB_LAST_VALUE_ID. if pdb_has_block (storage p i) then 1 else 0)"

definition pdb_ok :: "mtlk_pdb_t \<Rightarrow> bool" where
  "pdb_ok p \<longleftrightarrow> (\<forall>i<PARAM_DB_LAST_VALUE_ID. slot_ok (storage p i)) \<and> pdb_blocks p = blocks_of p"

lemma slot_int: "slot_ok h \<Longrightarrow> sig_ok wr PARAM_DB_TYPE_INT (pv_type h, pv_flags h) \<Longrightarrow> \<exists>n. pv_value h = PvInt n"
  by (auto simp: slot_ok_def sig_ok_def slot_val_def)

lemma slot_block:
  assumes "slot_ok h" "sig_ok wr ty (pv_type h, pv_flags h)" "ty \<in> ptr_types"
  shows "\<exists>b. pv_value h = PvPtr (Some b) \<and> pdb_block h = Inr b \<and> length b = pv_size h \<and> pdb_has_block h \<and> pv_size h < 2 ^ 32 \<and>
    (ty = PARAM_DB_TYPE_STRING \<longrightarrow> 0 < pv_size h) \<and> (ty = PARAM_DB_TYPE_MAC \<longrightarrow> pv_size h = ETH_ALEN)"
  using assms by (auto simp: slot_ok_def sig_ok_def slot_val_def ptr_types_def pdb_block_def pdb_has_block_def pdb_type_defs)

lemma blocks_put:
  assumes "i < PARAM_DB_LAST_VALUE_ID"
  shows "blocks_of (pdb_put i h p) = blocks_of p - (if pdb_has_block (storage p i) then 1 else 0) + (if pdb_has_block h then 1 else 0)"
  using assms by (simp add: blocks_of_def sum.remove [of "{..<PARAM_DB_LAST_VALUE_ID}" i])

lemma pdb_ok_put:
  assumes "pdb_ok p" "i < PARAM_DB_LAST_VALUE_ID" "slot_ok h" "pdb_has_block h = pdb_has_block (storage p i)"
  shows "pdb_ok (pdb_put i h p)"
  using assms blocks_put [OF assms(2), of h p] by (auto simp: pdb_ok_def)

lemma pdb_sig_put: "pv_type h = pv_type (storage p i) \<Longrightarrow> pv_flags h = pv_flags (storage p i) \<Longrightarrow> pdb_sig (pdb_put i h p) = pdb_sig p"
  by (auto simp: pdb_sig_def fun_eq_iff)

section \<open>Accessors\<close>

lemma fast_get_int_eq:
  assumes "slot_ok (storage p i)" "sig_ok False PARAM_DB_TYPE_INT (pdb_sig p i)"
  shows "\<exists>n. pv_value (storage p i) = PvInt n \<and> mtlk_pdb_fast_get_int p i = Inr n"
  using slot_int [OF assms(1)] assms(2) by (force simp: mtlk_pdb_fast_get_int_def pdb_sig_def pdb_check_ok)

lemma fast_set_int_eq:
  assumes "sig_ok True PARAM_DB_TYPE_INT (pdb_sig p i)"
  shows "mtlk_pdb_fast_set_int p i n = Inr (pdb_put i ((storage p i)\<lparr>pv_value := PvInt n\<rparr>) p)"
  using assms by (simp add: mtlk_pdb_fast_set_int_def pdb_sig_def pdb_check_ok)

lemma fast_get_binary_eq:
  assumes "slot_ok (storage p i)" "sig_ok False PARAM_DB_TYPE_BINARY (pdb_sig p i)" "sz \<le> length buf"
  shows "\<exists>b. pv_value (storage p i) = PvPtr (Some b) \<and> length b = pv_size (storage p i) \<and>
    mtlk_pdb_fast_get_binary p i buf sz =
      Inr (if sz < length b then (buf, length b, MTLK_ERR_BUF_TOO_SMALL) else (b @ drop (length b) buf, length b, MTLK_ERR_OK))"
proof -
  from slot_block [OF assms(1), of False PARAM_DB_TYPE_BINARY] assms(2) obtain b where
    b: "pv_value (storage p i) = PvPtr (Some b)" "pdb_block (storage p i) = Inr b" "length b = pv_size (storage p i)"
    by (auto simp: pdb_sig_def ptr_types_def)
  then show ?thesis using assms(2,3) by (simp add: mtlk_pdb_fast_get_binary_def pdb_sig_def pdb_check_ok memcpy_ok Let_def)
qed

lemma fast_get_mac_eq:
  assumes "slot_ok (storage p i)" "sig_ok False PARAM_DB_TYPE_MAC (pdb_sig p i)" "ETH_ALEN \<le> length buf"
  shows "\<exists>b. pv_value (storage p i) = PvPtr (Some b) \<and> length b = ETH_ALEN \<and> mtlk_pdb_fast_get_mac p i buf = Inr (b @ drop ETH_ALEN buf) \<and>
    mtlk_pdb_fast_cmp_mac p i buf = Inr (memcmp b (take ETH_ALEN buf))"
proof -
  from slot_block [OF assms(1), of False PARAM_DB_TYPE_MAC] assms(2) obtain b where
    b: "pv_value (storage p i) = PvPtr (Some b)" "pdb_block (storage p i) = Inr b" "length b = ETH_ALEN" "pv_size (storage p i) = ETH_ALEN"
    by (auto simp: pdb_sig_def ptr_types_def)
  then show ?thesis using assms(2,3) by (simp add: mtlk_pdb_fast_get_mac_def mtlk_pdb_fast_cmp_mac_def pdb_sig_def pdb_check_ok memcpy_ok Let_def)
qed

lemma fast_set_mac_eq:
  assumes "slot_ok (storage p i)" "sig_ok True PARAM_DB_TYPE_MAC (pdb_sig p i)" "ETH_ALEN \<le> length buf"
  shows "mtlk_pdb_fast_set_mac p i buf = Inr (pdb_put i ((storage p i)\<lparr>pv_value := PvPtr (Some (take ETH_ALEN buf))\<rparr>) p)"
proof -
  from slot_block [OF assms(1), of True PARAM_DB_TYPE_MAC] assms(2) obtain b where
    b: "pdb_block (storage p i) = Inr b" "length b = ETH_ALEN"
    by (auto simp: pdb_sig_def ptr_types_def)
  then show ?thesis using assms(2,3) by (simp add: mtlk_pdb_fast_set_mac_def pdb_sig_def pdb_check_ok memcpy_ok Let_def)
qed

text \<open>What the allocator promises: a block of the size that was asked for.\<close>

definition alloc_ok :: "(nat \<Rightarrow> u8 list option) \<Rightarrow> bool" where
  "alloc_ok alloc \<longleftrightarrow> (\<forall>n b. alloc n = Some b \<longrightarrow> length b = n)"

lemma pdb_replace_put:
  "pdb_has_block (storage p i) \<Longrightarrow> pdb_replace i b n p = pdb_put i ((storage p i)\<lparr>pv_value := PvPtr (Some b), pv_size := n\<rparr>) p"
  by (simp add: pdb_replace_def pdb_put_def)

lemma fast_set_binary_eq:
  assumes "alloc_ok alloc" "slot_ok (storage p i)" "sig_ok True PARAM_DB_TYPE_BINARY (pdb_sig p i)" "sz \<le> length buf"
  shows "mtlk_pdb_fast_set_binary alloc p i buf sz =
    (if sz = 0 then Inr (p, MTLK_ERR_PARAMS)
     else if sz \<noteq> pv_size (storage p i) \<and> alloc sz = None then Inr (p, MTLK_ERR_NO_MEM)
     else Inr (pdb_put i ((storage p i)\<lparr>pv_value := PvPtr (Some (take sz buf)), pv_size := sz\<rparr>) p, MTLK_ERR_OK))"
proof -
  from slot_block [OF assms(2), of True PARAM_DB_TYPE_BINARY] assms(3) obtain b where
    b: "pdb_block (storage p i) = Inr b" "length b = pv_size (storage p i)" "pdb_has_block (storage p i)"
    by (auto simp: pdb_sig_def ptr_types_def)
  have a: "length x = n" if "alloc n = Some x" for n x using assms(1) that by (simp add: alloc_ok_def)
  show ?thesis using assms(3,4) b
    by (auto simp: mtlk_pdb_fast_set_binary_def pdb_sig_def pdb_check_ok memcpy_ok Let_def pdb_replace_put dest!: a split: option.splits)
qed

lemma fast_set_string_eq:
  assumes "alloc_ok alloc" "slot_ok (storage p i)" "sig_ok True PARAM_DB_TYPE_STRING (pdb_sig p i)" "0 \<in> set v"
  defines "n \<equiv> length (cstr v)" and "h \<equiv> storage p i"
  shows "if pv_size h \<le> n \<and> alloc (n + 1) = None then mtlk_pdb_fast_set_string alloc p i v = Inr (p, MTLK_ERR_NO_MEM)
    else \<exists>z c. n + z + 1 = max (pv_size h) (n + 1) \<and>
      mtlk_pdb_fast_set_string alloc p i v =
        Inr (pdb_put i (h\<lparr>pv_value := PvPtr (Some (cstr v @ replicate z 0 @ [c])), pv_size := n + z + 1\<rparr>) p, MTLK_ERR_OK)"
proof -
  from slot_block [OF assms(2), of True PARAM_DB_TYPE_STRING] assms(3) obtain b where
    b: "pdb_block h = Inr b" "length b = pv_size h" "pdb_has_block h" "0 < pv_size h" "pv_size h < 2 ^ 32"
    by (auto simp: pdb_sig_def ptr_types_def h_def)
  have d: "dec32 (pv_size h) = pv_size h - 1" using b by (simp add: dec32_eq)
  have c: "pdb_check True PARAM_DB_TYPE_STRING h = Inr ()" using assms(3) by (simp add: h_def pdb_sig_def pdb_check_ok)
  have l: "\<exists>c. drop (length xs - 1) xs = [c]" if "0 < length xs" for xs :: "u8 list"
    using that by (metis append_butlast_last_id append_eq_conv_conj length_butlast length_greater_0_conv)
  note D = mtlk_pdb_fast_set_string_def h_def [symmetric] c strlen_ok [OF assms(4)] n_def [symmetric] d
  show ?thesis
  proof (cases "pv_size h \<le> n")
    case True
    show ?thesis
    proof (cases "alloc (n + 1)")
      case (Some x)
      then have x: "length x = n + 1" using assms(1) by (simp add: alloc_ok_def)
      then obtain c where "drop n x = [c]" using l [of x] by auto
      then have "strncpy x v n = Inr (cstr v @ [c])" using strncpy_ok [of n x v] assms(4) x by (simp add: n_def)
      then show ?thesis using True Some b(3,4) by (auto simp: D Let_def pdb_replace_put h_def [symmetric] intro!: exI [of _ "0::nat"] exI [of _ c])
    qed (use True b in \<open>auto simp: D Let_def\<close>)
  next
    case False
    obtain c where c': "drop (pv_size h - 1) b = [c]" using l [of b] b by auto
    let ?z = "pv_size h - 1 - n"
    have z: "n + ?z + 1 = pv_size h" using False b(4) by simp
    have nl: "\<not> pv_size h - 1 < n" using False by simp
    have e: "h\<lparr>pv_value := x, pv_size := n + ?z + 1\<rparr> = h\<lparr>pv_value := x\<rparr>" for x unfolding z by simp
    have "strncpy b v (pv_size h - 1) = Inr (cstr v @ replicate ?z 0 @ [c])"
      using strncpy_ok [of "pv_size h - 1" b v] assms(4) b False c' by (simp add: n_def)
    then have r: "mtlk_pdb_fast_set_string alloc p i v =
        Inr (pdb_put i (h\<lparr>pv_value := PvPtr (Some (cstr v @ replicate ?z 0 @ [c])), pv_size := n + ?z + 1\<rparr>) p, MTLK_ERR_OK)"
      unfolding e using False b nl by (simp add: D Let_def)
    have m: "n + ?z + 1 = max (pv_size h) (n + 1)" unfolding z using False by simp
    have g: "\<not> (pv_size h \<le> n \<and> alloc (n + 1) = None)" using False by simp
    show ?thesis unfolding if_not_P [OF g] using m r by blast
  qed
qed

lemma fast_get_string_eq:
  assumes "slot_ok (storage p i)" "sig_ok False PARAM_DB_TYPE_STRING (pdb_sig p i)" "sz \<le> length buf"
  shows "\<exists>b. pv_value (storage p i) = PvPtr (Some b) \<and> length b = pv_size (storage p i) \<and> 0 < length b \<and>
    mtlk_pdb_fast_get_string p i buf sz =
      Inr (if sz < length b then (buf, length b, MTLK_ERR_BUF_TOO_SMALL)
           else (take (length b - 1) (cstr b) @ replicate (length b - 1 - length (cstr b)) 0 @ drop (length b - 1) buf, length b, MTLK_ERR_OK))"
proof -
  from slot_block [OF assms(1), of False PARAM_DB_TYPE_STRING] assms(2) obtain b where
    b: "pv_value (storage p i) = PvPtr (Some b)" "pdb_block (storage p i) = Inr b" "length b = pv_size (storage p i)"
      "0 < pv_size (storage p i)" "pv_size (storage p i) < 2 ^ 32"
    by (auto simp: pdb_sig_def ptr_types_def)
  have "strncpy buf b (pv_size (storage p i) - 1) = Inr (take (length b - 1) (cstr b) @ replicate (length b - 1 - length (cstr b)) 0 @ drop (length b - 1) buf)"
    if "pv_size (storage p i) \<le> sz"
    using strncpy_ok [of "length b - 1" buf b] that assms(3) b by simp
  moreover have "b \<noteq> []" using b by auto
  ultimately show ?thesis using assms(2) b
    by (simp add: mtlk_pdb_fast_get_string_def pdb_sig_def pdb_check_ok dec32_eq Let_def)
qed

section \<open>Calls at their types\<close>

text \<open>
  The calls of the interface. The accessors that take a handle are the body of those that take an
  identifier; the comparisons exist for handles only. A call is checked against the declared types
  and the number of handles that the program has open, and yields the new number: buffers are as
  long as is said, strings are terminated and of a length that an integer holds, a slot that is
  written is not read-only. Lengths of strings and the error results are no concern of the check.
\<close>

datatype pdb_call =
  CallGetInt nat
| CallGetString nat "u8 list" nat
| CallGetBinary nat "u8 list" nat
| CallGetMac nat "u8 list"
| CallSetInt nat u32
| CallSetString nat "u8 list"
| CallSetBinary nat "u8 list" nat
| CallSetMac nat "u8 list"
| CallOpen nat
| CallClose
| CallCmpBinary nat "u8 list" nat
| CallCmpMac nat "u8 list"

fun pdb_exec :: "(nat \<Rightarrow> u8 list option) \<Rightarrow> mtlk_pdb_t \<Rightarrow> pdb_call \<Rightarrow> pdb_fault + mtlk_pdb_t" where
  "pdb_exec alloc p (CallGetInt i) = pdb_bind (mtlk_pdb_get_int p i) (\<lambda>r. Inr (fst r))"
| "pdb_exec alloc p (CallGetString i buf sz) = pdb_bind (mtlk_pdb_get_string p i buf sz) (\<lambda>r. Inr (fst r))"
| "pdb_exec alloc p (CallGetBinary i buf sz) = pdb_bind (mtlk_pdb_get_binary p i buf sz) (\<lambda>r. Inr (fst r))"
| "pdb_exec alloc p (CallGetMac i buf) = pdb_bind (mtlk_pdb_get_mac p i buf) (\<lambda>r. Inr (fst r))"
| "pdb_exec alloc p (CallSetInt i n) = pdb_bind (mtlk_pdb_set_int p i n) (\<lambda>r. Inr (fst r))"
| "pdb_exec alloc p (CallSetString i v) = pdb_bind (mtlk_pdb_set_string alloc p i v) (\<lambda>r. Inr (fst r))"
| "pdb_exec alloc p (CallSetBinary i buf sz) = pdb_bind (mtlk_pdb_set_binary alloc p i buf sz) (\<lambda>r. Inr (fst r))"
| "pdb_exec alloc p (CallSetMac i buf) = pdb_bind (mtlk_pdb_set_mac p i buf) (\<lambda>r. Inr (fst r))"
| "pdb_exec alloc p (CallOpen i) = mtlk_pdb_open p i"
| "pdb_exec alloc p CallClose = mtlk_pdb_close p"
| "pdb_exec alloc p (CallCmpBinary i buf sz) = pdb_bind (mtlk_pdb_fast_cmp_binary p i buf sz) (\<lambda>_. Inr p)"
| "pdb_exec alloc p (CallCmpMac i buf) = pdb_bind (mtlk_pdb_fast_cmp_mac p i buf) (\<lambda>_. Inr p)"

text \<open>A program: calls, each with the allocator that it meets.\<close>

type_synonym pdb_prog = "((nat \<Rightarrow> u8 list option) \<times> pdb_call) list"

fun pdb_run :: "mtlk_pdb_t \<Rightarrow> pdb_prog \<Rightarrow> pdb_fault + mtlk_pdb_t" where
  "pdb_run p [] = Inr p"
| "pdb_run p ((alloc, c) # cs) = pdb_bind (pdb_exec alloc p c) (\<lambda>p'. pdb_run p' cs)"

definition acc_typed :: "(nat \<Rightarrow> nat \<times> u32) \<Rightarrow> nat \<Rightarrow> bool \<Rightarrow> nat \<Rightarrow> nat \<Rightarrow> bool" where
  "acc_typed sig k wr ty i \<longleftrightarrow> i < PARAM_DB_LAST_VALUE_ID \<and> sig_ok wr ty (sig i) \<and> k + 1 < 2 ^ 32"

fun pdb_typed :: "(nat \<Rightarrow> nat \<times> u32) \<Rightarrow> nat \<Rightarrow> pdb_call \<Rightarrow> nat option" where
  "pdb_typed sig k (CallGetInt i) = (if acc_typed sig k False PARAM_DB_TYPE_INT i then Some k else None)"
| "pdb_typed sig k (CallGetString i buf sz) = (if acc_typed sig k False PARAM_DB_TYPE_STRING i \<and> sz \<le> length buf then Some k else None)"
| "pdb_typed sig k (CallGetBinary i buf sz) = (if acc_typed sig k False PARAM_DB_TYPE_BINARY i \<and> sz \<le> length buf then Some k else None)"
| "pdb_typed sig k (CallGetMac i buf) = (if acc_typed sig k False PARAM_DB_TYPE_MAC i \<and> ETH_ALEN \<le> length buf then Some k else None)"
| "pdb_typed sig k (CallSetInt i n) = (if acc_typed sig k True PARAM_DB_TYPE_INT i then Some k else None)"
| "pdb_typed sig k (CallSetString i v) =
     (if acc_typed sig k True PARAM_DB_TYPE_STRING i \<and> 0 \<in> set v \<and> length v < 2 ^ 31 then Some k else None)"
| "pdb_typed sig k (CallSetBinary i buf sz) =
     (if acc_typed sig k True PARAM_DB_TYPE_BINARY i \<and> sz \<le> length buf \<and> sz < 2 ^ 32 then Some k else None)"
| "pdb_typed sig k (CallSetMac i buf) = (if acc_typed sig k True PARAM_DB_TYPE_MAC i \<and> ETH_ALEN \<le> length buf then Some k else None)"
| "pdb_typed sig k (CallOpen i) = (if i < PARAM_DB_LAST_VALUE_ID \<and> k + 1 < 2 ^ 32 then Some (k + 1) else None)"
| "pdb_typed sig k CallClose = (if 0 < k \<and> k < 2 ^ 32 then Some (k - 1) else None)"
| "pdb_typed sig k (CallCmpBinary i buf sz) =
     (if acc_typed sig k False PARAM_DB_TYPE_BINARY i \<and> 0 < k \<and> 0 < sz \<and> sz \<le> length buf then Some k else None)"
| "pdb_typed sig k (CallCmpMac i buf) =
     (if acc_typed sig k False PARAM_DB_TYPE_MAC i \<and> 0 < k \<and> ETH_ALEN \<le> length buf then Some k else None)"

fun pdb_types :: "(nat \<Rightarrow> nat \<times> u32) \<Rightarrow> nat \<Rightarrow> pdb_prog \<Rightarrow> nat option" where
  "pdb_types sig k [] = Some k"
| "pdb_types sig k ((alloc, c) # cs) = Option.bind (pdb_typed sig k c) (\<lambda>k'. pdb_types sig k' cs)"

lemma accD:
  assumes "pdb_ok p" "acc_typed (pdb_sig p) (usage_ref_cnt p) wr ty i"
  shows "i < PARAM_DB_LAST_VALUE_ID" "sig_ok wr ty (pdb_sig p i)" "usage_ref_cnt p + 1 < 2 ^ 32" "slot_ok (storage p i)"
  using assms by (auto simp: acc_typed_def pdb_ok_def)

lemma pdb_sig_usage [simp]: "pdb_sig (p\<lparr>usage_ref_cnt := k\<rparr>) = pdb_sig p"
  by (simp add: pdb_sig_def fun_eq_iff)

lemma fast_get_usage [simp]:
  "mtlk_pdb_fast_get_int (p\<lparr>usage_ref_cnt := k\<rparr>) i = mtlk_pdb_fast_get_int p i"
  "mtlk_pdb_fast_get_string (p\<lparr>usage_ref_cnt := k\<rparr>) i = mtlk_pdb_fast_get_string p i"
  "mtlk_pdb_fast_get_binary (p\<lparr>usage_ref_cnt := k\<rparr>) i = mtlk_pdb_fast_get_binary p i"
  "mtlk_pdb_fast_get_mac (p\<lparr>usage_ref_cnt := k\<rparr>) i = mtlk_pdb_fast_get_mac p i"
  by (simp_all add: mtlk_pdb_fast_get_int_def mtlk_pdb_fast_get_string_def mtlk_pdb_fast_get_binary_def mtlk_pdb_fast_get_mac_def fun_eq_iff)

lemma get_int_eq:
  assumes "pdb_ok p" "acc_typed (pdb_sig p) (usage_ref_cnt p) False PARAM_DB_TYPE_INT i"
  shows "\<exists>n. pv_value (storage p i) = PvInt n \<and> mtlk_pdb_get_int p i = Inr (p, n)"
proof -
  note A = accD [OF assms(1,2)]
  show ?thesis using fast_get_int_eq [OF A(4,2)]
      pdb_get_eq [OF A(1,3), of "\<lambda>p. mtlk_pdb_fast_get_int p i"]
    unfolding mtlk_pdb_get_int_def by auto
qed

lemma get_string_eq:
  assumes "pdb_ok p" "acc_typed (pdb_sig p) (usage_ref_cnt p) False PARAM_DB_TYPE_STRING i" "sz \<le> length buf"
  shows "\<exists>b. pv_value (storage p i) = PvPtr (Some b) \<and> length b = pv_size (storage p i) \<and> 0 < length b \<and>
    mtlk_pdb_get_string p i buf sz =
      Inr (p, if sz < length b then (buf, length b, MTLK_ERR_BUF_TOO_SMALL)
           else (take (length b - 1) (cstr b) @ replicate (length b - 1 - length (cstr b)) 0 @ drop (length b - 1) buf, length b, MTLK_ERR_OK))"
proof -
  note A = accD [OF assms(1,2)]
  show ?thesis using fast_get_string_eq [OF A(4,2) assms(3)]
      pdb_get_eq [OF A(1,3), of "\<lambda>p. mtlk_pdb_fast_get_string p i buf sz"]
    unfolding mtlk_pdb_get_string_def by auto
qed

lemma get_binary_eq:
  assumes "pdb_ok p" "acc_typed (pdb_sig p) (usage_ref_cnt p) False PARAM_DB_TYPE_BINARY i" "sz \<le> length buf"
  shows "\<exists>b. pv_value (storage p i) = PvPtr (Some b) \<and> length b = pv_size (storage p i) \<and>
    mtlk_pdb_get_binary p i buf sz =
      Inr (p, if sz < length b then (buf, length b, MTLK_ERR_BUF_TOO_SMALL) else (b @ drop (length b) buf, length b, MTLK_ERR_OK))"
proof -
  note A = accD [OF assms(1,2)]
  show ?thesis using fast_get_binary_eq [OF A(4,2) assms(3)]
      pdb_get_eq [OF A(1,3), of "\<lambda>p. mtlk_pdb_fast_get_binary p i buf sz"]
    unfolding mtlk_pdb_get_binary_def by auto
qed

lemma get_mac_eq:
  assumes "pdb_ok p" "acc_typed (pdb_sig p) (usage_ref_cnt p) False PARAM_DB_TYPE_MAC i" "ETH_ALEN \<le> length buf"
  shows "\<exists>b. pv_value (storage p i) = PvPtr (Some b) \<and> length b = ETH_ALEN \<and> mtlk_pdb_get_mac p i buf = Inr (p, b @ drop ETH_ALEN buf) \<and>
    mtlk_pdb_fast_cmp_mac p i buf = Inr (memcmp b (take ETH_ALEN buf))"
proof -
  note A = accD [OF assms(1,2)]
  show ?thesis using fast_get_mac_eq [OF A(4,2) assms(3)]
      pdb_get_eq [OF A(1,3), of "\<lambda>p. mtlk_pdb_fast_get_mac p i buf"]
    unfolding mtlk_pdb_get_mac_def by auto
qed

lemma set_int_eq:
  assumes "pdb_ok p" "acc_typed (pdb_sig p) (usage_ref_cnt p) True PARAM_DB_TYPE_INT i"
  shows "mtlk_pdb_set_int p i n = Inr (pdb_put i ((storage p i)\<lparr>pv_value := PvInt n\<rparr>) p, ())"
proof -
  note A = accD [OF assms]
  show ?thesis unfolding mtlk_pdb_set_int_def
    by (rule pdb_set_eq [OF A(1,3)]) (use A(2) in \<open>simp add: fast_set_int_eq\<close>)
qed

lemma set_mac_eq:
  assumes "pdb_ok p" "acc_typed (pdb_sig p) (usage_ref_cnt p) True PARAM_DB_TYPE_MAC i" "ETH_ALEN \<le> length buf"
  shows "mtlk_pdb_set_mac p i buf = Inr (pdb_put i ((storage p i)\<lparr>pv_value := PvPtr (Some (take ETH_ALEN buf))\<rparr>) p, ())"
proof -
  note A = accD [OF assms(1,2)]
  show ?thesis unfolding mtlk_pdb_set_mac_def
    by (rule pdb_set_eq [OF A(1,3)]) (use A(2,4) assms(3) in \<open>simp add: fast_set_mac_eq\<close>)
qed

lemma set_binary_eq:
  assumes "alloc_ok alloc" "pdb_ok p" "acc_typed (pdb_sig p) (usage_ref_cnt p) True PARAM_DB_TYPE_BINARY i" "sz \<le> length buf"
  shows "mtlk_pdb_set_binary alloc p i buf sz =
    (if sz = 0 then Inr (p, MTLK_ERR_PARAMS)
     else if sz \<noteq> pv_size (storage p i) \<and> alloc sz = None then Inr (p, MTLK_ERR_NO_MEM)
     else Inr (pdb_put i ((storage p i)\<lparr>pv_value := PvPtr (Some (take sz buf)), pv_size := sz\<rparr>) p, MTLK_ERR_OK))"
proof -
  note A = accD [OF assms(2,3)]
  let ?p = "p\<lparr>usage_ref_cnt := Suc (usage_ref_cnt p)\<rparr>"
  note F = fast_set_binary_eq [OF assms(1), of ?p i sz buf, simplified, OF A(4,2) assms(4)]
  note E = pdb_set_eq [OF A(1,3), of "\<lambda>p. mtlk_pdb_fast_set_binary alloc p i buf sz"]
    pdb_set_same [OF A(1,3), of "\<lambda>p. mtlk_pdb_fast_set_binary alloc p i buf sz"]
  show ?thesis unfolding mtlk_pdb_set_binary_def using F E by (auto split: if_splits)
qed

lemma set_string_eq:
  assumes "alloc_ok alloc" "pdb_ok p" "acc_typed (pdb_sig p) (usage_ref_cnt p) True PARAM_DB_TYPE_STRING i" "0 \<in> set v"
  defines "n \<equiv> length (cstr v)" and "h \<equiv> storage p i"
  shows "if pv_size h \<le> n \<and> alloc (n + 1) = None then mtlk_pdb_set_string alloc p i v = Inr (p, MTLK_ERR_NO_MEM)
    else \<exists>z c. n + z + 1 = max (pv_size h) (n + 1) \<and>
      mtlk_pdb_set_string alloc p i v =
        Inr (pdb_put i (h\<lparr>pv_value := PvPtr (Some (cstr v @ replicate z 0 @ [c])), pv_size := n + z + 1\<rparr>) p, MTLK_ERR_OK)"
proof -
  note A = accD [OF assms(2,3)]
  let ?p = "p\<lparr>usage_ref_cnt := Suc (usage_ref_cnt p)\<rparr>"
  have s: "storage ?p i = h" by (simp add: h_def)
  note F = fast_set_string_eq [OF assms(1), of ?p i v, unfolded s pdb_sig_usage, OF A(4) [folded h_def] A(2) assms(4), folded n_def]
  note E = pdb_set_eq [OF A(1,3), of "\<lambda>p. mtlk_pdb_fast_set_string alloc p i v"]
    pdb_set_same [OF A(1,3), of "\<lambda>p. mtlk_pdb_fast_set_string alloc p i v"]
  show ?thesis unfolding mtlk_pdb_set_string_def using F E by (auto split: if_splits)
qed

section \<open>Typed programs do not go wrong\<close>

lemma pdb_put_ok:
  assumes "pdb_ok p" "acc_typed (pdb_sig p) (usage_ref_cnt p) True ty i"
    and "pv_type h = ty" "pv_flags h = pv_flags (storage p i)" "pv_size h < 2 ^ 32" "slot_val h" "pdb_has_block h \<longleftrightarrow> ty \<in> ptr_types"
    and "ty \<in> insert PARAM_DB_TYPE_INT ptr_types"
  shows "pdb_ok (pdb_put i h p) \<and> pdb_sig (pdb_put i h p) = pdb_sig p \<and> usage_ref_cnt (pdb_put i h p) = usage_ref_cnt p"
proof -
  note A = accD [OF assms(1,2)]
  have t: "pv_type (storage p i) = ty" using A(2) by (simp add: sig_ok_def pdb_sig_def)
  have "slot_ok h" using assms(3-7) by (simp add: slot_ok_def)
  moreover have "pdb_has_block (storage p i) \<longleftrightarrow> ty \<in> ptr_types"
    using slot_block [OF A(4), of True ty] slot_int [OF A(4), of True] A(2) assms(8)
    by (fastforce simp: pdb_sig_def ptr_types_def pdb_type_defs pdb_has_block_def)
  ultimately have "pdb_ok (pdb_put i h p)" using pdb_ok_put [OF assms(1) A(1)] assms(7) by blast
  then show ?thesis using pdb_sig_put [of h p i] assms(3,4) t by simp
qed

lemmas slot_put_defs = slot_val_def pdb_has_block_def ptr_types_def pdb_type_defs

lemma pdb_ok_usage [simp]: "pdb_ok (p\<lparr>usage_ref_cnt := k\<rparr>) = pdb_ok p"
  by (simp add: pdb_ok_def blocks_of_def)

lemma cmp_binary_eq:
  assumes "pdb_ok p" "acc_typed (pdb_sig p) (usage_ref_cnt p) False PARAM_DB_TYPE_BINARY i" "0 < sz" "sz \<le> length buf"
  shows "\<exists>b. pv_value (storage p i) = PvPtr (Some b) \<and> length b = pv_size (storage p i) \<and>
    mtlk_pdb_fast_cmp_binary p i buf sz = Inr (if sz \<noteq> length b then sint (word_of_nat (length b) - word_of_nat sz :: u32) else memcmp b (take sz buf))"
proof -
  note A = accD [OF assms(1,2)]
  from slot_block [OF A(4), of False PARAM_DB_TYPE_BINARY] A(2) obtain b where
    b: "pv_value (storage p i) = PvPtr (Some b)" "pdb_block (storage p i) = Inr b" "length b = pv_size (storage p i)"
    by (auto simp: pdb_sig_def ptr_types_def)
  then show ?thesis using A(2) assms(3,4) by (simp add: mtlk_pdb_fast_cmp_binary_def pdb_sig_def pdb_check_ok Let_def)
qed

lemma set_string_keeps:
  assumes "alloc_ok alloc" "pdb_ok p" "acc_typed (pdb_sig p) (usage_ref_cnt p) True PARAM_DB_TYPE_STRING i" "0 \<in> set v" "length v < 2 ^ 31"
  shows "\<exists>p' r. mtlk_pdb_set_string alloc p i v = Inr (p', r) \<and> pdb_ok p' \<and> pdb_sig p' = pdb_sig p \<and> usage_ref_cnt p' = usage_ref_cnt p"
proof (cases "mtlk_pdb_set_string alloc p i v = Inr (p, MTLK_ERR_NO_MEM)")
  case False
  note A = accD [OF assms(2,3)]
  from set_string_eq [OF assms(1-4)] False obtain z c where
    z: "length (cstr v) + z + 1 = max (pv_size (storage p i)) (length (cstr v) + 1)" and
    e: "mtlk_pdb_set_string alloc p i v = Inr (pdb_put i ((storage p i)\<lparr>pv_value := PvPtr (Some (cstr v @ replicate z 0 @ [c])),
      pv_size := length (cstr v) + z + 1\<rparr>) p, MTLK_ERR_OK)" by (auto split: if_splits)
  have "length (cstr v) + z + 1 < 2 ^ 32" using A(4) cstr_less [OF assms(4)] assms(5) unfolding z by (simp add: slot_ok_def)
  moreover have "pv_type (storage p i) = PARAM_DB_TYPE_STRING" using A(2) by (simp add: sig_ok_def pdb_sig_def)
  ultimately show ?thesis unfolding e
    using pdb_put_ok [OF assms(2,3), of "(storage p i)\<lparr>pv_value := PvPtr (Some (cstr v @ replicate z 0 @ [c])), pv_size := length (cstr v) + z + 1\<rparr>"]
    by (simp add: slot_put_defs)
qed (use assms(2) in auto)

lemma set_binary_keeps:
  assumes "alloc_ok alloc" "pdb_ok p" "acc_typed (pdb_sig p) (usage_ref_cnt p) True PARAM_DB_TYPE_BINARY i" "sz \<le> length buf" "sz < 2 ^ 32"
  shows "\<exists>p' r. mtlk_pdb_set_binary alloc p i buf sz = Inr (p', r) \<and> pdb_ok p' \<and> pdb_sig p' = pdb_sig p \<and> usage_ref_cnt p' = usage_ref_cnt p"
proof -
  note A = accD [OF assms(2,3)]
  have "pv_type (storage p i) = PARAM_DB_TYPE_BINARY" using A(2) by (simp add: sig_ok_def pdb_sig_def)
  then show ?thesis
    using pdb_put_ok [OF assms(2,3), of "(storage p i)\<lparr>pv_value := PvPtr (Some (take sz buf)), pv_size := sz\<rparr>"] assms(2,4,5)
    by (simp add: set_binary_eq [OF assms(1-4)] slot_put_defs)
qed

lemma set_mac_keeps:
  assumes "pdb_ok p" "acc_typed (pdb_sig p) (usage_ref_cnt p) True PARAM_DB_TYPE_MAC i" "ETH_ALEN \<le> length buf"
  shows "\<exists>p'. mtlk_pdb_set_mac p i buf = Inr (p', ()) \<and> pdb_ok p' \<and> pdb_sig p' = pdb_sig p \<and> usage_ref_cnt p' = usage_ref_cnt p"
proof -
  note A = accD [OF assms(1,2)]
  have "pv_type (storage p i) = PARAM_DB_TYPE_MAC" "pv_size (storage p i) = ETH_ALEN"
    using A(2) slot_block [OF A(4), of True PARAM_DB_TYPE_MAC] by (auto simp: sig_ok_def pdb_sig_def ptr_types_def)
  then show ?thesis
    using pdb_put_ok [OF assms(1,2), of "(storage p i)\<lparr>pv_value := PvPtr (Some (take ETH_ALEN buf))\<rparr>"] assms(3)
    by (simp add: set_mac_eq [OF assms] slot_put_defs ETH_ALEN_def)
qed

lemma set_int_keeps:
  assumes "pdb_ok p" "acc_typed (pdb_sig p) (usage_ref_cnt p) True PARAM_DB_TYPE_INT i"
  shows "\<exists>p'. mtlk_pdb_set_int p i n = Inr (p', ()) \<and> pdb_ok p' \<and> pdb_sig p' = pdb_sig p \<and> usage_ref_cnt p' = usage_ref_cnt p"
proof -
  note A = accD [OF assms]
  have "pv_type (storage p i) = PARAM_DB_TYPE_INT" "pv_size (storage p i) < 2 ^ 32" using A(2,4) by (auto simp: sig_ok_def pdb_sig_def slot_ok_def)
  then show ?thesis
    using pdb_put_ok [OF assms, of "(storage p i)\<lparr>pv_value := PvInt n\<rparr>"]
    by (simp add: set_int_eq [OF assms] slot_put_defs)
qed

lemma pdb_exec_typed:
  assumes "alloc_ok alloc" "pdb_ok p" "pdb_typed (pdb_sig p) (usage_ref_cnt p) c = Some k"
  shows "\<exists>p'. pdb_exec alloc p c = Inr p' \<and> pdb_ok p' \<and> pdb_sig p' = pdb_sig p \<and> usage_ref_cnt p' = k"
proof (cases c)
  case CallClose
  then show ?thesis using assms(2,3) by (auto split: if_splits dest!: gr0_implies_Suc)
next
  case (CallGetInt i)
  then show ?thesis using get_int_eq [OF assms(2), of i] assms(2,3) by (auto split: if_splits)
next
  case (CallGetString i buf sz)
  then show ?thesis using get_string_eq [OF assms(2), of i sz buf] assms(2,3) by (auto split: if_splits)
next
  case (CallGetBinary i buf sz)
  then show ?thesis using get_binary_eq [OF assms(2), of i sz buf] assms(2,3) by (auto split: if_splits)
next
  case (CallGetMac i buf)
  then show ?thesis using get_mac_eq [OF assms(2), of i buf] assms(2,3) by (auto split: if_splits)
next
  case (CallSetInt i n)
  then show ?thesis using set_int_keeps [OF assms(2), of i n] assms(2,3) by (auto split: if_splits)
next
  case (CallSetString i v)
  then show ?thesis using set_string_keeps [OF assms(1,2), of i v] assms(2,3) by (auto split: if_splits)
next
  case (CallSetBinary i buf sz)
  then show ?thesis using set_binary_keeps [OF assms(1,2), of i sz buf] assms(2,3) by (auto split: if_splits)
next
  case (CallSetMac i buf)
  then show ?thesis using set_mac_keeps [OF assms(2), of i buf] assms(2,3) by (auto split: if_splits)
next
  case (CallOpen i)
  then show ?thesis using assms(2,3) by (auto split: if_splits)
next
  case (CallCmpBinary i buf sz)
  then show ?thesis using cmp_binary_eq [OF assms(2), of i sz buf] assms(2,3) by (auto split: if_splits)
next
  case (CallCmpMac i buf)
  then show ?thesis using get_mac_eq [OF assms(2), of i buf] assms(2,3) by (auto split: if_splits)
qed

lemma pdb_run_typed:
  assumes "\<forall>(alloc, c)\<in>set cs. alloc_ok alloc" "pdb_ok p" "pdb_types (pdb_sig p) (usage_ref_cnt p) cs = Some k"
  shows "\<exists>p'. pdb_run p cs = Inr p' \<and> pdb_ok p' \<and> pdb_sig p' = pdb_sig p \<and> usage_ref_cnt p' = k"
  using assms
proof (induction cs arbitrary: p)
  case (Cons x cs)
  obtain alloc c where x: "x = (alloc, c)" by (cases x)
  have a: "alloc_ok alloc" using Cons.prems(1) x by simp
  from Cons.prems(3) obtain k' where k: "pdb_typed (pdb_sig p) (usage_ref_cnt p) c = Some k'" "pdb_types (pdb_sig p) k' cs = Some k"
    by (auto simp: x bind_eq_Some_conv)
  from pdb_exec_typed [OF a Cons.prems(2) k(1)] obtain p1 where
    "pdb_exec alloc p c = Inr p1" "pdb_ok p1" "pdb_sig p1 = pdb_sig p" "usage_ref_cnt p1 = k'" by blast
  then show ?case using Cons.IH [of p1] Cons.prems(1) k(2) by (simp add: x)
qed simp

section \<open>Creation and deletion\<close>

definition pre_ok :: "mtlk_pdb_t \<Rightarrow> bool" where
  "pre_ok p \<longleftrightarrow> (\<forall>i<PARAM_DB_LAST_VALUE_ID. pdb_has_block (storage p i) \<longrightarrow> pv_type (storage p i) \<in> ptr_types) \<and> pdb_blocks p = blocks_of p"

lemma pdb_ok_pre: "pdb_ok p \<Longrightarrow> pre_ok p"
  by (simp add: pdb_ok_def pre_ok_def slot_ok_def)

lemma destroy_run:
  "storage (foldl pdb_destroy_step p [0..<n]) = (\<lambda>i. if i < n then pdb_destroy_slot (storage p i) else storage p i) \<and>
   pdb_blocks (foldl pdb_destroy_step p [0..<n]) =
     pdb_blocks p - (\<Sum>i<n. if pdb_has_block (storage p i) \<and> \<not> pdb_has_block (pdb_destroy_slot (storage p i)) then 1 else 0)"
  by (induction n) (auto simp: pdb_destroy_step_def fun_eq_iff less_Suc_eq)

lemma destroy_frees: "pre_ok p \<Longrightarrow> pdb_blocks (mtlk_pdb_destroy_stored_params p) = 0"
proof -
  assume p: "pre_ok p"
  have "(\<Sum>i<PARAM_DB_LAST_VALUE_ID. if pdb_has_block (storage p i) \<and> \<not> pdb_has_block (pdb_destroy_slot (storage p i)) then 1 else 0) = blocks_of p"
    unfolding blocks_of_def by (rule sum.cong) (use p in \<open>auto simp: pre_ok_def pdb_destroy_slot_def pdb_has_block_def ptr_types_def\<close>)
  then show ?thesis using p destroy_run [of p PARAM_DB_LAST_VALUE_ID] by (simp add: mtlk_pdb_destroy_stored_params_def pre_ok_def)
qed

text \<open>Initial values that fit their types.\<close>

definition iv_ok :: "mtlk_pdb_initial_value \<Rightarrow> bool" where
  "iv_ok v \<longleftrightarrow> iv_id v < PARAM_DB_LAST_VALUE_ID \<and> iv_size v < 2 ^ 32 \<and> iv_size v \<le> length (iv_value v) \<and>
     iv_type v \<in> insert PARAM_DB_TYPE_INT ptr_types \<and> (iv_type v = PARAM_DB_TYPE_INT \<longrightarrow> 4 \<le> length (iv_value v)) \<and>
     (iv_type v = PARAM_DB_TYPE_STRING \<longrightarrow> 0 < iv_size v) \<and> (iv_type v = PARAM_DB_TYPE_MAC \<longrightarrow> iv_size v = ETH_ALEN)"

definition iv_result :: "mtlk_pdb_t \<Rightarrow> mtlk_pdb_initial_value \<Rightarrow> mtlk_pdb_t \<Rightarrow> mtlk_error_t \<Rightarrow> bool" where
  "iv_result p v p' r \<longleftrightarrow> pre_ok p' \<and> (\<forall>j. j \<noteq> iv_id v \<longrightarrow> storage p' j = storage p j) \<and>
     (r = MTLK_ERR_OK \<longrightarrow> slot_ok (storage p' (iv_id v)) \<and> pdb_sig p' (iv_id v) = (iv_type v, iv_flag v))"

lemma iv_put:
  assumes "pre_ok p" "iv_ok v" "\<not> pdb_has_block (storage p (iv_id v))"
    and "pdb_has_block h \<longrightarrow> pv_type h \<in> ptr_types" "r = MTLK_ERR_OK \<longrightarrow> slot_ok h \<and> (pv_type h, pv_flags h) = (iv_type v, iv_flag v)"
  shows "iv_result p v ((pdb_put (iv_id v) h p)\<lparr>pdb_blocks := pdb_blocks p + (if pdb_has_block h then 1 else 0)\<rparr>) r"
proof -
  have b: "blocks_of (q\<lparr>pdb_blocks := n\<rparr>) = blocks_of q" for q n by (simp add: blocks_of_def)
  have "iv_id v < PARAM_DB_LAST_VALUE_ID" using assms(2) by (simp add: iv_ok_def)
  from blocks_put [OF this, of h p] show ?thesis using assms by (auto simp: iv_result_def pre_ok_def pdb_sig_def b)
qed

lemma init_value_result:
  assumes "alloc_ok alloc" "pre_ok p" "iv_ok v" "\<not> pdb_has_block (storage p (iv_id v))"
  shows "\<exists>p' r. pdb_init_value ld32 alloc p v = Inr (p', r) \<and> iv_result p v p' r"
proof -
  let ?h = "\<lambda>x. (storage p (iv_id v))\<lparr>pv_type := iv_type v, pv_flags := iv_flag v, pv_size := iv_size v, pv_value := x\<rparr>"
  note P = iv_put [OF assms(2-4)]
  have none: "iv_result p v (pdb_put (iv_id v) (?h (PvPtr None)) p) MTLK_ERR_NO_MEM"
    using P [of "?h (PvPtr None)" MTLK_ERR_NO_MEM] by (simp add: pdb_has_block_def pdb_put_def)
  have some: "iv_result p v ((pdb_put (iv_id v) (?h (PvPtr (Some b))) p)\<lparr>pdb_blocks := pdb_blocks p + 1\<rparr>) MTLK_ERR_OK"
    if "length b = iv_size v" "iv_type v \<in> ptr_types" for b
  proof -
    have "slot_ok (?h (PvPtr (Some b)))" using that assms(3) by (auto simp: slot_ok_def slot_val_def iv_ok_def ptr_types_def pdb_type_defs)
    then show ?thesis using P [of "?h (PvPtr (Some b))" MTLK_ERR_OK] that by (simp add: pdb_has_block_def)
  qed
  have int: "iv_result p v (pdb_put (iv_id v) (?h (PvInt n)) p) MTLK_ERR_OK" if "iv_type v = PARAM_DB_TYPE_INT" for n
  proof -
    have "slot_ok (?h (PvInt n))" using that assms(3) by (simp add: slot_ok_def slot_val_def iv_ok_def pdb_has_block_def)
    then show ?thesis using P [of "?h (PvInt n)" MTLK_ERR_OK] by (simp add: pdb_has_block_def pdb_put_def)
  qed
  show ?thesis
  proof (cases "iv_type v = PARAM_DB_TYPE_INT")
    case True
    then show ?thesis using int assms(3) by (simp add: pdb_init_value_def iv_ok_def Let_def)
  next
    case False
    then have t: "iv_type v \<in> ptr_types" using assms(3) by (simp add: iv_ok_def)
    show ?thesis
    proof (cases "alloc (iv_size v)")
      case None
      then show ?thesis using False t none assms(3) by (auto simp: pdb_init_value_def iv_ok_def Let_def ptr_types_def pdb_type_defs)
    next
      case (Some b)
      then have b: "length b = iv_size v" using assms(1) by (simp add: alloc_ok_def)
      have "\<exists>b'. length b' = iv_size v \<and> strncpy b (iv_value v) (dec32 (iv_size v)) = Inr b'" if "iv_type v = PARAM_DB_TYPE_STRING"
      proof -
        have "0 < iv_size v" "iv_size v < 2 ^ 32" "iv_size v \<le> length (iv_value v)" using that assms(3) by (simp_all add: iv_ok_def)
        moreover from this have "iv_size v - 1 < length (iv_value v)" by simp
        ultimately show ?thesis using strncpy_total [of "iv_size v - 1" b "iv_value v"] b by (simp add: dec32_eq)
      qed
      moreover have "\<exists>b'. length b' = iv_size v \<and> memcpy b (iv_value v) (iv_size v) = Inr b'"
        using assms(3) b by (simp add: memcpy_ok iv_ok_def)
      ultimately show ?thesis using False t Some some [OF _ t] assms(3)
        by (auto simp: pdb_init_value_def iv_ok_def Let_def ptr_types_def pdb_type_defs)
    qed
  qed
qed

lemma init_set_result:
  assumes "\<forall>i. alloc_ok (alloc i)" "\<forall>v\<in>set vs. iv_ok v" "distinct (map iv_id vs)"
    and "pre_ok p" "\<forall>v\<in>set vs. \<not> pdb_has_block (storage p (iv_id v))"
  shows "\<exists>p' r. mtlk_pdb_init_values_set ld32 alloc p vs = Inr (p', r) \<and> pre_ok p' \<and>
    (\<forall>j. j \<notin> iv_id ` set vs \<longrightarrow> storage p' j = storage p j) \<and>
    (r = MTLK_ERR_OK \<longrightarrow> (\<forall>v\<in>set vs. slot_ok (storage p' (iv_id v)) \<and> pdb_sig p' (iv_id v) = (iv_type v, iv_flag v)))"
  using assms(2-)
proof (induction vs arbitrary: p)
  case (Cons v vs)
  from init_value_result [of "alloc (iv_id v)" p v ld32] assms(1) Cons.prems obtain p1 r where
    1: "pdb_init_value ld32 (alloc (iv_id v)) p v = Inr (p1, r)" "iv_result p v p1 r" by auto
  show ?case
  proof (cases "r = MTLK_ERR_OK")
    case True
    have f: "\<forall>w\<in>set vs. \<not> pdb_has_block (storage p1 (iv_id w))" "pre_ok p1" using 1(2) Cons.prems(2,4) by (auto simp: iv_result_def image_iff)
    from Cons.IH [OF _ _ f(2,1)] Cons.prems obtain p2 r2 where
      2: "mtlk_pdb_init_values_set ld32 alloc p1 vs = Inr (p2, r2)" "pre_ok p2" "\<And>j. j \<notin> iv_id ` set vs \<Longrightarrow> storage p2 j = storage p1 j"
        "r2 = MTLK_ERR_OK \<longrightarrow> (\<forall>v\<in>set vs. slot_ok (storage p2 (iv_id v)) \<and> pdb_sig p2 (iv_id v) = (iv_type v, iv_flag v))" by auto
    have "storage p2 (iv_id v) = storage p1 (iv_id v)" by (rule 2(3)) (use Cons.prems(2) in auto)
    then show ?thesis using 1 2 True by (auto simp: iv_result_def pdb_sig_def)
  qed (use 1 in \<open>auto simp: iv_result_def\<close>)
qed auto

text \<open>The types that the initial values declare; other parameters are not initialised.\<close>

definition declared :: "mtlk_pdb_initial_value list \<Rightarrow> nat \<Rightarrow> nat \<times> u32" where
  "declared vs i = (case find (\<lambda>v. iv_id v = i) vs of Some v \<Rightarrow> (iv_type v, iv_flag v) | None \<Rightarrow> (0, PARAM_DB_VALUE_FLAG_UNINITIALIZED))"

lemma declared_mem: "distinct (map iv_id vs) \<Longrightarrow> v \<in> set vs \<Longrightarrow> declared vs (iv_id v) = (iv_type v, iv_flag v)"
  by (induction vs) (force simp: declared_def)+

lemma declared_none: "i \<notin> iv_id ` set vs \<Longrightarrow> declared vs i = (0, PARAM_DB_VALUE_FLAG_UNINITIALIZED)"
  by (auto simp: declared_def find_Some_iff split: option.splits)

lemma init_set_append:
  "mtlk_pdb_init_values_set ld32 alloc p (vs @ ws) =
   pdb_bind (mtlk_pdb_init_values_set ld32 alloc p vs) (\<lambda>(p1, r). if r = MTLK_ERR_OK then mtlk_pdb_init_values_set ld32 alloc p1 ws else Inr (p1, r))"
  by (induction vs arbitrary: p) (auto simp: pdb_bind_def split: sum.splits)

lemma pdb_create_result:
  assumes "\<forall>i. alloc_ok (alloc i)" "\<forall>v\<in>set (vs @ hw). iv_ok v" "distinct (map iv_id (vs @ hw))"
  shows "\<exists>r n. mtlk_pdb_create mem ld32 alloc vs hw = Inr (r, n) \<and> (r = None \<longrightarrow> n = 0) \<and>
    (\<forall>p. r = Some p \<longrightarrow> pdb_ok p \<and> usage_ref_cnt p = 0 \<and> (\<forall>i<PARAM_DB_LAST_VALUE_ID. pdb_sig p i = declared (vs @ hw) i))"
proof (cases mem)
  case True
  let ?p = "pdb_zero\<lparr>storage := (\<lambda>i. if i < PARAM_DB_LAST_VALUE_ID
    then (storage pdb_zero i)\<lparr>pv_flags := PARAM_DB_VALUE_FLAG_UNINITIALIZED\<rparr> else storage pdb_zero i)\<rparr>"
  have z: "\<not> pdb_has_block (storage ?p i)" for i by (simp add: pdb_zero_def pdb_has_block_def)
  then have "pre_ok ?p" by (simp add: pre_ok_def blocks_of_def pdb_zero_def pdb_has_block_def)
  from init_set_result [OF assms this, of ld32] z obtain p r where
    1: "mtlk_pdb_init_values_set ld32 alloc ?p (vs @ hw) = Inr (p, r)" "pre_ok p" "\<And>j. j \<notin> iv_id ` set (vs @ hw) \<Longrightarrow> storage p j = storage ?p j"
      "r = MTLK_ERR_OK \<Longrightarrow> \<forall>v\<in>set (vs @ hw). slot_ok (storage p (iv_id v)) \<and> pdb_sig p (iv_id v) = (iv_type v, iv_flag v)" by blast
  have fill: "mtlk_pdb_fill_stored_params ld32 alloc vs hw pdb_zero = Inr (if r \<noteq> MTLK_ERR_OK then mtlk_pdb_destroy_stored_params p else p, r)"
    using 1(1) by (auto simp: mtlk_pdb_fill_stored_params_def init_set_append Let_def pdb_bind_def split: sum.splits prod.splits if_splits)
  have "slot_ok (storage p i) \<and> pdb_sig p i = declared (vs @ hw) i" if r: "r = MTLK_ERR_OK" "i < PARAM_DB_LAST_VALUE_ID" for i
  proof (cases "i \<in> iv_id ` set (vs @ hw)")
    case True
    then obtain v where v: "v \<in> set (vs @ hw)" "i = iv_id v" by blast
    then show ?thesis using 1(4) [OF r(1)] declared_mem [OF assms(3) v(1)] by simp
  next
    case False
    from 1(3) [OF False] show ?thesis using declared_none [OF False] r(2)
      by (simp add: pdb_sig_def pdb_zero_def slot_ok_def pdb_has_block_def PARAM_DB_VALUE_FLAG_UNINITIALIZED_def)
  qed
  then show ?thesis using True fill destroy_frees [OF 1(2)] 1(2) by (auto simp: mtlk_pdb_create_def pdb_ok_def pre_ok_def blocks_of_def)
qed (simp add: mtlk_pdb_create_def)

lemma acc_typed_cong: "(\<And>i. i < PARAM_DB_LAST_VALUE_ID \<Longrightarrow> sig i = sig' i) \<Longrightarrow> acc_typed sig k wr ty i = acc_typed sig' k wr ty i"
  by (auto simp: acc_typed_def)

lemma pdb_types_cong:
  assumes "\<And>i. i < PARAM_DB_LAST_VALUE_ID \<Longrightarrow> sig i = sig' i"
  shows "pdb_types sig k cs = pdb_types sig' k cs"
proof -
  have "pdb_typed sig k c = pdb_typed sig' k c" for k c by (cases c) (simp_all add: acc_typed_cong [of sig sig'] assms)
  then show ?thesis by (induction cs arbitrary: k) auto
qed

lemma pdb_delete_frees: "pdb_ok p \<Longrightarrow> usage_ref_cnt p = 0 \<Longrightarrow> mtlk_pdb_delete p = Inr 0"
  using destroy_frees [OF pdb_ok_pre] by (simp add: mtlk_pdb_delete_def)


definition wit_alloc :: "nat \<Rightarrow> u8 list option" where
  "wit_alloc n = Some (replicate n 0xAA)"

definition wit_params :: "mtlk_pdb_initial_value list" where
  "wit_params =
     [\<lparr>iv_id = 0, iv_type = PARAM_DB_TYPE_STRING, iv_flag = PARAM_DB_VALUE_FLAG_NO_FLAG, iv_size = 3, iv_value = [72, 105, 0]\<rparr>,
      \<lparr>iv_id = 1, iv_type = PARAM_DB_TYPE_INT, iv_flag = PARAM_DB_VALUE_FLAG_READONLY, iv_size = 4, iv_value = [42, 0, 0, 0]\<rparr>,
      \<lparr>iv_id = 2, iv_type = PARAM_DB_TYPE_BINARY, iv_flag = PARAM_DB_VALUE_FLAG_NO_FLAG, iv_size = 2, iv_value = [7, 8]\<rparr>]"

definition wit_prog :: pdb_prog where
  "wit_prog = map (Pair wit_alloc)
     [CallSetString 0 [87, 111, 114, 100, 0], CallGetInt 1, CallOpen 2, CallSetBinary 2 [1, 2, 3] 3, CallCmpBinary 2 [1, 2, 3] 3, CallClose]"

lemmas pdb_wit_defs = sig_ok_def PARAM_DB_VALUE_FLAG_UNINITIALIZED_def PARAM_DB_VALUE_FLAG_READONLY_def
  PARAM_DB_VALUE_FLAG_NO_FLAG_def PARAM_DB_LAST_VALUE_ID_def pdb_type_defs ETH_ALEN_def

lemma wit_alloc_ok: "alloc_ok wit_alloc"
  by (simp add: alloc_ok_def wit_alloc_def)

lemma wit_params_ok: "\<forall>v\<in>set (wit_params @ []). iv_ok v" "distinct (map iv_id (wit_params @ []))"
  by (simp_all add: wit_params_def iv_ok_def ptr_types_def pdb_wit_defs)

lemma wit_prog_typed: "pdb_types (declared (wit_params @ [])) 0 wit_prog = Some 0"
  by (simp add: wit_prog_def wit_params_def acc_typed_def declared_def pdb_wit_defs)

lemma wit_created: "\<exists>p n. mtlk_pdb_create True (\<lambda>_. 42) (\<lambda>_. wit_alloc) wit_params [] = Inr (Some p, n)"
  by (simp add: mtlk_pdb_create_def mtlk_pdb_fill_stored_params_def pdb_init_value_def wit_params_def wit_alloc_def strncpy_def
      memcpy_def dec32_eq pdb_wit_defs Let_def)


section \<open>Reading what was written\<close>

lemma acc_read: "acc_typed sig k True ty i \<Longrightarrow> acc_typed sig k False ty i"
  by (simp add: acc_typed_def sig_ok_def)

lemma cstr_append: "cstr (cstr s @ t) = cstr s @ cstr t"
  unfolding cstr_def by (induction s) auto

text \<open>The stored string as a getter copies it.\<close>

lemma stored_string:
  "take (length (cstr v) + z) (cstr (cstr v @ replicate z 0 @ [c])) @
   replicate (length (cstr v) + z - length (cstr (cstr v @ replicate z 0 @ [c]))) 0 = cstr v @ replicate z 0"
  by (cases z) (auto simp: cstr_append, auto simp: cstr_def)

lemma set_then_get_int:
  assumes "pdb_ok p" "acc_typed (pdb_sig p) (usage_ref_cnt p) True PARAM_DB_TYPE_INT i"
  shows "\<exists>p'. mtlk_pdb_set_int p i n = Inr (p', ()) \<and> (\<forall>j. j \<noteq> i \<longrightarrow> storage p' j = storage p j) \<and> mtlk_pdb_get_int p' i = Inr (p', n)"
proof -
  note E = set_int_eq [OF assms, of n] and K = set_int_keeps [OF assms, of n]
  then show ?thesis using get_int_eq [OF _ acc_read, of "pdb_put i ((storage p i)\<lparr>pv_value := PvInt n\<rparr>) p" i] assms(2) by auto
qed

lemma set_then_get_mac:
  assumes "pdb_ok p" "acc_typed (pdb_sig p) (usage_ref_cnt p) True PARAM_DB_TYPE_MAC i" "ETH_ALEN \<le> length mac" "ETH_ALEN \<le> length out"
  shows "\<exists>p'. mtlk_pdb_set_mac p i mac = Inr (p', ()) \<and> (\<forall>j. j \<noteq> i \<longrightarrow> storage p' j = storage p j) \<and>
    mtlk_pdb_get_mac p' i out = Inr (p', take ETH_ALEN mac @ drop ETH_ALEN out)"
proof -
  note E = set_mac_eq [OF assms(1-3)] and K = set_mac_keeps [OF assms(1-3)]
  then show ?thesis
    using get_mac_eq [OF _ acc_read assms(4), of "pdb_put i ((storage p i)\<lparr>pv_value := PvPtr (Some (take ETH_ALEN mac))\<rparr>) p" i] assms(2) by auto
qed

lemma set_then_get_binary:
  assumes "alloc_ok alloc" "pdb_ok p" "acc_typed (pdb_sig p) (usage_ref_cnt p) True PARAM_DB_TYPE_BINARY i"
    and "sz \<le> length buf" "sz < 2 ^ 32" "0 < sz" "alloc sz \<noteq> None" "sz \<le> length out"
  shows "\<exists>p'. mtlk_pdb_set_binary alloc p i buf sz = Inr (p', MTLK_ERR_OK) \<and> (\<forall>j. j \<noteq> i \<longrightarrow> storage p' j = storage p j) \<and>
    mtlk_pdb_get_binary p' i out (length out) = Inr (p', take sz buf @ drop sz out, sz, MTLK_ERR_OK)"
proof -
  note E = set_binary_eq [OF assms(1-4)] and K = set_binary_keeps [OF assms(1-5)]
  then show ?thesis
    using get_binary_eq [OF _ acc_read, of "pdb_put i ((storage p i)\<lparr>pv_value := PvPtr (Some (take sz buf)), pv_size := sz\<rparr>) p" i "length out" out]
      assms(3-) by auto
qed

lemma set_then_get_string:
  assumes "alloc_ok alloc" "pdb_ok p" "acc_typed (pdb_sig p) (usage_ref_cnt p) True PARAM_DB_TYPE_STRING i"
    and "0 \<in> set v" "length v < 2 ^ 31" "alloc (length (cstr v) + 1) \<noteq> None"
  shows "\<exists>p' n. mtlk_pdb_set_string alloc p i v = Inr (p', MTLK_ERR_OK) \<and> (\<forall>j. j \<noteq> i \<longrightarrow> storage p' j = storage p j) \<and>
    n = max (pv_size (storage p i)) (length (cstr v) + 1) \<and>
    (n \<le> length out \<and> out ! (n - 1) = 0 \<longrightarrow>
      (\<exists>out'. mtlk_pdb_get_string p' i out (length out) = Inr (p', out', n, MTLK_ERR_OK) \<and> cstr out' = cstr v \<and> 0 \<in> set out'))"
proof -
  from set_string_eq [OF assms(1-4)] assms(6) obtain z c where
    z: "length (cstr v) + z + 1 = max (pv_size (storage p i)) (length (cstr v) + 1)" and
    e: "mtlk_pdb_set_string alloc p i v = Inr (pdb_put i ((storage p i)\<lparr>pv_value := PvPtr (Some (cstr v @ replicate z 0 @ [c])),
      pv_size := length (cstr v) + z + 1\<rparr>) p, MTLK_ERR_OK)" by (auto split: if_splits)
  let ?p = "pdb_put i ((storage p i)\<lparr>pv_value := PvPtr (Some (cstr v @ replicate z 0 @ [c])), pv_size := length (cstr v) + z + 1\<rparr>) p"
  let ?n = "length (cstr v) + z + 1"
  have k: "pdb_ok ?p" "acc_typed (pdb_sig ?p) (usage_ref_cnt ?p) False PARAM_DB_TYPE_STRING i"
    using set_string_keeps [OF assms(1-5)] assms(3) acc_read unfolding e by auto
  have "\<exists>out'. mtlk_pdb_get_string ?p i out (length out) = Inr (?p, out', ?n, MTLK_ERR_OK) \<and> cstr out' = cstr v \<and> 0 \<in> set out'"
    if o: "?n \<le> length out" "out ! (?n - 1) = 0"
  proof -
    have d: "drop (length (cstr v) + z) out = 0 # drop ?n out" using o Cons_nth_drop_Suc [of "length (cstr v) + z" out] by simp
    show ?thesis using get_string_eq [OF k order_refl, of out] o(1) stored_string [of v z c] cstr_pad [of v z "drop ?n out"]
      by (auto simp: d simp flip: append_assoc)
  qed
  then show ?thesis unfolding e z by auto
qed


definition wit_out :: "u8 list" where
  "wit_out = [187, 187, 187, 187, 0]"


text \<open>
  A string that fills its block is stored and handed out without terminator: the block keeps the
  last byte that the allocator left in it, the buffer the last byte of its owner.
\<close>

lemma replicate_5: "replicate 5 x = [x, x, x, x, x]"
  by (simp add: eval_nat_numeral)

lemma pdb_string_unterminated:
  assumes "storage p i = \<lparr>pv_size = 3, pv_flags = PARAM_DB_VALUE_FLAG_NO_FLAG, pv_type = PARAM_DB_TYPE_STRING, pv_value = PvPtr (Some b)\<rparr>"
  shows "\<exists>p'. mtlk_pdb_fast_set_string wit_alloc p i [87, 111, 114, 100, 0] = Inr (p', MTLK_ERR_OK) \<and>
    pv_value (storage p' i) = PvPtr (Some [87, 111, 114, 100, 0xAA]) \<and>
    mtlk_pdb_fast_get_string p' i (replicate 5 0xBB) 5 = Inr ([87, 111, 114, 100, 0xBB], 5, MTLK_ERR_OK)"
  using assms by (simp add: mtlk_pdb_fast_set_string_def mtlk_pdb_fast_get_string_def strlen_def strncpy_def wit_alloc_def pdb_replace_def
      pdb_check_def pdb_block_def mtlk_pdb_is_param_flag_set_def mtlk_pdb_is_param_of_type_def dec32_eq pdb_wit_defs Let_def replicate_5)

section \<open>Comparing with a parameter\<close>

lemma memcmp_zero: "length as = length bs \<Longrightarrow> memcmp as bs = 0 \<longleftrightarrow> as = bs"
  by (induction as bs rule: list_induct2) (auto split: if_splits)

lemma size_diff_zero: "a < 2 ^ 32 \<Longrightarrow> b < 2 ^ 32 \<Longrightarrow> sint (word_of_nat a - word_of_nat b :: u32) = 0 \<longleftrightarrow> a = b"
  by (simp add: signed_eq_0_iff word_of_nat_eq_iff take_bit_nat_eq_self)

text \<open>
  C33: Comparing is comparing with what is read. The comparison of a parameter with a buffer, which looks at
  sizes first and never copies, reports equality exactly if reading the parameter yields the bytes
  of the buffer, for byte blocks of any size and for MAC addresses.
\<close>

theorem pdb_compare_is_read:
  assumes "pdb_ok p" "i < PARAM_DB_LAST_VALUE_ID" "usage_ref_cnt p + 1 < 2 ^ 32"
  shows "(sig_ok False PARAM_DB_TYPE_BINARY (pdb_sig p i) \<and> 0 < sz \<and> sz \<le> length buf \<and> sz < 2 ^ 32 \<and> pv_size (storage p i) \<le> length out \<longrightarrow>
      (mtlk_pdb_fast_cmp_binary p i buf sz = Inr 0 \<longleftrightarrow>
       (\<exists>out'. mtlk_pdb_get_binary p i out (length out) = Inr (p, out', sz, MTLK_ERR_OK) \<and> take sz out' = take sz buf))) \<and>
    (sig_ok False PARAM_DB_TYPE_MAC (pdb_sig p i) \<and> ETH_ALEN \<le> length buf \<and> ETH_ALEN \<le> length out \<longrightarrow>
      (mtlk_pdb_fast_cmp_mac p i buf = Inr 0 \<longleftrightarrow>
       (\<exists>out'. mtlk_pdb_get_mac p i out = Inr (p, out') \<and> take ETH_ALEN out' = take ETH_ALEN buf)))"
proof -
  have t: "acc_typed (pdb_sig p) (usage_ref_cnt p) False ty i" if "sig_ok False ty (pdb_sig p i)" for ty
    using that assms(2,3) by (simp add: acc_typed_def)
  have sz: "pv_size (storage p i) < 2 ^ 32" using assms(1,2) by (simp add: pdb_ok_def slot_ok_def)
  have "mtlk_pdb_fast_cmp_binary p i buf sz = Inr 0 \<longleftrightarrow>
      (\<exists>out'. mtlk_pdb_get_binary p i out (length out) = Inr (p, out', sz, MTLK_ERR_OK) \<and> take sz out' = take sz buf)"
    if a: "sig_ok False PARAM_DB_TYPE_BINARY (pdb_sig p i)" "0 < sz" "sz \<le> length buf" "sz < 2 ^ 32" "pv_size (storage p i) \<le> length out"
    using cmp_binary_eq [OF assms(1) t [OF a(1)] a(2,3)] get_binary_eq [OF assms(1) t [OF a(1)] order_refl, of out] a(3-5) sz size_diff_zero [OF sz a(4)]
    by (auto simp: memcmp_zero)
  moreover have "mtlk_pdb_fast_cmp_mac p i buf = Inr 0 \<longleftrightarrow> (\<exists>out'. mtlk_pdb_get_mac p i out = Inr (p, out') \<and> take ETH_ALEN out' = take ETH_ALEN buf)"
    if a: "sig_ok False PARAM_DB_TYPE_MAC (pdb_sig p i)" "ETH_ALEN \<le> length buf" "ETH_ALEN \<le> length out"
    using get_mac_eq [OF assms(1) t [OF a(1)] a(2)] get_mac_eq [OF assms(1) t [OF a(1)] a(3)] a(2) by (auto simp: memcmp_zero)
  ultimately show ?thesis by blast
qed

theorem pdb_compare_is_read_witness:
  "\<exists>p n. mtlk_pdb_create True (\<lambda>_. 42) (\<lambda>_. wit_alloc) wit_params [] = Inr (Some p, n) \<and>
     mtlk_pdb_fast_cmp_binary p 2 [7, 8, 9] 2 = Inr 0"
proof -
  obtain p n where c: "mtlk_pdb_create True (\<lambda>_. 42) (\<lambda>_. wit_alloc) wit_params [] = Inr (Some p, n)" using wit_created by blast
  have p: "pdb_ok p" "usage_ref_cnt p = 0" "\<forall>i<PARAM_DB_LAST_VALUE_ID. pdb_sig p i = declared (wit_params @ []) i"
    using pdb_create_result [OF _ wit_params_ok, of "\<lambda>_. wit_alloc" True "\<lambda>_. 42"] wit_alloc_ok c by auto
  have s: "pv_size (storage p 2) = 2" "pv_value (storage p 2) = PvPtr (Some [7, 8])" "2 < PARAM_DB_LAST_VALUE_ID"
    using c by (auto simp: mtlk_pdb_create_def mtlk_pdb_fill_stored_params_def pdb_init_value_def wit_params_def wit_alloc_def strncpy_def
      memcpy_def dec32_eq pdb_wit_defs Let_def)
  have g: "sig_ok False PARAM_DB_TYPE_BINARY (pdb_sig p 2)" using p(3) s(3) by (simp add: declared_def wit_params_def pdb_wit_defs)
  have u: "usage_ref_cnt p + 1 < 2 ^ 32" using p(2) by simp
  have r: "mtlk_pdb_get_binary p 2 [0, 0] (length [0, 0 :: u8]) = Inr (p, [7, 8], 2, MTLK_ERR_OK)"
    using get_binary_eq [OF p(1) _ order_refl, of 2 "[0, 0]"] g s u by (auto simp: acc_typed_def)
  show ?thesis using pdb_compare_is_read [OF p(1) s(3) u, where buf = "[7, 8, 9]" and sz = 2 and out = "[0, 0]"] g s c r by auto
qed

end
