(* ===== verification/Spec2Isabelle.thy ===== *)
theory Spec2Isabelle
  imports Rod_Window Addba_Props Txmm_Props Replay Flctrl Sq_Props Fw_Recovery_Props Fw_Recovery_Sync Serializer_Props Mcast_Props Wds_Props Pdb_Props
begin

text \<open>
  Verification of the Lantiq WAVE300 wireless driver.

  The driver (\<^verbatim>\<open>src/wireless/driver\<close>) sits between the Linux network stack and the firmware of the
  wireless chip. Received MSDUs go through the reordering queue of their station and TID (ROD)
  and the replay check to the stack; transmitted packets go through the QoS traffic shaper to the
  hardware; block ack agreements (ADDBA) decide on reordering and aggregation; messages to the
  firmware pass the transmit message manager (TXMM); flow control stops and starts the stack.
  Each of these keeps its state in one C structure and changes it under a lock, so an operation is
  one step here: a function from the state record to the new record. Timers, confirmations of the
  firmware and callbacks are further operations. Failing C assertions and array accesses out of
  bounds are values, never ignored.

  Theories and sources (paths below \<^verbatim>\<open>src/wireless/driver\<close>):

  \<^item> \<open>Wave_Prelude\<close>: error codes, 32 bit counters with their wrap-around, arrays of optional
    entries, the locale \<open>step_system\<close> that turns an invariant of one step into one of every run. It
    is interpreted for each component that has an invariant.
  \<^item> \<open>Rod\<close>, \<open>Rod_Window\<close> (\<^verbatim>\<open>shared/rod.c\<close>): the ring buffer with head, window and timer. The
    abstract window \<open>spec_window\<close> is a list from the head; \<open>abs_rod\<close> maps a queue to it. Shown:
    every operation returns and keeps the slots consistent, \<^verbatim>\<open>mtlk_reorder_packet\<close> and the BAR
    handler refine the window, delivery is in sequence order, no MSDU is lost or duplicated; with
    window sizes outside the assumptions the code leaves the array or the order.
  \<^item> \<open>Reflim\<close>, \<open>Addba\<close>, \<open>Addba_Inv\<close>, \<open>Addba_Props\<close> (\<^verbatim>\<open>shared/addba.c\<close>, \<^verbatim>\<open>addba.h\<close>,
    \<^verbatim>\<open>mtlk_reflim.h\<close>): negotiation per TID for both directions. Shown: references to the limiters
    balance, start and stop notifications alternate, assertions hold in runs that follow the
    protocol of the callers, and the answers to requests on every branch.
  \<^item> \<open>Txmm\<close>, \<open>Txmm_Rings\<close>, \<open>Txmm_Inv\<close>, \<open>Txmm_Timer\<close>, \<open>Txmm_Props\<close> (\<^verbatim>\<open>shared/txmm.c\<close>): four ring
    queues over a fixed set of message blocks. \<open>Txmm_Rings\<close> relates a ring to a list, \<open>Txmm_Inv\<close>
    keeps every block in exactly one place, \<open>Txmm_Timer\<close> the two loops of the timeout.
  \<^item> \<open>Replay\<close> (\<^verbatim>\<open>linux/core.c\<close>): the packet number check as bytes and as numbers.
  \<^item> \<open>Flctrl\<close> (\<^verbatim>\<open>shared/mtlkflctrl.c\<close>): stop requests as a bit mask and as a set of clients.
  \<^item> \<open>Sq\<close>, \<open>Sq_Inv\<close>, \<open>Sq_Props\<close> (\<^verbatim>\<open>shared/mtlk_sq.c\<close>, \<^verbatim>\<open>linux/mtlk_sq_osdep.c\<close>, the group
    transmission of \<^verbatim>\<open>linux/mcast.c\<close>): the traffic shaper. \<open>Sq_Inv\<close> shows that size counters
    and reference counts of multicast clones are exact, \<open>Sq_Props\<close> order, limits and progress.
  \<^item> \<open>Fw_Recovery\<close>, \<open>Fw_Recovery_Props\<close>, \<open>Fw_Recovery_Sync\<close> (\<^verbatim>\<open>shared/fw_recovery.c\<close>): the choice of the
    recovery type, the stages of the master task and its error handler; shown are memory safety
    of the array of VAPs and the order of escalation. \<open>Fw_Recovery_Sync\<close> is the protocol of the two
    semaphores between master and slave tasks as a transition system over single operations.
  \<^item> \<open>Qos\<close> (\<^verbatim>\<open>shared/mtlkqos.c\<close>, \<^verbatim>\<open>mtlk_packets.h\<close>): classification of packets. Shown: what admission
    control substitutes for a category, that the TID written into a packet leads back to it.
  \<^item> \<open>Serializer\<close>, \<open>Serializer_Inv\<close>, \<open>Serializer_Props\<close> (\<^verbatim>\<open>shared/mtlk_serializer.c\<close>,
    \<^verbatim>\<open>linux/mtlk_serializer_osdep.c\<close>, \<^verbatim>\<open>shared/mtlkrmlock.h\<close>, the asynchronous calls of \<^verbatim>\<open>linux/core.c\<close>):
    a transition system over the critical sections, waits and callbacks of all threads. Shown: every
    command runs once or is cancelled, no wake-up is lost, what a stop leaves; two races.
  \<^item> \<open>Mcast\<close>, \<open>Mcast_Props\<close> (\<^verbatim>\<open>linux/mcast.c\<close>): group tables refined to the relation of membership,
    reports parsed from bytes (the locale \<open>address_format\<close> is the common contract of IPv4 and IPv6),
    the way of a group packet into the queues of the traffic shaper.
  \<^item> \<open>Wds\<close>, \<open>Wds_Props\<close> (\<^verbatim>\<open>shared/wds.c\<close> and its callers in \<^verbatim>\<open>linux/core_ext.c\<close>): peers of wireless
    bridges with state machine, timers and beacons. Shown: references on stations are exact in
    every run, no peer is forgotten, deleted peers can come back.
  \<^item> \<open>Pdb\<close>, \<open>Pdb_Props\<close> (\<^verbatim>\<open>shared/mtlk_param_db.c\<close>, \<^verbatim>\<open>mtlk_param_db.h\<close>): typed parameters and
    their memory. Calls are checked against the declared types by \<open>pdb_types\<close>; shown is that programs
    which pass do not go wrong, that values are read as they were set, that comparing agrees with
    reading.
  \<^item> This theory: the reordering queue in front of the replay check.

  Loops. Loops over arrays are structural recursions. The two loops of ROD that end on a condition
  of the queue are \<open>partial_function (option)\<close>, and shown to return; the loops over a TXMM ring have
  the ring capacity as fuel, with lemmas that it is enough; the send loop of the traffic shaper is
  a function whose termination proof counts the packets queued.
  The flush loop repeats while other threads ask for it; the requests arriving are an argument.

  Integers. Counters that the code keeps in atomics are natural numbers with \<open>mod 2 ^ 32\<close> written
  out; bit masks, byte buffers and 16 bit limits are words. Sequence numbers are modulo 4096.

  Parameters. The clock, what the firmware answers to a packet, what a user callback decides and
  which address the allocator returns are arguments or parts of the events.

  Concurrency. Components whose operations hold a lock throughout are sequences of operations. The
  serializer and the semaphores of recovery are interleavings of single steps; tasks queued for
  the serializer by the wireless bridge run in any order.

  Not modelled: the hardware layer (behaviour outside the repository), the kernel glue, the
  configuration handlers of the core, logging, statistics output. Station database, scanning and
  its cache, frame parsing, power control (COC) and address translation (L2NAT) are not modelled
  yet; what the modelled parts use of the station database is an argument or part of their state.
\<close>

section \<open>Reordering and replay detection together\<close>

text \<open>
  On the receive path the replay check of \<^verbatim>\<open>core.c\<close> is the function that the reordering queue
  hands MSDUs up to. A batch in sequence order is a batch in packet number order.
\<close>

lemma in_order_packet_numbers:
  assumes o: "in_order h n out" and S: "set out \<subseteq> S"
    and mono: "\<forall>a\<in>S. \<forall>b\<in>S. (fst a + 4096 - h) mod 4096 < (fst b + 4096 - h) mod 4096 \<longrightarrow>
      pn g (snd a) + nfrags (snd a) < pn g (snd b)"
  shows "sorted_wrt (\<lambda>f k. pn g f + nfrags f < pn g k) (map snd out)"
proof -
  have "sorted_wrt (\<lambda>a b. (fst a + 4096 - h) mod 4096 < (fst b + 4096 - h) mod 4096) out"
    using o by (simp add: in_order_def sorted_wrt_map)
  then have "sorted_wrt (\<lambda>a b. pn g (snd a) + nfrags (snd a) < pn g (snd b)) out"
    by (rule sorted_wrt_mono_rel [rotated]) (use mono S in blast)
  then show ?thesis by (simp add: sorted_wrt_map)
qed

lemma accounts_subset: "accounts q {#p#} q' \<Longrightarrow> sent_up q' = sent_up q @ out \<Longrightarrow> set out \<subseteq> insert p (set (somes (nbuf q)))"
proof -
  assume a: "accounts q {#p#} q'" "sent_up q' = sent_up q @ out"
  then obtain drp where "mset out + mset drp + mset (somes (nbuf q')) = mset (somes (nbuf q)) + {#p#}"
    by (auto simp: accounts_def)
  then have "mset out \<subseteq># mset (somes (nbuf q)) + {#p#}" by (metis mset_subset_eq_add_left union_assoc)
  from set_mset_mono [OF this] show ?thesis by simp
qed



end
